(* ===== verification/Buenos_Prelude.thy ===== *)
theory Buenos_Prelude
  imports Main "HOL-Library.Word" "HOL-Library.Monad_Syntax"
begin

unbundle bit_operations_syntax

text \<open>
  Shared vocabulary of the development.

  A kernel routine is a function into \<^typ>\<open>'a option\<close>, written with the
  \<open>do\<close> notation of the option monad over an explicit state.  \<^term>\<open>Some (r, s)\<close>
  is a return with value \<open>r\<close> and state \<open>s\<close>; \<^term>\<open>None\<close> stands for a routine that
  does not return normally: a failed \<open>KERNEL_ASSERT\<close>, a \<open>KERNEL_PANIC\<close>, an access
  outside the object a pointer points into, a signed overflow, or a wait that nobody
  in the modelled system ends.  Error codes are ordinary return values.

  The theory holds the machine integer types, the big-endian layout of 32-bit words
  in byte memory (the target is big-endian MIPS), copying between buffers, and a
  small weakest-precondition calculus (\<open>wp\<close> for total, \<open>wlp\<close> for partial
  correctness) with the collections \<open>wp_simps\<close> and \<open>mem_simps\<close>.
\<close>

named_theorems wp_simps \<open>weakest preconditions of the option programs\<close>
named_theorems mem_simps \<open>reads after writes of byte memory\<close>

section \<open>Machine integers\<close>

type_synonym u8 = "8 word"
type_synonym u16 = "16 word"
type_synonym u32 = "32 word"
type_synonym mem = "u8 list"

text \<open>A C \<open>int\<close> is a HOL \<^typ>\<open>int\<close> in this range; an operation that leaves it
  has no defined result.\<close>

definition int_ok :: "int \<Rightarrow> bool" where
  "int_ok x \<longleftrightarrow> - 2147483648 \<le> x \<and> x \<le> 2147483647"

definition ck :: "int \<Rightarrow> int option" where
  "ck x = (if int_ok x then Some x else None)"

definition guard :: "bool \<Rightarrow> unit option" where
  "guard b = (if b then Some () else None)"

text \<open>C division and remainder truncate towards zero.\<close>

definition cdiv :: "int \<Rightarrow> int \<Rightarrow> int" where
  "cdiv a b = sgn a * sgn b * (\<bar>a\<bar> div \<bar>b\<bar>)"

definition cmod :: "int \<Rightarrow> int \<Rightarrow> int" where
  "cmod a b = a - b * cdiv a b"

lemma cdiv_nonneg [simp]: "0 \<le> a \<Longrightarrow> 0 < b \<Longrightarrow> cdiv a b = a div b"
  by (cases "a = 0") (simp_all add: cdiv_def)

lemma cmod_nonneg [simp]: "0 \<le> a \<Longrightarrow> 0 < b \<Longrightarrow> cmod a b = a mod b"
  by (simp add: cmod_def minus_mult_div_eq_mod)


lemma sint_small [simp]: "unat (w :: u32) < 2147483648 \<Longrightarrow> sint w = int (unat w)"
  by (simp add: sint_uint signed_take_bit_int_eq_self uint_nat del: of_nat_unat)

lemma sint_of_int [simp]: "int_ok x \<Longrightarrow> sint (word_of_int x :: u32) = x"
  by (simp add: int_ok_def sint_sbintrunc' signed_take_bit_int_eq_self)

lemma unat_of_int [simp]: "int_ok x \<Longrightarrow> 0 \<le> x \<Longrightarrow> unat (word_of_int x :: u32) = nat x"
  by (simp add: int_ok_def unat_eq_nat_uint uint_word_of_int take_bit_int_eq_self)

lemma int_ok_sint [simp]: "int_ok (sint (w :: u32))"
  using sint_range_size [of w] by (simp add: int_ok_def word_size)

lemma int_okI [intro]: "- 2147483648 \<le> x \<Longrightarrow> x \<le> 2147483647 \<Longrightarrow> int_ok x"
  by (simp add: int_ok_def)

section \<open>Weakest preconditions\<close>

definition wp :: "'a option \<Rightarrow> ('a \<Rightarrow> bool) \<Rightarrow> bool" where
  "wp m Q = (case m of None \<Rightarrow> False | Some x \<Rightarrow> Q x)"

definition wlp :: "'a option \<Rightarrow> ('a \<Rightarrow> bool) \<Rightarrow> bool" where
  "wlp m Q = (case m of None \<Rightarrow> True | Some x \<Rightarrow> Q x)"

lemma wp_Some [simp, wp_simps]: "wp (Some x) Q = Q x"
  by (simp add: wp_def)

lemma wp_None [simp, wp_simps]: "\<not> wp None Q"
  by (simp add: wp_def)

lemma wp_bind [wp_simps]: "wp (Option.bind m f) Q = wp m (\<lambda>x. wp (f x) Q)"
  by (cases m) simp_all

lemma wp_if [wp_simps]: "wp (if b then m else n) Q = (if b then wp m Q else wp n Q)"
  by simp

lemma wp_pair [wp_simps]: "wp (case p of (a, b) \<Rightarrow> f a b) Q = (case p of (a, b) \<Rightarrow> wp (f a b) Q)"
  by (cases p) simp

lemma wp_ck [wp_simps]: "wp (ck x) Q = (int_ok x \<and> Q x)"
  by (simp add: ck_def)

lemma wp_guard [wp_simps]: "wp (guard b) Q = (b \<and> Q ())"
  by (simp add: guard_def)

lemma wlp_Some [simp, wp_simps]: "wlp (Some x) Q = Q x"
  by (simp add: wlp_def)

lemma wlp_None [simp, wp_simps]: "wlp None Q"
  by (simp add: wlp_def)

lemma wlp_bind [wp_simps]: "wlp (Option.bind m f) Q = wlp m (\<lambda>x. wlp (f x) Q)"
  by (cases m) simp_all

lemma wlp_if [wp_simps]: "wlp (if b then m else n) Q = (if b then wlp m Q else wlp n Q)"
  by simp

lemma wlp_pair [wp_simps]: "wlp (case p of (a, b) \<Rightarrow> f a b) Q = (case p of (a, b) \<Rightarrow> wlp (f a b) Q)"
  by (cases p) simp

lemma wlp_ck [wp_simps]: "wlp (ck x) Q = (int_ok x \<longrightarrow> Q x)"
  by (simp add: ck_def)

lemma wlp_guard [wp_simps]: "wlp (guard b) Q = (b \<longrightarrow> Q ())"
  by (simp add: guard_def)

lemma wp_mono: "wp m P \<Longrightarrow> (\<And>x. P x \<Longrightarrow> Q x) \<Longrightarrow> wp m Q"
  by (cases m) auto

lemma wlp_mono: "wlp m P \<Longrightarrow> (\<And>x. P x \<Longrightarrow> Q x) \<Longrightarrow> wlp m Q"
  by (cases m) auto

lemma wp_wlp: "wp m P \<Longrightarrow> wlp m Q \<Longrightarrow> wp m (\<lambda>x. P x \<and> Q x)"
  by (cases m) auto

lemma wp_imp_wlp: "wp m Q \<Longrightarrow> wlp m Q"
  by (cases m) auto

lemma wpD: "wp m Q \<Longrightarrow> \<exists>x. m = Some x \<and> Q x"
  by (cases m) auto

lemma wlpD: "wlp m Q \<Longrightarrow> m = Some x \<Longrightarrow> Q x"
  by simp

lemma wlpI: "(\<And>x. m = Some x \<Longrightarrow> Q x) \<Longrightarrow> wlp m Q"
  by (cases m) auto

lemma wlp_iff: "wlp m Q \<longleftrightarrow> (\<forall>x. m = Some x \<longrightarrow> Q x)"
  by (cases m) auto

lemma wp_iff: "wp m Q \<longleftrightarrow> (\<exists>x. m = Some x \<and> Q x)"
  by (cases m) auto

lemma wp_eq_iff: "wp m (\<lambda>x. x = y) \<longleftrightarrow> m = Some y"
  by (cases m) auto

text \<open>A counted loop whose body changes the state and does not leave the loop early.\<close>

fun for_each :: "'x list \<Rightarrow> ('x \<Rightarrow> 's \<Rightarrow> 's option) \<Rightarrow> 's \<Rightarrow> 's option" where
  "for_each [] f s = Some s"
| "for_each (x # xs) f s = Option.bind (f x s) (for_each xs f)"

lemma for_each_append: "for_each (xs @ ys) f s = Option.bind (for_each xs f s) (for_each ys f)"
  by (induction xs arbitrary: s) (auto split: bind_split)

lemma wp_for_each_upt:
  assumes "P 0 s" and "\<And>k s. k < n \<Longrightarrow> P k s \<Longrightarrow> wp (f k s) (P (Suc k))"
    and "\<And>s. P n s \<Longrightarrow> Q s"
  shows "wp (for_each [0..<n] f s) Q"
proof -
  have "wp (for_each [0..<k] f s) (P k)" if "k \<le> n" for k
    using that
    by (induction k) (auto simp: assms for_each_append wp_bind Suc_le_eq elim!: wp_mono)
  from wp_mono [OF this [OF order_refl] assms(3)] show ?thesis .
qed

section \<open>Byte memory\<close>

text \<open>A 32-bit word lies in four bytes, the most significant first.\<close>

definition be_word :: "u8 \<Rightarrow> u8 \<Rightarrow> u8 \<Rightarrow> u8 \<Rightarrow> u32" where
  "be_word a b c d = push_bit 24 (ucast a) OR push_bit 16 (ucast b) OR
     push_bit 8 (ucast c) OR ucast d"

definition be_byte :: "nat \<Rightarrow> u32 \<Rightarrow> u8" where
  "be_byte k w = ucast (drop_bit (24 - 8 * k) w)"

definition get32 :: "mem \<Rightarrow> nat \<Rightarrow> u32" where
  "get32 m a = be_word (m ! a) (m ! (a + 1)) (m ! (a + 2)) (m ! (a + 3))"

definition set32 :: "mem \<Rightarrow> nat \<Rightarrow> u32 \<Rightarrow> mem" where
  "set32 m a w = m[a := be_byte 0 w, a + 1 := be_byte 1 w, a + 2 := be_byte 2 w, a + 3 := be_byte 3 w]"

text \<open>The program's accesses: defined inside the object only.\<close>

definition rd32 :: "mem \<Rightarrow> nat \<Rightarrow> u32 option" where
  "rd32 m a = (if a + 4 \<le> length m then Some (get32 m a) else None)"

definition wr32 :: "mem \<Rightarrow> nat \<Rightarrow> u32 \<Rightarrow> mem option" where
  "wr32 m a w = (if a + 4 \<le> length m then Some (set32 m a w) else None)"

definition rd8 :: "mem \<Rightarrow> nat \<Rightarrow> u8 option" where
  "rd8 m a = (if a < length m then Some (m ! a) else None)"

definition wr8 :: "mem \<Rightarrow> nat \<Rightarrow> u8 \<Rightarrow> mem option" where
  "wr8 m a b = (if a < length m then Some (m[a := b]) else None)"

lemma bit_u8_high [simp]: "8 \<le> n \<Longrightarrow> \<not> bit (x :: u8) n"
  by (auto dest: bit_imp_le_length)

lemma be_byte_be_word:
  "be_byte 0 (be_word a b c d) = a" "be_byte (Suc 0) (be_word a b c d) = b"
  "be_byte 2 (be_word a b c d) = c" "be_byte 3 (be_word a b c d) = d"
  by (auto intro!: bit_word_eqI simp: be_byte_def be_word_def bit_simps)

lemma be_word_be_byte [simp]:
  "be_word (be_byte 0 w) (be_byte (Suc 0) w) (be_byte 2 w) (be_byte 3 w) = w"
proof (rule bit_word_eqI)
  fix n assume "n < LENGTH(32)"
  then consider "n < 8" | "8 \<le> n" "n < 16" | "16 \<le> n" "n < 24" | "24 \<le> n" "n < 32"
    by fastforce
  then show "bit (be_word (be_byte 0 w) (be_byte (Suc 0) w) (be_byte 2 w) (be_byte 3 w)) n = bit w n"
    by cases (auto simp: be_byte_def be_word_def bit_simps)
qed

lemma length_set32 [simp]: "length (set32 m a w) = length m"
  by (simp add: set32_def)

lemma get32_set32_same [mem_simps]: "a + 4 \<le> length m \<Longrightarrow> get32 (set32 m a w) a = w"
  by (simp add: get32_def set32_def nth_list_update)

lemma get32_set32_other [mem_simps]:
  "a + 4 \<le> b \<or> b + 4 \<le> a \<Longrightarrow> get32 (set32 m a w) b = get32 m b"
  by (auto simp: get32_def set32_def nth_list_update)

lemma nth_set32_other [mem_simps]: "i < a \<or> a + 4 \<le> i \<Longrightarrow> set32 m a w ! i = m ! i"
  by (auto simp: set32_def)

lemma set32_get32 [simp]: "a + 4 \<le> length m \<Longrightarrow> set32 m a (get32 m a) = m"
  by (auto intro!: nth_equalityI
      simp: set32_def get32_def be_byte_be_word nth_list_update)

lemma get32_cong:
  assumes "\<And>k. k < 4 \<Longrightarrow> m ! (a + k) = m' ! (a + k)"
  shows "get32 m a = get32 m' a"
  using assms [of 0] assms [of 1] assms [of 2] assms [of 3] by (simp add: get32_def)

lemma wp_rd32 [wp_simps]: "wp (rd32 m a) Q = (a + 4 \<le> length m \<and> Q (get32 m a))"
  by (simp add: rd32_def)

lemma wp_wr32 [wp_simps]: "wp (wr32 m a w) Q = (a + 4 \<le> length m \<and> Q (set32 m a w))"
  by (simp add: wr32_def)

lemma wp_rd8 [wp_simps]: "wp (rd8 m a) Q = (a < length m \<and> Q (m ! a))"
  by (simp add: rd8_def)

lemma wp_wr8 [wp_simps]: "wp (wr8 m a b) Q = (a < length m \<and> Q (m[a := b]))"
  by (simp add: wr8_def)

lemma wlp_rd32 [wp_simps]: "wlp (rd32 m a) Q = (a + 4 \<le> length m \<longrightarrow> Q (get32 m a))"
  by (simp add: rd32_def)

lemma wlp_wr32 [wp_simps]: "wlp (wr32 m a w) Q = (a + 4 \<le> length m \<longrightarrow> Q (set32 m a w))"
  by (simp add: wr32_def)

text \<open>Copying \<open>n\<close> bytes from position \<open>sp\<close> of one object to position \<open>dp\<close> of another.\<close>

definition blit :: "nat \<Rightarrow> mem \<Rightarrow> nat \<Rightarrow> mem \<Rightarrow> nat \<Rightarrow> mem option" where
  "blit n dst dp src sp =
     (if dp + n \<le> length dst \<and> sp + n \<le> length src
      then Some (take dp dst @ take n (drop sp src) @ drop (dp + n) dst) else None)"

lemma wp_blit [wp_simps]:
  "wp (blit n dst dp src sp) Q = (dp + n \<le> length dst \<and> sp + n \<le> length src \<and>
     Q (take dp dst @ take n (drop sp src) @ drop (dp + n) dst))"
  by (auto simp: blit_def)

lemma blit_length: "blit n dst dp src sp = Some m \<Longrightarrow> length m = length dst"
  by (auto simp: blit_def split: if_splits)

end
