(* ===== verification/Bitmap.thy ===== *)
theory Bitmap
  imports Buenos_Prelude
begin

text \<open>
  The bitmaps of \<open>lib/bitmap.c\<close>.  A \<open>bitmap_t *\<close> points at an array of 32-bit
  words; here it is the byte memory that holds the array, so that the same operations
  serve the page pool and the allocation blocks of the file systems.  \<open>bm_bit\<close> is the
  abstract view: the bit at a position.
\<close>

definition bitmap_sizeof :: "int \<Rightarrow> int option" where
  "bitmap_sizeof num_bits = do { n \<leftarrow> ck (num_bits + 31); Some (cdiv n 32 * 4) }"

definition bitmap_init :: "mem \<Rightarrow> int \<Rightarrow> mem option" where
  "bitmap_init bitmap num_bits = do {
     guard (num_bits \<ge> 0);
     n \<leftarrow> ck (num_bits + 31);
     for_each [0..<nat (cdiv n 32)] (\<lambda>i m. wr32 m (4 * i) 0) bitmap
   }"

definition bitmap_get :: "mem \<Rightarrow> int \<Rightarrow> int option" where
  "bitmap_get bitmap pos = do {
     guard (pos \<ge> 0);
     let i = nat (cdiv pos 32); j = nat (cmod pos 32) in do {
       w \<leftarrow> rd32 bitmap (4 * i);
       Some (uint (drop_bit j w AND 1))
     }
   }"

definition bitmap_set :: "mem \<Rightarrow> int \<Rightarrow> int \<Rightarrow> mem option" where
  "bitmap_set bitmap pos v = do {
     guard (pos \<ge> 0);
     let i = nat (cdiv pos 32); j = nat (cmod pos 32) in
       if v = 0 then do { w \<leftarrow> rd32 bitmap (4 * i); wr32 bitmap (4 * i) (w AND NOT (push_bit j 1)) }
       else if v = 1 then do { w \<leftarrow> rd32 bitmap (4 * i); wr32 bitmap (4 * i) (w OR push_bit j 1) }
       else None
   }"

text \<open>The inner loop of \<open>bitmap_findnset\<close>: \<open>Some r\<close> is a \<open>return r\<close> out of it.\<close>

fun findnset_bits :: "mem \<Rightarrow> int \<Rightarrow> int \<Rightarrow> nat list \<Rightarrow> (int \<times> mem) option option" where
  "findnset_bits m basepos l [] = Some None"
| "findnset_bits m basepos l (j # js) = do {
     b \<leftarrow> bitmap_get m (basepos + int j);
     if b = 0 then
       if basepos + int j \<ge> l then Some (Some (- 1, m))
       else do { m' \<leftarrow> bitmap_set m (basepos + int j) 1; Some (Some (basepos + int j, m')) }
     else findnset_bits m basepos l js
   }"

fun findnset_words :: "mem \<Rightarrow> int \<Rightarrow> nat list \<Rightarrow> (int \<times> mem) option" where
  "findnset_words m l [] = Some (- 1, m)"
| "findnset_words m l (i # is) = do {
     w \<leftarrow> rd32 m (4 * i);
     if w \<noteq> 0xffffffff then do {
       r \<leftarrow> findnset_bits m (int i * 32) l [0..<32];
       case r of Some x \<Rightarrow> Some x | None \<Rightarrow> findnset_words m l is
     }
     else findnset_words m l is
   }"

definition bitmap_findnset :: "mem \<Rightarrow> int \<Rightarrow> (int \<times> mem) option" where
  "bitmap_findnset bitmap l = do {
     guard (l \<ge> 0);
     sz \<leftarrow> bitmap_sizeof l;
     findnset_words bitmap l [0..<nat (cdiv sz 4)]
   }"

section \<open>The abstract view\<close>

definition bm_bit :: "mem \<Rightarrow> nat \<Rightarrow> bool" where
  "bm_bit m p = bit (get32 m (4 * (p div 32))) (p mod 32)"

definition bm_set :: "mem \<Rightarrow> nat \<Rightarrow> bool \<Rightarrow> mem" where
  "bm_set m p b = set32 m (4 * (p div 32))
     ((if b then set_bit else unset_bit) (p mod 32) (get32 m (4 * (p div 32))))"

text \<open>The bitmap has room for the bits below \<open>n\<close>.\<close>

definition bm_room :: "mem \<Rightarrow> nat \<Rightarrow> bool" where
  "bm_room m n \<longleftrightarrow> 4 * ((n + 31) div 32) \<le> length m"

lemma bm_room_word: "bm_room m n \<Longrightarrow> p < n \<Longrightarrow> 4 * (p div 32) + 4 \<le> length m"
proof -
  assume room: "bm_room m n" and "p < n"
  then have "(p + 32) div 32 \<le> (n + 31) div 32"
    by (intro div_le_mono) simp
  moreover have "(p + 32) div 32 = p div 32 + 1"
    by (rule div_add_self2) simp
  ultimately show ?thesis
    using room unfolding bm_room_def by linarith
qed

lemma length_bm_set [simp]: "length (bm_set m p b) = length m"
  by (simp add: bm_set_def)

lemma bm_room_set [simp]: "bm_room (bm_set m p b) n = bm_room m n"
  by (simp add: bm_room_def)

lemma bm_bit_set [mem_simps]:
  assumes "4 * (p div 32) + 4 \<le> length m"
  shows "bm_bit (bm_set m p b) q = (if q = p then b else bm_bit m q)"
proof (cases "q div 32 = p div 32")
  case True
  then have "q = p \<longleftrightarrow> q mod 32 = p mod 32"
    by (metis div_mult_mod_eq)
  with True assms show ?thesis
    by (auto simp: bm_bit_def bm_set_def get32_set32_same bit_set_bit_iff bit_unset_bit_iff)
next
  case False
  then have "4 * (p div 32) + 4 \<le> 4 * (q div 32) \<or> 4 * (q div 32) + 4 \<le> 4 * (p div 32)"
    by linarith
  with False show ?thesis
    by (auto simp: bm_bit_def bm_set_def get32_set32_other)
qed

lemma bitmap_get_eq: "bitmap_get m (int p) = (if 4 * (p div 32) + 4 \<le> length m
    then Some (of_bool (bm_bit m p)) else None)"
proof -
  have "uint (drop_bit j w AND 1 :: u32) = of_bool (bit w j)" for j w
    by (simp add: and_one_eq bit_iff_odd_drop_bit odd_iff_mod_2_eq_one)
  moreover have "nat (int p div 32) = p div 32" "nat (int p mod 32) = p mod 32"
    by (simp_all add: nat_div_distrib nat_mod_distrib)
  ultimately show ?thesis
    by (simp add: bitmap_get_def guard_def rd32_def bm_bit_def)
qed

lemma bitmap_set_eq: "bitmap_set m (int p) (of_bool b) =
    (if 4 * (p div 32) + 4 \<le> length m then Some (bm_set m p b) else None)"
proof -
  have "nat (int p div 32) = p div 32" "nat (int p mod 32) = p mod 32"
    by (simp_all add: nat_div_distrib nat_mod_distrib)
  then show ?thesis
    by (simp add: bitmap_set_def Let_def guard_def rd32_def wr32_def bm_set_def set_bit_eq_or
        unset_bit_eq_and_not)
qed

lemmas bitmap_eqs = bitmap_get_eq bitmap_set_eq
  bitmap_set_eq [of _ _ True, simplified] bitmap_set_eq [of _ _ False, simplified]


section \<open>Allocation: the first clear bit\<close>

lemma bitmap_get_at:
  "j < 32 \<Longrightarrow> 4 * i + 4 \<le> length m \<Longrightarrow>
    bitmap_get m (int i * 32 + int j) = Some (of_bool (bm_bit m (32 * i + j)))"
  using bitmap_get_eq [of m "32 * i + j"] by (simp add: mult.commute)

lemma bitmap_set_at:
  "j < 32 \<Longrightarrow> 4 * i + 4 \<le> length m \<Longrightarrow>
    bitmap_set m (int i * 32 + int j) 1 = Some (bm_set m (32 * i + j) True)"
  using bitmap_set_eq [of m "32 * i + j" True] by (simp add: mult.commute)

text \<open>\<open>findnset_bits\<close> scans the bits \<open>[j..<32]\<close> of word \<open>i\<close>; \<open>n\<close> is the length in bits.\<close>

lemma findnset_bits_all_set:
  assumes "4 * i + 4 \<le> length m" and "\<And>k. j \<le> k \<Longrightarrow> k < 32 \<Longrightarrow> bm_bit m (32 * i + k)" and "j \<le> 32"
  shows "findnset_bits m (int i * 32) l [j..<32] = Some None"
  using assms
proof (induction "32 - j" arbitrary: j)
  case 0
  then show ?case by simp
next
  case (Suc d)
  then have "[j..<32] = j # [Suc j..<32]"
    by (simp add: upt_rec)
  then show ?case
    using Suc by (simp add: bitmap_get_at)
qed

lemma findnset_bits_found:
  assumes "4 * i + 4 \<le> length m" and "p < 32" and "\<not> bm_bit m (32 * i + p)"
    and "\<And>k. j \<le> k \<Longrightarrow> k < p \<Longrightarrow> bm_bit m (32 * i + k)" and "j \<le> p"
  shows "findnset_bits m (int i * 32) (int n) [j..<32] =
    Some (Some (if 32 * i + p < n then (int (32 * i + p), bm_set m (32 * i + p) True) else (- 1, m)))"
  using assms
proof (induction "p - j" arbitrary: j)
  case 0
  then have "[j..<32] = j # [Suc j..<32]" and jp: "j = p"
    by (simp_all add: upt_rec)
  then show ?case
    using 0 by (auto simp: bitmap_get_at bitmap_set_at mult.commute)
next
  case (Suc d)
  then have "[j..<32] = j # [Suc j..<32]" and "j < p"
    by (simp_all add: upt_rec)
  then show ?case
    using Suc by (simp add: bitmap_get_at)
qed

lemma all_ones_iff: "w = (0xffffffff :: u32) \<longleftrightarrow> (\<forall>k<32. bit w k)"
proof -
  have "(0xffffffff :: u32) = - 1"
    by simp
  moreover have "w = - 1 \<longleftrightarrow> (\<forall>k<32. bit w k)"
    by (auto intro!: bit_word_eqI)
  ultimately show ?thesis by (simp only:)
qed

text \<open>A word of the bitmap in terms of the bits of the bitmap.\<close>

lemma bm_word_full: "get32 m (4 * i) = 0xffffffff \<longleftrightarrow> (\<forall>k<32. bm_bit m (32 * i + k))"
  unfolding all_ones_iff by (simp add: bm_bit_def)

lemma findnset_words_all_set:
  assumes "4 * w \<le> length m" and "\<And>q. 32 * i \<le> q \<Longrightarrow> q < 32 * w \<Longrightarrow> bm_bit m q" and "i \<le> w"
  shows "findnset_words m l [i..<w] = Some (- 1, m)"
  using assms
proof (induction "w - i" arbitrary: i)
  case 0
  then show ?case by simp
next
  case (Suc d)
  then have "i < w" by simp
  then have "[i..<w] = i # [Suc i..<w]"
    by (simp add: upt_rec)
  moreover have "get32 m (4 * i) = 0xffffffff"
    unfolding bm_word_full using Suc.prems(2) \<open>i < w\<close> by fastforce
  ultimately show ?case
    using Suc by (simp add: rd32_def)
qed

lemma findnset_words_found:
  assumes "4 * w \<le> length m" and "p < 32 * w" and "\<not> bm_bit m p"
    and "\<And>q. 32 * i \<le> q \<Longrightarrow> q < p \<Longrightarrow> bm_bit m q" and "32 * i \<le> p"
  shows "findnset_words m (int n) [i..<w] =
    Some (if p < n then (int p, bm_set m p True) else (- 1, m))"
  using assms
proof (induction "p div 32 - i" arbitrary: i)
  case 0
  then have i: "i = p div 32" and "i < w"
    by linarith+
  then have "4 * i + 4 \<le> length m"
    using 0 by linarith
  moreover have "[i..<w] = i # [Suc i..<w]" "p mod 32 < 32" and p: "32 * i + p mod 32 = p"
    using i \<open>i < w\<close> by (simp_all add: upt_rec)
  moreover have "\<not> bm_bit m (32 * i + p mod 32)"
    using 0 p by simp
  moreover from this have "get32 m (4 * i) \<noteq> 0xffffffff"
    unfolding bm_word_full by (meson mod_less_divisor zero_less_numeral)
  moreover have "bm_bit m (32 * i + k)" if "k < p mod 32" for k
    using that 0 p by simp
  ultimately show ?case
    using findnset_bits_found [of i m "p mod 32" 0 n] by (simp add: rd32_def)
next
  case (Suc d)
  then have i: "Suc i \<le> p div 32" "i < w"
    by linarith+
  then have split: "[i..<w] = i # [Suc i..<w]"
    by (simp add: upt_rec)
  have full: "get32 m (4 * i) = 0xffffffff"
    unfolding bm_word_full using Suc.prems(4) i by fastforce
  have "findnset_words m (int n) [Suc i..<w] = Some (if p < n then (int p, bm_set m p True) else (- 1, m))"
  proof (rule Suc.hyps(1))
    show "d = p div 32 - Suc i"
      using Suc.hyps(2) by simp
    show "32 * Suc i \<le> p"
      using mult_le_mono2 [OF i(1), of 32] div_times_less_eq_dividend [of p 32] by simp
    show "bm_bit m q" if "32 * Suc i \<le> q" "q < p" for q
      using that Suc.prems(4) by simp
  qed (use Suc.prems in simp_all)
  with split full i Suc.prems(1) show ?case
    by (simp add: rd32_def)
qed

text \<open>
  The contract of \<open>bitmap_findnset\<close>: below the length \<open>n\<close> it sets the first clear bit
  and returns its position; with no clear bit there it returns -1 and changes nothing.
\<close>

lemma bitmap_findnset_eq_full:
  assumes "bm_room m n" and "int_ok (int n + 31)" and "\<And>q. q < n \<Longrightarrow> bm_bit m q"
  shows "bitmap_findnset m (int n) = Some (- 1, m)"
proof -
  define w where "w = (n + 31) div 32"
  have "cdiv (cdiv (int n + 31) 32 * 4) 4 = int w"
    by (simp add: w_def zdiv_int)
  then have eq: "bitmap_findnset m (int n) = findnset_words m (int n) [0..<w]"
    using assms(2) by (simp add: bitmap_findnset_def bitmap_sizeof_def guard_def ck_def)
  have w4: "4 * w \<le> length m"
    using assms(1) by (simp add: bm_room_def w_def)
  show ?thesis
  proof (cases "\<forall>q < 32 * w. bm_bit m q")
    case True
    then show ?thesis
      using findnset_words_all_set [of w m 0] w4 by (simp add: eq)
  next
    case False
    then obtain p where p: "p < 32 * w" "\<not> bm_bit m p" "\<And>q. q < p \<Longrightarrow> bm_bit m q"
      using exists_least_iff [of "\<lambda>p. p < 32 * w \<and> \<not> bm_bit m p"]
      by (metis (no_types, lifting) less_trans)
    then have "\<not> p < n"
      using assms(3) by blast
    then show ?thesis
      using findnset_words_found [of w m p 0 n] w4 p by (simp add: eq)
  qed
qed

lemma bitmap_findnset_eq_found:
  assumes "bm_room m n" and "int_ok (int n + 31)"
    and "p < n" and "\<not> bm_bit m p" and "\<And>q. q < p \<Longrightarrow> bm_bit m q"
  shows "bitmap_findnset m (int n) = Some (int p, bm_set m p True)"
proof -
  define w where "w = (n + 31) div 32"
  have "cdiv (cdiv (int n + 31) 32 * 4) 4 = int w"
    by (simp add: w_def zdiv_int)
  then have eq: "bitmap_findnset m (int n) = findnset_words m (int n) [0..<w]"
    using assms(2) by (simp add: bitmap_findnset_def bitmap_sizeof_def guard_def ck_def)
  have "4 * w \<le> length m" "p < 32 * w"
    using assms(1,3) by (auto simp: bm_room_def w_def)
  then show ?thesis
    using findnset_words_found [of w m p 0 n] assms(3-5) by (simp add: eq)
qed

lemma bm_first_clear:
  assumes "\<not> (\<forall>q<n. bm_bit m q)"
  obtains p where "p < n" "\<not> bm_bit m p" "\<And>q. q < p \<Longrightarrow> bm_bit m q"
proof -
  obtain p where "p < n \<and> \<not> bm_bit m p" "\<And>q. q < p \<Longrightarrow> \<not> (q < n \<and> \<not> bm_bit m q)"
    using assms exists_least_iff [of "\<lambda>p. p < n \<and> \<not> bm_bit m p"] by blast
  then show thesis
    using that [of p] by auto
qed

text \<open>\<open>bitmap_init\<close> clears every bit of a bitmap that has the room \<open>bitmap_sizeof\<close> asks for.\<close>

lemma bitmap_init_clears:
  assumes "bm_room m n" and "int_ok (int n + 31)"
  shows "wp (bitmap_init m (int n)) (\<lambda>m'. length m' = length m \<and> (\<forall>p<n. \<not> bm_bit m' p))"
proof -
  let ?w = "(n + 31) div 32"
  have w: "nat (cdiv (int n + 31) 32) = ?w"
    by (simp add: nat_div_distrib nat_add_distrib)
  have "wp (for_each [0..<?w] (\<lambda>i m. wr32 m (4 * i) 0) m)
      (\<lambda>m'. length m' = length m \<and> (\<forall>p<n. \<not> bm_bit m' p))"
  proof (rule wp_for_each_upt [where P = "\<lambda>k m'. length m' = length m \<and> (\<forall>i<k. get32 m' (4 * i) = 0)"])
    fix k m' assume k: "k < ?w" "length m' = length m \<and> (\<forall>i<k. get32 m' (4 * i) = 0)"
    then have "4 * k + 4 \<le> length m'"
      using assms(1) unfolding bm_room_def by linarith
    with k(2) show "wp (wr32 m' (4 * k) 0)
        (\<lambda>m'. length m' = length m \<and> (\<forall>i<Suc k. get32 m' (4 * i) = 0))"
      by (auto simp: wp_simps less_Suc_eq get32_set32_same get32_set32_other)
  next
    fix m' assume m': "length m' = length m \<and> (\<forall>i<?w. get32 m' (4 * i) = 0)"
    have "p div 32 < ?w" if "p < n" for p
      using bm_room_word [of "replicate (4 * ?w) 0" n p] that by (simp add: bm_room_def)
    with m' show "length m' = length m \<and> (\<forall>p<n. \<not> bm_bit m' p)"
      by (simp add: bm_bit_def)
  qed simp
  then show ?thesis
    using assms(2) w by (simp add: bitmap_init_def wp_simps)
qed

end
