(* ===== verification/Libc.thy ===== *)
theory Libc
  imports Buenos_Prelude
begin

text \<open>
  The string and memory routines of \<open>lib/libc.c\<close>.  A \<open>char *\<close> that is only read is the
  byte list from the pointer to the end of its object; running off that end is the
  result \<^term>\<open>None\<close>.  \<open>cstr\<close> is the string such a pointer denotes.
\<close>

definition cstr :: "mem \<Rightarrow> mem" where
  "cstr m = takeWhile (\<lambda>c. c \<noteq> 0) m"

definition terminated :: "mem \<Rightarrow> bool" where
  "terminated m \<longleftrightarrow> 0 \<in> set m"

section \<open>The routines\<close>

text \<open>Characters are signed on the target.\<close>

fun stringcmp :: "mem \<Rightarrow> mem \<Rightarrow> int option" where
  "stringcmp (a # s1) (b # s2) =
     (if a = 0 \<and> b = 0 then Some 0
      else if a = 0 \<or> b = 0 \<or> a \<noteq> b then Some (sint a - sint b)
      else stringcmp s1 s2)"
| "stringcmp _ _ = None"

text \<open>
  \<open>stringcopy\<close>: the list holds the remaining values of \<open>i\<close>, \<open>p\<close> is the offset of the
  pointers \<open>target\<close> and \<open>source\<close>.  After a null byte the inner loop stores zeros through
  \<open>target\<close>, which it does not advance.
\<close>

fun stringcopy_loop :: "mem \<Rightarrow> mem \<Rightarrow> int \<Rightarrow> nat \<Rightarrow> nat list \<Rightarrow> mem option" where
  "stringcopy_loop target source buflen p [] = wr8 target p 0"
| "stringcopy_loop target source buflen p (i # is) = do {
     c \<leftarrow> rd8 source p;
     target \<leftarrow> wr8 target p c;
     if c = 0 then for_each [Suc i..<nat buflen] (\<lambda>_ t. wr8 t p 0) target
     else stringcopy_loop target source buflen (Suc p) is
   }"

definition stringcopy :: "mem \<Rightarrow> mem \<Rightarrow> int \<Rightarrow> mem option" where
  "stringcopy target source buflen =
     stringcopy_loop target source buflen 0 [0..<nat (buflen - 1)]"

text \<open>\<open>memcopy\<close> works on addresses of one memory: bytes unless both are word aligned.\<close>

definition copy_bytes :: "nat \<Rightarrow> nat \<Rightarrow> nat \<Rightarrow> mem \<Rightarrow> mem option" where
  "copy_bytes n t s = for_each [0..<n] (\<lambda>i m. do { b \<leftarrow> rd8 m (s + i); wr8 m (t + i) b })"

definition memcopy :: "int \<Rightarrow> nat \<Rightarrow> nat \<Rightarrow> mem \<Rightarrow> mem option" where
  "memcopy buflen target source m =
     (if target mod 4 \<noteq> 0 \<or> source mod 4 \<noteq> 0 then copy_bytes (nat buflen) target source m
      else let n = nat (cdiv buflen 4) in do {
        m \<leftarrow> for_each [0..<n]
          (\<lambda>i m. do { w \<leftarrow> rd32 m (source + 4 * i); wr32 m (target + 4 * i) w }) m;
        copy_bytes (nat (cmod buflen 4)) (target + 4 * n) (source + 4 * n) m
      })"

definition memoryset :: "nat \<Rightarrow> u8 \<Rightarrow> int \<Rightarrow> mem \<Rightarrow> mem option" where
  "memoryset target v sz = for_each [0..<nat sz] (\<lambda>i m. wr8 m (target + i) v)"

fun atoi_ws :: "mem \<Rightarrow> mem option" where
  "atoi_ws [] = None"
| "atoi_ws (c # s) = (if c = 32 \<or> c = 9 \<or> c = 13 \<or> c = 10 then atoi_ws s else Some (c # s))"

fun atoi_digits :: "int \<Rightarrow> int \<Rightarrow> mem \<Rightarrow> int option" where
  "atoi_digits sign v [] = None"
| "atoi_digits sign v (c # s) =
     (if 48 \<le> c \<and> c \<le> 57 then do {
        v10 \<leftarrow> ck (10 * v);
        v' \<leftarrow> ck (v10 + sign * (uint c - 48));
        atoi_digits sign v' s
      }
      else Some v)"

definition atoi :: "mem \<Rightarrow> int option" where
  "atoi s = do {
     s \<leftarrow> atoi_ws s;
     c \<leftarrow> rd8 s 0;
     if c = 0 then Some 0
     else if c = 45 then atoi_digits (- 1) 0 (tl s)
     else if c = 43 then atoi_digits 1 0 (tl s)
     else atoi_digits 1 0 s
   }"

fun strlen :: "mem \<Rightarrow> int option" where
  "strlen [] = None"
| "strlen (c # s) = (if c = 0 then Some 0 else do { l \<leftarrow> strlen s; Some (l + 1) })"

section \<open>Strings\<close>

lemma cstr_Nil [simp]: "cstr [] = []"
  by (simp add: cstr_def)

lemma cstr_Cons [simp]: "cstr (c # s) = (if c = 0 then [] else c # cstr s)"
  by (simp add: cstr_def)

lemma terminated_Cons [simp]: "terminated (c # s) \<longleftrightarrow> c = 0 \<or> terminated s"
  by (auto simp: terminated_def)

lemma terminated_Nil [simp]: "\<not> terminated []"
  by (simp add: terminated_def)

lemma cstr_nonzero: "c \<in> set (cstr m) \<Longrightarrow> c \<noteq> 0"
  by (auto simp: cstr_def dest: set_takeWhileD)

lemma cstr_string: "0 \<notin> set (cstr m)"
  using cstr_nonzero by blast

lemma cstr_take: "terminated (take n m) \<Longrightarrow> cstr m = cstr (take n m)"
  by (induction m arbitrary: n) (auto simp: take_Cons split: nat.splits if_splits)

lemma length_cstr_less: "terminated m \<Longrightarrow> length (cstr m) < length m"
  by (induction m) auto

lemma terminated_split: "terminated m \<Longrightarrow> \<exists>r. m = cstr m @ 0 # r"
  by (induction m) auto

lemma cstr_append [simp]: "0 \<notin> set s \<Longrightarrow> cstr (s @ 0 # r) = s"
  by (induction s) auto

lemma sint_inject_u8 [simp]: "sint (a :: u8) = sint b \<longleftrightarrow> a = b"
  by (auto intro: signed_word_eqI)

lemma sint_zero_u8 [simp]: "sint (a :: u8) = 0 \<longleftrightarrow> a = 0"
  using sint_inject_u8 [of a 0] by simp

text \<open>Two terminated strings: \<open>stringcmp\<close> returns, and 0 exactly for equal strings.\<close>

lemma stringcmp_total: "terminated s \<Longrightarrow> terminated t \<Longrightarrow> \<exists>r. stringcmp s t = Some r"
  by (induction s t rule: stringcmp.induct) auto

lemma stringcmp_zero_iff:
  "terminated s \<Longrightarrow> terminated t \<Longrightarrow> stringcmp s t = Some 0 \<longleftrightarrow> cstr s = cstr t"
  by (induction s t rule: stringcmp.induct) auto

lemma strlen_eq: "terminated s \<Longrightarrow> strlen s = Some (int (length (cstr s)))"
  by (induction s) auto


section \<open>stringcopy\<close>

lemma pad_same:
  "p < length t \<Longrightarrow> t ! p = 0 \<Longrightarrow> for_each xs (\<lambda>_ t. wr8 t p 0) t = Some t"
  using list_update_same_conv [of p t 0] by (induction xs) (simp_all add: wr8_def)

text \<open>
  The copy from offset \<open>p\<close> on: \<open>n\<close> characters at most, then a null byte; whatever
  lies behind that null byte in the target is untouched.
\<close>

lemma stringcopy_loop_eq:
  assumes "p + n < length target" and "terminated (drop p source)"
  shows "stringcopy_loop target source buflen p [p..<p + n] =
    (let w = take n (cstr (drop p source)) in
       Some (take p target @ w @ 0 # drop (p + length w + 1) target))"
  using assms
proof (induction n arbitrary: p target)
  case 0
  then show ?case
    by (simp add: wr8_def upd_conv_take_nth_drop)
next
  case (Suc n)
  then have "p < length source"
    by (metis drop_all not_le terminated_Nil)
  then have src: "drop p source = source ! p # drop (Suc p) source"
    by (rule Cons_nth_drop_Suc [symmetric])
  have upt: "[p..<Suc (p + n)] = p # [Suc p..<Suc (p + n)]"
    by (simp add: upt_rec)
  have rd: "rd8 source p = Some (source ! p)" and wr: "wr8 target p c = Some (target[p := c])" for c
    using \<open>p < length source\<close> Suc.prems by (simp_all add: rd8_def wr8_def)
  show ?case
  proof (cases "source ! p = 0")
    case True
    have "for_each [Suc p..<nat buflen] (\<lambda>_ t. wr8 t p 0) (target[p := 0]) = Some (target[p := 0])"
      by (rule pad_same) (use Suc.prems in simp_all)
    with True Suc.prems show ?thesis
      by (simp add: upt rd wr src upd_conv_take_nth_drop Let_def del: upt_Suc)
  next
    case False
    with Suc.prems src have "terminated (drop (Suc p) source)"
      by simp
    then have "stringcopy_loop (target[p := source ! p]) source buflen (Suc p) [Suc p..<Suc p + n] =
      (let w = take n (cstr (drop (Suc p) source)) in
       Some (take (Suc p) (target[p := source ! p]) @ w @
         0 # drop (Suc p + length w + 1) (target[p := source ! p])))"
      using Suc.prems by (intro Suc.IH) simp_all
    with False Suc.prems show ?thesis
      by (simp add: upt rd wr src Let_def take_Suc_conv_app_nth del: upt_Suc)
  qed
qed

lemma stringcopy_eq:
  assumes "0 < buflen" and "nat buflen \<le> length target" and "terminated source"
  shows "stringcopy target source buflen =
    (let w = take (nat buflen - 1) (cstr source) in Some (w @ 0 # drop (length w + 1) target))"
proof -
  have "nat (buflen - 1) = nat buflen - 1"
    by simp
  then show ?thesis
    using assms stringcopy_loop_eq [of 0 "nat buflen - 1" target source buflen]
    by (simp add: stringcopy_def)
qed

section \<open>memcopy\<close>

text \<open>\<open>copied n t s m m'\<close>: \<open>m'\<close> is \<open>m\<close> with the \<open>n\<close> bytes at \<open>s\<close> copied to \<open>t\<close>.\<close>

definition copied :: "nat \<Rightarrow> nat \<Rightarrow> nat \<Rightarrow> mem \<Rightarrow> mem \<Rightarrow> bool" where
  "copied n t s m m' \<longleftrightarrow> length m' = length m \<and>
     (\<forall>a < length m. m' ! a = (if t \<le> a \<and> a < t + n then m ! (s + (a - t)) else m ! a))"

lemma copied_0: "copied 0 t s m m"
  by (auto simp: copied_def)

lemma copied_trans:
  assumes "copied n t s m m'" and "copied k (t + n) (s + n) m' m''"
    and "s + n + k \<le> t \<or> t + n + k \<le> s" and "s + n + k \<le> length m" and "t + n + k \<le> length m"
  shows "copied (n + k) t s m m''"
  unfolding copied_def
proof (intro conjI allI impI)
  show "length m'' = length m"
    using assms(1,2) by (simp add: copied_def)
  fix a assume a: "a < length m"
  have rd: "m' ! (s + n + i) = m ! (s + n + i)" if "i < k" for i
    using that assms by (auto simp: copied_def)
  show "m'' ! a = (if t \<le> a \<and> a < t + (n + k) then m ! (s + (a - t)) else m ! a)"
  proof (cases "t + n \<le> a \<and> a < t + n + k")
    case True
    then obtain i where i: "a = t + n + i" "i < k"
      by (metis add_less_cancel_left le_Suc_ex)
    with a assms(1,2) rd [of i] show ?thesis
      by (simp add: copied_def add.assoc)
  next
    case False
    with a assms(1,2) show ?thesis
      by (auto simp: copied_def)
  qed
qed

lemma copied_byte:
  "s < length m \<Longrightarrow> t < length m \<Longrightarrow> copied 1 t s m (m[t := m ! s])"
  by (auto simp: copied_def nth_list_update)

lemma copied_word:
  assumes "s + 4 \<le> length m" and "t + 4 \<le> length m" and "s + 4 \<le> t \<or> t + 4 \<le> s"
  shows "copied 4 t s m (set32 m t (get32 m s))"
proof -
  have "set32 m t (get32 m s) ! a = m ! (s + (a - t))" if a: "t \<le> a" "a < t + 4" for a
  proof -
    from a consider "a = t" | "a = Suc t" | "a = Suc (Suc t)" | "a = Suc (Suc (Suc t))"
      by fastforce
    then show ?thesis
      by cases (use assms in \<open>auto simp: set32_def get32_def be_byte_be_word nth_list_update\<close>)
  qed
  then show ?thesis
    by (auto simp: copied_def nth_set32_other)
qed

lemma copy_bytes_wp:
  assumes "s + n \<le> length m" and "t + n \<le> length m" and "s + n \<le> t \<or> t + n \<le> s"
  shows "wp (copy_bytes n t s m) (copied n t s m)"
  unfolding copy_bytes_def
proof (rule wp_for_each_upt [where P = "\<lambda>k m'. copied k t s m m'"])
  fix k m' assume k: "k < n" and m': "copied k t s m m'"
  then have len: "length m' = length m"
    by (simp add: copied_def)
  have "copied (k + 1) t s m (m'[t + k := m' ! (s + k)])"
    by (rule copied_trans [OF m' copied_byte]) (use assms k len in auto)
  then show "wp (do { b \<leftarrow> rd8 m' (s + k); wr8 m' (t + k) b }) (copied (Suc k) t s m)"
    using assms k len by (simp add: wp_simps)
qed (simp_all add: copied_0)

lemma memcopy_wp:
  assumes "0 \<le> n" and "s + nat n \<le> length m" and "t + nat n \<le> length m"
    and "s + nat n \<le> t \<or> t + nat n \<le> s"
  shows "wp (memcopy n t s m) (copied (nat n) t s m)"
proof (cases "t mod 4 \<noteq> 0 \<or> s mod 4 \<noteq> 0")
  case True
  then show ?thesis
    using copy_bytes_wp [OF assms(2-4)] by (auto simp: memcopy_def)
next
  case False
  define q where "q = nat n div 4"
  define r where "r = nat n mod 4"
  have qr: "4 * q + r = nat n" "nat (cdiv n 4) = q" "nat (cmod n 4) = r"
    using assms(1) by (simp_all add: q_def r_def nat_div_distrib nat_mod_distrib)
  have words: "wp (for_each [0..<q] (\<lambda>i m. do { w \<leftarrow> rd32 m (s + 4 * i); wr32 m (t + 4 * i) w }) m)
      (copied (4 * q) t s m)"
  proof (rule wp_for_each_upt [where P = "\<lambda>k m'. copied (4 * k) t s m m'"])
    fix k m' assume k: "k < q" and m': "copied (4 * k) t s m m'"
    then have len: "length m' = length m"
      by (simp add: copied_def)
    have "copied (4 * k + 4) t s m (set32 m' (t + 4 * k) (get32 m' (s + 4 * k)))"
      by (rule copied_trans [OF m' copied_word]) (use assms k len qr in auto)
    then have "copied (4 * Suc k) t s m (set32 m' (t + 4 * k) (get32 m' (s + 4 * k)))"
      by (simp add: add.commute)
    then show "wp (do { w \<leftarrow> rd32 m' (s + 4 * k); wr32 m' (t + 4 * k) w }) (copied (4 * Suc k) t s m)"
      using assms k len qr by (simp add: wp_simps)
  qed (simp_all add: copied_0)
  have bytes: "wp (copy_bytes r (t + 4 * q) (s + 4 * q) m') (copied (nat n) t s m)"
    if m': "copied (4 * q) t s m m'" for m'
  proof -
    have "length m' = length m"
      using m' by (simp add: copied_def)
    then have "wp (copy_bytes r (t + 4 * q) (s + 4 * q) m') (copied r (t + 4 * q) (s + 4 * q) m')"
      by (intro copy_bytes_wp) (use assms qr in auto)
    then show ?thesis
    proof (rule wp_mono)
      fix m'' assume m'': "copied r (t + 4 * q) (s + 4 * q) m' m''"
      show "copied (nat n) t s m m''"
        unfolding qr(1) [symmetric]
        by (rule copied_trans [OF m' m'']) (use assms qr(1) in linarith)+
    qed
  qed
  from wp_mono [OF words bytes] False show ?thesis
    by (simp add: memcopy_def qr Let_def wp_bind)
qed

end
