(* ===== verification/Gbd.thy ===== *)
theory Gbd
  imports Buenos_Prelude
begin

text \<open>
  Block devices: the interface of \<open>drivers/gbd.h\<close> and the disk driver behind it
  (\<open>drivers/disk.c\<close>, \<open>drivers/disksched.c\<close>).

  \<open>gbd\<close> is the struct of function pointers through which a file system reaches its disk;
  \<open>'d\<close> is the state behind it.  The locale \<open>block_device\<close> states what the file systems
  rely on: a read returns the block last written.  The driver is modelled over a disk
  controller \<open>disk_hw\<close>, which is hardware and so a parameter; \<open>sector_hw\<close> states the
  documented behaviour of the controller, and the sublocale at the end shows that the
  driver turns such a controller into a block device.
\<close>

abbreviation (input) BLOCK :: nat where "BLOCK \<equiv> 512"

record 'd gbd =
  read_block :: "u32 \<Rightarrow> mem \<Rightarrow> 'd \<Rightarrow> (int \<times> mem \<times> 'd) option"
  write_block :: "u32 \<Rightarrow> mem \<Rightarrow> 'd \<Rightarrow> (int \<times> 'd) option"
  block_size :: "'d \<Rightarrow> u32"
  total_blocks :: "'d \<Rightarrow> u32"

locale block_device =
  fixes G :: "'d gbd"
    and blk :: "'d \<Rightarrow> nat \<Rightarrow> mem"
    and nblk :: nat
    and ready :: "'d \<Rightarrow> bool"
  assumes blk_length: "ready d \<Longrightarrow> k < nblk \<Longrightarrow> length (blk d k) = BLOCK"
    and read_ready: "ready d \<Longrightarrow> unat b < nblk \<Longrightarrow>
      \<exists>d'. read_block G b m d = Some (1, blk d (unat b), d') \<and> ready d' \<and> blk d' = blk d"
    and write_ready: "ready d \<Longrightarrow> unat b < nblk \<Longrightarrow> length m = BLOCK \<Longrightarrow>
      \<exists>d'. write_block G b m d = Some (1, d') \<and> ready d' \<and> blk d' = (blk d)(unat b := m)"
begin

lemma wp_read [wp_simps]:
  assumes "ready d" and "unat b < nblk"
    and "\<And>d'. ready d' \<Longrightarrow> blk d' = blk d \<Longrightarrow> Q (1, blk d (unat b), d')"
  shows "wp (read_block G b m d) Q"
  using read_ready [OF assms(1,2), of m] assms(3) by auto

lemma wp_write [wp_simps]:
  assumes "ready d" and "unat b < nblk" and "length m = BLOCK"
    and "\<And>d'. ready d' \<Longrightarrow> blk d' = (blk d)(unat b := m) \<Longrightarrow> Q (1, d')"
  shows "wp (write_block G b m d) Q"
  using write_ready [OF assms(1,2,3)] assms(4) by auto

text \<open>A write followed by a read of any block.\<close>

lemma read_after_write:
  assumes "ready d" and "unat b < nblk" and "unat c < nblk" and "length m = BLOCK"
  shows "wp (do { (_, d) \<leftarrow> write_block G b m d; read_block G c m' d })
    (\<lambda>(r, x, d). r = 1 \<and> x = (if b = c then m else blk d (unat c)))"
  unfolding wp_bind
  by (rule wp_write [OF assms(1,2,4)]) (auto simp: assms intro!: wp_read)

end

section \<open>The disk driver\<close>

datatype gbd_operation = GBD_OPERATION_READ | GBD_OPERATION_WRITE

text \<open>A request; \<open>rq_buf\<close> is the content of the memory at the address in \<open>buf\<close>.\<close>

record gbd_request =
  rq_block :: u32
  rq_buf :: mem
  rq_op :: gbd_operation
  rq_ret :: int

text \<open>
  The controller: its status register, starting a transfer (\<open>tsector\<close>, \<open>dmaaddr\<close> and
  \<open>command\<close>), the transfer itself, acknowledging the interrupt, and its geometry.
\<close>

record 'h disk_hw =
  hw_status :: "'h \<Rightarrow> u32"
  hw_start :: "gbd_operation \<Rightarrow> u32 \<Rightarrow> 'h \<Rightarrow> 'h"
  hw_dma :: "gbd_operation \<Rightarrow> u32 \<Rightarrow> mem \<Rightarrow> 'h \<Rightarrow> mem \<times> 'h"
  hw_ack :: "'h \<Rightarrow> 'h"
  hw_block_size :: "'h \<Rightarrow> u32"
  hw_blocks :: "'h \<Rightarrow> u32"

text \<open>\<open>free_sems\<close> counts the unused semaphores of the kernel: without one, a synchronous
  request fails.\<close>

record 'h disk =
  dk_hw :: 'h
  request_queue :: "gbd_request list"
  request_served :: "gbd_request option"
  free_sems :: nat

definition disk_status_busy :: "u32 \<Rightarrow> bool" where
  "disk_status_busy st \<longleftrightarrow> st AND 0x00000003 \<noteq> 0"

definition disk_status_irq :: "u32 \<Rightarrow> bool" where
  "disk_status_irq st \<longleftrightarrow> st AND 0x0000000c \<noteq> 0"

definition disk_status_errors :: "u32 \<Rightarrow> bool" where
  "disk_status_errors st \<longleftrightarrow> st AND 0xf8000000 \<noteq> 0"

fun disksched_schedule :: "gbd_request list \<Rightarrow> gbd_request \<Rightarrow> gbd_request list" where
  "disksched_schedule [] request = [request]"
| "disksched_schedule (q # queue) request = q # disksched_schedule queue request"

definition disk_next_request :: "'h disk_hw \<Rightarrow> 'h disk \<Rightarrow> 'h disk option" where
  "disk_next_request H d = do {
     guard (\<not> disk_status_busy (hw_status H (dk_hw d)));
     guard (request_served d = None);
     case request_queue d of
       [] \<Rightarrow> Some d
     | req # queue \<Rightarrow>
         let h = hw_start H (rq_op req) (rq_block req) (dk_hw d) in do {
           guard (\<not> disk_status_errors (hw_status H h));
           Some (d\<lparr>request_queue := queue, request_served := Some req, dk_hw := h\<rparr>)
         }
   }"

text \<open>The handler returns the request it completed, whose submitter it wakes up.\<close>

definition disk_interrupt_handle ::
    "'h disk_hw \<Rightarrow> 'h disk \<Rightarrow> (gbd_request option \<times> 'h disk) option" where
  "disk_interrupt_handle H d =
     (if \<not> disk_status_irq (hw_status H (dk_hw d)) then Some (None, d)
      else let d = d\<lparr>dk_hw := hw_ack H (dk_hw d)\<rparr> in do {
        req \<leftarrow> request_served d;
        d \<leftarrow> disk_next_request H (d\<lparr>request_served := None\<rparr>);
        Some (Some (req\<lparr>rq_ret := 0\<rparr>), d)
      })"

text \<open>The controller finishes the transfer it is working on, then raises its interrupt.\<close>

definition disk_transfer :: "'h disk_hw \<Rightarrow> 'h disk \<Rightarrow> 'h disk" where
  "disk_transfer H d = (case request_served d of
     None \<Rightarrow> d
   | Some req \<Rightarrow> let (buf, h) = hw_dma H (rq_op req) (rq_block req) (rq_buf req) (dk_hw d)
       in d\<lparr>dk_hw := h, request_served := Some (req\<lparr>rq_buf := buf\<rparr>)\<rparr>)"

text \<open>The wait of \<open>disk_submit_request\<close> on its semaphore, with \<open>n\<close> requests ahead of its own.\<close>

fun disk_wait :: "'h disk_hw \<Rightarrow> nat \<Rightarrow> 'h disk \<Rightarrow> (gbd_request \<times> 'h disk) option" where
  "disk_wait H n d = do {
     (r, d) \<leftarrow> disk_interrupt_handle H (disk_transfer H d);
     req \<leftarrow> r;
     case n of 0 \<Rightarrow> Some (req, d) | Suc k \<Rightarrow> disk_wait H k d
   }"

declare disk_wait.simps [simp del]

definition disk_submit_request ::
    "'h disk_hw \<Rightarrow> gbd_request \<Rightarrow> 'h disk \<Rightarrow> (int \<times> gbd_request \<times> 'h disk) option" where
  "disk_submit_request H request d =
     (let request = request\<lparr>rq_ret := - 1\<rparr> in
      if free_sems d = 0 then Some (0, request, d)
      else
        let ahead = length (request_queue d) + (if request_served d = None then 0 else 1);
            d = d\<lparr>free_sems := free_sems d - 1,
                  request_queue := disksched_schedule (request_queue d) request\<rparr>
        in do {
          d \<leftarrow> (if request_served d = None then disk_next_request H d else Some d);
          (request, d) \<leftarrow> disk_wait H ahead d;
          Some (if rq_ret request = 0 then 1 else 0, request, d\<lparr>free_sems := free_sems d + 1\<rparr>)
        })"

definition disk_read_block :: "'h disk_hw \<Rightarrow> u32 \<Rightarrow> mem \<Rightarrow> 'h disk \<Rightarrow> (int \<times> mem \<times> 'h disk) option" where
  "disk_read_block H b buf d = do {
     (r, request, d) \<leftarrow> disk_submit_request H
       \<lparr>rq_block = b, rq_buf = buf, rq_op = GBD_OPERATION_READ, rq_ret = 0\<rparr> d;
     Some (r, rq_buf request, d)
   }"

definition disk_write_block :: "'h disk_hw \<Rightarrow> u32 \<Rightarrow> mem \<Rightarrow> 'h disk \<Rightarrow> (int \<times> 'h disk) option" where
  "disk_write_block H b buf d = do {
     (r, request, d) \<leftarrow> disk_submit_request H
       \<lparr>rq_block = b, rq_buf = buf, rq_op = GBD_OPERATION_WRITE, rq_ret = 0\<rparr> d;
     Some (r, d)
   }"

definition disk_block_size :: "'h disk_hw \<Rightarrow> 'h disk \<Rightarrow> u32" where
  "disk_block_size H d = hw_block_size H (dk_hw d)"

definition disk_total_blocks :: "'h disk_hw \<Rightarrow> 'h disk \<Rightarrow> u32" where
  "disk_total_blocks H d = hw_blocks H (dk_hw d)"

text \<open>What \<open>disk_init\<close> fills in: the operations, and an empty queue.\<close>

definition disk_gbd :: "'h disk_hw \<Rightarrow> 'h disk gbd" where
  "disk_gbd H = \<lparr>read_block = disk_read_block H, write_block = disk_write_block H,
     block_size = disk_block_size H, total_blocks = disk_total_blocks H\<rparr>"

definition disk_init :: "'h \<Rightarrow> nat \<Rightarrow> 'h disk" where
  "disk_init h sems = \<lparr>dk_hw = h, request_queue = [], request_served = None, free_sems = sems\<rparr>"

lemma disksched_schedule_eq: "disksched_schedule q r = q @ [r]"
  by (induction q) simp_all

section \<open>The driver over a controller is a block device\<close>

text \<open>Between synchronous requests the driver is idle; its blocks are the sectors.\<close>

definition disk_ready :: "('h \<Rightarrow> bool) \<Rightarrow> 'h disk \<Rightarrow> bool" where
  "disk_ready idle d \<longleftrightarrow>
     idle (dk_hw d) \<and> request_queue d = [] \<and> request_served d = None \<and> 0 < free_sems d"

definition disk_blk :: "('h \<Rightarrow> nat \<Rightarrow> mem) \<Rightarrow> 'h disk \<Rightarrow> nat \<Rightarrow> mem" where
  "disk_blk sectors d = sectors (dk_hw d)"

locale sector_hw =
  fixes H :: "'h disk_hw"
    and sectors :: "'h \<Rightarrow> nat \<Rightarrow> mem"
    and nsect :: nat
    and idle :: "'h \<Rightarrow> bool"
    and running :: "gbd_operation \<Rightarrow> u32 \<Rightarrow> 'h \<Rightarrow> bool"
    and irq :: "'h \<Rightarrow> bool"
  assumes idle_status: "idle h \<Longrightarrow> \<not> disk_status_busy (hw_status H h)"
    and sector_length: "idle h \<Longrightarrow> k < nsect \<Longrightarrow> length (sectors h k) = BLOCK"
    and start: "idle h \<Longrightarrow> unat b < nsect \<Longrightarrow> running op b (hw_start H op b h) \<and>
      sectors (hw_start H op b h) = sectors h \<and> \<not> disk_status_errors (hw_status H (hw_start H op b h))"
    and dma_read: "running GBD_OPERATION_READ b h \<Longrightarrow>
      \<exists>h'. hw_dma H GBD_OPERATION_READ b m h = (sectors h (unat b), h') \<and> irq h' \<and> sectors h' = sectors h"
    and dma_write: "running GBD_OPERATION_WRITE b h \<Longrightarrow> length m = BLOCK \<Longrightarrow>
      \<exists>h'. hw_dma H GBD_OPERATION_WRITE b m h = (m, h') \<and> irq h' \<and> sectors h' = (sectors h)(unat b := m)"
    and irq_status: "irq h \<Longrightarrow> disk_status_irq (hw_status H h)"
    and ack: "irq h \<Longrightarrow> idle (hw_ack H h) \<and> sectors (hw_ack H h) = sectors h"
begin

lemma submit_read:
  assumes "disk_ready idle d" and "unat b < nsect"
  shows "\<exists>d'. disk_submit_request H \<lparr>rq_block = b, rq_buf = m, rq_op = GBD_OPERATION_READ, rq_ret = x\<rparr> d =
    Some (1, \<lparr>rq_block = b, rq_buf = disk_blk sectors d (unat b), rq_op = GBD_OPERATION_READ, rq_ret = 0\<rparr>, d')
    \<and> disk_ready idle d' \<and> disk_blk sectors d' = disk_blk sectors d"
proof -
  let ?h = "hw_start H GBD_OPERATION_READ b (dk_hw d)"
  have run: "running GBD_OPERATION_READ b ?h" "sectors ?h = sectors (dk_hw d)"
    and noerr: "\<not> disk_status_errors (hw_status H ?h)"
    using start assms by (auto simp: disk_ready_def)
  obtain h' where dma: "hw_dma H GBD_OPERATION_READ b m ?h = (sectors (dk_hw d) (unat b), h')"
    and h': "irq h'" "sectors h' = sectors (dk_hw d)"
    using dma_read [OF run(1), of m] run(2) by auto
  show ?thesis
    using assms idle_status [of "dk_hw d"] idle_status [of "hw_ack H h'"] irq_status [OF h'(1)]
      ack [OF h'(1)] noerr dma h'(2)
    by (auto simp: disk_submit_request_def disk_ready_def disk_blk_def disksched_schedule_eq
        disk_next_request_def disk_wait.simps disk_transfer_def disk_interrupt_handle_def guard_def Let_def)
qed

lemma submit_write:
  assumes "disk_ready idle d" and "unat b < nsect" and "length m = BLOCK"
  shows "\<exists>d'. disk_submit_request H \<lparr>rq_block = b, rq_buf = m, rq_op = GBD_OPERATION_WRITE, rq_ret = x\<rparr> d =
    Some (1, \<lparr>rq_block = b, rq_buf = m, rq_op = GBD_OPERATION_WRITE, rq_ret = 0\<rparr>, d')
    \<and> disk_ready idle d' \<and> disk_blk sectors d' = (disk_blk sectors d)(unat b := m)"
proof -
  let ?h = "hw_start H GBD_OPERATION_WRITE b (dk_hw d)"
  have run: "running GBD_OPERATION_WRITE b ?h" "sectors ?h = sectors (dk_hw d)"
    and noerr: "\<not> disk_status_errors (hw_status H ?h)"
    using start assms by (auto simp: disk_ready_def)
  obtain h' where dma: "hw_dma H GBD_OPERATION_WRITE b m ?h = (m, h')"
    and h': "irq h'" "sectors h' = (sectors (dk_hw d))(unat b := m)"
    using dma_write [OF run(1) assms(3)] run(2) by auto
  show ?thesis
    using assms idle_status [of "dk_hw d"] idle_status [of "hw_ack H h'"] irq_status [OF h'(1)]
      ack [OF h'(1)] noerr dma h'(2)
    by (auto simp: disk_submit_request_def disk_ready_def disk_blk_def disksched_schedule_eq
        disk_next_request_def disk_wait.simps disk_transfer_def disk_interrupt_handle_def guard_def Let_def)
qed

end

sublocale sector_hw \<subseteq> block_device "disk_gbd H" "disk_blk sectors" nsect "disk_ready idle"
proof
  show "length (disk_blk sectors d k) = BLOCK" if "disk_ready idle d" "k < nsect" for d k
    using that by (simp add: disk_ready_def disk_blk_def sector_length)
  show "\<exists>d'. read_block (disk_gbd H) b m d = Some (1, disk_blk sectors d (unat b), d') \<and>
      disk_ready idle d' \<and> disk_blk sectors d' = disk_blk sectors d"
    if "disk_ready idle d" "unat b < nsect" for d b m
    using submit_read [OF that, of m 0] by (auto simp: disk_gbd_def disk_read_block_def)
  show "\<exists>d'. write_block (disk_gbd H) b m d = Some (1, d') \<and> disk_ready idle d' \<and>
      disk_blk sectors d' = (disk_blk sectors d)(unat b := m)"
    if "disk_ready idle d" "unat b < nsect" "length m = BLOCK" for d b m
    using submit_write [OF that, of 0] by (auto simp: disk_gbd_def disk_write_block_def)
qed


context sector_hw
begin

lemma disk_device: "block_device (disk_gbd H) (disk_blk sectors) nsect (disk_ready idle)"
  by (rule block_device_axioms)

end

section \<open>A controller with its sectors in memory\<close>

text \<open>An instance of the controller's contract: the transfer phases of one request.\<close>

datatype ram_phase = Ram_Idle | Ram_Error | Ram_Busy | Ram_Raised

record ram =
  ram_sectors :: "mem list"
  ram_phase :: ram_phase

definition ram_status :: "ram \<Rightarrow> u32" where
  "ram_status h = (case ram_phase h of
     Ram_Idle \<Rightarrow> 0 | Ram_Error \<Rightarrow> 0x08000000 | Ram_Busy \<Rightarrow> 1 | Ram_Raised \<Rightarrow> 4)"

definition ram_start :: "gbd_operation \<Rightarrow> u32 \<Rightarrow> ram \<Rightarrow> ram" where
  "ram_start op b h =
     h\<lparr>ram_phase := if unat b < length (ram_sectors h) then Ram_Busy else Ram_Error\<rparr>"

definition ram_dma :: "gbd_operation \<Rightarrow> u32 \<Rightarrow> mem \<Rightarrow> ram \<Rightarrow> mem \<times> ram" where
  "ram_dma op b m h = (case op of
     GBD_OPERATION_READ \<Rightarrow> (ram_sectors h ! unat b, h\<lparr>ram_phase := Ram_Raised\<rparr>)
   | GBD_OPERATION_WRITE \<Rightarrow>
       (m, h\<lparr>ram_sectors := (ram_sectors h)[unat b := m], ram_phase := Ram_Raised\<rparr>))"

definition ram_hw :: "ram disk_hw" where
  "ram_hw = \<lparr>hw_status = ram_status, hw_start = ram_start, hw_dma = ram_dma,
     hw_ack = (\<lambda>h. h\<lparr>ram_phase := Ram_Idle\<rparr>), hw_block_size = (\<lambda>_. 512),
     hw_blocks = (\<lambda>h. of_nat (length (ram_sectors h)))\<rparr>"

definition ram_sect :: "ram \<Rightarrow> nat \<Rightarrow> mem" where
  "ram_sect h k = (if k < length (ram_sectors h) then ram_sectors h ! k else [])"

definition ram_ok :: "nat \<Rightarrow> ram_phase \<Rightarrow> ram \<Rightarrow> bool" where
  "ram_ok n p h \<longleftrightarrow> ram_phase h = p \<and> length (ram_sectors h) = n \<and>
     (\<forall>m \<in> set (ram_sectors h). length m = BLOCK)"

definition ram_running :: "nat \<Rightarrow> gbd_operation \<Rightarrow> u32 \<Rightarrow> ram \<Rightarrow> bool" where
  "ram_running n op b h \<longleftrightarrow> ram_ok n Ram_Busy h \<and> unat b < n"

interpretation ram: sector_hw ram_hw ram_sect n "ram_ok n Ram_Idle" "ram_running n" "ram_ok n Ram_Raised"
  for n
  by unfold_locales
    (auto simp: ram_hw_def ram_status_def ram_ok_def ram_running_def ram_sect_def ram_start_def
      ram_dma_def disk_status_busy_def disk_status_errors_def disk_status_irq_def nth_list_update
      dest: set_update_subset_insert [THEN subsetD] split: if_splits)

end
