(* ===== verification/Library_Properties.thy ===== *)
theory Library_Properties
  imports Bitmap Libc Gbd
begin

text \<open>
  The properties of the kernel's library routines and of the disk driver's request path.
\<close>

section \<open>Bitmaps\<close>

text \<open>C32. First fit: \<open>bitmap_findnset\<close> on a bitmap of \<open>n\<close> bits returns the smallest position whose
  bit is clear, and sets that bit and no other; when all \<open>n\<close> bits are set it returns -1 and
  changes nothing, also when padding bits behind the \<open>n\<close>-th are clear.\<close>

theorem bitmap_findnset_first_fit:
  assumes "bm_room m n" and "int_ok (int n + 31)"
  shows "wp (bitmap_findnset m (int n)) (\<lambda>(r, m').
    if \<forall>q<n. bm_bit m q then r = - 1 \<and> m' = m
    else \<exists>p<n. r = int p \<and> \<not> bm_bit m p \<and> (\<forall>q<p. bm_bit m q) \<and> length m' = length m \<and>
      (\<forall>q<n. bm_bit m' q = (q = p \<or> bm_bit m q)))"
proof (cases "\<forall>q<n. bm_bit m q")
  case True
  then show ?thesis
    using bitmap_findnset_eq_full [OF assms] by simp
next
  case False
  then obtain p where p: "p < n" "\<not> bm_bit m p" "\<And>q. q < p \<Longrightarrow> bm_bit m q"
    by (rule bm_first_clear) blast
  have "bm_bit (bm_set m p True) q = (q = p \<or> bm_bit m q)" if "q < n" for q
    using that p(1) bm_room_word [OF assms(1)] by (auto simp: bm_bit_set)
  then show ?thesis
    using bitmap_findnset_eq_found [OF assms p(1,2)] p False by auto
qed

theorem bitmap_findnset_first_fit_witness:
  "wp (bitmap_findnset [0, 0, 0, 7, 0, 0, 0, 0] 40) (\<lambda>(r, m'). r = 3)"
proof -
  let ?m = "[0, 0, 0, 7, 0, 0, 0, 0] :: mem"
  have bits: "bm_bit ?m 0" "bm_bit ?m 1" "bm_bit ?m 2" "\<not> bm_bit ?m 3"
    by (simp_all add: bm_bit_def get32_def be_word_def bit_simps)
  have "wp (bitmap_findnset ?m (int 40)) (\<lambda>(r, m').
    if \<forall>q<40. bm_bit ?m q then r = - 1 \<and> m' = ?m
    else \<exists>p<40. r = int p \<and> \<not> bm_bit ?m p \<and> (\<forall>q<p. bm_bit ?m q) \<and> length m' = length ?m \<and>
      (\<forall>q<40. bm_bit m' q = (q = p \<or> bm_bit ?m q)))"
    by (rule bitmap_findnset_first_fit) (simp_all add: bm_room_def int_ok_def)
  moreover have "p = 3" if "\<not> bm_bit ?m p" "\<forall>q<p. bm_bit ?m q" for p
  proof (rule ccontr)
    assume "p \<noteq> 3"
    then have "p \<in> {0, 1, 2} \<or> 3 < p" by auto
    then show False
      using that bits by auto
  qed
  moreover have "\<not> (\<forall>q<40. bm_bit ?m q)"
    using bits(4) by (intro notI) (drule spec [of _ 3], simp)
  ultimately show ?thesis
    by (auto elim!: wp_mono)
qed

text \<open>A bitmap is an array of bits: after \<open>bitmap_set\<close> of a position below the length every
  \<open>bitmap_get\<close> returns the value written at that position and the old value elsewhere.\<close>

theorem bitmap_get_set:
  assumes "bm_room m n" and "p < n" and "q < n"
  shows "wp (bitmap_set m (int p) (of_bool v)) (\<lambda>m'.
    bm_room m' n \<and> bitmap_get m' (int q) = (if q = p then Some (of_bool v) else bitmap_get m (int q)))"
  using bm_room_word [OF assms(1) assms(2)] bm_room_word [OF assms(1) assms(3)] assms(1)
  by (auto simp: bitmap_set_eq bitmap_get_eq bm_bit_set)

theorem bitmap_get_set_witness:
  "wp (bitmap_set (replicate 8 0) 33 1) (\<lambda>m'. bitmap_get m' 33 = Some 1 \<and> bitmap_get m' 1 = Some 0)"
proof -
  have room: "bm_room (replicate 8 0) 40"
    by (simp add: bm_room_def)
  have "bitmap_get (replicate 8 0) (int 1) = Some 0"
    unfolding bitmap_get_eq by (simp add: bm_bit_def get32_def be_word_def)
  then show ?thesis
    using bitmap_get_set [OF room, of 33 33 True] bitmap_get_set [OF room, of 33 1 True]
    by (auto simp: wp_iff)
qed

section \<open>Strings and numbers\<close>

text \<open>Copying a string into a buffer of \<open>buflen\<close> bytes writes at most that many, always ends the
  copy with a null byte, and the copy compares equal to the source's first \<open>buflen - 1\<close>
  characters; \<open>stringcmp\<close> returns 0 exactly for equal strings.\<close>

theorem stringcopy_stringcmp:
  assumes "0 < buflen" and "nat buflen \<le> length target" and "terminated source"
  shows "wp (stringcopy target source buflen) (\<lambda>t.
    length t = length target \<and> drop (nat buflen) t = drop (nat buflen) target \<and>
    terminated (take (nat buflen) t) \<and> cstr t = take (nat buflen - 1) (cstr source) \<and>
    (stringcmp t source = Some 0 \<longleftrightarrow> int (length (cstr source)) < buflen))"
proof -
  define w where "w = take (nat buflen - 1) (cstr source)"
  define t where "t = w @ 0 # drop (length w + 1) target"
  have eq: "stringcopy target source buflen = Some t"
    using stringcopy_eq [OF assms] by (simp add: w_def t_def Let_def)
  have w: "0 \<notin> set w" "length w < nat buflen"
    using cstr_string [of source] assms(1) by (auto simp: w_def dest: in_set_takeD)
  then have t: "cstr t = w" "terminated t" "terminated (take (nat buflen) t)"
    using assms(2) by (simp_all add: t_def terminated_def take_Cons')
  have "w = cstr source \<longleftrightarrow> int (length (cstr source)) < buflen"
    using assms(1) by (auto simp: w_def take_all_iff)
  moreover have "length t = length target" "drop (nat buflen) t = drop (nat buflen) target"
    using w(2) assms(2) by (simp_all add: t_def drop_Cons' Suc_diff_Suc)
  ultimately show ?thesis
    using stringcmp_zero_iff [OF t(2) assms(3)] by (simp add: eq t) (simp add: w_def)
qed

theorem stringcopy_stringcmp_witness:
  "wp (stringcopy [9, 9, 9, 9] [97, 98, 0] 3) (\<lambda>t. cstr t = [97, 98] \<and> stringcmp t [97, 98, 0] = Some 0)"
  by (rule wp_mono [OF stringcopy_stringcmp]) (simp_all add: take_Cons')

text \<open>The decimal digits of a number, as the characters of a string.\<close>

function decimal :: "nat \<Rightarrow> mem" where
  "decimal n = (if n < 10 then [of_nat (48 + n)] else decimal (n div 10) @ [of_nat (48 + n mod 10)])"
  by auto
termination by (relation "measure id") auto

declare decimal.simps [simp del]

definition decimal_int :: "int \<Rightarrow> mem" where
  "decimal_int x = (if x < 0 then 45 # decimal (nat (- x)) else decimal (nat x))"

lemma digit_char:
  assumes "d < 10"
  shows "(48 :: u8) \<le> of_nat (48 + d)" "(of_nat (48 + d) :: u8) \<le> 57" "uint (of_nat (48 + d) :: u8) = 48 + int d"
proof -
  have "d \<in> {0, 1, 2, 3, 4, 5, 6, 7, 8, 9}"
    using assms by auto
  then show "(48 :: u8) \<le> of_nat (48 + d)" "(of_nat (48 + d) :: u8) \<le> 57" "uint (of_nat (48 + d) :: u8) = 48 + int d"
    by auto
qed

lemma atoi_digits_step:
  assumes "d < 10" and "int_ok (10 * v)" and "int_ok (10 * v + sign * int d)"
  shows "atoi_digits sign v (of_nat (48 + d) # s) = atoi_digits sign (10 * v + sign * int d) s"
  using assms digit_char [OF assms(1)] by (simp add: ck_def del: of_nat_add)

lemma atoi_digits_decimal:
  assumes "sign = 1 \<or> sign = - 1" and "int_ok (sign * int n)"
  shows "atoi_digits sign 0 (decimal n @ s) = atoi_digits sign (sign * int n) s"
  using assms(2)
proof (induction n arbitrary: s rule: decimal.induct)
  case (1 n)
  show ?case
  proof (cases "n < 10")
    case True
    then show ?thesis
      using atoi_digits_step [OF True, of 0 sign s] 1(2) by (simp add: decimal.simps [of n] int_ok_def del: of_nat_add)
  next
    case False
    define q where "q = n div 10"
    define d where "d = n mod 10"
    have n: "int n = 10 * int q + int d" and d: "d < 10"
      unfolding q_def d_def by (simp_all add: zdiv_int zmod_int)
    have ok: "int_ok (sign * int q)" "int_ok (10 * (sign * int q))" "int_ok (10 * (sign * int q) + sign * int d)"
      using assms(1) 1(2) n d unfolding int_ok_def by (elim disjE; simp)+
    have "decimal n = decimal q @ [of_nat (48 + d)]"
      using False by (simp add: decimal.simps [of n] q_def d_def)
    then have "atoi_digits sign 0 (decimal n @ s) = atoi_digits sign (sign * int q) (of_nat (48 + d) # s)"
      using 1(1) [OF False] ok(1) by (simp add: q_def del: of_nat_add)
    then show ?thesis
      using atoi_digits_step [OF d ok(2,3)] n by (simp add: algebra_simps del: of_nat_add)
  qed
qed

lemma decimal_first: "\<exists>d r. decimal n = of_nat (48 + d) # r \<and> d < 10"
proof (induction n rule: decimal.induct)
  case (1 n)
  then show ?case
    by (cases "n < 10") (force simp: decimal.simps [of n])+
qed

lemma decimal_start:
  obtains c r where "decimal n @ s = c # r" "48 \<le> c" "c \<le> 57"
    "c \<noteq> 0" "c \<noteq> 9" "c \<noteq> 10" "c \<noteq> 13" "c \<noteq> 32" "c \<noteq> 43" "c \<noteq> 45"
proof -
  obtain d r where d: "decimal n = of_nat (48 + d) # r" "d < 10"
    using decimal_first by blast
  have "(of_nat (48 + d) :: u8) \<noteq> x" if "x < 48" for x
    using digit_char(1) [OF d(2)] that by auto
  then show thesis
    using d digit_char [OF d(2)] by (intro that [of "of_nat (48 + d)" "r @ s"]) (simp_all del: of_nat_add)
qed

text \<open>Numbers round trip: \<open>atoi\<close> reads the decimal representation of any \<open>int\<close> back to that
  number, up to both ends of the range and behind any white space, and stops at the first
  character that is no digit.\<close>

theorem atoi_decimal:
  assumes "int_ok x" and "set ws \<subseteq> {32, 9, 13, 10}" and "\<not> (48 \<le> c \<and> c \<le> 57)"
  shows "atoi (ws @ decimal_int x @ c # rest) = Some x"
proof -
  have ws: "atoi_ws (ws @ s) = atoi_ws s" for s
    using assms(2) by (induction ws) auto
  have stop: "atoi_digits sign v (c # rest) = Some v" for sign v
    using assms(3) by auto
  show ?thesis
  proof (cases "x < 0")
    case True
    then show ?thesis
      using assms(1) atoi_digits_decimal [of "- 1" "nat (- x)" "c # rest"]
      by (simp add: atoi_def ws decimal_int_def rd8_def stop del: atoi_digits.simps)
  next
    case False
    obtain e r where s: "decimal (nat x) @ c # rest = e # r" "48 \<le> e" "e \<le> 57" "e \<noteq> 0" "e \<noteq> 9" "e \<noteq> 10" "e \<noteq> 13"
      "e \<noteq> 32" "e \<noteq> 43" "e \<noteq> 45"
      using decimal_start [where n = "nat x" and s = "c # rest"] .
    have "atoi (ws @ decimal_int x @ c # rest) = atoi_digits 1 0 (e # r)"
      using False s by (simp add: atoi_def ws decimal_int_def rd8_def del: atoi_digits.simps)
    then show ?thesis
      using False assms(1) atoi_digits_decimal [of 1 "nat x" "c # rest"] s(1)
      by (simp add: stop del: atoi_digits.simps)
  qed
qed

theorem atoi_decimal_witness:
  "atoi [32, 45, 50, 49, 52, 55, 52, 56, 51, 54, 52, 56, 0] = Some (- 2147483648)"
  using atoi_decimal [of "- 2147483648" "[32]" 0 "[]"]
  by (simp add: int_ok_def decimal_int_def decimal.simps)

text \<open>\<open>memcopy\<close> copies: between areas of the memory that do not overlap every byte of the source
  arrives, word by word or byte by byte as the alignment allows, and no other byte changes.\<close>

theorem memcopy_copies:
  assumes "0 \<le> n" and "s + nat n \<le> length m" and "t + nat n \<le> length m"
    and "s + nat n \<le> t \<or> t + nat n \<le> s"
  shows "wp (memcopy n t s m) (\<lambda>m'. length m' = length m \<and>
    (\<forall>a<length m. m' ! a = (if t \<le> a \<and> a < t + nat n then m ! (s + (a - t)) else m ! a)))"
  using memcopy_wp [OF assms] unfolding copied_def .

theorem memcopy_copies_witness:
  "wp (memcopy 5 8 0 ([1, 2, 3, 4, 5] @ replicate 11 0)) (\<lambda>m'. m' ! 8 = 1 \<and> m' ! 12 = 5 \<and> m' ! 13 = 0)"
  by (rule wp_mono [OF memcopy_copies]) (simp_all add: nth_Cons')

section \<open>The disk\<close>

text \<open>C33. A block survives on the disk: over any controller that keeps the contract of the hardware,
  writing a block of 512 bytes through the driver's request queue and interrupt handler and
  then reading any block returns what was written there, and the old content of all others.\<close>

theorem disk_write_read:
  assumes "sector_hw H sectors nsect idle running irq"
    and "disk_ready idle d" and "unat b < nsect" and "unat c < nsect" and "length m = BLOCK"
  shows "wp (disk_write_block H b m d) (\<lambda>(r, d1). r = 1 \<and>
    wp (disk_read_block H c buf d1) (\<lambda>(r, got, d2). r = 1 \<and> disk_ready idle d2 \<and>
      got = (if c = b then m else disk_blk sectors d (unat c))))"
proof -
  obtain d1 where d1: "disk_submit_request H
      \<lparr>rq_block = b, rq_buf = m, rq_op = GBD_OPERATION_WRITE, rq_ret = 0\<rparr> d =
    Some (1, \<lparr>rq_block = b, rq_buf = m, rq_op = GBD_OPERATION_WRITE, rq_ret = 0\<rparr>, d1)"
    and ready: "disk_ready idle d1" and blk: "disk_blk sectors d1 = (disk_blk sectors d)(unat b := m)"
    using sector_hw.submit_write [OF assms(1,2,3,5), of 0] by blast
  show ?thesis
    using sector_hw.submit_read [OF assms(1) ready assms(4), of buf 0] blk
    by (auto simp: disk_write_block_def disk_read_block_def d1 word_unat_eq_iff)
qed

theorem disk_write_read_witness:
  "wp (disk_write_block ram_hw 1 (replicate 512 7) (disk_init \<lparr>ram_sectors = replicate 4 (replicate 512 0), ram_phase = Ram_Idle\<rparr> 1))
    (\<lambda>(r, d1). r = 1 \<and> wp (disk_read_block ram_hw 1 (replicate 512 9) d1) (\<lambda>(r, got, d2). got = replicate 512 7))"
  by (rule wp_mono [OF disk_write_read [OF ram.sector_hw_axioms [where n = 4]]])
    (auto simp: disk_ready_def disk_init_def ram_ok_def elim!: wp_mono)

end
