(* ===== verification/Fs_Common.thy ===== *)
theory Fs_Common
  imports Libc Bitmap Gbd
begin

text \<open>
  What the three file system drivers share: the return codes of \<open>fs/vfs.h\<close>, the lock, the
  layout of a directory block and of the kernel resources taken at mount time.  A
  directory block is an array of 25 entries of 20 bytes: the inode block number and a
  name of at most 16 bytes.
\<close>

abbreviation (input) VFS_OK :: int where "VFS_OK \<equiv> 0"
abbreviation (input) VFS_NOT_SUPPORTED :: int where "VFS_NOT_SUPPORTED \<equiv> - 1"
abbreviation (input) VFS_ERROR :: int where "VFS_ERROR \<equiv> - 2"
abbreviation (input) VFS_INVALID_PARAMS :: int where "VFS_INVALID_PARAMS \<equiv> - 3"
abbreviation (input) VFS_NOT_OPEN :: int where "VFS_NOT_OPEN \<equiv> - 4"
abbreviation (input) VFS_NOT_FOUND :: int where "VFS_NOT_FOUND \<equiv> - 5"
abbreviation (input) VFS_NO_SUCH_FS :: int where "VFS_NO_SUCH_FS \<equiv> - 6"
abbreviation (input) VFS_LIMIT :: int where "VFS_LIMIT \<equiv> - 7"
abbreviation (input) VFS_IN_USE :: int where "VFS_IN_USE \<equiv> - 8"
abbreviation (input) VFS_UNUSABLE :: int where "VFS_UNUSABLE \<equiv> - 9"
abbreviation (input) VFS_NAME_LENGTH :: int where "VFS_NAME_LENGTH \<equiv> 16"
abbreviation (input) MAX_FILES :: nat where "MAX_FILES \<equiv> 25"
abbreviation (input) PAGE_SIZE :: nat where "PAGE_SIZE \<equiv> 4096"

text \<open>A semaphore seen by one thread: \<open>P\<close> on a value that is not positive does not return
  before some other thread calls \<open>V\<close>.\<close>

definition sem_P :: "int \<Rightarrow> int option" where
  "sem_P v = (if v > 0 then Some (v - 1) else None)"

definition sem_V :: "int \<Rightarrow> int" where
  "sem_V v = v + 1"

text \<open>Kernel resources: how many semaphores and pages are free, and the content the next
  page has when it is handed out.\<close>

record kres =
  kr_sems :: nat
  kr_pages :: nat
  kr_page :: mem

section \<open>Directory blocks\<close>

definition dir_inode :: "mem \<Rightarrow> nat \<Rightarrow> u32" where
  "dir_inode md i = get32 md (20 * i)"

definition dir_name :: "mem \<Rightarrow> nat \<Rightarrow> mem" where
  "dir_name md i = drop (20 * i + 4) md"

text \<open>The search loop of \<open>open\<close> and \<open>remove\<close>: \<open>Some (Some i)\<close> when entry \<open>i\<close> matches.\<close>

fun dir_find :: "mem \<Rightarrow> mem \<Rightarrow> nat list \<Rightarrow> nat option option" where
  "dir_find md filename [] = Some None"
| "dir_find md filename (i # is) = do {
     r \<leftarrow> stringcmp (dir_name md i) filename;
     if r = 0 then Some (Some i) else dir_find md filename is
   }"

text \<open>The loop of \<open>create\<close>: \<open>Some None\<close> when the name exists, else the last free index.\<close>

fun dir_slot :: "mem \<Rightarrow> mem \<Rightarrow> nat option \<Rightarrow> nat list \<Rightarrow> nat option option option" where
  "dir_slot md filename index [] = Some (Some index)"
| "dir_slot md filename index (i # is) = do {
     r \<leftarrow> stringcmp (dir_name md i) filename;
     if r = 0 then Some None
     else do {
       inode \<leftarrow> rd32 md (20 * i);
       dir_slot md filename (if inode = 0 then Some i else index) is
     }
   }"

text \<open>Counting the used entries, and finding the \<open>idx\<close>-th of them.\<close>

fun dir_count :: "mem \<Rightarrow> int \<Rightarrow> nat list \<Rightarrow> int option" where
  "dir_count md count [] = Some count"
| "dir_count md count (i # is) = do {
     inode \<leftarrow> rd32 md (20 * i);
     dir_count md (if inode \<noteq> 0 then count + 1 else count) is
   }"

fun dir_nth :: "mem \<Rightarrow> int \<Rightarrow> int \<Rightarrow> nat list \<Rightarrow> nat option option" where
  "dir_nth md idx count [] = Some None"
| "dir_nth md idx count (i # is) = do {
     inode \<leftarrow> rd32 md (20 * i);
     if inode \<noteq> 0 then
       if count = idx then Some (Some i) else dir_nth md idx (count + 1) is
     else dir_nth md idx count is
   }"

text \<open>Copying a name into an entry.\<close>

definition dir_set_name :: "mem \<Rightarrow> nat \<Rightarrow> mem \<Rightarrow> mem option" where
  "dir_set_name md i name = do {
     n \<leftarrow> stringcopy (dir_name md i) name VFS_NAME_LENGTH;
     Some (take (20 * i + 4) md @ n)
   }"

text \<open>Number of allocated blocks of a bitmap: the loop of \<open>getfree\<close>.\<close>

fun bat_count :: "mem \<Rightarrow> int \<Rightarrow> nat list \<Rightarrow> int option" where
  "bat_count bat allocated [] = Some allocated"
| "bat_count bat allocated (i # is) = do {
     b \<leftarrow> bitmap_get bat (int i);
     bat_count bat (allocated + b) is
   }"

section \<open>Partial correctness of calls\<close>

text \<open>Calls about whose result a proof assumes nothing.\<close>

lemmas wlp_calls =
  wlp_iff [of "read_block G b m d" for G b m d] wlp_iff [of "write_block G b m d" for G b m d]
  wlp_iff [of "bitmap_findnset m l" for m l] wlp_iff [of "bitmap_set m p v" for m p v]
  wlp_iff [of "for_each xs f s" for xs f s] wlp_iff [of "memoryset a v n m" for a v n m]
  wlp_iff [of "blit n d dp s sp" for n d dp s sp] wlp_iff [of "stringcopy t s n" for t s n]
  wlp_iff [of "stringcmp s t" for s t] wlp_iff [of "wr32 m a w" for m a w]
  wlp_iff [of "wr8 m a w" for m a w] wlp_iff [of "rd32 m a" for m a]
  wlp_iff [of "dir_find md f is" for md f "is"] wlp_iff [of "dir_slot md f i is" for md f i "is"]
  wlp_iff [of "dir_set_name md i n" for md i n] wlp_iff [of "dir_count md c is" for md c "is"]
  wlp_iff [of "dir_nth md i c is" for md i c "is"] wlp_iff [of "bat_count b a is" for b a "is"]
  wlp_iff [of "ck n" for n] 

lemma wlp_Let_any: "(\<And>x. wlp (f x) Q) \<Longrightarrow> wlp (Let t f) Q"
  by simp

end
