(* ===== verification/Tfs.thy ===== *)
theory Tfs
  imports Fs_Common
begin

text \<open>
  The Trivial Filesystem, \<open>fs/tfs.c\<close>.  The state is \<open>tfs_t\<close>: the number of blocks, the
  disk, the lock and the three block buffers.  Each operation takes the lock, works on the
  buffers, and gives the lock back on every way out.  An inode block holds the file size
  and 127 block numbers; block 1 is the allocation bitmap, block 2 the directory.
\<close>

record 'd tfs =
  t_totalblocks :: u32
  t_disk :: 'd
  t_lock :: int
  t_inode :: mem
  t_bat :: mem
  t_md :: mem
  t_volume :: mem

definition TFS_MAGIC :: u32 where "TFS_MAGIC = 3745"

definition tfs_P :: "'d tfs \<Rightarrow> 'd tfs option" where
  "tfs_P s = do { v \<leftarrow> sem_P (t_lock s); Some (s\<lparr>t_lock := v\<rparr>) }"

definition tfs_V :: "'d tfs \<Rightarrow> 'd tfs" where
  "tfs_V s = s\<lparr>t_lock := sem_V (t_lock s)\<rparr>"

text \<open>The requests to the disk, one per buffer.\<close>

definition load_md :: "'d gbd \<Rightarrow> u32 \<Rightarrow> 'd tfs \<Rightarrow> (int \<times> 'd tfs) option" where
  "load_md G b s = do {
     (r, m, d) \<leftarrow> read_block G b (t_md s) (t_disk s);
     Some (r, s\<lparr>t_disk := d, t_md := m\<rparr>)
   }"

definition load_bat :: "'d gbd \<Rightarrow> u32 \<Rightarrow> 'd tfs \<Rightarrow> (int \<times> 'd tfs) option" where
  "load_bat G b s = do {
     (r, m, d) \<leftarrow> read_block G b (t_bat s) (t_disk s);
     Some (r, s\<lparr>t_disk := d, t_bat := m\<rparr>)
   }"

definition load_inode :: "'d gbd \<Rightarrow> u32 \<Rightarrow> 'd tfs \<Rightarrow> (int \<times> 'd tfs) option" where
  "load_inode G b s = do {
     (r, m, d) \<leftarrow> read_block G b (t_inode s) (t_disk s);
     Some (r, s\<lparr>t_disk := d, t_inode := m\<rparr>)
   }"

definition store_md :: "'d gbd \<Rightarrow> u32 \<Rightarrow> 'd tfs \<Rightarrow> (int \<times> 'd tfs) option" where
  "store_md G b s = do {
     (r, d) \<leftarrow> write_block G b (t_md s) (t_disk s);
     Some (r, s\<lparr>t_disk := d\<rparr>)
   }"

definition store_bat :: "'d gbd \<Rightarrow> u32 \<Rightarrow> 'd tfs \<Rightarrow> (int \<times> 'd tfs) option" where
  "store_bat G b s = do {
     (r, d) \<leftarrow> write_block G b (t_bat s) (t_disk s);
     Some (r, s\<lparr>t_disk := d\<rparr>)
   }"

definition store_inode :: "'d gbd \<Rightarrow> u32 \<Rightarrow> 'd tfs \<Rightarrow> (int \<times> 'd tfs) option" where
  "store_inode G b s = do {
     (r, d) \<leftarrow> write_block G b (t_inode s) (t_disk s);
     Some (r, s\<lparr>t_disk := d\<rparr>)
   }"

section \<open>Mounting\<close>

text \<open>
  The page obtained from the page pool first receives the header block; then \<open>fs_t\<close> (68
  bytes, its volume name at offset 4), \<open>tfs_t\<close> (24 bytes) and the buffers are laid over it.
\<close>

definition tfs_init :: "'d gbd \<Rightarrow> kres \<Rightarrow> 'd \<Rightarrow> ('d tfs option \<times> kres \<times> 'd) option" where
  "tfs_init G k d =
     (if block_size G d \<noteq> 512 then Some (None, k, d)
      else if kr_sems k = 0 then Some (None, k, d)
      else let k = k\<lparr>kr_sems := kr_sems k - 1\<rparr> in
        if kr_pages k = 0 then Some (None, k\<lparr>kr_sems := kr_sems k + 1\<rparr>, d)
        else let k = k\<lparr>kr_pages := kr_pages k - 1\<rparr> in do {
          (r, header, d) \<leftarrow> read_block G 0 (take BLOCK (kr_page k)) d;
          if r = 0 then Some (None, k\<lparr>kr_sems := kr_sems k + 1, kr_pages := kr_pages k + 1\<rparr>, d)
          else do {
            magic \<leftarrow> rd32 header 0;
            if magic \<noteq> TFS_MAGIC
            then Some (None, k\<lparr>kr_sems := kr_sems k + 1, kr_pages := kr_pages k + 1\<rparr>, d)
            else let page = header @ drop BLOCK (kr_page k) in do {
              name \<leftarrow> stringcopy (replicate 16 0) (drop 4 page) 16;
              volume \<leftarrow> stringcopy (take 16 (drop 4 page)) name VFS_NAME_LENGTH;
              Some (Some \<lparr>t_totalblocks = min (total_blocks G d) (8 * 512), t_disk = d, t_lock = 1,
                t_inode = take BLOCK (drop 92 page), t_bat = take BLOCK (drop (92 + BLOCK) page),
                t_md = take BLOCK (drop (92 + 2 * BLOCK) page), t_volume = volume\<rparr>, k, d)
            }
          }
        })"

definition tfs_unmount :: "'d tfs \<Rightarrow> kres \<Rightarrow> (int \<times> kres \<times> 'd) option" where
  "tfs_unmount s k = do {
     s \<leftarrow> tfs_P s;
     Some (VFS_OK, k\<lparr>kr_sems := kr_sems k + 1, kr_pages := kr_pages k + 1\<rparr>, t_disk s)
   }"

section \<open>Opening and closing\<close>

definition tfs_open :: "'d gbd \<Rightarrow> mem \<Rightarrow> 'd tfs \<Rightarrow> (int \<times> 'd tfs) option" where
  "tfs_open G filename s = do {
     s \<leftarrow> tfs_P s;
     (r, s) \<leftarrow> load_md G 2 s;
     if r = 0 then Some (VFS_ERROR, tfs_V s)
     else do {
       f \<leftarrow> dir_find (t_md s) filename [0..<MAX_FILES];
       case f of
         Some i \<Rightarrow> do { inode \<leftarrow> rd32 (t_md s) (20 * i); Some (sint inode, tfs_V s) }
       | None \<Rightarrow> Some (VFS_NOT_FOUND, tfs_V s)
     }
   }"

definition tfs_close :: "int \<Rightarrow> 'd tfs \<Rightarrow> (int \<times> 'd tfs) option" where
  "tfs_close fileid s = Some (VFS_OK, s)"

section \<open>Creating and removing\<close>

text \<open>The allocation loop: block \<open>i\<close> of the inode for each \<open>i\<close>; \<open>False\<close> when the disk is full.\<close>

fun tfs_alloc :: "nat list \<Rightarrow> 'd tfs \<Rightarrow> (bool \<times> 'd tfs) option" where
  "tfs_alloc [] s = Some (True, s)"
| "tfs_alloc (i # is) s = do {
     (b, bat) \<leftarrow> bitmap_findnset (t_bat s) (sint (t_totalblocks s));
     inode \<leftarrow> wr32 (t_inode s) (4 + 4 * i) (word_of_int b);
     let s = s\<lparr>t_bat := bat, t_inode := inode\<rparr> in
       if b = - 1 then Some (False, s) else tfs_alloc is s
   }"

text \<open>The last loop of \<open>tfs_create\<close>: zero the reserved blocks, then give the lock back.\<close>

fun tfs_zero_blocks :: "'d gbd \<Rightarrow> nat list \<Rightarrow> 'd tfs \<Rightarrow> (int \<times> 'd tfs) option" where
  "tfs_zero_blocks G [] s = Some (VFS_OK, tfs_V s)"
| "tfs_zero_blocks G (i # is) s = do {
     b \<leftarrow> rd32 (t_inode s) (4 + 4 * i);
     (r, s) \<leftarrow> store_bat G b s;
     if r = 0 then Some (VFS_ERROR, tfs_V s) else tfs_zero_blocks G is s
   }"

definition tfs_create_blocks :: "'d gbd \<Rightarrow> nat \<Rightarrow> int \<Rightarrow> nat \<Rightarrow> 'd tfs \<Rightarrow> (int \<times> 'd tfs) option" where
  "tfs_create_blocks G index sz numblocks s = do {
     inode \<leftarrow> wr32 (t_inode s) 0 (word_of_int sz);
     (ok, s) \<leftarrow> tfs_alloc [0..<numblocks] (s\<lparr>t_inode := inode\<rparr>);
     if \<not> ok then Some (VFS_ERROR, tfs_V s)
     else do {
       inode \<leftarrow> for_each [numblocks..<127] (\<lambda>i m. wr32 m (4 + 4 * i) 0) (t_inode s);
       (r, s) \<leftarrow> store_bat G 1 (s\<lparr>t_inode := inode\<rparr>);
       if r = 0 then Some (VFS_ERROR, tfs_V s)
       else do {
         (r, s) \<leftarrow> store_md G 2 s;
         if r = 0 then Some (VFS_ERROR, tfs_V s)
         else do {
           b \<leftarrow> rd32 (t_md s) (20 * index);
           (r, s) \<leftarrow> store_inode G b s;
           if r = 0 then Some (VFS_ERROR, tfs_V s)
           else do {
             bat \<leftarrow> memoryset 0 0 512 (t_bat s);
             tfs_zero_blocks G [0..<numblocks] (s\<lparr>t_bat := bat\<rparr>)
           }
         }
       }
     }
   }"

definition tfs_create :: "'d gbd \<Rightarrow> mem \<Rightarrow> int \<Rightarrow> 'd tfs \<Rightarrow> (int \<times> 'd tfs) option" where
  "tfs_create G filename sz s = do {
     n \<leftarrow> ck (sz + 512);
     let numblocks = (word_of_int (cdiv (n - 1) 512) :: u32) in do {
       s \<leftarrow> tfs_P s;
       if numblocks > 127 then Some (VFS_ERROR, tfs_V s)
       else do {
         (r, s) \<leftarrow> load_md G 2 s;
         if r = 0 then Some (VFS_ERROR, tfs_V s)
         else do {
           slot \<leftarrow> dir_slot (t_md s) filename None [0..<MAX_FILES];
           case slot of
             None \<Rightarrow> Some (VFS_ERROR, tfs_V s)
           | Some None \<Rightarrow> Some (VFS_ERROR, tfs_V s)
           | Some (Some index) \<Rightarrow> do {
               md \<leftarrow> dir_set_name (t_md s) index filename;
               (r, s) \<leftarrow> load_bat G 1 (s\<lparr>t_md := md\<rparr>);
               if r = 0 then Some (VFS_ERROR, tfs_V s)
               else do {
                 (b, bat) \<leftarrow> bitmap_findnset (t_bat s) (sint (t_totalblocks s));
                 md \<leftarrow> wr32 (t_md s) (20 * index) (word_of_int b);
                 let s = s\<lparr>t_bat := bat, t_md := md\<rparr> in
                   if b = - 1 then Some (VFS_ERROR, tfs_V s)
                   else tfs_create_blocks G index sz (unat numblocks) s
               }
             }
         }
       }
     }
   }"

text \<open>
  Releasing the blocks of an inode.  The condition of the source reads \<open>block[i]\<close> before
  it tests \<open>i\<close>, so for a file of 127 blocks it also reads the word behind the inode
  buffer, which is the first word of the allocation buffer.
\<close>

fun tfs_release :: "mem \<Rightarrow> nat list \<Rightarrow> mem \<Rightarrow> mem option" where
  "tfs_release inode [] bat = do { _ \<leftarrow> rd32 bat 0; Some bat }"
| "tfs_release inode (i # is) bat = do {
     b \<leftarrow> rd32 inode (4 + 4 * i);
     if b = 0 then Some bat
     else do { bat \<leftarrow> bitmap_set bat (sint b) 0; tfs_release inode is bat }
   }"

definition tfs_remove :: "'d gbd \<Rightarrow> mem \<Rightarrow> 'd tfs \<Rightarrow> (int \<times> 'd tfs) option" where
  "tfs_remove G filename s = do {
     s \<leftarrow> tfs_P s;
     (r, s) \<leftarrow> load_md G 2 s;
     if r = 0 then Some (VFS_ERROR, tfs_V s)
     else do {
       f \<leftarrow> dir_find (t_md s) filename [0..<MAX_FILES];
       case f of None \<Rightarrow> Some (VFS_NOT_FOUND, tfs_V s)
       | Some index \<Rightarrow> do {
           (r, s) \<leftarrow> load_bat G 1 s;
           if r = 0 then Some (VFS_ERROR, tfs_V s)
           else do {
             b \<leftarrow> rd32 (t_md s) (20 * index);
             (r, s) \<leftarrow> load_inode G b s;
             if r = 0 then Some (VFS_ERROR, tfs_V s)
             else do {
               bat \<leftarrow> bitmap_set (t_bat s) (sint b) 0;
               bat \<leftarrow> tfs_release (t_inode s) [0..<127] bat;
               md \<leftarrow> wr32 (t_md s) (20 * index) 0;
               md \<leftarrow> wr8 md (20 * index + 4) 0;
               (r, s) \<leftarrow> store_bat G 1 (s\<lparr>t_bat := bat, t_md := md\<rparr>);
               if r = 0 then Some (VFS_ERROR, tfs_V s)
               else do {
                 (r, s) \<leftarrow> store_md G 2 s;
                 if r = 0 then Some (VFS_ERROR, tfs_V s) else Some (VFS_OK, tfs_V s)
               }
             }
           }
         }
     }
   }"

section \<open>Reading and writing\<close>

text \<open>
  The caller's buffer is the byte list from its pointer on; \<open>buffer + read\<close> of the source is
  offset \<open>read\<close> here.  The loops run over the blocks after the first, and end with the
  release of the lock.
\<close>

fun tfs_read_loop ::
    "'d gbd \<Rightarrow> int list \<Rightarrow> int \<Rightarrow> int \<Rightarrow> int \<Rightarrow> mem \<Rightarrow> 'd tfs \<Rightarrow> (int \<times> mem \<times> 'd tfs) option" where
  "tfs_read_loop G [] b2 bufsize rd buffer s = Some (rd, buffer, tfs_V s)"
| "tfs_read_loop G (b1 # bs) b2 bufsize rd buffer s = do {
     b \<leftarrow> rd32 (t_inode s) (4 + 4 * nat b1);
     (r, s) \<leftarrow> load_bat G b s;
     if r = 0 then Some (VFS_ERROR, buffer, tfs_V s)
     else if b1 = b2 then do {
       buffer \<leftarrow> blit (nat (bufsize - rd)) buffer (nat rd) (t_bat s) 0;
       tfs_read_loop G bs b2 bufsize (rd + (bufsize - rd)) buffer s
     }
     else do {
       buffer \<leftarrow> blit 512 buffer (nat rd) (t_bat s) 0;
       tfs_read_loop G bs b2 bufsize (rd + 512) buffer s
     }
   }"

definition tfs_read ::
    "'d gbd \<Rightarrow> int \<Rightarrow> mem \<Rightarrow> int \<Rightarrow> int \<Rightarrow> 'd tfs \<Rightarrow> (int \<times> mem \<times> 'd tfs) option" where
  "tfs_read G fileid buffer bufsize offset s = do {
     s \<leftarrow> tfs_P s;
     if fileid < 2 \<or> fileid > sint (t_totalblocks s) then Some (VFS_ERROR, buffer, tfs_V s)
     else do {
       (r, s) \<leftarrow> load_inode G (word_of_int fileid) s;
       if r = 0 then Some (VFS_ERROR, buffer, tfs_V s)
       else do {
         filesize \<leftarrow> rd32 (t_inode s) 0;
         if offset < 0 \<or> offset > sint filesize then Some (VFS_ERROR, buffer, tfs_V s)
         else let bufsize = min bufsize (sint filesize - offset) in
           if bufsize = 0 then Some (0, buffer, tfs_V s)
           else let b1 = cdiv offset 512; b2 = cdiv (offset + bufsize - 1) 512 in do {
             b \<leftarrow> rd32 (t_inode s) (4 + 4 * nat b1);
             (r, s) \<leftarrow> load_bat G b s;
             if r = 0 then Some (VFS_ERROR, buffer, tfs_V s)
             else let rd = min (512 - cmod offset 512) bufsize in do {
               buffer \<leftarrow> blit (nat rd) buffer 0 (t_bat s) (nat (cmod offset 512));
               tfs_read_loop G [b1 + 1..b2] b2 bufsize rd buffer s
             }
           }
       }
     }
   }"

fun tfs_write_loop ::
    "'d gbd \<Rightarrow> int list \<Rightarrow> int \<Rightarrow> int \<Rightarrow> int \<Rightarrow> mem \<Rightarrow> 'd tfs \<Rightarrow> (int \<times> 'd tfs) option" where
  "tfs_write_loop G [] b2 datasize written buffer s = Some (written, tfs_V s)"
| "tfs_write_loop G (b1 # bs) b2 datasize written buffer s = do {
     b \<leftarrow> rd32 (t_inode s) (4 + 4 * nat b1);
     (r, s) \<leftarrow> (if b1 = b2 \<and> datasize - written < 512 then load_bat G b s else Some (1, s));
     if r = 0 then Some (VFS_ERROR, tfs_V s)
     else let n = (if b1 = b2 then datasize - written else 512) in do {
       bat \<leftarrow> blit (nat n) (t_bat s) 0 buffer (nat written);
       (r, s) \<leftarrow> store_bat G b (s\<lparr>t_bat := bat\<rparr>);
       if r = 0 then Some (VFS_ERROR, tfs_V s)
       else tfs_write_loop G bs b2 datasize (written + n) buffer s
     }
   }"

definition tfs_write ::
    "'d gbd \<Rightarrow> int \<Rightarrow> mem \<Rightarrow> int \<Rightarrow> int \<Rightarrow> 'd tfs \<Rightarrow> (int \<times> 'd tfs) option" where
  "tfs_write G fileid buffer datasize offset s = do {
     s \<leftarrow> tfs_P s;
     if fileid < 2 \<or> fileid > sint (t_totalblocks s) then Some (VFS_ERROR, tfs_V s)
     else do {
       (r, s) \<leftarrow> load_inode G (word_of_int fileid) s;
       if r = 0 then Some (VFS_ERROR, tfs_V s)
       else do {
         filesize \<leftarrow> rd32 (t_inode s) 0;
         if offset < 0 \<or> offset > sint filesize then Some (VFS_ERROR, tfs_V s)
         else let datasize = min datasize (sint filesize - offset) in
           if datasize = 0 then Some (0, tfs_V s)
           else let b1 = cdiv offset 512; b2 = cdiv (offset + datasize - 1) 512;
                    written = min (512 - cmod offset 512) datasize in do {
             b \<leftarrow> rd32 (t_inode s) (4 + 4 * nat b1);
             (r, s) \<leftarrow> (if written < 512 then load_bat G b s else Some (1, s));
             if r = 0 then Some (VFS_ERROR, tfs_V s)
             else do {
               bat \<leftarrow> blit (nat written) (t_bat s) (nat (cmod offset 512)) buffer 0;
               (r, s) \<leftarrow> store_bat G b (s\<lparr>t_bat := bat\<rparr>);
               if r = 0 then Some (VFS_ERROR, tfs_V s)
               else tfs_write_loop G [b1 + 1..b2] b2 datasize written buffer s
             }
           }
       }
     }
   }"

section \<open>Queries\<close>

definition tfs_getfree :: "'d gbd \<Rightarrow> 'd tfs \<Rightarrow> (int \<times> 'd tfs) option" where
  "tfs_getfree G s = do {
     s \<leftarrow> tfs_P s;
     (r, s) \<leftarrow> load_bat G 1 s;
     if r = 0 then Some (VFS_ERROR, tfs_V s)
     else do {
       allocated \<leftarrow> bat_count (t_bat s) 0 [0..<unat (t_totalblocks s)];
       Some (sint ((t_totalblocks s - word_of_int allocated) * 512), tfs_V s)
     }
   }"

definition tfs_filecount :: "'d gbd \<Rightarrow> mem \<Rightarrow> 'd tfs \<Rightarrow> (int \<times> 'd tfs) option" where
  "tfs_filecount G dirname s = do {
     c \<leftarrow> stringcmp dirname [0];
     if c \<noteq> 0 then Some (- VFS_NOT_FOUND, s)
     else do {
       s \<leftarrow> tfs_P s;
       (r, s) \<leftarrow> load_md G 2 s;
       if r = 0 then Some (- VFS_ERROR, tfs_V s)
       else do {
         count \<leftarrow> dir_count (t_md s) 0 [0..<MAX_FILES];
         Some (count, tfs_V s)
       }
     }
   }"

definition tfs_file :: "'d gbd \<Rightarrow> mem \<Rightarrow> int \<Rightarrow> mem \<Rightarrow> 'd tfs \<Rightarrow> (int \<times> mem \<times> 'd tfs) option" where
  "tfs_file G dirname idx buffer s = do {
     c \<leftarrow> stringcmp dirname [0];
     if c \<noteq> 0 \<or> idx < 0 then Some (VFS_ERROR, buffer, s)
     else do {
       s \<leftarrow> tfs_P s;
       (r, s) \<leftarrow> load_md G 2 s;
       if r = 0 then Some (VFS_ERROR, buffer, tfs_V s)
       else do {
         f \<leftarrow> dir_nth (t_md s) idx 0 [0..<MAX_FILES];
         case f of
           Some i \<Rightarrow> do {
             buffer \<leftarrow> stringcopy buffer (dir_name (t_md s) i) 16;
             Some (VFS_ERROR, buffer, tfs_V s)
           }
         | None \<Rightarrow> Some (VFS_ERROR, buffer, tfs_V s)
       }
     }
   }"

definition tfs_mkdir :: "mem \<Rightarrow> 'd tfs \<Rightarrow> (int \<times> 'd tfs) option" where
  "tfs_mkdir dirname s = Some (VFS_NOT_SUPPORTED, s)"

definition tfs_rmdir :: "mem \<Rightarrow> 'd tfs \<Rightarrow> (int \<times> 'd tfs) option" where
  "tfs_rmdir dirname s = Some (VFS_NOT_SUPPORTED, s)"

section \<open>The lock\<close>

lemmas tfs_io_defs = load_md_def load_bat_def load_inode_def store_md_def store_bat_def store_inode_def

lemma wlp_tfs_P [wp_simps]: "wlp (tfs_P s) Q = (0 < t_lock s \<longrightarrow> Q (s\<lparr>t_lock := t_lock s - 1\<rparr>))"
  by (simp add: tfs_P_def sem_P_def)

lemma t_lock_V [simp]: "t_lock (tfs_V s) = t_lock s + 1"
  by (simp add: tfs_V_def sem_V_def)


lemma tfs_alloc_lock: "t_lock s = L \<Longrightarrow> wlp (tfs_alloc is s) (\<lambda>(ok, s'). t_lock s' = L)"
  by (induction "is" arbitrary: s) (auto simp: wp_simps wlp_calls Let_def)

lemma tfs_zero_lock: "t_lock s + 1 = L \<Longrightarrow> wlp (tfs_zero_blocks G is s) (\<lambda>(r, s'). t_lock s' = L)"
  by (induction "is" arbitrary: s) (auto simp: wp_simps wlp_calls tfs_io_defs)

lemma tfs_read_loop_lock: "t_lock s + 1 = L \<Longrightarrow> wlp (tfs_read_loop G bs b2 n rd buf s) (\<lambda>(r, b, s'). t_lock s' = L)"
  by (induction bs arbitrary: s rd buf)
    (auto simp: wp_simps wlp_calls tfs_io_defs)

lemma tfs_write_loop_lock: "t_lock s + 1 = L \<Longrightarrow> wlp (tfs_write_loop G bs b2 n rd buf s) (\<lambda>(r, s'). t_lock s' = L)"
  by (induction bs arbitrary: s rd)
    (auto simp: wp_simps wlp_calls tfs_io_defs Let_def)

lemma tfs_create_lock: "wlp (tfs_create G f n s) (\<lambda>(r, s'). t_lock s' = t_lock s)"
  by (auto simp: tfs_create_def tfs_create_blocks_def wp_simps wlp_calls Let_def tfs_io_defs 
    intro!: tfs_zero_lock wlp_mono [OF tfs_alloc_lock] split: option.split)

lemma tfs_remove_lock: "wlp (tfs_remove G f s) (\<lambda>(r, s'). t_lock s' = t_lock s)"
  by (auto simp: tfs_remove_def wp_simps wlp_calls Let_def tfs_io_defs wlp_iff [of "tfs_release i is b" for i "is" b] split: option.split)

lemma tfs_read_lock: "wlp (tfs_read G fd buf n off s) (\<lambda>(r, b, s'). t_lock s' = t_lock s)"
  by (auto simp: tfs_read_def wp_simps wlp_calls Let_def tfs_io_defs intro!: tfs_read_loop_lock split: option.split)

lemma tfs_write_lock: "wlp (tfs_write G fd buf n off s) (\<lambda>(r, s'). t_lock s' = t_lock s)"
  by (auto simp: tfs_write_def wp_simps wlp_calls tfs_io_defs intro!: wlp_Let_any tfs_write_loop_lock)

lemma tfs_open_lock: "wlp (tfs_open G f s) (\<lambda>(r, s'). t_lock s' = t_lock s)"
  by (auto simp: tfs_open_def wp_simps wlp_calls tfs_io_defs split: option.split)

lemma tfs_getfree_lock: "wlp (tfs_getfree G s) (\<lambda>(r, s'). t_lock s' = t_lock s)"
  by (auto simp: tfs_getfree_def wp_simps wlp_calls tfs_io_defs split: option.split)

lemma tfs_filecount_lock: "wlp (tfs_filecount G f s) (\<lambda>(r, s'). t_lock s' = t_lock s)"
  by (auto simp: tfs_filecount_def wp_simps wlp_calls tfs_io_defs split: option.split)

lemma tfs_file_lock: "wlp (tfs_file G f i b s) (\<lambda>(r, buf, s'). t_lock s' = t_lock s)"
  by (auto simp: tfs_file_def wp_simps wlp_calls tfs_io_defs split: option.split)
end
