(* ===== verification/Tfs_Spec.thy ===== *)
theory Tfs_Spec
  imports Tfs
begin

text \<open>
  What the Trivial Filesystem promises: the disk represents a map from file names to
  contents, and each operation acts on that map.
\<close>

section \<open>Directory searches\<close>

lemma dir_find_eq:
  assumes "terminated f" and "\<And>i. i \<in> set is \<Longrightarrow> terminated (dir_name md i)"
  shows "dir_find md f is = Some (List.find (\<lambda>i. cstr (dir_name md i) = cstr f) is)"
  using assms(2)
proof (induction "is")
  case (Cons i "is")
  then obtain r where r: "stringcmp (dir_name md i) f = Some r"
    using stringcmp_total assms(1) by (meson list.set_intros(1))
  with Cons.prems have "r = 0 \<longleftrightarrow> cstr (dir_name md i) = cstr f"
    using stringcmp_zero_iff [of "dir_name md i" f] assms(1) by auto
  with Cons r show ?case by auto
qed simp

lemma dir_slot_exists:
  assumes "terminated f" and "\<And>i. i \<in> set is \<Longrightarrow> terminated (dir_name md i) \<and> 20 * i + 4 \<le> length md"
    and "\<exists>i \<in> set is. cstr (dir_name md i) = cstr f"
  shows "dir_slot md f x is = Some None"
  using assms(2,3)
proof (induction "is" arbitrary: x)
  case (Cons i "is")
  then obtain r where r: "stringcmp (dir_name md i) f = Some r"
    using stringcmp_total assms(1) by (meson list.set_intros(1))
  with Cons.prems have "r = 0 \<longleftrightarrow> cstr (dir_name md i) = cstr f"
    using stringcmp_zero_iff [of "dir_name md i" f] assms(1) by auto
  with Cons r show ?case by (auto simp: rd32_def)
qed simp

lemma dir_slot_new:
  assumes "terminated f" and "\<And>i. i \<in> set is \<Longrightarrow> terminated (dir_name md i) \<and> 20 * i + 4 \<le> length md"
    and "\<And>i. i \<in> set is \<Longrightarrow> cstr (dir_name md i) \<noteq> cstr f"
  shows "\<exists>y. dir_slot md f x is = Some (Some y) \<and>
    (y = x \<and> (\<forall>i \<in> set is. dir_inode md i \<noteq> 0) \<or> (\<exists>i \<in> set is. y = Some i \<and> dir_inode md i = 0))"
  using assms(2,3)
proof (induction "is" arbitrary: x)
  case (Cons i "is")
  then obtain r where r: "stringcmp (dir_name md i) f = Some r"
    using stringcmp_total assms(1) by (meson list.set_intros(1))
  with Cons.prems have "r \<noteq> 0"
    using stringcmp_zero_iff [of "dir_name md i" f] assms(1) by auto
  with Cons.prems r have "dir_slot md f x (i # is) =
      dir_slot md f (if dir_inode md i = 0 then Some i else x) is"
    by (simp add: rd32_def dir_inode_def)
  moreover have "\<exists>y. dir_slot md f (if dir_inode md i = 0 then Some i else x) is = Some (Some y) \<and>
      (y = (if dir_inode md i = 0 then Some i else x) \<and> (\<forall>i \<in> set is. dir_inode md i \<noteq> 0) \<or>
       (\<exists>i \<in> set is. y = Some i \<and> dir_inode md i = 0))"
    by (rule Cons.IH) (use Cons.prems in auto)
  ultimately show ?case by (auto split: if_splits)
qed simp

section \<open>The file system on the disk\<close>

text \<open>\<open>D\<close> is the content of the disk, block by block; \<open>i\<close> a directory slot.\<close>

type_synonym content = "nat \<Rightarrow> mem"

definition tfs_used :: "content \<Rightarrow> nat \<Rightarrow> bool" where
  "tfs_used D i \<longleftrightarrow> dir_inode (D 2) i \<noteq> 0"

definition tfs_name :: "content \<Rightarrow> nat \<Rightarrow> mem" where
  "tfs_name D i = cstr (dir_name (D 2) i)"

definition tfs_ino :: "content \<Rightarrow> nat \<Rightarrow> nat" where
  "tfs_ino D i = unat (dir_inode (D 2) i)"

definition ino_size :: "mem \<Rightarrow> nat" where
  "ino_size inode = unat (get32 inode 0)"

definition ino_block :: "mem \<Rightarrow> nat \<Rightarrow> nat" where
  "ino_block inode k = unat (get32 inode (4 + 4 * k))"

definition nblocks :: "nat \<Rightarrow> nat" where
  "nblocks n = (n + 511) div 512"

definition ino_blocks :: "mem \<Rightarrow> nat list" where
  "ino_blocks inode = map (ino_block inode) [0..<nblocks (ino_size inode)]"

definition file_data :: "content \<Rightarrow> nat list \<Rightarrow> mem" where
  "file_data D bs = concat (map D bs)"

definition tfs_content :: "content \<Rightarrow> nat \<Rightarrow> mem" where
  "tfs_content D i = (let inode = D (tfs_ino D i) in
     take (ino_size inode) (file_data D (ino_blocks inode)))"

definition tfs_owned :: "content \<Rightarrow> nat \<Rightarrow> nat list" where
  "tfs_owned D i = tfs_ino D i # ino_blocks (D (tfs_ino D i))"

text \<open>The abstract file system: a map from file names to contents.\<close>

definition tfs_find :: "content \<Rightarrow> mem \<Rightarrow> nat option" where
  "tfs_find D n = List.find (\<lambda>i. tfs_used D i \<and> tfs_name D i = n) [0..<MAX_FILES]"

definition tfs_files :: "content \<Rightarrow> mem \<rightharpoonup> mem" where
  "tfs_files D n = map_option (tfs_content D) (tfs_find D n)"

text \<open>
  A consistent disk of \<open>T\<close> blocks: every slot has a terminated name, used slots have
  different non-empty names and unused ones the empty name; a file's inode and blocks
  are allocated blocks behind the three system blocks, no block is owned twice, and the
  unused block entries of an inode are zero.
\<close>

definition tfs_inode_ok :: "content \<Rightarrow> nat \<Rightarrow> nat \<Rightarrow> bool" where
  "tfs_inode_ok D T i \<longleftrightarrow>
     ino_size (D (tfs_ino D i)) \<le> 65024 \<and>
     (\<forall>b \<in> set (tfs_owned D i). 3 \<le> b \<and> b < T \<and> bm_bit (D 1) b) \<and>
     distinct (tfs_owned D i) \<and>
     (\<forall>k \<in> {nblocks (ino_size (D (tfs_ino D i)))..<127}. ino_block (D (tfs_ino D i)) k = 0)"

definition tfs_names_ok :: "content \<Rightarrow> bool" where
  "tfs_names_ok D \<longleftrightarrow> (\<forall>i<MAX_FILES. terminated (take 16 (dir_name (D 2) i)) \<and>
     (tfs_used D i \<longleftrightarrow> tfs_name D i \<noteq> []))"

definition tfs_apart :: "content \<Rightarrow> bool" where
  "tfs_apart D \<longleftrightarrow> (\<forall>i<MAX_FILES. \<forall>j<MAX_FILES. tfs_used D i \<longrightarrow> tfs_used D j \<longrightarrow> i \<noteq> j \<longrightarrow>
     tfs_name D i \<noteq> tfs_name D j \<and> set (tfs_owned D i) \<inter> set (tfs_owned D j) = {})"

definition tfs_system_ok :: "content \<Rightarrow> nat \<Rightarrow> bool" where
  "tfs_system_ok D T \<longleftrightarrow> 3 \<le> T \<and> T \<le> 4096 \<and> (\<forall>k<T. length (D k) = BLOCK) \<and> (\<forall>k<3. bm_bit (D 1) k)"

definition tfs_wf :: "content \<Rightarrow> nat \<Rightarrow> bool" where
  "tfs_wf D T \<longleftrightarrow> tfs_system_ok D T \<and> tfs_names_ok D \<and>
     (\<forall>i<MAX_FILES. tfs_used D i \<longrightarrow> tfs_inode_ok D T i) \<and> tfs_apart D"

lemma terminated_take: "terminated (take n m) \<Longrightarrow> terminated m"
  by (auto simp: terminated_def dest: in_set_takeD)

lemma tfs_wfD:
  assumes "tfs_wf D T"
  shows "tfs_system_ok D T" "tfs_names_ok D" "tfs_apart D"
    "i < MAX_FILES \<Longrightarrow> tfs_used D i \<Longrightarrow> tfs_inode_ok D T i"
  using assms by (simp_all add: tfs_wf_def)

lemma tfs_systemD:
  assumes "tfs_wf D T"
  shows "3 \<le> T" "T \<le> 4096" "k < T \<Longrightarrow> length (D k) = BLOCK" "k < 3 \<Longrightarrow> bm_bit (D 1) k"
  using tfs_wfD(1) [OF assms] by (simp_all add: tfs_system_ok_def)

lemma tfs_namesD:
  assumes "tfs_wf D T" and "i < MAX_FILES"
  shows "terminated (take 16 (dir_name (D 2) i))" "terminated (dir_name (D 2) i)"
    "tfs_used D i \<longleftrightarrow> tfs_name D i \<noteq> []"
  using tfs_wfD(2) [OF assms(1)] assms(2) terminated_take [of 16 "dir_name (D 2) i"]
  by (simp_all add: tfs_names_ok_def)

lemma tfs_apartD:
  assumes "tfs_wf D T" and "i < MAX_FILES" and "j < MAX_FILES" and "tfs_used D i" and "tfs_used D j"
  shows "tfs_name D i = tfs_name D j \<Longrightarrow> i = j"
    "b \<in> set (tfs_owned D i) \<Longrightarrow> b \<in> set (tfs_owned D j) \<Longrightarrow> i = j"
  using tfs_wfD(3) [OF assms(1), unfolded tfs_apart_def, rule_format, OF assms(2-5)] by blast+

lemma find_upt_iff:
  assumes "\<And>i j. i < n \<Longrightarrow> j < n \<Longrightarrow> P i \<Longrightarrow> P j \<Longrightarrow> i = j"
  shows "List.find P [0..<n] = Some i \<longleftrightarrow> i < n \<and> P i"
proof
  show "List.find P [0..<n] = Some i \<Longrightarrow> i < n \<and> P i"
    by (auto simp: find_Some_iff)
next
  assume i: "i < n \<and> P i"
  have "\<not> P j" if "j < i" for j
    using assms [of j i] that i by linarith
  with i show "List.find P [0..<n] = Some i"
    unfolding find_Some_iff by (intro exI [of _ i]) simp
qed

lemma find_upt_None: "List.find P [0..<n] = None \<longleftrightarrow> (\<forall>i<n. \<not> P i)"
  by (auto simp: find_None_iff)

lemma tfs_find_Some:
  assumes "tfs_wf D T"
  shows "tfs_find D n = Some i \<longleftrightarrow> i < MAX_FILES \<and> tfs_used D i \<and> tfs_name D i = n"
  unfolding tfs_find_def by (rule find_upt_iff) (use tfs_apartD(1) [OF assms] in blast)

lemma tfs_find_None:
  "tfs_find D n = None \<longleftrightarrow> (\<forall>i<MAX_FILES. \<not> (tfs_used D i \<and> tfs_name D i = n))"
  unfolding tfs_find_def find_upt_None ..

lemma dir_find_tfs:
  assumes "tfs_wf D T" and "terminated f" and "cstr f \<noteq> []"
  shows "dir_find (D 2) f [0..<MAX_FILES] = Some (tfs_find D (cstr f))"
proof -
  have "List.find (\<lambda>i. cstr (dir_name (D 2) i) = cstr f) [0..<MAX_FILES] = tfs_find D (cstr f)"
    unfolding tfs_find_def
  proof (rule find_cong [OF refl])
    fix i assume "i \<in> set [0..<MAX_FILES]"
    then show "(cstr (dir_name (D 2) i) = cstr f) = (tfs_used D i \<and> tfs_name D i = cstr f)"
      using tfs_namesD(3) [OF assms(1), of i] assms(3) by (auto simp: tfs_name_def)
  qed
  then show ?thesis
    using dir_find_eq [OF assms(2), of "[0..<MAX_FILES]" "D 2"] tfs_namesD(2) [OF assms(1)]
    by (simp only: set_upt atLeastLessThan_iff)
qed

section \<open>The operations on a block device\<close>

text \<open>The driver's state between two operations: disk content \<open>D\<close>, lock value \<open>L\<close>.\<close>

definition tfs_at :: "('d \<Rightarrow> bool) \<Rightarrow> ('d \<Rightarrow> content) \<Rightarrow> content \<Rightarrow> u32 \<Rightarrow> int \<Rightarrow> 'd tfs \<Rightarrow> bool" where
  "tfs_at ready blk D tb L s \<longleftrightarrow> ready (t_disk s) \<and> blk (t_disk s) = D \<and> t_totalblocks s = tb \<and>
     t_lock s = L \<and> length (t_inode s) = BLOCK \<and> length (t_bat s) = BLOCK \<and> length (t_md s) = BLOCK"

lemma tfs_at_V [simp]: "tfs_at ready blk D tb L (tfs_V s) = tfs_at ready blk D tb (L - 1) s"
  by (auto simp: tfs_at_def tfs_V_def sem_V_def)

lemma wp_tfs_P: "tfs_at ready blk D tb L s \<Longrightarrow> 0 < L \<Longrightarrow>
    (\<And>s. tfs_at ready blk D tb (L - 1) s \<Longrightarrow> Q s) \<Longrightarrow> wp (tfs_P s) Q"
  by (simp add: tfs_P_def sem_P_def tfs_at_def)

lemma dir_inode_rd: "i < MAX_FILES \<Longrightarrow> length md = BLOCK \<Longrightarrow> rd32 md (20 * i) = Some (dir_inode md i)"
  by (simp add: rd32_def dir_inode_def)

lemma wp_bindI: "wp m (\<lambda>x. wp (f x) Q) \<Longrightarrow> wp (Option.bind m f) Q"
  by (simp add: wp_bind)

lemma tfs_ino_less:
  assumes "tfs_wf D T" and "i < MAX_FILES" and "tfs_used D i"
  shows "3 \<le> tfs_ino D i" "tfs_ino D i < T"
  using tfs_wfD(4) [OF assms] by (simp_all add: tfs_inode_ok_def tfs_owned_def)

lemma tfs_system_len:
  assumes "tfs_wf D T"
  shows "length (D 1) = BLOCK" "length (D (Suc 0)) = BLOCK" "length (D 2) = BLOCK"
  using tfs_systemD(1,3) [OF assms] by simp_all

context block_device
begin

lemma wp_load_md:
  assumes "tfs_at ready blk D tb L s" and "unat b < nblk"
    and "\<And>s'. tfs_at ready blk D tb L s' \<Longrightarrow> t_md s' = D (unat b) \<Longrightarrow> t_bat s' = t_bat s \<Longrightarrow>
      t_inode s' = t_inode s \<Longrightarrow> Q (1, s')"
  shows "wp (load_md G b s) Q"
  unfolding load_md_def wp_bind
  by (rule wp_read) (use assms blk_length in \<open>auto simp: tfs_at_def\<close>)

lemma wp_load_bat:
  assumes "tfs_at ready blk D tb L s" and "unat b < nblk"
    and "\<And>s'. tfs_at ready blk D tb L s' \<Longrightarrow> t_bat s' = D (unat b) \<Longrightarrow> t_md s' = t_md s \<Longrightarrow>
      t_inode s' = t_inode s \<Longrightarrow> Q (1, s')"
  shows "wp (load_bat G b s) Q"
  unfolding load_bat_def wp_bind
  by (rule wp_read) (use assms blk_length in \<open>auto simp: tfs_at_def\<close>)

lemma wp_load_inode:
  assumes "tfs_at ready blk D tb L s" and "unat b < nblk"
    and "\<And>s'. tfs_at ready blk D tb L s' \<Longrightarrow> t_inode s' = D (unat b) \<Longrightarrow> t_md s' = t_md s \<Longrightarrow>
      t_bat s' = t_bat s \<Longrightarrow> Q (1, s')"
  shows "wp (load_inode G b s) Q"
  unfolding load_inode_def wp_bind
  by (rule wp_read) (use assms blk_length in \<open>auto simp: tfs_at_def\<close>)

lemma wp_store_md:
  assumes "tfs_at ready blk D tb L s" and "unat b < nblk"
    and "\<And>s'. tfs_at ready blk (D(unat b := t_md s)) tb L s' \<Longrightarrow> t_md s' = t_md s \<Longrightarrow>
      t_bat s' = t_bat s \<Longrightarrow> t_inode s' = t_inode s \<Longrightarrow> Q (1, s')"
  shows "wp (store_md G b s) Q"
  unfolding store_md_def wp_bind
  by (rule wp_write) (use assms in \<open>auto simp: tfs_at_def\<close>)

lemma wp_store_bat:
  assumes "tfs_at ready blk D tb L s" and "unat b < nblk"
    and "\<And>s'. tfs_at ready blk (D(unat b := t_bat s)) tb L s' \<Longrightarrow> t_md s' = t_md s \<Longrightarrow>
      t_bat s' = t_bat s \<Longrightarrow> t_inode s' = t_inode s \<Longrightarrow> Q (1, s')"
  shows "wp (store_bat G b s) Q"
  unfolding store_bat_def wp_bind
  by (rule wp_write) (use assms in \<open>auto simp: tfs_at_def\<close>)

lemma wp_store_inode:
  assumes "tfs_at ready blk D tb L s" and "unat b < nblk"
    and "\<And>s'. tfs_at ready blk (D(unat b := t_inode s)) tb L s' \<Longrightarrow> t_md s' = t_md s \<Longrightarrow>
      t_bat s' = t_bat s \<Longrightarrow> t_inode s' = t_inode s \<Longrightarrow> Q (1, s')"
  shows "wp (store_inode G b s) Q"
  unfolding store_inode_def wp_bind
  by (rule wp_write) (use assms in \<open>auto simp: tfs_at_def\<close>)

lemmas tfs_io = wp_load_md wp_load_bat wp_load_inode wp_store_md wp_store_bat wp_store_inode

lemma tfs_open_wp:
  assumes s: "tfs_at ready blk D tb L s" and "0 < L" and wf: "tfs_wf D (unat tb)" and nblk: "unat tb \<le> nblk"
    and f: "terminated f" "cstr f \<noteq> []"
  shows "wp (tfs_open G f s) (\<lambda>(r, s'). tfs_at ready blk D tb L s' \<and>
    r = (case tfs_find D (cstr f) of Some i \<Rightarrow> int (tfs_ino D i) | None \<Rightarrow> VFS_NOT_FOUND))"
proof -
  have 2: "unat (2::u32) < nblk"
    using tfs_systemD(1) [OF wf] nblk by simp
  have used: "i < MAX_FILES \<and> tfs_used D i" if "tfs_find D (cstr f) = Some i" for i
    using that tfs_find_Some [OF wf] by blast
  have ino: "sint (dir_inode (D 2) i) = int (tfs_ino D i)" if "tfs_find D (cstr f) = Some i" for i
    unfolding tfs_ino_def
    by (rule sint_small) (use tfs_ino_less [OF wf] used [OF that] tfs_systemD(2) [OF wf] in \<open>fastforce simp: tfs_ino_def\<close>)
  show ?thesis
    unfolding tfs_open_def
    apply (rule wp_bindI, rule wp_tfs_P [OF s \<open>0 < L\<close>])
    apply (rule wp_bindI, erule wp_load_md [OF _ 2])
    apply (simp add: dir_find_tfs [OF wf f])
    apply (cases "tfs_find D (cstr f)")
     apply simp
    apply (simp add: dir_inode_rd used tfs_system_len [OF wf] ino)
    done
qed

end

section \<open>Reading\<close>

text \<open>Block \<open>k\<close> of a sequence of bytes.\<close>

definition chunk :: "mem \<Rightarrow> nat \<Rightarrow> mem" where
  "chunk A k = take BLOCK (drop (BLOCK * k) A)"

lemma file_data_length:
  "(\<forall>b\<in>set bs. length (D b) = BLOCK) \<Longrightarrow> length (file_data D bs) = BLOCK * length bs"
  by (induction bs) (simp_all add: file_data_def)

lemma file_data_chunk:
  "(\<forall>b\<in>set bs. length (D b) = BLOCK) \<Longrightarrow> k < length bs \<Longrightarrow> chunk (file_data D bs) k = D (bs ! k)"
proof (induction bs arbitrary: k)
  case (Cons b bs)
  then show ?case
    by (cases k) (simp_all add: file_data_def chunk_def)
qed simp

lemma take_next_chunk:
  assumes "rd + o' = BLOCK * k" and "m \<le> BLOCK"
  shows "take (rd + m) (drop o' A) = take rd (drop o' A) @ take m (chunk A k)"
proof -
  have "drop rd (drop o' A) = drop (BLOCK * k) A"
    using assms(1) by simp
  then show ?thesis
    using assms(2) by (simp only: take_add chunk_def take_take min.absorb1)
qed

lemma filled_prefix:
  assumes "buf = take n X @ drop n buf0" and "n \<le> length X" and "n \<le> length buf0"
  shows "length buf = length buf0" "take n buf = take n X" "drop (n + m) buf = drop (n + m) buf0"
  using assms by (simp_all add: min_absorb2 add.commute)

lemma upto_int_Suc: "k \<le> j \<Longrightarrow> [int k..int j] = int k # [int (Suc k)..int j]"
  by (simp add: upto_rec1 add.commute)

lemma chunk_inside:
  assumes "o' mod BLOCK + w \<le> BLOCK"
  shows "take w (drop (o' mod BLOCK) (chunk A (o' div BLOCK))) = take w (drop o' A)"
proof -
  have "take w (drop (o' mod BLOCK) (chunk A (o' div BLOCK))) =
      take w (take (BLOCK - o' mod BLOCK) (drop (o' mod BLOCK + BLOCK * (o' div BLOCK)) A))"
    by (simp add: chunk_def drop_take)
  also have "o' mod BLOCK + BLOCK * (o' div BLOCK) = o'"
    by simp
  finally show ?thesis
    using assms by (simp add: min_absorb1)
qed

text \<open>The blocks of a file in a consistent file system.\<close>

lemma tfs_fileD:
  assumes "tfs_wf D T" and "i < MAX_FILES" and "tfs_used D i"
  defines "I \<equiv> D (tfs_ino D i)"
  shows "ino_size I \<le> 65024" "nblocks (ino_size I) \<le> 127" "length I = BLOCK"
    "length (ino_blocks I) = nblocks (ino_size I)" "ino_size I \<le> BLOCK * nblocks (ino_size I)"
    "length (file_data D (ino_blocks I)) = BLOCK * nblocks (ino_size I)"
    "j < nblocks (ino_size I) \<Longrightarrow> ino_block I j < T"
    "j < nblocks (ino_size I) \<Longrightarrow> D (ino_block I j) = chunk (file_data D (ino_blocks I)) j"
proof -
  note ok = tfs_wfD(4) [OF assms(1-3), unfolded tfs_inode_ok_def]
  show sz: "ino_size I \<le> 65024"
    using ok by (simp add: I_def)
  then show "nblocks (ino_size I) \<le> 127" "ino_size I \<le> BLOCK * nblocks (ino_size I)"
    by (simp_all add: nblocks_def)
  show "length I = BLOCK"
    unfolding I_def using tfs_systemD(3) [OF assms(1)] tfs_ino_less [OF assms(1-3)] by simp
  show len: "length (ino_blocks I) = nblocks (ino_size I)"
    by (simp add: ino_blocks_def)
  have blocks: "\<forall>b\<in>set (ino_blocks I). length (D b) = BLOCK"
    using ok tfs_systemD(3) [OF assms(1)] by (simp add: tfs_owned_def I_def)
  then show "length (file_data D (ino_blocks I)) = BLOCK * nblocks (ino_size I)"
    using file_data_length [OF blocks] len by simp
  assume j: "j < nblocks (ino_size I)"
  then have "ino_blocks I ! j = ino_block I j"
    by (simp add: ino_blocks_def)
  with j len show "D (ino_block I j) = chunk (file_data D (ino_blocks I)) j" "ino_block I j < T"
    using file_data_chunk [OF blocks, of j] ok nth_mem [of j "ino_blocks I"]
    by (simp_all add: tfs_owned_def I_def)
qed

lemma tfs_at_tb: "tfs_at ready blk D tb L s \<Longrightarrow> t_totalblocks s = tb"
  by (simp add: tfs_at_def)

context block_device
begin

lemma tfs_read_loop_wp:
  assumes "\<And>j. k \<le> j \<Longrightarrow> j \<le> b2 \<Longrightarrow> ino_block I j < nblk \<and> D (ino_block I j) = chunk A j"
    and "length I = BLOCK" and "b2 < 127" and "o' + N \<le> length A" and "N \<le> length buf0"
    and b2: "b2 = (o' + N - 1) div BLOCK" and "0 < N" and "o' div BLOCK < k" and "k \<le> b2 + 1"
    and "rd = min N (BLOCK * k - o')" and "buf = take rd (drop o' A) @ drop rd buf0"
    and "tfs_at ready blk D tb L s" and "t_inode s = I"
  shows "wp (tfs_read_loop G [int k..int b2] (int b2) (int N) (int rd) buf s)
    (\<lambda>(r, buf', s'). r = int N \<and> buf' = take N (drop o' A) @ drop N buf0 \<and> tfs_at ready blk D tb (L + 1) s')"
  using assms(1) assms(8-)
proof (induction "b2 + 1 - k" arbitrary: k s rd buf)
  case 0
  then have k: "k = b2 + 1"
    by linarith
  have "o' + N - 1 < BLOCK * b2 + BLOCK"
    using b2 by simp
  then have "rd = N"
    using 0(5) k \<open>0 < N\<close> by simp
  with k 0(6) 0(7) show ?case
    by simp
next
  case (Suc n)
  then have "k \<le> b2" by linarith
  note upto = upto_int_Suc [OF this]
  define m where "m = (if k = b2 then N - rd else BLOCK)"
  have b2': "BLOCK * b2 \<le> o' + N - 1" "o' + N - 1 < BLOCK * b2 + BLOCK"
    using b2 by simp_all
  have ok: "o' \<le> BLOCK * k"
    using \<open>o' div BLOCK < k\<close> by (simp add: div_less_iff_less_mult mult.commute)
  have kb: "k = b2 \<or> BLOCK * k + BLOCK \<le> BLOCK * b2"
    using \<open>k \<le> b2\<close> by linarith
  then have rd: "rd + o' = BLOCK * k" "rd \<le> N"
    using Suc.prems(4) b2' ok \<open>0 < N\<close> by linarith+
  have m: "rd + m = min N (BLOCK * Suc k - o')" "m \<le> BLOCK" "rd + m \<le> N"
    using rd kb ok b2' \<open>0 < N\<close> unfolding m_def by (cases "k = b2"; simp)+
  have blk_k: "ino_block I k < nblk" "D (ino_block I k) = chunk A k"
    using Suc.prems(1) [of k] \<open>k \<le> b2\<close> by auto
  then have len: "length (chunk A k) = BLOCK"
    using blk_length [of "t_disk s" "ino_block I k"] Suc.prems by (auto simp: tfs_at_def)
  have "rd \<le> length (drop o' A)" "rd \<le> length buf0"
    using rd(2) assms(4) \<open>N \<le> length buf0\<close> by simp_all
  note fill = filled_prefix [OF Suc.prems(5) this]
  have eq: "take rd buf @ take m (chunk A k) @ drop (rd + m) buf =
      take (rd + m) (drop o' A) @ drop (rd + m) buf0"
    by (simp add: fill take_next_chunk [OF rd(1) m(2)])
  have I: "rd32 I (4 + 4 * k) = Some (get32 I (4 + 4 * k))" "unat (get32 I (4 + 4 * k)) = ino_block I k"
    using \<open>length I = BLOCK\<close> \<open>k \<le> b2\<close> \<open>b2 < 127\<close> by (simp_all add: rd32_def ino_block_def)
  have IH: "wp (tfs_read_loop G [int (Suc k)..int b2] (int b2) (int N) (int (rd + m))
      (take rd buf @ take m (chunk A k) @ drop (rd + m) buf) s')
    (\<lambda>(r, buf', s'). r = int N \<and> buf' = take N (drop o' A) @ drop N buf0 \<and> tfs_at ready blk D tb (L + 1) s')"
    if "tfs_at ready blk D tb L s'" "t_inode s' = I" for s'
  proof (rule Suc.hyps(1))
    show "ino_block I j < nblk \<and> D (ino_block I j) = chunk A j" if "Suc k \<le> j" "j \<le> b2" for j
      using Suc.prems(1) that by simp
      show "n = b2 + 1 - Suc k" "o' div BLOCK < Suc k" "Suc k \<le> b2 + 1"
      using Suc.hyps(2) Suc.prems(2) \<open>k \<le> b2\<close> by simp_all
  qed (fact m(1) eq that)+
  have bl: "rd + m \<le> length buf"
    using m(3) \<open>N \<le> length buf0\<close> fill by simp
  have step: "tfs_read_loop G (int k # ks) (int b2) (int N) (int rd) buf s = do {
      b \<leftarrow> rd32 (t_inode s) (4 + 4 * k);
      (r, s) \<leftarrow> load_bat G b s;
      if r = 0 then Some (VFS_ERROR, buf, tfs_V s)
      else do {
        buf \<leftarrow> blit m buf rd (t_bat s) 0;
        tfs_read_loop G ks (int b2) (int N) (int (rd + m)) buf s
      }
    }" for ks
    using rd(2) of_nat_diff [OF rd(2), where 'a = int, symmetric] by (simp add: m_def del: of_nat_diff cong: if_cong)
  show ?case
    unfolding upto step
    apply (simp only: Suc.prems(7) I(1) Option.bind.simps)
    apply (rule wp_bindI, rule wp_load_bat [OF Suc.prems(6)], simp add: I blk_k)
    apply (simp add: wp_simps I blk_k len bl m(2))
    apply (use IH Suc.prems(7) in simp)
    done
qed


lemma tfs_read_wp:
  assumes s: "tfs_at ready blk D tb L s" and "0 < L" and wf: "tfs_wf D (unat tb)" and nblk: "unat tb \<le> nblk"
    and i: "i < MAX_FILES" "tfs_used D i" and n: "0 \<le> n" "nat n \<le> length buf"
  shows "wp (tfs_read G (int (tfs_ino D i)) buf n off s) (\<lambda>(r, buf', s'). tfs_at ready blk D tb L s' \<and>
    (if off < 0 \<or> int (length (tfs_content D i)) < off then r = VFS_ERROR \<and> buf' = buf
     else let data = take (nat n) (drop (nat off) (tfs_content D i)) in
       r = int (length data) \<and> buf' = data @ drop (length data) buf))"
proof -
  define I where "I = D (tfs_ino D i)"
  define A where "A = file_data D (ino_blocks I)"
  define sz where "sz = ino_size I"
  note fD = tfs_fileD [OF wf i, folded I_def, folded A_def sz_def]
  note ino = tfs_ino_less [OF wf i]
  have T: "unat tb \<le> 4096"
    using tfs_systemD [OF wf] by simp
  have content: "tfs_content D i = take sz A"
    by (simp add: tfs_content_def I_def A_def sz_def Let_def)
  have len: "length (tfs_content D i) = sz"
    using fD(5,6) by (simp add: content)
  have fid: "unat (word_of_nat (tfs_ino D i) :: u32) = tfs_ino D i"
    using ino T by (simp add: unat_of_nat take_bit_nat_eq_self)
  have size: "sint (get32 I 0) = int sz"
    using fD(1) by (simp add: sz_def ino_size_def)
  let ?Q = "\<lambda>(r, buf', s'). tfs_at ready blk D tb L s' \<and>
    (if off < 0 \<or> int (length (tfs_content D i)) < off then r = VFS_ERROR \<and> buf' = buf
     else let data = take (nat n) (drop (nat off) (tfs_content D i)) in
       r = int (length data) \<and> buf' = data @ drop (length data) buf)"
  have rd: "rd32 I 0 = Some (get32 I 0)"
    using fD(3) by (simp add: rd32_def)
  have fileid: "\<not> (int (tfs_ino D i) < 2 \<or> int (tfs_ino D i) > sint tb)"
    using ino T sint_small [of tb] by linarith
  show ?thesis
  proof (cases "off < 0 \<or> int sz < off")
    case True
    then show ?thesis
      unfolding tfs_read_def
      apply -
      apply (rule wp_bindI, rule wp_tfs_P [OF s \<open>0 < L\<close>])
      apply (frule tfs_at_tb, simp only: fileid if_False)
      apply (rule wp_bindI, erule wp_load_inode)
      using ino nblk apply (simp add: fid)
      apply (simp add: fid I_def [symmetric] rd size len)
      done
  next
    case False
    define o' where "o' = nat off"
    define N where "N = min (nat n) (sz - o')"
    have off: "off = int o'" "o' \<le> sz"
      using False unfolding o'_def by linarith+
    have N: "min n (int sz - off) = int N"
      using n off by (auto simp: N_def)
    have data: "take (nat n) (drop (nat off) (tfs_content D i)) = take N (drop o' A)"
      using off by (simp add: content o'_def [symmetric] N_def take_drop min_def)
    have lenN: "length (take N (drop o' A)) = N"
      using fD(5,6) by (simp add: N_def)
    have body: "wp (if int N = 0 then Some (0, buf, tfs_V s2)
         else let b1 = cdiv off 512; b2 = cdiv (off + int N - 1) 512 in do {
           b \<leftarrow> rd32 (t_inode s2) (4 + 4 * nat b1);
           (r, s) \<leftarrow> load_bat G b s2;
           if r = 0 then Some (VFS_ERROR, buf, tfs_V s)
           else let rd = min (512 - cmod off 512) (int N) in do {
             buffer \<leftarrow> blit (nat rd) buf 0 (t_bat s) (nat (cmod off 512));
             tfs_read_loop G [b1 + 1..b2] b2 (int N) rd buffer s
           }
         }) (\<lambda>(r, buf', s'). tfs_at ready blk D tb L s' \<and> r = int N \<and> buf' = take N (drop o' A) @ drop N buf)"
      if s2: "tfs_at ready blk D tb (L - 1) s2" "t_inode s2 = I" for s2
    proof (cases "N = 0")
      case True
      with s2 show ?thesis by simp
    next
      case False
      define b1 where "b1 = o' div BLOCK"
      define b2 where "b2 = (o' + N - 1) div BLOCK"
      define w where "w = min (BLOCK - o' mod BLOCK) N"
      have e: "cdiv off 512 = int b1" "cdiv (off + int N - 1) 512 = int b2" "cmod off 512 = int (o' mod BLOCK)"
        using False by (simp_all add: off(1) b1_def b2_def zdiv_int zmod_int of_nat_diff)
      have e2: "min (512 - int (o' mod BLOCK)) (int N) = int w"
        using mod_less_divisor [of BLOCK o'] by (simp add: w_def of_nat_min of_nat_diff)
      have "o' + N \<le> sz"
        using off(2) min.cobounded2 [of "nat n" "sz - o'"] unfolding N_def by linarith
      then have b2: "b2 < nblocks sz" "o' + N \<le> length A"
        using False fD(5,6) by (simp_all add: b2_def nblocks_def less_eq_Suc_le)
      have b12: "b1 \<le> b2"
        unfolding b1_def b2_def by (rule div_le_mono) (use False in simp)
      have blocks: "ino_block I j < nblk \<and> D (ino_block I j) = chunk A j" if "j \<le> b2" for j
        using fD(7,8) [of j] that b2 nblk by simp
      have rdI: "rd32 I (4 + 4 * b1) = Some (get32 I (4 + 4 * b1))" "unat (get32 I (4 + 4 * b1)) = ino_block I b1"
        using fD(2,3) b12 b2 by (simp_all add: rd32_def ino_block_def)
      have w: "w = min N (BLOCK * Suc b1 - o')"
      proof -
        have "BLOCK - o' mod BLOCK = BLOCK * Suc b1 - o'"
          using mult_div_mod_eq [of BLOCK o'] unfolding b1_def [symmetric] by (simp add: algebra_simps)
        then show ?thesis
          by (simp only: w_def min.commute)
      qed
      have loop: "wp (tfs_read_loop G [int b1 + 1..int b2] (int b2) (int N) (int w)
          (take w (drop o' A) @ drop w buf) s3)
        (\<lambda>(r, buf', s'). tfs_at ready blk D tb L s' \<and> r = int N \<and> buf' = take N (drop o' A) @ drop N buf)"
        if "tfs_at ready blk D tb (L - 1) s3" "t_inode s3 = I" for s3
      proof -
        have "wp (tfs_read_loop G [int (Suc b1)..int b2] (int b2) (int N) (int w)
            (take w (drop o' A) @ drop w buf) s3)
          (\<lambda>(r, buf', s'). r = int N \<and> buf' = take N (drop o' A) @ drop N buf \<and>
            tfs_at ready blk D tb (L - 1 + 1) s')"
        proof (rule tfs_read_loop_wp [where I = I])
          show "N \<le> length buf" "b2 < 127"
            using n(2) fD(2) b2 by (simp_all add: N_def)
        qed (use blocks b2 b12 False w that fD(3) in \<open>simp_all add: b1_def b2_def\<close>)
        then show ?thesis
          by (simp add: add.commute conj_ac)
      qed
      have len: "length (chunk A b1) = BLOCK"
        using blocks [OF b12] blk_length [of "t_disk s2" "ino_block I b1"] s2 by (auto simp: tfs_at_def)
      have wle: "w \<le> length buf" "o' mod BLOCK + w \<le> BLOCK"
        using n mod_less_divisor [of BLOCK o'] by (auto simp: w_def N_def)
      show ?thesis
        unfolding e Let_def
        using False
        apply (simp add: s2(2) rdI(1) e2)
        apply (rule wp_bindI, rule wp_load_bat [OF s2(1)])
        using blocks [OF b12] apply (simp add: rdI)
        apply (simp add: wp_simps e2 rdI len wle blocks [OF b12] chunk_inside [OF wle(2), folded b1_def])
        apply (use loop s2 in simp)
        done
    qed
    show ?thesis
    unfolding tfs_read_def
    apply (rule wp_bindI, rule wp_tfs_P [OF s \<open>0 < L\<close>])
    apply (frule tfs_at_tb, simp only: fileid if_False)
    apply (rule wp_bindI, erule wp_load_inode)
    using ino nblk apply (simp add: fid)
    apply (simp add: fid I_def [symmetric] rd size data lenN len False N Let_def [of "int N"] del: length_take take_drop)
    subgoal for s1 s2
      using body [of s2] by (cases "N = 0") simp_all
    done
  qed
qed

end

end
