(* ===== verification/Tfs_Properties.thy ===== *)
theory Tfs_Properties
  imports Tfs_Spec
begin

text \<open>
  The contract of the Trivial Filesystem on the disk driver of \<open>Gbd\<close>, and a small disk on
  which it applies.
\<close>

section \<open>A small disk\<close>

text \<open>Six blocks holding one file, \<open>a\<close>, whose content fits into one block.\<close>

definition one_file_sectors :: "mem \<Rightarrow> mem list" where
  "one_file_sectors data = [
     replicate 512 0,
     [0, 0, 0, 0x1f] @ replicate 508 0,
     [0, 0, 0, 3, 97] @ replicate 507 0,
     set32 ([0, 0, 0, 0, 0, 0, 0, 4] @ replicate 504 0) 0 (of_nat (length data)),
     data @ replicate (512 - length data) 0,
     replicate 512 0]"

definition one_file :: "mem \<Rightarrow> content" where
  "one_file data = ram_sect \<lparr>ram_sectors = one_file_sectors data, ram_phase = Ram_Idle\<rparr>"

definition one_file_tfs :: "mem \<Rightarrow> ram disk tfs" where
  "one_file_tfs data = \<lparr>t_totalblocks = 6,
     t_disk = disk_init \<lparr>ram_sectors = one_file_sectors data, ram_phase = Ram_Idle\<rparr> 1, t_lock = 1,
     t_inode = replicate 512 0, t_bat = replicate 512 0, t_md = replicate 512 0, t_volume = [0]\<rparr>"

lemma one_file_blocks:
  "one_file data 1 = [0, 0, 0, 0x1f] @ replicate 508 0"
  "one_file data (Suc 0) = [0, 0, 0, 0x1f] @ replicate 508 0"
  "one_file data 2 = [0, 0, 0, 3, 97] @ replicate 507 0"
  "one_file data 3 = set32 ([0, 0, 0, 0, 0, 0, 0, 4] @ replicate 504 0) 0 (of_nat (length data))"
  "one_file data 4 = data @ replicate (512 - length data) 0"
  by (simp_all add: one_file_def ram_sect_def one_file_sectors_def)

lemma padded_nth: "p < length e + n \<Longrightarrow> (e @ replicate n 0) ! p = (if p < length e then e ! p else 0)"
  by (simp add: nth_append)

lemma get32_padded_0:
  "length e \<le> p \<Longrightarrow> p + 4 \<le> length e + n \<Longrightarrow> get32 (e @ replicate n 0) p = 0"
  by (simp add: get32_def padded_nth be_word_def)

lemma one_file_entries:
  "i < MAX_FILES \<Longrightarrow> dir_inode (one_file data 2) i = (if i = 0 then 3 else 0)"
  "i < MAX_FILES \<Longrightarrow> take 16 (dir_name (one_file data 2) i) = (if i = 0 then 97 # replicate 15 0 else replicate 16 0)"
proof -
  have "i = 0 \<or> 5 \<le> 20 * i" by linarith
  then show "dir_inode (one_file data 2) i = (if i = 0 then 3 else 0)" if "i < MAX_FILES"
    unfolding dir_inode_def one_file_blocks using that
    by (cases "i = 0") (simp_all add: get32_padded_0 del: append.simps, simp add: get32_def be_word_def)
  show "take 16 (dir_name (one_file data 2) i) = (if i = 0 then 97 # replicate 15 0 else replicate 16 0)" if "i < MAX_FILES"
    unfolding dir_name_def one_file_blocks using that
    by (cases "i = 0") (simp_all add: take_Cons' drop_Cons')
qed

lemma one_file_used: "i < MAX_FILES \<Longrightarrow> tfs_used (one_file data) i \<longleftrightarrow> i = 0"
  by (simp add: tfs_used_def one_file_entries)

lemma one_file_name:
  assumes "i < MAX_FILES"
  shows "terminated (take 16 (dir_name (one_file data 2) i))"
    "tfs_name (one_file data) i = (if i = 0 then [97] else [])"
proof -
  have "0 \<in> set (take 16 (dir_name (one_file data 2) i))"
    using assms by (simp add: one_file_entries)
  then show t: "terminated (take 16 (dir_name (one_file data 2) i))"
    by (simp add: terminated_def)
  then show "tfs_name (one_file data) i = (if i = 0 then [97] else [])"
    unfolding tfs_name_def cstr_take [OF t] by (simp add: one_file_entries assms cstr_def)
qed

lemma nblocks_one: "0 < n \<Longrightarrow> n \<le> 512 \<Longrightarrow> nblocks n = 1"
  by (simp add: nblocks_def div_nat_eqI)

lemma one_file_inode:
  shows "tfs_ino (one_file data) 0 = 3"
    and "length data \<le> 512 \<Longrightarrow> ino_size (one_file data 3) = length data"
    and "k < 127 \<Longrightarrow> ino_block (one_file data 3) k = (if k = 0 then 4 else 0)"
    and "0 < length data \<Longrightarrow> length data \<le> 512 \<Longrightarrow> ino_blocks (one_file data 3) = [4]"
proof -
  show "tfs_ino (one_file data) 0 = 3"
    by (simp add: tfs_ino_def one_file_entries)
  show sz: "ino_size (one_file data 3) = length data" if "length data \<le> 512"
    using that by (simp add: ino_size_def one_file_blocks mem_simps unat_of_nat)
  show bl: "ino_block (one_file data 3) k = (if k = 0 then 4 else 0)" if "k < 127" for k
    unfolding ino_block_def one_file_blocks using that
    by (cases "k = 0") (simp_all add: get32_padded_0 get32_set32_other del: append.simps, simp add: get32_def be_word_def)
  show "ino_blocks (one_file data 3) = [4]" if "0 < length data" "length data \<le> 512"
  proof -
    have "nblocks (length data) = 1"
      using that by (rule nblocks_one)
    then show ?thesis
      using bl [of 0] that by (simp add: ino_blocks_def sz)
  qed
qed

lemma one_file_wf:
  assumes data: "0 < length data" "length data \<le> 512"
  shows "tfs_wf (one_file data) 6"
proof -
  have "length (one_file data k) = BLOCK" if "k < 6" for k
  proof -
    have "k \<in> {0, 1, 2, 3, 4, 5}" using that by auto
    then show ?thesis
      using data by (auto simp: one_file_def ram_sect_def one_file_sectors_def)
  qed
  moreover have bat: "bm_bit (one_file data 1) k" if "k < 5" for k
  proof -
    have "k \<in> {0, 1, 2, 3, 4}" using that by auto
    then show ?thesis
      by (auto simp: bm_bit_def one_file_blocks get32_def be_word_def bit_simps)
  qed
  ultimately have "tfs_system_ok (one_file data) 6"
    by (simp add: tfs_system_ok_def)
  moreover have "tfs_names_ok (one_file data)"
    by (simp add: tfs_names_ok_def one_file_used one_file_name)
  moreover have "nblocks (length data) = 1"
    using data by (rule nblocks_one)
  then have "tfs_inode_ok (one_file data) 6 0"
    using bat data by (simp add: tfs_inode_ok_def tfs_owned_def one_file_inode)
  moreover have "tfs_apart (one_file data)"
    by (auto simp: tfs_apart_def one_file_used)
  ultimately show ?thesis
    by (simp add: tfs_wf_def one_file_used)
qed

lemma one_file_file:
  assumes "0 < length data" "length data \<le> 512"
  shows "tfs_find (one_file data) [97] = Some 0" "tfs_content (one_file data) 0 = data"
proof -
  show "tfs_find (one_file data) [97] = Some 0"
    by (simp add: tfs_find_Some [OF one_file_wf [OF assms]] one_file_used one_file_name)
  show "tfs_content (one_file data) 0 = data"
    using one_file_blocks(5) [of data] assms by (simp add: tfs_content_def one_file_inode file_data_def Let_def)
qed

lemma one_file_at: "0 < length data \<Longrightarrow> length data \<le> 512 \<Longrightarrow>
  tfs_at (disk_ready (ram_ok 6 Ram_Idle)) (disk_blk ram_sect) (one_file data) 6 1 (one_file_tfs data)"
  by (simp add: tfs_at_def one_file_tfs_def disk_ready_def disk_blk_def disk_init_def one_file_def ram_ok_def
      one_file_sectors_def)

text \<open>The disk whose file holds the three bytes \<open>hi!\<close>.\<close>

definition demo_content :: content where
  "demo_content = one_file [104, 105, 33]"

definition demo_tfs :: "ram disk tfs" where
  "demo_tfs = one_file_tfs [104, 105, 33]"

lemmas demo_blocks = one_file_blocks(1,2) [of "[104, 105, 33]", folded demo_content_def]
lemmas demo_used = one_file_used [of _ "[104, 105, 33]", folded demo_content_def]
lemmas demo_name = one_file_name [of _ "[104, 105, 33]", folded demo_content_def]

lemma demo_inode: "tfs_ino demo_content 0 = 3"
  by (simp add: demo_content_def one_file_inode)

lemma demo_wf: "tfs_wf demo_content 6"
  by (simp add: demo_content_def one_file_wf)

lemma demo_file: "tfs_find demo_content [97] = Some 0" "tfs_content demo_content 0 = [104, 105, 33]"
  by (simp_all add: demo_content_def one_file_file)

lemma demo_at: "tfs_at (disk_ready (ram_ok 6 Ram_Idle)) (disk_blk ram_sect) demo_content 6 1 demo_tfs"
  by (simp add: demo_content_def demo_tfs_def one_file_at)

section \<open>Properties\<close>

text \<open>Opening a file over the disk driver: on a consistent disk \<open>tfs_open\<close> returns the inode
  block of the file with the given name, or \<open>VFS_NOT_FOUND\<close> when there is none, leaves the
  disk as it is and gives the lock back.\<close>

theorem tfs_open_correct:
  assumes "sector_hw H sectors n idle running irq"
    and "tfs_at (disk_ready idle) (disk_blk sectors) D tb L s" and "0 < L"
    and "tfs_wf D (unat tb)" and "unat tb \<le> n" and "terminated f" and "cstr f \<noteq> []"
  shows "wp (tfs_open (disk_gbd H) f s) (\<lambda>(r, s').
    tfs_at (disk_ready idle) (disk_blk sectors) D tb L s' \<and>
    r = (case tfs_find D (cstr f) of Some i \<Rightarrow> int (tfs_ino D i) | None \<Rightarrow> VFS_NOT_FOUND))"
  using assms(2-) by (rule block_device.tfs_open_wp [OF sector_hw.disk_device [OF assms(1)]])

theorem tfs_open_correct_witness:
  "wp (tfs_open (disk_gbd ram_hw) [97, 0] demo_tfs) (\<lambda>(r, s').
    tfs_at (disk_ready (ram_ok 6 Ram_Idle)) (disk_blk ram_sect) demo_content 6 1 s' \<and> r = 3)"
  using tfs_open_correct [OF ram.sector_hw_axioms demo_at, of "[97, 0]"]
  by (simp add: demo_wf demo_file demo_inode)

text \<open>C14. Reading a file: \<open>tfs_read\<close> at an offset inside the file returns as many bytes of the
  content as the buffer takes and the file has, exactly those, and touches nothing else of
  the buffer and the disk; an offset outside the file is an error.\<close>

theorem tfs_read_correct:
  assumes "sector_hw H sectors nsect idle running irq"
    and "tfs_at (disk_ready idle) (disk_blk sectors) D tb L s" and "0 < L"
    and "tfs_wf D (unat tb)" and "unat tb \<le> nsect" and "i < MAX_FILES" and "tfs_used D i"
    and "0 \<le> n" and "nat n \<le> length buf"
  shows "wp (tfs_read (disk_gbd H) (int (tfs_ino D i)) buf n off s) (\<lambda>(r, buf', s').
    tfs_at (disk_ready idle) (disk_blk sectors) D tb L s' \<and>
    (if off < 0 \<or> int (length (tfs_content D i)) < off then r = VFS_ERROR \<and> buf' = buf
     else let data = take (nat n) (drop (nat off) (tfs_content D i)) in
       r = int (length data) \<and> buf' = data @ drop (length data) buf))"
  using assms(2-) by (rule block_device.tfs_read_wp [OF sector_hw.disk_device [OF assms(1)]])

theorem tfs_read_correct_witness:
  "wp (tfs_read (disk_gbd ram_hw) 3 [0, 0, 0, 0] 4 1 demo_tfs) (\<lambda>(r, buf, s').
    r = 2 \<and> buf = [105, 33, 0, 0])"
proof -
  have "wp (tfs_read (disk_gbd ram_hw) (int (tfs_ino demo_content 0)) [0, 0, 0, 0] 4 1 demo_tfs)
    (\<lambda>(r, buf', s'). tfs_at (disk_ready (ram_ok 6 Ram_Idle)) (disk_blk ram_sect) demo_content 6 1 s' \<and>
    (if (1::int) < 0 \<or> int (length (tfs_content demo_content 0)) < 1 then r = VFS_ERROR \<and> buf' = [0, 0, 0, 0]
     else let data = take (nat 4) (drop (nat 1) (tfs_content demo_content 0)) in
       r = int (length data) \<and> buf' = data @ drop (length data) [0, 0, 0, 0]))"
    by (rule tfs_read_correct [OF ram.sector_hw_axioms demo_at])
      (simp_all add: demo_wf demo_used)
  then show ?thesis
    by (auto simp: demo_file demo_inode elim!: wp_mono)
qed

end
