(* ===== verification/Tfs_Write.thy ===== *)
theory Tfs_Write
  imports Tfs_Spec
begin

text \<open>
  Writing to a file of the Trivial Filesystem: the blocks of the file come to hold the content
  with the data written over it, and every other file keeps its content.
\<close>

section \<open>Writing\<close>

text \<open>Overwriting part of a sequence, and the effect on its blocks.\<close>

definition overwrite :: "mem \<Rightarrow> nat \<Rightarrow> mem \<Rightarrow> mem" where
  "overwrite A p d = take p A @ d @ drop (p + length d) A"

lemma length_overwrite [simp]: "p + length d \<le> length A \<Longrightarrow> length (overwrite A p d) = length A"
  by (simp add: overwrite_def)

lemma nth_overwrite:
  assumes "p + length d \<le> length A" and "q < length A"
  shows "overwrite A p d ! q = (if p \<le> q \<and> q < p + length d then d ! (q - p) else A ! q)"
  using assms by (auto simp: overwrite_def nth_append min_def)

lemma take_overwrite: "p + length d \<le> n \<Longrightarrow> n \<le> length A \<Longrightarrow> take n (overwrite A p d) = overwrite (take n A) p d"
  by (auto intro!: nth_equalityI simp: nth_overwrite)

lemma chunk_nth: "BLOCK * k + BLOCK \<le> length A \<Longrightarrow> q < BLOCK \<Longrightarrow> chunk A k ! q = A ! (BLOCK * k + q)"
  by (simp add: chunk_def)

lemma length_chunk: "BLOCK * k + BLOCK \<le> length A \<Longrightarrow> length (chunk A k) = BLOCK"
  by (simp add: chunk_def)

text \<open>A block whose bytes from \<open>a\<close> on are replaced by \<open>m\<close> bytes of \<open>d\<close>.\<close>

lemma chunk_overwrite:
  assumes "BLOCK * k + BLOCK \<le> length A" and "p + length d \<le> length A"
    and "BLOCK * k + a = p + q" and "a = 0 \<or> q = 0" and "a + m \<le> BLOCK" and "q + m \<le> length d"
    and "q + m = length d \<or> a + m = BLOCK"
  shows "overwrite (chunk A k) a (take m (drop q d)) = chunk (overwrite A p d) k"
proof (rule nth_equalityI)
  have len: "length (chunk A k) = BLOCK"
    using assms(1) by (rule length_chunk)
  then show "length (overwrite (chunk A k) a (take m (drop q d))) = length (chunk (overwrite A p d) k)"
    using assms by (simp add: length_chunk)
  fix r assume "r < length (overwrite (chunk A k) a (take m (drop q d)))"
  then have r: "r < BLOCK"
    using len assms by simp
  have "overwrite (chunk A k) a (take m (drop q d)) ! r =
      (if a \<le> r \<and> r < a + m then d ! (q + (r - a)) else A ! (BLOCK * k + r))"
  proof -
    have lm: "length (take m (drop q d)) = m"
      using assms(6) by simp
    have "take m (drop q d) ! (r - a) = d ! (q + (r - a))" if "a \<le> r" "r < a + m"
    proof -
      have "r - a < m" using that by linarith
      then show ?thesis using assms(6) by simp
    qed
    moreover have "overwrite C a X ! r = (if a \<le> r \<and> r < a + m then X ! (r - a) else C ! r)"
      if "length X = m" "length C = BLOCK" for X C
      using that assms(5) r by (simp add: nth_overwrite)
    ultimately show ?thesis
      using len lm assms(1) r by (auto simp only: chunk_nth split: if_split)
  qed
  moreover have "chunk (overwrite A p d) k ! r =
      (if p \<le> BLOCK * k + r \<and> BLOCK * k + r < p + length d then d ! (BLOCK * k + r - p) else A ! (BLOCK * k + r))"
    using assms r by (simp add: nth_overwrite chunk_nth)
  moreover have "(a \<le> r \<and> r < a + m) = (p \<le> BLOCK * k + r \<and> BLOCK * k + r < p + length d)"
    using assms(3-7) r by auto
  moreover have "BLOCK * k + r - p = q + (r - a)" if "a \<le> r"
    using assms(3) that by linarith
  ultimately show "overwrite (chunk A k) a (take m (drop q d)) ! r = chunk (overwrite A p d) k ! r"
    by (cases "a \<le> r") auto
qed

lemma blit_overwrite:
  "a + m \<le> length dst \<Longrightarrow> q + m \<le> length src \<Longrightarrow>
    blit m dst a src q = Some (overwrite dst a (take m (drop q src)))"
  by (simp add: blit_def overwrite_def)

text \<open>The disk when the blocks before \<open>k\<close> of the list \<open>bs\<close> hold the new content \<open>B\<close>.\<close>

definition stage :: "content \<Rightarrow> nat list \<Rightarrow> mem \<Rightarrow> mem \<Rightarrow> nat \<Rightarrow> content \<Rightarrow> bool" where
  "stage D bs A B k D' \<longleftrightarrow> (\<forall>j<length bs. D' (bs ! j) = chunk (if j < k then B else A) j) \<and>
     (\<forall>b. b \<notin> set bs \<longrightarrow> D' b = D b)"

lemma stage_start:
  assumes "\<And>j. j < length bs \<Longrightarrow> D (bs ! j) = chunk A j" and "\<And>j. j < k \<Longrightarrow> chunk A j = chunk B j"
  shows "stage D bs A B k D"
  using assms by (auto simp: stage_def)

lemma stage_step:
  assumes "stage D bs A B k D'" and "distinct bs" and "k < length bs"
  shows "stage D bs A B (Suc k) (D'(bs ! k := chunk B k))"
  using assms by (auto simp: stage_def nth_eq_iff_index_eq less_Suc_eq)

lemma stage_end:
  assumes "stage D bs A B k D'" and "\<And>j. k \<le> j \<Longrightarrow> j < length bs \<Longrightarrow> chunk A j = chunk B j"
  shows "stage D bs A B (length bs) D'"
  using assms by (auto simp: stage_def)

lemma stage_block: "stage D bs A B k D' \<Longrightarrow> k < length bs \<Longrightarrow> D' (bs ! k) = chunk A k"
  by (auto simp: stage_def)

lemma file_data_chunks:
  assumes "length A = BLOCK * length bs" and "\<And>j. j < length bs \<Longrightarrow> D (bs ! j) = chunk A j"
  shows "file_data D bs = A"
  using assms
proof (induction bs arbitrary: A)
  case (Cons b bs)
  have "file_data D bs = drop BLOCK A"
  proof (rule Cons.IH)
    show "length (drop BLOCK A) = BLOCK * length bs"
      using Cons.prems(1) by simp
    show "D (bs ! j) = chunk (drop BLOCK A) j" if "j < length bs" for j
      using Cons.prems(2) [of "Suc j"] that by (simp add: chunk_def add.commute)
  qed
  moreover have "D b = take BLOCK A"
    using Cons.prems(2) [of 0] by (simp add: chunk_def)
  ultimately show ?case
    by (simp add: file_data_def)
qed (simp add: file_data_def)


lemma overwrite_full: "length X = length C \<Longrightarrow> overwrite C 0 X = X"
  by (simp add: overwrite_def)

text \<open>Changing the data blocks of one file.\<close>

lemma tfs_data_update:
  assumes wf: "tfs_wf D T" and i: "i < MAX_FILES" "tfs_used D i"
    and same: "\<And>b. b \<notin> set (ino_blocks (D (tfs_ino D i))) \<Longrightarrow> D' b = D b"
    and len: "\<And>b. b \<in> set (ino_blocks (D (tfs_ino D i))) \<Longrightarrow> length (D' b) = BLOCK"
  shows "tfs_wf D' T" "tfs_find D' = tfs_find D"
    "tfs_content D' i = take (ino_size (D (tfs_ino D i))) (file_data D' (ino_blocks (D (tfs_ino D i))))"
    "j < MAX_FILES \<Longrightarrow> tfs_used D j \<Longrightarrow> j \<noteq> i \<Longrightarrow> tfs_content D' j = tfs_content D j"
    "tfs_used D' = tfs_used D" "tfs_ino D' = tfs_ino D"
proof -
  let ?bs = "ino_blocks (D (tfs_ino D i))"
  have owned: "b \<in> set (tfs_owned D j) \<Longrightarrow> 3 \<le> b \<and> b < T \<and> bm_bit (D 1) b"
    if "j < MAX_FILES" "tfs_used D j" for j b
    using tfs_wfD(4) [OF wf that] by (simp add: tfs_inode_ok_def)
  have sys: "D' k = D k" if "k < 3" for k
    using owned [OF i, of k] that by (intro same) (auto simp: tfs_owned_def)
  show used: "tfs_used D' = tfs_used D" and ino: "tfs_ino D' = tfs_ino D"
    by (auto simp: fun_eq_iff tfs_used_def tfs_ino_def sys)
  have name: "tfs_name D' = tfs_name D"
    by (auto simp: fun_eq_iff tfs_name_def sys)
  show "tfs_find D' = tfs_find D"
    by (simp add: fun_eq_iff tfs_find_def used name)
  have inode: "D' (tfs_ino D j) = D (tfs_ino D j)" if j: "j < MAX_FILES" "tfs_used D j" for j
  proof (rule same)
    have "tfs_ino D j \<in> set (tfs_owned D j)"
      by (simp add: tfs_owned_def)
    then show "tfs_ino D j \<notin> set ?bs"
      using tfs_apartD(2) [OF wf j(1) i(1) j(2) i(2)] tfs_wfD(4) [OF wf i]
      by (auto simp: tfs_owned_def tfs_inode_ok_def)
  qed
  then have own: "tfs_owned D' j = tfs_owned D j" if "j < MAX_FILES" "tfs_used D j" for j
    using that by (simp add: tfs_owned_def ino)
  show "tfs_content D' i = take (ino_size (D (tfs_ino D i))) (file_data D' ?bs)"
    by (simp add: tfs_content_def ino inode [OF i] Let_def)
  show "tfs_content D' j = tfs_content D j" if j: "j < MAX_FILES" "tfs_used D j" "j \<noteq> i"
  proof -
    have "D' b = D b" if "b \<in> set (ino_blocks (D (tfs_ino D j)))" for b
      using tfs_apartD(2) [OF wf j(1) i(1) j(2) i(2), of b] that j(3)
      by (intro same) (auto simp: tfs_owned_def)
    then have "map D' (ino_blocks (D (tfs_ino D j))) = map D (ino_blocks (D (tfs_ino D j)))"
      by simp
    then show ?thesis
      by (simp only: tfs_content_def ino inode [OF j(1,2)] Let_def file_data_def)
  qed
  have "length (D' k) = BLOCK" if "k < T" for k
    using len [of k] same [of k] tfs_systemD(3) [OF wf that] by (cases "k \<in> set ?bs") auto
  then have "tfs_system_ok D' T"
    using tfs_wfD(1) [OF wf] sys by (simp add: tfs_system_ok_def)
  moreover have "tfs_names_ok D'"
    using tfs_wfD(2) [OF wf] by (simp add: tfs_names_ok_def used name sys)
  moreover have "tfs_inode_ok D' T j" if "j < MAX_FILES" "tfs_used D' j" for j
    using tfs_wfD(4) [OF wf] that by (simp add: tfs_inode_ok_def used ino own inode sys)
  moreover have "tfs_apart D'"
    using tfs_wfD(3) [OF wf] by (simp add: tfs_apart_def used name own)
  ultimately show "tfs_wf D' T"
    by (simp add: tfs_wf_def)
qed

text \<open>The disk after file \<open>i\<close> has received the content \<open>c\<close>.\<close>

definition tfs_updated :: "content \<Rightarrow> nat \<Rightarrow> nat \<Rightarrow> mem \<Rightarrow> content \<Rightarrow> bool" where
  "tfs_updated D T i c D' \<longleftrightarrow> tfs_wf D' T \<and> tfs_find D' = tfs_find D \<and> tfs_used D' = tfs_used D \<and>
     tfs_ino D' = tfs_ino D \<and> tfs_content D' i = c \<and>
     (\<forall>j<MAX_FILES. tfs_used D j \<longrightarrow> j \<noteq> i \<longrightarrow> tfs_content D' j = tfs_content D j)"

lemma tfs_updated_files:
  assumes "tfs_wf D T" and "tfs_updated D T i c D'" and "i < MAX_FILES" and "tfs_used D i"
  shows "tfs_files D' = (tfs_files D)(tfs_name D i \<mapsto> c)"
proof
  fix n
  have i: "tfs_find D (tfs_name D i) = Some i"
    using tfs_find_Some [OF assms(1)] assms(3,4) by blast
  show "tfs_files D' n = ((tfs_files D)(tfs_name D i \<mapsto> c)) n"
  proof (cases "tfs_find D n")
    case None
    then show ?thesis
      using assms(2) i by (auto simp: tfs_files_def tfs_updated_def)
  next
    case (Some j)
    then have "j < MAX_FILES" "tfs_used D j" "tfs_name D j = n"
      using tfs_find_Some [OF assms(1)] by blast+
    then show ?thesis
      using Some assms(2) i by (cases "j = i") (auto simp: tfs_files_def tfs_updated_def)
  qed
qed

lemma tfs_updated_self: "tfs_wf D T \<Longrightarrow> tfs_updated D T i (tfs_content D i) D"
  by (simp add: tfs_updated_def)

context block_device
begin

text \<open>Updating one block: the read for a partial block, the copy and the write.\<close>

lemma tfs_put_block:
  assumes st: "stage D bs A B k D'" and at: "tfs_at ready blk D' tb L s" and I: "t_inode s = I"
    and k: "k < length bs" "unat b = bs ! k" "bs ! k < nblk" "BLOCK * k + BLOCK \<le> length A"
    and m: "a + m \<le> BLOCK" "q + m \<le> length buf"
    and new: "overwrite (chunk A k) a (take m (drop q buf)) = chunk B k" and len: "length (chunk B k) = BLOCK"
    and cont: "\<And>s'. tfs_at ready blk (D'(bs ! k := chunk B k)) tb L s' \<Longrightarrow> t_inode s' = I \<Longrightarrow> wp (f s') Q"
  shows "wp (do {
      (r, s) \<leftarrow> (if m < BLOCK then load_bat G b s else Some (1, s));
      if r = 0 then Some (VFS_ERROR, tfs_V s)
      else do {
        bat \<leftarrow> blit m (t_bat s) a buf q;
        (r, s) \<leftarrow> store_bat G b (s\<lparr>t_bat := bat\<rparr>);
        if r = 0 then Some (VFS_ERROR, tfs_V s) else f s
      }
    }) Q"
proof -
  have load: "wp (if m < BLOCK then load_bat G b s else Some (1, s))
    (\<lambda>(r, s'). r = 1 \<and> tfs_at ready blk D' tb L s' \<and> t_inode s' = I \<and> (m < BLOCK \<longrightarrow> t_bat s' = chunk A k))"
  proof (cases "m < BLOCK")
    case True
    have "wp (load_bat G b s)
      (\<lambda>(r, s'). r = 1 \<and> tfs_at ready blk D' tb L s' \<and> t_inode s' = I \<and> (m < BLOCK \<longrightarrow> t_bat s' = chunk A k))"
      by (rule wp_load_bat [OF at]) (use k stage_block [OF st] I in simp_all)
    with True show ?thesis by simp
  qed (simp add: at I)
  have store: "wp (do {
        bat \<leftarrow> blit m (t_bat s') a buf q;
        (r, s) \<leftarrow> store_bat G b (s'\<lparr>t_bat := bat\<rparr>);
        if r = 0 then Some (VFS_ERROR, tfs_V s) else f s
      }) Q"
    if s': "tfs_at ready blk D' tb L s'" "t_inode s' = I" "m < BLOCK \<Longrightarrow> t_bat s' = chunk A k" for s'
  proof -
    have lb: "length (t_bat s') = BLOCK"
      using s'(1) by (simp add: tfs_at_def)
    have "length (take m (drop q buf)) = m"
      using m(2) by simp
    then have "overwrite (t_bat s') a (take m (drop q buf)) = overwrite (chunk A k) a (take m (drop q buf))"
      using s'(3) m(1) lb length_chunk [OF k(4)]
      by (cases "m < BLOCK"; cases "a = 0") (simp_all add: overwrite_full)
    then have blit: "blit m (t_bat s') a buf q = Some (chunk B k)"
      using blit_overwrite [of a m "t_bat s'" q buf] new m lb by simp
    have at': "tfs_at ready blk D' tb L (s'\<lparr>t_bat := chunk B k\<rparr>)"
      using s'(1) len by (simp add: tfs_at_def)
    show ?thesis
      unfolding blit Option.bind.simps
      by (rule wp_bindI, rule wp_store_bat [OF at']) (use k s'(2) cont in simp_all)
  qed
  show ?thesis
    apply (rule wp_bindI, rule wp_mono [OF load])
    subgoal for x
      using store [of "snd x"] by (cases x) simp
    done
qed

lemma tfs_write_loop_wp:
  assumes bs: "\<And>j. j < length bs \<Longrightarrow> bs ! j = ino_block I j \<and> bs ! j < nblk" "distinct bs" "length bs \<le> 127"
    and "length I = BLOCK" and A: "length A = BLOCK * length bs" and "o' + N \<le> length A" and "N \<le> length buf"
    and B: "B = overwrite A o' (take N buf)"
    and b2: "b2 = (o' + N - 1) div BLOCK" and "0 < N" and "o' div BLOCK < k" and "k \<le> b2 + 1"
    and "wr = min N (BLOCK * k - o')" and "stage D bs A B k D'"
    and "tfs_at ready blk D' tb L s" and "t_inode s = I"
  shows "wp (tfs_write_loop G [int k..int b2] (int b2) (int N) (int wr) buf s)
    (\<lambda>(r, s'). r = int N \<and> (\<exists>D''. stage D bs A B (b2 + 1) D'' \<and> tfs_at ready blk D'' tb (L + 1) s'))"
  using assms(11-)
proof (induction "b2 + 1 - k" arbitrary: k s wr D')
  case 0
  then have k: "k = b2 + 1"
    by linarith
  have "o' + N - 1 < BLOCK * b2 + BLOCK"
    using b2 by simp
  then have "wr = N"
    using 0(4) k \<open>0 < N\<close> by simp
  with k 0(5) 0(6) show ?case
    by auto
next
  case (Suc n)
  then have "k \<le> b2" by linarith
  note upto = upto_int_Suc [OF this]
  define m where "m = (if k = b2 then N - wr else BLOCK)"
  have b2': "BLOCK * b2 \<le> o' + N - 1" "o' + N - 1 < BLOCK * b2 + BLOCK"
    using b2 by simp_all
  have ok: "o' \<le> BLOCK * k"
    using \<open>o' div BLOCK < k\<close> by (simp add: div_less_iff_less_mult mult.commute)
  have kb: "k = b2 \<or> BLOCK * k + BLOCK \<le> BLOCK * b2"
    using \<open>k \<le> b2\<close> by linarith
  then have wr: "wr + o' = BLOCK * k" "wr \<le> N"
    using Suc.prems(3) b2' ok \<open>0 < N\<close> by linarith+
  have m: "wr + m = min N (BLOCK * Suc k - o')" "m \<le> BLOCK" "wr + m \<le> N" "wr + m = N \<or> m = BLOCK"
    using wr kb ok b2' \<open>0 < N\<close> unfolding m_def by (cases "k = b2"; simp)+
  have "k < length bs"
    using \<open>k \<le> b2\<close> b2'(1) assms(6) A \<open>0 < N\<close> by linarith
  then have kbs: "k < length bs" "BLOCK * k + BLOCK \<le> length A"
    using A by linarith+
  have I: "rd32 I (4 + 4 * k) = Some (get32 I (4 + 4 * k))" "unat (get32 I (4 + 4 * k)) = bs ! k"
    using bs(1) [OF kbs(1)] bs(3) kbs \<open>length I = BLOCK\<close> by (simp_all add: rd32_def ino_block_def)
  have lenB: "length B = length A"
    unfolding B by (rule length_overwrite) (use assms(6,7) in simp)
  have bufl: "wr + m \<le> length buf"
    using m(3) \<open>N \<le> length buf\<close> by simp
  have "overwrite (chunk A k) 0 (take m (drop wr (take N buf))) = chunk B k"
    unfolding B by (rule chunk_overwrite [OF kbs(2)]) (use assms(6,7) wr m in auto)
  moreover have "take m (drop wr (take N buf)) = take m (drop wr buf)"
    using m(3) by (simp add: take_drop min_def)
  ultimately have new: "overwrite (chunk A k) 0 (take m (drop wr buf)) = chunk B k"
    by (simp only:)
  have IH: "wp (tfs_write_loop G [int (Suc k)..int b2] (int b2) (int N) (int (wr + m)) buf s')
    (\<lambda>(r, s'). r = int N \<and> (\<exists>D''. stage D bs A B (b2 + 1) D'' \<and> tfs_at ready blk D'' tb (L + 1) s'))"
    if "tfs_at ready blk (D'(bs ! k := chunk B k)) tb L s'" "t_inode s' = I" for s'
  proof (rule Suc.hyps(1))
    show "n = b2 + 1 - Suc k" "o' div BLOCK < Suc k" "Suc k \<le> b2 + 1"
      using Suc.hyps(2) Suc.prems(1) \<open>k \<le> b2\<close> by simp_all
    show "stage D bs A B (Suc k) (D'(bs ! k := chunk B k))"
      by (rule stage_step [OF Suc.prems(4) bs(2) kbs(1)])
  qed (fact m(1) that)+
  have step: "tfs_write_loop G (int k # ks) (int b2) (int N) (int wr) buf s = do {
      b \<leftarrow> rd32 (t_inode s) (4 + 4 * k);
      (r, s) \<leftarrow> (if m < BLOCK then load_bat G b s else Some (1, s));
      if r = 0 then Some (VFS_ERROR, tfs_V s)
      else do {
        bat \<leftarrow> blit m (t_bat s) 0 buf wr;
        (r, s) \<leftarrow> store_bat G b (s\<lparr>t_bat := bat\<rparr>);
        if r = 0 then Some (VFS_ERROR, tfs_V s)
        else tfs_write_loop G ks (int b2) (int N) (int (wr + m)) buf s
      }
    }" for ks
    using wr(2) of_nat_diff [OF wr(2), where 'a = int, symmetric]
    by (simp add: m_def Let_def del: of_nat_diff cong: if_cong)
  show ?case
    unfolding upto step Suc.prems(6) I(1) Option.bind.simps
    by (rule tfs_put_block [OF Suc.prems(4,5,6) kbs(1) I(2) _ kbs(2) _ bufl new])
      (use bs(1) [OF kbs(1)] m(2) kbs(2) lenB IH in \<open>simp_all add: length_chunk\<close>)
qed


lemma tfs_write_blocks_wp:
  assumes bs: "\<And>j. j < length bs \<Longrightarrow> bs ! j = ino_block I j \<and> bs ! j < nblk" "distinct bs" "length bs \<le> 127"
    and I: "length I = BLOCK" and A: "length A = BLOCK * length bs" "\<And>j. j < length bs \<Longrightarrow> D (bs ! j) = chunk A j"
    and N: "o' + N \<le> length A" "N \<le> length buf" "0 < N"
    and s: "tfs_at ready blk D tb L s" "t_inode s = I"
  shows "wp (let b1 = cdiv (int o') 512; b2 = cdiv (int o' + int N - 1) 512;
             written = min (512 - cmod (int o') 512) (int N) in do {
             b \<leftarrow> rd32 (t_inode s) (4 + 4 * nat b1);
             (r, s) \<leftarrow> (if written < 512 then load_bat G b s else Some (1, s));
             if r = 0 then Some (VFS_ERROR, tfs_V s)
             else do {
               bat \<leftarrow> blit (nat written) (t_bat s) (nat (cmod (int o') 512)) buf 0;
               (r, s) \<leftarrow> store_bat G b (s\<lparr>t_bat := bat\<rparr>);
               if r = 0 then Some (VFS_ERROR, tfs_V s)
               else tfs_write_loop G [b1 + 1..b2] b2 (int N) written buf s
             }
           }) (\<lambda>(r, s'). r = int N \<and> (\<exists>D'. stage D bs A (overwrite A o' (take N buf)) (length bs) D' \<and>
      tfs_at ready blk D' tb (L + 1) s'))"
proof -
  define B where "B = overwrite A o' (take N buf)"
  define b1 where "b1 = o' div BLOCK"
  define b2 where "b2 = (o' + N - 1) div BLOCK"
  define a where "a = o' mod BLOCK"
  define w where "w = min (BLOCK - a) N"
  have oa: "BLOCK * b1 + a = o'" "a < BLOCK"
    by (simp_all add: a_def b1_def)
  have e: "cdiv (int o') 512 = int b1" "cdiv (int o' + int N - 1) 512 = int b2" "cmod (int o') 512 = int a"
    using N(3) by (simp_all add: a_def b1_def b2_def zdiv_int zmod_int of_nat_diff)
  have e2: "min (512 - int a) (int N) = int w"
    using oa(2) by (simp add: w_def of_nat_min of_nat_diff)
  have b12: "b1 \<le> b2"
    unfolding b1_def b2_def by (rule div_le_mono) (use N(3) in simp)
  have b2': "BLOCK * b2 \<le> o' + N - 1" "o' + N - 1 < BLOCK * b2 + BLOCK"
    by (simp_all add: b2_def)
  have b2l: "b2 < length bs"
    using b2'(1) N(1,3) A(1) by linarith
  then have k: "b1 < length bs" "BLOCK * b1 + BLOCK \<le> length A"
    using b12 A(1) by linarith+
  have "BLOCK - a = BLOCK * Suc b1 - o'"
    unfolding oa(1) [symmetric] by simp
  then have w3: "w = min N (BLOCK * Suc b1 - o')"
    by (simp only: w_def min.commute)
  have w: "a + w \<le> BLOCK" "0 + w \<le> length buf" "0 + w = N \<or> a + w = BLOCK" "w \<le> N"
    using oa(2) N(2) unfolding w_def by linarith+
  have lenB: "length B = length A"
    unfolding B_def by (rule length_overwrite) (use N in simp)
  have far: "chunk A j = chunk B j" if "j < b1 \<or> b2 < j" "j < length bs" for j
  proof (rule nth_equalityI)
    have j: "BLOCK * j + BLOCK \<le> length A"
      using that(2) A(1) by linarith
    then show "length (chunk A j) = length (chunk B j)"
      by (simp add: length_chunk lenB)
    fix p assume "p < length (chunk A j)"
    then have p: "p < BLOCK"
      using j by (simp add: length_chunk)
    have "BLOCK * j + p < o' \<or> o' + N \<le> BLOCK * j + p"
    proof (cases "j < b1")
      case True
      with p oa show ?thesis by linarith
    next
      case False
      with that(1) have "b2 < j" by simp
      with b2'(2) show ?thesis by linarith
    qed
    then show "chunk A j ! p = chunk B j ! p"
      using j p N by (auto simp: chunk_nth lenB) (auto simp: B_def nth_overwrite)
  qed
  have st: "stage D bs A B b1 D"
    using A(2) far k(1) by (intro stage_start) auto
  have "overwrite (chunk A b1) a (take w (drop 0 (take N buf))) = chunk B b1"
    unfolding B_def by (rule chunk_overwrite [OF k(2)]) (use oa w N in auto)
  then have new: "overwrite (chunk A b1) a (take w (drop 0 buf)) = chunk B b1"
    using w(4) by (simp add: min_absorb1)
  have I': "rd32 I (4 + 4 * b1) = Some (get32 I (4 + 4 * b1))" "unat (get32 I (4 + 4 * b1)) = bs ! b1"
    using bs(1) [OF k(1)] bs(3) k(1) I by (simp_all add: rd32_def ino_block_def)
  have loop: "wp (tfs_write_loop G [int b1 + 1..int b2] (int b2) (int N) (int w) buf s')
    (\<lambda>(r, s'). r = int N \<and> (\<exists>D'. stage D bs A B (length bs) D' \<and> tfs_at ready blk D' tb (L + 1) s'))"
    if "tfs_at ready blk (D(bs ! b1 := chunk B b1)) tb L s'" "t_inode s' = I" for s'
  proof -
    have "wp (tfs_write_loop G [int (Suc b1)..int b2] (int b2) (int N) (int w) buf s')
      (\<lambda>(r, s'). r = int N \<and> (\<exists>D'. stage D bs A B (b2 + 1) D' \<and> tfs_at ready blk D' tb (L + 1) s'))"
      by (rule tfs_write_loop_wp [OF bs I A(1) N(1,2) B_def b2_def N(3) _ _ w3 stage_step [OF st bs(2) k(1)] that])
        (use b12 in \<open>simp_all add: b1_def\<close>)
    then have "wp (tfs_write_loop G [int (Suc b1)..int b2] (int b2) (int N) (int w) buf s')
      (\<lambda>(r, s'). r = int N \<and> (\<exists>D'. stage D bs A B (length bs) D' \<and> tfs_at ready blk D' tb (L + 1) s'))"
      by (rule wp_mono) (use far in \<open>auto intro!: stage_end exI\<close>)
    then show ?thesis
      by (simp add: add.commute)
  qed
  show ?thesis
    unfolding e e2 Let_def s(2) nat_int I'(1) Option.bind.simps B_def [symmetric] of_nat_less_numeral_iff
    by (rule tfs_put_block [OF st s k(1) I'(2) _ k(2) w(1,2) new])
      (use bs(1) [OF k(1)] k lenB loop in \<open>simp_all add: length_chunk\<close>)
qed


lemma tfs_write_wp:
  assumes s: "tfs_at ready blk D tb L s" and "0 < L" and wf: "tfs_wf D (unat tb)" and nblk: "unat tb \<le> nblk"
    and i: "i < MAX_FILES" "tfs_used D i" and n: "0 \<le> n" "nat n \<le> length buf"
  shows "wp (tfs_write G (int (tfs_ino D i)) buf n off s) (\<lambda>(r, s').
    if off < 0 \<or> int (length (tfs_content D i)) < off then r = VFS_ERROR \<and> tfs_at ready blk D tb L s'
    else let data = take (length (tfs_content D i) - nat off) (take (nat n) buf) in
      r = int (length data) \<and> (\<exists>D'. tfs_at ready blk D' tb L s' \<and>
        tfs_updated D (unat tb) i (overwrite (tfs_content D i) (nat off) data) D'))"
proof -
  define I where "I = D (tfs_ino D i)"
  define bs where "bs = ino_blocks I"
  define A where "A = file_data D bs"
  define sz where "sz = ino_size I"
  note fD = tfs_fileD [OF wf i, folded I_def, folded bs_def, folded A_def sz_def]
  note ino = tfs_ino_less [OF wf i]
  have T: "unat tb \<le> 4096"
    using tfs_systemD [OF wf] by simp
  have content: "tfs_content D i = take sz A"
    by (simp add: tfs_content_def I_def A_def sz_def bs_def Let_def)
  have len: "length (tfs_content D i) = sz"
    using fD(5,6) by (simp add: content)
  have fid: "unat (word_of_nat (tfs_ino D i) :: u32) = tfs_ino D i"
    using ino T by (simp add: unat_of_nat take_bit_nat_eq_self)
  have size: "sint (get32 I 0) = int sz"
    using fD(1) by (simp add: sz_def ino_size_def)
  have rd: "rd32 I 0 = Some (get32 I 0)"
    using fD(3) by (simp add: rd32_def)
  have fileid: "\<not> (int (tfs_ino D i) < 2 \<or> int (tfs_ino D i) > sint tb)"
    using ino T sint_small [of tb] by linarith
  show ?thesis
  proof (cases "off < 0 \<or> int sz < off")
    case True
    then show ?thesis
      unfolding tfs_write_def
      apply -
      apply (rule wp_bindI, rule wp_tfs_P [OF s \<open>0 < L\<close>])
      apply (frule tfs_at_tb, simp only: fileid if_False)
      apply (rule wp_bindI, erule wp_load_inode)
      using ino nblk apply (simp add: fid)
      apply (simp add: fid I_def [symmetric] rd size len)
      done
  next
    case False
    define o' where "o' = nat off"
    define N where "N = min (nat n) (sz - o')"
    have off: "off = int o'" "o' \<le> sz"
      using False unfolding o'_def by linarith+
    have N: "min n (int sz - int o') = int N"
      using n off by (auto simp: N_def)
    have data: "take (length (tfs_content D i) - nat off) (take (nat n) buf) = take N buf"
      by (simp add: len o'_def [symmetric] N_def min.commute)
    have Nlen: "length (take N buf) = N" "N \<le> length buf" "o' + N \<le> sz"
      using n off(2) by (simp_all add: N_def)
    have upd: "tfs_updated D (unat tb) i (overwrite (tfs_content D i) o' (take N buf)) D'"
      if st: "stage D bs A (overwrite A o' (take N buf)) (length bs) D'" for D'
    proof -
      let ?B = "overwrite A o' (take N buf)"
      have lB: "length ?B = length A"
        using Nlen fD(5,6) by (intro length_overwrite) simp
      have D': "D' (bs ! j) = chunk ?B j" if "j < length bs" for j
        using st that by (simp add: stage_def)
      have "length (D' b) = BLOCK" if "b \<in> set bs" for b
      proof -
        from that obtain j where "j < length bs" "b = bs ! j"
          by (auto simp: in_set_conv_nth)
        then show ?thesis
          using D' lB fD(4,6) by (simp add: length_chunk)
      qed
      moreover have "file_data D' bs = ?B"
        by (rule file_data_chunks) (use lB fD(4,6) D' in simp_all)
      moreover have "take sz ?B = overwrite (take sz A) o' (take N buf)"
        by (rule take_overwrite) (use Nlen fD(5,6) in simp_all)
      ultimately show ?thesis
        using tfs_data_update [OF wf i, of D'] st
        by (simp add: tfs_updated_def stage_def I_def bs_def sz_def content [unfolded I_def bs_def sz_def])
    qed
    have body: "wp (if int N = 0 then Some (0, tfs_V s2)
        else let b1 = cdiv (int o') 512; b2 = cdiv (int o' + int N - 1) 512;
             written = min (512 - cmod (int o') 512) (int N) in do {
             b \<leftarrow> rd32 (t_inode s2) (4 + 4 * nat b1);
             (r, s) \<leftarrow> (if written < 512 then load_bat G b s2 else Some (1, s2));
             if r = 0 then Some (VFS_ERROR, tfs_V s)
             else do {
               bat \<leftarrow> blit (nat written) (t_bat s) (nat (cmod (int o') 512)) buf 0;
               (r, s) \<leftarrow> store_bat G b (s\<lparr>t_bat := bat\<rparr>);
               if r = 0 then Some (VFS_ERROR, tfs_V s)
               else tfs_write_loop G [b1 + 1..b2] b2 (int N) written buf s
             }
           })
      (\<lambda>(r, s'). r = int N \<and> (\<exists>D'. tfs_at ready blk D' tb L s' \<and>
        tfs_updated D (unat tb) i (overwrite (tfs_content D i) o' (take N buf)) D'))"
      if s2: "tfs_at ready blk D tb (L - 1) s2" "t_inode s2 = I" for s2
    proof (cases "N = 0")
      case True
      then have "overwrite (tfs_content D i) o' (take N buf) = tfs_content D i"
        by (simp add: overwrite_def content del: take_take)
      with True s2 tfs_updated_self [OF wf] show ?thesis by auto
    next
      case False
      have bsj: "j < length bs \<Longrightarrow> bs ! j = ino_block I j \<and> bs ! j < nblk" for j
        using fD(4) fD(7) [of j] nblk by (simp add: bs_def ino_blocks_def)
      have "distinct bs" "length bs \<le> 127" "length A = BLOCK * length bs" "o' + N \<le> length A"
        using tfs_wfD(4) [OF wf i] fD Nlen by (simp_all add: tfs_inode_ok_def tfs_owned_def I_def bs_def)
      note blocks = tfs_write_blocks_wp [OF bsj this(1,2) fD(3) this(3) _ this(4) Nlen(2) _ s2]
      show ?thesis
        using False by (simp only: of_nat_eq_0_iff if_False)
          (rule wp_mono [OF blocks], use False fD(4,8) bsj upd in auto)
    qed
    have post: "(\<lambda>(r, s'). if off < 0 \<or> int (length (tfs_content D i)) < off
          then r = VFS_ERROR \<and> tfs_at ready blk D tb L s'
        else let data = take (length (tfs_content D i) - nat off) (take (nat n) buf) in
          r = int (length data) \<and> (\<exists>D'. tfs_at ready blk D' tb L s' \<and>
            tfs_updated D (unat tb) i (overwrite (tfs_content D i) (nat off) data) D')) =
      (\<lambda>(r, s'). r = int N \<and> (\<exists>D'. tfs_at ready blk D' tb L s' \<and>
        tfs_updated D (unat tb) i (overwrite (tfs_content D i) o' (take N buf)) D'))"
      using False by (simp only: len [symmetric] data Let_def if_False Nlen(1) o'_def)
    show ?thesis
      unfolding tfs_write_def post
    apply (rule wp_bindI, rule wp_tfs_P [OF s \<open>0 < L\<close>])
    apply (frule tfs_at_tb, simp only: fileid if_False)
    apply (rule wp_bindI, erule wp_load_inode)
    using ino nblk apply (simp add: fid)
    apply (simp only: of_int_of_nat_eq fid I_def [symmetric] prod.case rd size Option.bind.simps False if_False one_neq_zero off(1) N Let_def [of "int N"])
    subgoal for s1 s2
      using body [of s2] False [unfolded off(1)] by (simp only: simp_thms if_False)
    done
  qed
qed

end

end
