(* ===== verification/Tfs_Alloc.thy ===== *)
theory Tfs_Alloc
  imports Tfs_Write
begin

text \<open>
  Removing and creating files of the Trivial Filesystem: the directory slot, the allocation
  bitmap and the inode change together, and the files in the other slots are kept.
\<close>

section \<open>Changing one directory entry\<close>

lemma dir_entry_same:
  assumes "length md' = length md" and "\<And>p. 20 * j \<le> p \<Longrightarrow> p < 20 * j + 20 \<Longrightarrow> md' ! p = md ! p"
  shows "dir_inode md' j = dir_inode md j" "take 16 (dir_name md' j) = take 16 (dir_name md j)"
proof -
  show "dir_inode md' j = dir_inode md j"
    unfolding dir_inode_def by (rule get32_cong) (use assms(2) in simp)
  show "take 16 (dir_name md' j) = take 16 (dir_name md j)"
    unfolding dir_name_def
  proof (rule nth_equalityI)
    fix p assume "p < length (take 16 (drop (20 * j + 4) md'))"
    then have p: "p < length md' - (20 * j + 4)" "p < 16"
      by simp_all
    then have "20 * j + 4 \<le> length md"
      using assms(1) by linarith
    with p(2) show "take 16 (drop (20 * j + 4) md') ! p = take 16 (drop (20 * j + 4) md) ! p"
      using assms by simp
  qed (simp add: assms(1))
qed

text \<open>
  The disk \<open>D'\<close> differs from \<open>D\<close> in slot \<open>i\<close> and in blocks no other file owns; the allocation
  bits of the other files and of the system blocks are kept.
\<close>

definition tfs_slot_change :: "content \<Rightarrow> nat \<Rightarrow> nat \<Rightarrow> content \<Rightarrow> bool" where
  "tfs_slot_change D T i D' \<longleftrightarrow>
     (\<forall>k<T. length (D' k) = BLOCK) \<and> (\<forall>k<3. bm_bit (D' 1) k) \<and>
     (\<forall>p<BLOCK. p < 20 * i \<or> 20 * i + 20 \<le> p \<longrightarrow> D' 2 ! p = D 2 ! p) \<and>
     (\<forall>j<MAX_FILES. tfs_used D j \<longrightarrow> j \<noteq> i \<longrightarrow>
        (\<forall>b\<in>set (tfs_owned D j). D' b = D b \<and> bm_bit (D' 1) b))"

lemma tfs_slot_changeD:
  assumes wf: "tfs_wf D T" and ch: "tfs_slot_change D T i D'" and j: "j < MAX_FILES" "j \<noteq> i"
  shows "tfs_used D' j = tfs_used D j" "tfs_name D' j = tfs_name D j" "tfs_ino D' j = tfs_ino D j"
    "terminated (take 16 (dir_name (D' 2) j))"
    "tfs_used D j \<Longrightarrow> tfs_owned D' j = tfs_owned D j" "tfs_used D j \<Longrightarrow> tfs_content D' j = tfs_content D j"
    "tfs_used D j \<Longrightarrow> D' (tfs_ino D j) = D (tfs_ino D j)"
proof -
  have len: "length (D' 2) = length (D 2)"
    using ch tfs_systemD(1,3) [OF wf] by (simp add: tfs_slot_change_def)
  have "D' 2 ! p = D 2 ! p" if "20 * j \<le> p" "p < 20 * j + 20" for p
  proof -
    have "p < 20 * i \<or> 20 * i + 20 \<le> p"
      using that j(2) by linarith
    moreover have "p < BLOCK"
      using that j(1) by simp
    ultimately show ?thesis
      using ch unfolding tfs_slot_change_def by blast
  qed
  note same = dir_entry_same [OF len this]
  show used: "tfs_used D' j = tfs_used D j" and ino: "tfs_ino D' j = tfs_ino D j"
    by (simp_all add: tfs_used_def tfs_ino_def same)
  show t: "terminated (take 16 (dir_name (D' 2) j))"
    using tfs_namesD(1) [OF wf j(1)] by (simp add: same)
  show "tfs_name D' j = tfs_name D j"
    unfolding tfs_name_def cstr_take [OF t] cstr_take [OF tfs_namesD(1) [OF wf j(1)]] by (simp add: same)
  have own: "D' b = D b" if "tfs_used D j" "b \<in> set (tfs_owned D j)" for b
    using ch j that by (simp add: tfs_slot_change_def)
  then show inode: "D' (tfs_ino D j) = D (tfs_ino D j)" if "tfs_used D j"
    using that by (simp add: tfs_owned_def)
  then show "tfs_owned D' j = tfs_owned D j" if "tfs_used D j"
    using that by (simp add: tfs_owned_def ino)
  have "map D' (ino_blocks (D (tfs_ino D j))) = map D (ino_blocks (D (tfs_ino D j)))" if "tfs_used D j"
    using own [OF that] by (simp add: tfs_owned_def)
  then show "tfs_content D' j = tfs_content D j" if "tfs_used D j"
    using that by (simp only: tfs_content_def ino inode file_data_def Let_def)
qed

lemma tfs_slot_change_wf:
  assumes wf: "tfs_wf D T" and ch: "tfs_slot_change D T i D'" and i: "i < MAX_FILES"
    and name: "terminated (take 16 (dir_name (D' 2) i))" "tfs_used D' i \<longleftrightarrow> tfs_name D' i \<noteq> []"
    and ok: "tfs_used D' i \<Longrightarrow> tfs_inode_ok D' T i"
    and apart: "\<And>j. tfs_used D' i \<Longrightarrow> j < MAX_FILES \<Longrightarrow> tfs_used D j \<Longrightarrow> j \<noteq> i \<Longrightarrow>
      tfs_name D' i \<noteq> tfs_name D j \<and> set (tfs_owned D' i) \<inter> set (tfs_owned D j) = {}"
  shows "tfs_wf D' T"
proof -
  note other = tfs_slot_changeD [OF wf ch]
  have "tfs_system_ok D' T"
    using ch tfs_systemD(1,2) [OF wf] by (simp add: tfs_system_ok_def tfs_slot_change_def)
  moreover have "tfs_names_ok D'"
    unfolding tfs_names_ok_def
  proof (intro allI impI)
    fix j assume j: "j < MAX_FILES"
    show "terminated (take 16 (dir_name (D' 2) j)) \<and> tfs_used D' j = (tfs_name D' j \<noteq> [])"
      using name other(1,2,4) [OF j] tfs_namesD(3) [OF wf j] by (cases "j = i") auto
  qed
  moreover have "tfs_inode_ok D' T j" if j: "j < MAX_FILES" "tfs_used D' j" for j
  proof (cases "j = i")
    case False
    then have u: "tfs_used D j"
      using other(1) j by simp
    have "bm_bit (D' 1) b" if "b \<in> set (tfs_owned D j)" for b
      using ch j(1) u False that by (simp add: tfs_slot_change_def)
    then show ?thesis
      using tfs_wfD(4) [OF wf j(1) u] other(3,5,7) [OF j(1) False] u by (simp add: tfs_inode_ok_def)
  qed (use ok j in simp)
  moreover have "tfs_name D' j \<noteq> tfs_name D' k \<and> set (tfs_owned D' j) \<inter> set (tfs_owned D' k) = {}"
    if jk: "j < MAX_FILES" "k < MAX_FILES" "tfs_used D' j" "tfs_used D' k" "j \<noteq> k" for j k
  proof (cases "j = i \<or> k = i")
    case True
    then show ?thesis
      using apart [of j] apart [of k] other(1,2,5) [OF jk(1)] other(1,2,5) [OF jk(2)] jk by auto
  next
    case False
    then show ?thesis
      using other(1,2,5) [OF jk(1)] other(1,2,5) [OF jk(2)] jk
        tfs_wfD(3) [OF wf, unfolded tfs_apart_def, rule_format, OF jk(1,2)] by simp
  qed
  ultimately show ?thesis
    unfolding tfs_wf_def tfs_apart_def by blast
qed

lemma tfs_slot_change_files:
  assumes wf: "tfs_wf D T" and ch: "tfs_slot_change D T i D'" and i: "i < MAX_FILES" and wf': "tfs_wf D' T"
  shows "tfs_files D' n = (if tfs_used D' i \<and> tfs_name D' i = n then Some (tfs_content D' i)
    else if tfs_used D i \<and> tfs_name D i = n then None else tfs_files D n)"
proof -
  note other = tfs_slot_changeD [OF wf ch]
  show ?thesis
  proof (cases "tfs_used D' i \<and> tfs_name D' i = n")
    case True
    then have "tfs_find D' n = Some i"
      using tfs_find_Some [OF wf'] i by blast
    with True show ?thesis by (simp add: tfs_files_def)
  next
    case not_new: False
    show ?thesis
    proof (cases "tfs_find D n")
      case None
      then have "tfs_find D' n = None"
        using not_new other(1,2) unfolding tfs_find_None by metis
      with None not_new show ?thesis
        by (simp add: tfs_files_def)
    next
      case (Some j)
      then have j: "j < MAX_FILES" "tfs_used D j" "tfs_name D j = n"
        using tfs_find_Some [OF wf] by blast+
      show ?thesis
      proof (cases "j = i")
        case True
        have "tfs_find D' n = None"
          unfolding tfs_find_None
        proof (intro allI impI notI)
          fix k assume k: "k < MAX_FILES" "tfs_used D' k \<and> tfs_name D' k = n"
          then have "k \<noteq> i" using not_new by blast
          then show False
            using tfs_apartD(1) [OF wf k(1) j(1) _ j(2)] k other(1,2) [OF k(1)] j(3) True by simp
        qed
        with True j not_new show ?thesis
          by (simp add: tfs_files_def)
      next
        case False
        then have "tfs_find D' n = Some j"
          using tfs_find_Some [OF wf'] j other(1,2) by simp
        moreover have "\<not> (tfs_used D i \<and> tfs_name D i = n)"
          using tfs_apartD(1) [OF wf i j(1) _ j(2)] j(3) False by auto
        ultimately show ?thesis
          using Some not_new other(6) [OF j(1) False j(2)] by (auto simp: tfs_files_def)
      qed
    qed
  qed
qed

section \<open>Removing a file\<close>

lemma get32_update: "q < a \<or> a + 4 \<le> q \<Longrightarrow> get32 (m[q := b]) a = get32 m a"
  by (rule get32_cong) auto

definition bm_clear :: "nat list \<Rightarrow> mem \<Rightarrow> mem" where
  "bm_clear bs m = fold (\<lambda>b m. bm_set m b False) bs m"

lemma bm_clear_Cons [simp]: "bm_clear (b # bs) m = bm_clear bs (bm_set m b False)"
  by (simp add: bm_clear_def)

lemma length_bm_clear [simp]: "length (bm_clear bs m) = length m"
  by (induction bs arbitrary: m) (simp_all add: bm_clear_def)

lemma bat_room: "length m = BLOCK \<Longrightarrow> b < 4096 \<Longrightarrow> 4 * (b div 32) + 4 \<le> length m"
  by (simp add: less_mult_imp_div_less)

lemma bm_bit_clear:
  assumes "length m = BLOCK" and "\<forall>b\<in>set bs. b < 4096"
  shows "bm_bit (bm_clear bs m) q \<longleftrightarrow> q \<notin> set bs \<and> bm_bit m q"
  using assms
proof (induction bs arbitrary: m)
  case (Cons b bs)
  have "4 * (b div 32) + 4 \<le> length m"
    using Cons.prems by (intro bat_room) simp_all
  with Cons show ?case
    by (simp add: bm_bit_set)
qed (simp add: bm_clear_def)

lemma bitmap_set_block:
  assumes "length m = BLOCK" and "unat w < 4096"
  shows "bitmap_set m (sint (w :: u32)) (of_bool v) = Some (bm_set m (unat w) v)"
proof -
  have "sint w = int (unat w)"
    by (rule sint_small) (use assms(2) in simp)
  then show ?thesis
    using bitmap_set_eq [of m "unat w" v] bat_room [OF assms] by simp
qed

lemmas bitmap_clear_block = bitmap_set_block [where v = False, simplified]

text \<open>The loop stops at the first zero entry, which is where the blocks of the file end.\<close>

lemma tfs_release_eq:
  assumes "length inode = BLOCK" and "length bat = BLOCK" and "nb \<le> 127" and "k \<le> nb"
    and "\<And>j. k \<le> j \<Longrightarrow> j < nb \<Longrightarrow> 0 < ino_block inode j \<and> ino_block inode j < 4096"
    and "nb < 127 \<Longrightarrow> ino_block inode nb = 0"
  shows "tfs_release inode [k..<127] bat = Some (bm_clear (map (ino_block inode) [k..<nb]) bat)"
  using assms(2,4,5)
proof (induction "nb - k" arbitrary: k bat)
  case 0
  then have "k = nb" by linarith
  show ?case
  proof (cases "nb < 127")
    case True
    then have "[k..<127] = k # [Suc k..<127]"
      using \<open>k = nb\<close> by (simp add: upt_rec)
    moreover have "get32 inode (4 + 4 * k) = 0"
      using assms(6) [OF True] \<open>k = nb\<close> by (simp add: ino_block_def unat_eq_0)
    ultimately show ?thesis
      using True \<open>k = nb\<close> assms(1) by (simp add: rd32_def bm_clear_def)
  next
    case False
    then show ?thesis
      using \<open>k = nb\<close> assms(3) 0(2) by (simp add: rd32_def bm_clear_def)
  qed
next
  case (Suc n)
  then have k: "k < nb" by linarith
  then have up: "[k..<127] = k # [Suc k..<127]" "[k..<nb] = k # [Suc k..<nb]"
    using assms(3) by (simp_all add: upt_rec)
  have b: "0 < ino_block inode k" "ino_block inode k < 4096"
    using Suc.prems(3) [of k] k by auto
  have rd: "rd32 inode (4 + 4 * k) = Some (get32 inode (4 + 4 * k))" "get32 inode (4 + 4 * k) \<noteq> 0"
    using k assms(1,3) b by (auto simp: rd32_def ino_block_def)
  have set: "bitmap_set bat (sint (get32 inode (4 + 4 * k))) 0 = Some (bm_set bat (ino_block inode k) False)"
    using bitmap_clear_block [OF Suc.prems(1), of "get32 inode (4 + 4 * k)"] b by (simp add: ino_block_def)
  have "tfs_release inode [Suc k..<127] (bm_set bat (ino_block inode k) False) =
      Some (bm_clear (map (ino_block inode) [Suc k..<nb]) (bm_set bat (ino_block inode k) False))"
    by (rule Suc.hyps(1)) (use Suc.hyps(2) Suc.prems k in auto)
  then show ?case
    by (simp add: up rd set del: upt_Suc)
qed

context block_device
begin

lemma tfs_remove_wp:
  assumes s: "tfs_at ready blk D tb L s" and "0 < L" and wf: "tfs_wf D (unat tb)" and nblk: "unat tb \<le> nblk"
    and f: "terminated f" "cstr f \<noteq> []"
  shows "wp (tfs_remove G f s) (\<lambda>(r, s'). 
    if tfs_files D (cstr f) = None then r = VFS_NOT_FOUND \<and> tfs_at ready blk D tb L s'
    else r = VFS_OK \<and> (\<exists>D'. tfs_at ready blk D' tb L s' \<and> tfs_wf D' (unat tb) \<and>
      tfs_files D' = (tfs_files D)(cstr f := None)))"
proof -
  have sys: "unat (1::u32) < nblk" "unat (2::u32) < nblk"
    using tfs_systemD(1) [OF wf] nblk by simp_all
  have T: "unat tb \<le> 4096" "3 \<le> unat tb"
    using tfs_systemD(1,2) [OF wf] by simp_all
  note len = tfs_system_len [OF wf]
  show ?thesis
  proof (cases "tfs_find D (cstr f)")
    case None
    show ?thesis
      unfolding tfs_remove_def
      apply (rule wp_bindI, rule wp_tfs_P [OF s \<open>0 < L\<close>])
      apply (rule wp_bindI, erule wp_load_md [OF _ sys(2)])
      using None apply (simp add: dir_find_tfs [OF wf f] tfs_files_def)
      done
  next
    case (Some i)
    then have i: "i < MAX_FILES" "tfs_used D i" "tfs_name D i = cstr f"
      using tfs_find_Some [OF wf] by blast+
    define I where "I = D (tfs_ino D i)"
    define bat where "bat = bm_clear (tfs_owned D i) (D 1)"
    define md where "md = (set32 (D 2) (20 * i) 0)[20 * i + 4 := 0]"
    define D' where "D' = D(1 := bat, 2 := md)"
    note ino = tfs_ino_less [OF wf i(1,2)]
    note fD = tfs_fileD [OF wf i(1,2), folded I_def]
    have rd: "rd32 (D 2) (20 * i) = Some (dir_inode (D 2) i)"
      by (rule dir_inode_rd [OF i(1) len(3)])
    have ib: "unat (dir_inode (D 2) i) = tfs_ino D i"
      by (simp add: tfs_ino_def)
    have owned: "3 \<le> b \<and> b < unat tb \<and> bm_bit (D 1) b" if "b \<in> set (tfs_owned D i)" for b
      using tfs_wfD(4) [OF wf i(1,2)] that by (simp add: tfs_inode_ok_def)
    have free: "bitmap_set (D 1) (sint (dir_inode (D 2) i)) 0 = Some (bm_set (D 1) (tfs_ino D i) False)"
      using bitmap_clear_block [OF len(1), of "dir_inode (D 2) i"] ib ino T by simp
    have rel: "tfs_release I [0..<127] (bm_set (D 1) (tfs_ino D i) False) = Some bat"
    proof -
      have "tfs_release I [0..<127] (bm_set (D 1) (tfs_ino D i) False) =
        Some (bm_clear (map (ino_block I) [0..<nblocks (ino_size I)]) (bm_set (D 1) (tfs_ino D i) False))"
      proof (rule tfs_release_eq [OF fD(3) _ fD(2)])
        show "0 < ino_block I j \<and> ino_block I j < 4096" if "j < nblocks (ino_size I)" for j
        proof -
          have "ino_block I j \<in> set (tfs_owned D i)"
            using that by (simp add: tfs_owned_def ino_blocks_def I_def)
          then show ?thesis
            using owned T by fastforce
        qed
        show "ino_block I (nblocks (ino_size I)) = 0" if "nblocks (ino_size I) < 127"
          using tfs_wfD(4) [OF wf i(1,2)] that by (simp add: tfs_inode_ok_def I_def)
      qed (use len in simp_all)
      then show ?thesis
        by (simp add: bat_def tfs_owned_def ino_blocks_def I_def)
    qed
    have mdw: "wr32 (D 2) (20 * i) 0 = Some (set32 (D 2) (20 * i) 0)"
      "wr8 (set32 (D 2) (20 * i) 0) (20 * i + 4) 0 = Some md"
      using i(1) len by (simp_all add: wr32_def wr8_def md_def)
    have lens: "length bat = BLOCK" "length md = BLOCK"
      using len by (simp_all add: bat_def md_def)
    have bits: "bm_bit bat q \<longleftrightarrow> q \<notin> set (tfs_owned D i) \<and> bm_bit (D 1) q" for q
      unfolding bat_def by (rule bm_bit_clear [OF len(1)]) (use owned T in fastforce)
    have mdp: "md ! p = D 2 ! p" if "p < 20 * i \<or> 20 * i + 20 \<le> p" for p
      using that by (auto simp: md_def nth_set32_other)
    have D'b: "D' 1 = bat" "D' (Suc 0) = bat" "D' 2 = md" "\<And>b. 3 \<le> b \<Longrightarrow> D' b = D b"
      by (simp_all add: D'_def)
    have ch: "tfs_slot_change D (unat tb) i D'"
      unfolding tfs_slot_change_def
    proof (intro conjI allI ballI impI)
      show "length (D' k) = BLOCK" if "k < unat tb" for k
        using tfs_systemD(3) [OF wf that] lens by (simp add: D'_def)
      show "bm_bit (D' 1) k" if "k < 3" for k
        using tfs_systemD(4) [OF wf that] owned [of k] that by (auto simp: D'b bits)
      show "D' 2 ! p = D 2 ! p" if "p < 20 * i \<or> 20 * i + 20 \<le> p" for p
        using mdp that by (simp add: D'b)
      fix j b assume j: "j < MAX_FILES" "tfs_used D j" "j \<noteq> i" and b: "b \<in> set (tfs_owned D j)"
      have "3 \<le> b \<and> bm_bit (D 1) b"
        using tfs_wfD(4) [OF wf j(1,2)] b by (simp add: tfs_inode_ok_def)
      moreover have "b \<notin> set (tfs_owned D i)"
        using tfs_apartD(2) [OF wf j(1) i(1) j(2) i(2) b] j(3) by blast
      ultimately show "D' b = D b" "bm_bit (D' 1) b"
        by (simp_all add: D'b bits)
    qed
    have unused: "\<not> tfs_used D' i"
      using i(1) len by (simp add: tfs_used_def D'b md_def dir_inode_def get32_update get32_set32_same)
    have "drop (20 * i + 4) md = md ! (20 * i + 4) # drop (Suc (20 * i + 4)) md"
      by (rule Cons_nth_drop_Suc [symmetric]) (use i(1) lens in simp)
    moreover have "md ! (20 * i + 4) = 0"
      using i(1) len by (simp add: md_def)
    ultimately have name: "dir_name (D' 2) i = 0 # drop (Suc (20 * i + 4)) md"
      by (simp only: dir_name_def D'b)
    have wf': "tfs_wf D' (unat tb)"
      by (rule tfs_slot_change_wf [OF wf ch i(1)]) (use unused name in \<open>simp_all add: tfs_name_def\<close>)
    have files: "tfs_files D' = (tfs_files D)(cstr f := None)"
    proof
      show "tfs_files D' n = ((tfs_files D)(cstr f := None)) n" for n
        using tfs_slot_change_files [OF wf ch i(1) wf', of n] unused i by auto
    qed
    have post: "\<not> tfs_files D (cstr f) = None"
      using Some by (simp add: tfs_files_def)
    show ?thesis
      unfolding tfs_remove_def
      apply (rule wp_bindI, rule wp_tfs_P [OF s \<open>0 < L\<close>])
      apply (rule wp_bindI, erule wp_load_md [OF _ sys(2)])
      apply (simp add: dir_find_tfs [OF wf f] Some)
      apply (rule wp_bindI, erule wp_load_bat [OF _ sys(1)])
      apply (simp add: rd)
      apply (rule wp_bindI, erule wp_load_inode)
      using ino nblk apply (simp add: ib)
      apply (simp add: free [unfolded One_nat_def] rel [unfolded One_nat_def] mdw ib I_def [symmetric])
      apply (rule wp_bindI, rule wp_store_bat [where D = D and L = "L - 1" and tb = tb, OF _ sys(1)])
       apply (simp add: tfs_at_def lens)
      apply simp
      apply (rule wp_bindI, erule wp_store_md [OF _ sys(2)])
      using wf' files post apply (auto simp: D'_def)
      done
  qed
qed

end

section \<open>Allocating blocks\<close>

text \<open>The blocks below \<open>T\<close> that a bitmap leaves free.\<close>

definition bm_free :: "mem \<Rightarrow> nat \<Rightarrow> nat set" where
  "bm_free m T = {b. b < T \<and> \<not> bm_bit m b}"

lemma finite_bm_free [simp]: "finite (bm_free m T)"
  by (simp add: bm_free_def)

lemma findnset_bat:
  assumes "length m = BLOCK" and "unat tb \<le> 4096"
  shows "(\<exists>p. p \<in> bm_free m (unat tb) \<and>
      bitmap_findnset m (sint tb) = Some (int p, bm_set m p True)) \<or>
    (bm_free m (unat tb) = {} \<and> bitmap_findnset m (sint (tb :: u32)) = Some (- 1, m))"
proof -
  have sint: "sint tb = int (unat tb)"
    by (rule sint_small) (use assms(2) in simp)
  have "int (unat tb) \<le> 4096"
    using assms(2) by linarith
  then have room: "bm_room m (unat tb)" "int_ok (int (unat tb) + 31)"
    using assms by (simp add: bm_room_def, intro int_okI) linarith+
  show ?thesis
  proof (cases "\<forall>q<unat tb. bm_bit m q")
    case True
    then show ?thesis
      using bitmap_findnset_eq_full [OF room] by (simp add: sint bm_free_def)
  next
    case False
    then obtain p where "p < unat tb" "\<not> bm_bit m p" "\<And>q. q < p \<Longrightarrow> bm_bit m q"
      using bm_first_clear [of "unat tb" m] False by metis
    then show ?thesis
      using bitmap_findnset_eq_found [OF room] by (auto simp: sint bm_free_def)
  qed
qed

lemma bm_free_set:
  "length m = BLOCK \<Longrightarrow> p < 4096 \<Longrightarrow> bm_free (bm_set m p True) T = bm_free m T - {p}"
  by (auto simp: bm_free_def bm_bit_set bat_room)

lemma ino_block_set:
  assumes "4 + 4 * k + 4 \<le> length m"
  shows "ino_block (set32 m (4 + 4 * k) w) j = (if j = k then unat w else ino_block m j)"
proof (cases "j = k")
  case False
  then have "4 + 4 * k + 4 \<le> 4 + 4 * j \<or> 4 + 4 * j + 4 \<le> 4 + 4 * k"
    by linarith
  with False show ?thesis
    by (simp add: ino_block_def get32_set32_other)
qed (use assms in \<open>simp add: ino_block_def get32_set32_same\<close>)

text \<open>What the allocation loop leaves behind: the blocks \<open>bs\<close> it took from the bitmap.\<close>

definition alloc_result :: "nat \<Rightarrow> nat \<Rightarrow> nat \<Rightarrow> 'd tfs \<Rightarrow> nat list \<Rightarrow> bool \<Rightarrow> 'd tfs \<Rightarrow> bool" where
  "alloc_result T k nb s bs ok s' \<longleftrightarrow>
     s' = s\<lparr>t_bat := t_bat s', t_inode := t_inode s'\<rparr> \<and>
     length (t_bat s') = BLOCK \<and> length (t_inode s') = BLOCK \<and>
     distinct bs \<and> set bs \<subseteq> bm_free (t_bat s) T \<and>
     (\<forall>q. bm_bit (t_bat s') q \<longleftrightarrow> q \<in> set bs \<or> bm_bit (t_bat s) q) \<and>
     get32 (t_inode s') 0 = get32 (t_inode s) 0 \<and>
     (\<forall>j<k. ino_block (t_inode s') j = ino_block (t_inode s) j) \<and>
     (if ok then length bs = nb - k \<and> (\<forall>j<nb - k. ino_block (t_inode s') (k + j) = bs ! j)
      else length bs < nb - k \<and> set bs = bm_free (t_bat s) T)"

lemma tfs_alloc_wp:
  assumes "length (t_bat s) = BLOCK" and "length (t_inode s) = BLOCK"
    and "unat (t_totalblocks s) \<le> 4096" and "nb \<le> 127" and "k \<le> nb"
  shows "wp (tfs_alloc [k..<nb] s) (\<lambda>(ok, s'). \<exists>bs. alloc_result (unat (t_totalblocks s)) k nb s bs ok s')"
  using assms(1-3,5)
proof (induction "nb - k" arbitrary: k s)
  case 0
  then have "k = nb" by linarith
  then show ?case
    using 0(2,3) by (auto simp: alloc_result_def intro!: exI [of _ "[]"])
next
  case (Suc n)
  then have k: "k < nb" by linarith
  then have up: "[k..<nb] = k # [Suc k..<nb]"
    by (simp add: upt_rec)
  have room: "4 + 4 * k + 4 \<le> length (t_inode s)"
    using Suc.prems(2) k assms(4) by simp
  let ?T = "unat (t_totalblocks s)"
  consider p where "p \<in> bm_free (t_bat s) ?T"
      "bitmap_findnset (t_bat s) (sint (t_totalblocks s)) = Some (int p, bm_set (t_bat s) p True)"
    | "bm_free (t_bat s) ?T = {}" "bitmap_findnset (t_bat s) (sint (t_totalblocks s)) = Some (- 1, t_bat s)"
    using findnset_bat [OF Suc.prems(1,3)] by blast
  then show ?case
  proof cases
    case 1
    then have p: "p < 4096" "p < ?T" "\<not> bm_bit (t_bat s) p"
      using Suc.prems(3) by (auto simp: bm_free_def)
    have up32: "unat (word_of_nat p :: u32) = p"
      using p(1) by (simp add: unat_of_nat take_bit_nat_eq_self)
    define s1 where "s1 = s\<lparr>t_bat := bm_set (t_bat s) p True,
      t_inode := set32 (t_inode s) (4 + 4 * k) (word_of_nat p)\<rparr>"
    have s1: "t_totalblocks s1 = t_totalblocks s" "length (t_bat s1) = BLOCK" "length (t_inode s1) = BLOCK"
      "bm_free (t_bat s1) ?T = bm_free (t_bat s) ?T - {p}"
      "bm_bit (t_bat s1) q \<longleftrightarrow> q = p \<or> bm_bit (t_bat s) q"
      "get32 (t_inode s1) 0 = get32 (t_inode s) 0"
      "ino_block (t_inode s1) j = (if j = k then p else ino_block (t_inode s) j)" for q j
      using Suc.prems p(1) room up32
      by (auto simp: s1_def bm_free_set bm_bit_set bat_room get32_set32_other ino_block_set)
    have "wp (tfs_alloc [Suc k..<nb] s1) (\<lambda>(ok, s'). \<exists>bs. alloc_result (unat (t_totalblocks s1)) (Suc k) nb s1 bs ok s')"
      by (rule Suc.hyps(1)) (use Suc.hyps(2) Suc.prems s1 k in simp_all)
    moreover have "alloc_result ?T k nb s (p # bs) ok s'"
      if "alloc_result ?T (Suc k) nb s1 bs ok s'" for bs ok s'
    proof -
      have r: "s' = s1\<lparr>t_bat := t_bat s', t_inode := t_inode s'\<rparr>" "distinct bs"
        "set bs \<subseteq> bm_free (t_bat s1) ?T" "\<And>q. bm_bit (t_bat s') q \<longleftrightarrow> q \<in> set bs \<or> bm_bit (t_bat s1) q"
        "\<And>j. j < Suc k \<Longrightarrow> ino_block (t_inode s') j = ino_block (t_inode s1) j"
        "ok \<Longrightarrow> length bs = nb - Suc k \<and> (\<forall>j<nb - Suc k. ino_block (t_inode s') (Suc k + j) = bs ! j)"
        "\<not> ok \<Longrightarrow> length bs < nb - Suc k \<and> set bs = bm_free (t_bat s1) ?T"
        using that by (auto simp: alloc_result_def)
      have "s' = s\<lparr>t_bat := t_bat s', t_inode := t_inode s'\<rparr>"
        by (subst r(1)) (simp add: s1_def)
      moreover have "ino_block (t_inode s') (k + j) = (p # bs) ! j" if "ok" "j < nb - k" for j
        using r(5) [of k] r(6) that s1(7) by (cases j) auto
      moreover have "ino_block (t_inode s') j = ino_block (t_inode s) j" if "j < k" for j
        using r(5) [of j] that s1(7) by simp
      ultimately show ?thesis
        using that r(2-4,6,7) s1(4,5,6) 1(1) k by (auto simp: alloc_result_def)
    qed
    ultimately have "wp (tfs_alloc [Suc k..<nb] s1) (\<lambda>(ok, s'). \<exists>bs. alloc_result ?T k nb s bs ok s')"
      unfolding s1(1) by (auto elim!: wp_mono)
    then show ?thesis
      using room by (simp add: up 1 wp_simps Let_def s1_def del: upt_Suc)
  next
    case 2
    have "alloc_result ?T k nb s [] False (s\<lparr>t_inode := set32 (t_inode s) (4 + 4 * k) (- 1)\<rparr>)"
      using 2 Suc.prems room k by (simp add: alloc_result_def get32_set32_other ino_block_set)
    with 2 room show ?thesis
      by (auto simp: up wp_simps Let_def simp del: upt_Suc)
  qed
qed

section \<open>Creating a file\<close>

lemma memoryset_block: "length m = BLOCK \<Longrightarrow> memoryset 0 v 512 m = Some (replicate BLOCK v)"
proof -
  assume m: "length m = BLOCK"
  have "wp (memoryset 0 v 512 m) (\<lambda>m'. length m' = BLOCK \<and> (\<forall>j<BLOCK. m' ! j = v))"
    unfolding memoryset_def
    by (rule wp_for_each_upt [where P = "\<lambda>k m'. length m' = BLOCK \<and> (\<forall>j<k. m' ! j = v)"])
      (auto simp: m wp_simps nth_list_update less_Suc_eq)
  then obtain m' where "memoryset 0 v 512 m = Some m'" "length m' = BLOCK" "\<forall>j<BLOCK. m' ! j = v"
    by (auto dest: wpD)
  then show ?thesis
    by (auto intro!: nth_equalityI)
qed

text \<open>A directory block with a new entry.\<close>

definition dir_entry :: "mem \<Rightarrow> nat \<Rightarrow> mem \<Rightarrow> u32 \<Rightarrow> mem" where
  "dir_entry md i name inode =
     set32 (take (20 * i + 4) md @ name @ 0 # drop (20 * i + 4 + length name + 1) md) (20 * i) inode"

lemma drop_set32: "a + 4 \<le> q \<Longrightarrow> drop q (set32 m a w) = drop q m"
  by (rule nth_equalityI) (auto simp: nth_set32_other)

lemma dir_entry_props:
  assumes "length md = BLOCK" and "i < MAX_FILES" and "length name \<le> 15" and "0 \<notin> set name"
  shows "length (dir_entry md i name inode) = BLOCK" "dir_inode (dir_entry md i name inode) i = inode"
    "cstr (dir_name (dir_entry md i name inode) i) = name"
    "terminated (take 16 (dir_name (dir_entry md i name inode) i))"
    "p < BLOCK \<Longrightarrow> p < 20 * i \<or> 20 * i + 20 \<le> p \<Longrightarrow> dir_entry md i name inode ! p = md ! p"
proof -
  have fit: "20 * i + 4 + length name + 1 \<le> 20 * i + 20" "20 * i + 20 \<le> BLOCK"
    using assms(2,3) by simp_all
  show len: "length (dir_entry md i name inode) = BLOCK"
    using assms(1) fit by (simp add: dir_entry_def)
  show "dir_inode (dir_entry md i name inode) i = inode"
    using assms(1) fit by (simp add: dir_entry_def dir_inode_def get32_set32_same)
  have name: "dir_name (dir_entry md i name inode) i = name @ 0 # drop (20 * i + 4 + length name + 1) md"
    using assms(1) fit by (simp add: dir_entry_def dir_name_def drop_set32)
  then show "cstr (dir_name (dir_entry md i name inode) i) = name"
    using assms(4) by simp
  show "terminated (take 16 (dir_name (dir_entry md i name inode) i))"
    using assms(3) by (simp add: name terminated_def take_Cons')
  show "dir_entry md i name inode ! p = md ! p" if "p < BLOCK" "p < 20 * i \<or> 20 * i + 20 \<le> p"
    using that assms(1) fit by (auto simp: dir_entry_def nth_set32_other nth_append nth_Cons')
qed

lemma dir_set_name_eq:
  assumes "length md = BLOCK" and "i < MAX_FILES" and "terminated f" and "length (cstr f) \<le> 15"
  shows "dir_set_name md i f = Some (take (20 * i + 4) md @ cstr f @ 0 # drop (20 * i + 4 + length (cstr f) + 1) md)"
proof -
  have "stringcopy (dir_name md i) f 16 =
      (let w = take (nat 16 - 1) (cstr f) in Some (w @ 0 # drop (length w + 1) (dir_name md i)))"
    by (rule stringcopy_eq) (use assms in \<open>simp_all add: dir_name_def\<close>)
  then show ?thesis
    using assms(4) by (simp add: dir_set_name_def dir_name_def Let_def add.commute)
qed


text \<open>The number of blocks of a new file, as the unsigned division computes it.\<close>

lemma create_numblocks:
  assumes "0 \<le> sz" and "int_ok (sz + 512)"
  shows "unat (word_of_int (cdiv (sz + 512 - 1) 512) :: u32) = nblocks (nat sz)"
proof -
  have "cdiv (sz + 512 - 1) 512 = (sz + 511) div 512"
    using assms(1) by (simp add: add.commute)
  moreover have "0 \<le> (sz + 511) div 512" "(sz + 511) div 512 \<le> sz + 511"
    using assms(1) mult_div_mod_eq [of 512 "sz + 511"] pos_mod_sign [of 512 "sz + 511"] by linarith+
  then have "int_ok ((sz + 511) div 512)" "0 \<le> (sz + 511) div 512"
    using assms unfolding int_ok_def by linarith+
  ultimately show ?thesis
    using assms(1) by (simp add: nblocks_def nat_div_distrib nat_add_distrib)
qed

context block_device
begin

lemma tfs_zero_wp:
  assumes "tfs_at ready blk D tb L s" and "length (t_inode s) = BLOCK" and "n \<le> 127"
    and "\<And>j. j < n \<Longrightarrow> ino_block (t_inode s) j < nblk"
    and "k \<le> n"
  shows "wp (tfs_zero_blocks G [k..<n] s) (\<lambda>(r, s'). r = VFS_OK \<and>
    tfs_at ready blk (\<lambda>b. if b \<in> ino_block (t_inode s) ` {k..<n} then t_bat s else D b) tb (L + 1) s')"
  using assms
proof (induction "n - k" arbitrary: k s D)
  case 0
  then have "k = n" by linarith
  with 0(2) show ?case by simp
next
  case (Suc m)
  then have k: "k < n" by linarith
  then have up: "[k..<n] = k # [Suc k..<n]"
    by (simp add: upt_rec)
  have rd: "rd32 (t_inode s) (4 + 4 * k) = Some (get32 (t_inode s) (4 + 4 * k))"
    using Suc.prems k by (simp add: rd32_def)
  have "{k..<n} = insert k {Suc k..<n}"
    using k by auto
  then have img: "ino_block (t_inode s) ` {k..<n} = insert (ino_block (t_inode s) k) (ino_block (t_inode s) ` {Suc k..<n})"
    by simp
  show ?case
    unfolding up tfs_zero_blocks.simps rd Option.bind.simps
  proof (rule wp_bindI, rule wp_store_bat [OF Suc.prems(1)])
    show "unat (get32 (t_inode s) (4 + 4 * k)) < nblk"
      using Suc.prems(4) [OF k] by (simp add: ino_block_def)
    fix s' assume at: "tfs_at ready blk (D(unat (get32 (t_inode s) (4 + 4 * k)) := t_bat s)) tb L s'"
      and same: "t_bat s' = t_bat s" "t_inode s' = t_inode s"
    have "wp (tfs_zero_blocks G [Suc k..<n] s') (\<lambda>(r, s''). r = VFS_OK \<and>
      tfs_at ready blk (\<lambda>b. if b \<in> ino_block (t_inode s') ` {Suc k..<n} then t_bat s'
        else (D(unat (get32 (t_inode s) (4 + 4 * k)) := t_bat s)) b) tb (L + 1) s'')"
      by (rule Suc.hyps(1) [OF _ at]) (use Suc.hyps(2) Suc.prems k same in simp_all)
    moreover have "(\<lambda>b. if b \<in> ino_block (t_inode s') ` {Suc k..<n} then t_bat s'
        else (D(unat (get32 (t_inode s) (4 + 4 * k)) := t_bat s)) b) =
      (\<lambda>b. if b \<in> ino_block (t_inode s) ` {k..<n} then t_bat s else D b)"
      unfolding img same by (auto simp: fun_eq_iff ino_block_def)
    ultimately show "wp (case (1 :: int, s') of (r, s) \<Rightarrow>
        if r = 0 then Some (VFS_ERROR, tfs_V s) else tfs_zero_blocks G [Suc k..<n] s)
      (\<lambda>(r, s'). r = VFS_OK \<and>
        tfs_at ready blk (\<lambda>b. if b \<in> ino_block (t_inode s) ` {k..<n} then t_bat s else D b) tb (L + 1) s')"
      by simp
  qed
qed

end

end
