(* ===== verification/Tfs_Create.thy ===== *)
theory Tfs_Create
  imports Tfs_Alloc
begin

text \<open>
  Creating a file of the Trivial Filesystem: the space is reserved in the allocation block,
  the directory entry and the inode are written and the blocks of the file are cleared.
\<close>

lemma concat_zero_blocks: "concat (replicate k (replicate m x)) = replicate (m * k) x"
  by (induction k) (simp_all add: replicate_add)

text \<open>The disk after a file of \<open>n\<close> bytes was created in slot \<open>i\<close>: inode \<open>b0\<close>, blocks \<open>bs\<close>.\<close>

definition tfs_created :: "content \<Rightarrow> nat \<Rightarrow> nat \<Rightarrow> mem \<Rightarrow> nat \<Rightarrow> nat \<Rightarrow> nat list \<Rightarrow> mem \<Rightarrow> mem \<Rightarrow> content" where
  "tfs_created D T i name n b0 bs bat inode =
     (\<lambda>b. if b \<in> set bs then replicate BLOCK 0
          else (D(1 := bat, 2 := dir_entry (D 2) i name (word_of_nat b0), b0 := inode)) b)"

lemma tfs_created_correct:
  assumes wf: "tfs_wf D T" and i: "i < MAX_FILES" "\<not> tfs_used D i"
    and name: "name \<noteq> []" "length name \<le> 15" "0 \<notin> set name" "tfs_find D name = None"
    and b0: "b0 \<in> bm_free (D 1) T" and bs: "set bs \<subseteq> bm_free (D 1) T - {b0}" "distinct bs" "length bs = nblocks n"
    and bat: "length bat = BLOCK" "\<And>q. bm_bit bat q \<longleftrightarrow> q \<in> set bs \<or> q = b0 \<or> bm_bit (D 1) q"
    and inode: "length inode = BLOCK" "ino_size inode = n" "n \<le> 65024"
      "\<And>j. j < 127 \<Longrightarrow> ino_block inode j = (if j < nblocks n then bs ! j else 0)"
  defines "D' \<equiv> tfs_created D T i name n b0 bs bat inode"
  shows "tfs_wf D' T" "tfs_files D' = (tfs_files D)(name \<mapsto> replicate n 0)"
proof -
  have free: "3 \<le> b \<and> b < T \<and> \<not> bm_bit (D 1) b" if "b \<in> bm_free (D 1) T" for b
    using that tfs_systemD(4) [OF wf, of b] by (force simp: bm_free_def)
  note fb0 = free [OF b0]
  have fbs: "3 \<le> b \<and> b < T \<and> \<not> bm_bit (D 1) b \<and> b \<noteq> b0" if "b \<in> set bs" for b
    using that bs(1) free by blast
  have T: "T \<le> 4096" "3 \<le> T"
    using tfs_systemD [OF wf] by simp_all
  note entry = dir_entry_props [OF tfs_system_len(3) [OF wf] i(1) name(2,3)]
  have D': "D' 1 = bat" "D' (Suc 0) = bat" "D' 2 = dir_entry (D 2) i name (word_of_nat b0)" "D' b0 = inode"
    "\<And>b. b \<in> set bs \<Longrightarrow> D' b = replicate BLOCK 0"
    "\<And>b. 3 \<le> b \<Longrightarrow> b \<noteq> b0 \<Longrightarrow> b \<notin> set bs \<Longrightarrow> D' b = D b"
    using fb0 fbs by (force simp: D'_def tfs_created_def)+
  have w0: "unat (word_of_nat b0 :: u32) = b0"
    using fb0 T by (simp add: unat_of_nat take_bit_nat_eq_self)
  have ino: "tfs_ino D' i = b0" and nm: "tfs_name D' i = name"
    by (simp_all add: tfs_ino_def tfs_name_def D' entry w0)
  have used: "tfs_used D' i"
    using ino fb0 by (auto simp: tfs_ino_def tfs_used_def)
  have nb: "nblocks n \<le> 127"
    using inode(3) by (simp add: nblocks_def)
  have blocks: "ino_blocks inode = bs"
    by (rule nth_equalityI) (use bs(3) nb inode(2,4) in \<open>simp_all add: ino_blocks_def\<close>)
  have owned: "tfs_owned D' i = b0 # bs"
    by (simp add: tfs_owned_def ino D' blocks)
  have ch: "tfs_slot_change D T i D'"
    unfolding tfs_slot_change_def
  proof (intro conjI allI ballI impI)
    show "length (D' k) = BLOCK" if "k < T" for k
      using tfs_systemD(3) [OF wf that] bat(1) inode(1) entry(1)
      by (simp add: D'_def tfs_created_def)
    show "bm_bit (D' 1) k" if "k < 3" for k
      using tfs_systemD(4) [OF wf that] by (simp add: D' bat(2))
    show "D' 2 ! p = D 2 ! p" if "p < BLOCK" "p < 20 * i \<or> 20 * i + 20 \<le> p" for p
      using entry(5) [OF that] by (simp add: D')
    fix j b assume j: "j < MAX_FILES" "tfs_used D j" "j \<noteq> i" and b: "b \<in> set (tfs_owned D j)"
    have "3 \<le> b \<and> bm_bit (D 1) b"
      using tfs_wfD(4) [OF wf j(1,2)] b by (simp add: tfs_inode_ok_def)
    then show "D' b = D b" "bm_bit (D' 1) b"
      using fb0 fbs by (auto simp: D' bat(2) intro!: D'(6))
  qed
  have ok: "tfs_inode_ok D' T i"
    using bs(2) fb0 fbs inode nb
    by (auto simp: tfs_inode_ok_def ino owned D' bat(2))
  show wf': "tfs_wf D' T"
  proof (rule tfs_slot_change_wf [OF wf ch i(1)])
    fix j assume j: "j < MAX_FILES" "tfs_used D j" "j \<noteq> i"
    have "name \<noteq> tfs_name D j"
      using name(4) j unfolding tfs_find_None by blast
    moreover have "\<forall>b\<in>set (tfs_owned D j). bm_bit (D 1) b"
      using tfs_wfD(4) [OF wf j(1,2)] by (simp add: tfs_inode_ok_def)
    then have "set (tfs_owned D' i) \<inter> set (tfs_owned D j) = {}"
      using fb0 fbs by (auto simp: owned)
    ultimately show "tfs_name D' i \<noteq> tfs_name D j \<and> set (tfs_owned D' i) \<inter> set (tfs_owned D j) = {}"
      by (simp add: nm)
  qed (use ok used nm name(1) entry in \<open>simp_all add: D'\<close>)
  have "map D' bs = map (\<lambda>_. replicate BLOCK 0) bs"
    using D'(5) by (intro map_cong) simp_all
  then have "file_data D' bs = replicate (BLOCK * nblocks n) 0"
    by (simp only: file_data_def map_replicate_const bs(3) concat_zero_blocks)
  moreover have "n \<le> BLOCK * nblocks n"
    by (simp add: nblocks_def)
  ultimately have "tfs_content D' i = replicate n 0"
    by (simp add: tfs_content_def ino D' inode(2) blocks Let_def)
  then show "tfs_files D' = (tfs_files D)(name \<mapsto> replicate n 0)"
    using tfs_slot_change_files [OF wf ch i(1) wf'] used nm i(2) by (auto simp: fun_eq_iff)
qed

text \<open>The loop that clears the unused entries of the inode.\<close>

lemma clear_tail_wp:
  assumes "length m = BLOCK" and "n \<le> 127"
  shows "wp (for_each [n..<127] (\<lambda>i m. wr32 m (4 + 4 * i) 0) m) (\<lambda>m'. length m' = BLOCK \<and>
    get32 m' 0 = get32 m 0 \<and> (\<forall>j<127. ino_block m' j = (if j < n then ino_block m j else 0)))"
proof -
  have "wp (for_each [k..<127] (\<lambda>i m. wr32 m (4 + 4 * i) 0) m) (\<lambda>m'. length m' = BLOCK \<and>
      get32 m' 0 = get32 m 0 \<and> (\<forall>j<127. ino_block m' j = (if j < k then ino_block m j else 0)))"
    if "length m = BLOCK" "k \<le> 127" for k m
    using that
  proof (induction "127 - k" arbitrary: k m)
    case (Suc d)
    then have k: "k < 127" by linarith
    then have up: "[k..<127] = k # [Suc k..<127]"
      by (simp add: upt_rec)
    have room: "4 + 4 * k + 4 \<le> length m"
      using k Suc.prems by simp
    have "wp (for_each [Suc k..<127] (\<lambda>i m. wr32 m (4 + 4 * i) 0) (set32 m (4 + 4 * k) 0))
      (\<lambda>m'. length m' = BLOCK \<and> get32 m' 0 = get32 (set32 m (4 + 4 * k) 0) 0 \<and>
        (\<forall>j<127. ino_block m' j = (if j < Suc k then ino_block (set32 m (4 + 4 * k) 0) j else 0)))"
      by (rule Suc.hyps(1)) (use Suc.hyps(2) Suc.prems k in simp_all)
    then show ?case
      unfolding up for_each.simps wr32_def if_P [OF room] Option.bind.simps
      by (rule wp_mono) (use room in \<open>auto simp: ino_block_set get32_set32_other\<close>)
  qed simp
  from this [OF assms] show ?thesis .
qed

text \<open>When the new entry of the directory is chosen and the allocation block is read.\<close>

context block_device
begin

lemma tfs_create_blocks_wp:
  assumes wf: "tfs_wf D (unat tb)" and nblk: "unat tb \<le> nblk" and i: "i < MAX_FILES" "\<not> tfs_used D i"
    and name: "name \<noteq> []" "length name \<le> 15" "0 \<notin> set name" "tfs_find D name = None"
    and sz: "0 \<le> sz" "nblocks (nat sz) \<le> 127"
    and b0: "b0 \<in> bm_free (D 1) (unat tb)"
    and s: "tfs_at ready blk D tb L s" "t_bat s = bm_set (D 1) b0 True"
      "t_md s = dir_entry (D 2) i name (word_of_nat b0)"
  shows "wp (tfs_create_blocks G i sz (nblocks (nat sz)) s) (\<lambda>(r, s').
    if nblocks (nat sz) < card (bm_free (D 1) (unat tb))
    then r = VFS_OK \<and> (\<exists>D'. tfs_at ready blk D' tb (L + 1) s' \<and> tfs_wf D' (unat tb) \<and>
      tfs_files D' = (tfs_files D)(name \<mapsto> replicate (nat sz) 0))
    else r = VFS_ERROR \<and> tfs_at ready blk D tb (L + 1) s')"
proof -
  define n where "n = nat sz"
  define T where "T = unat tb"
  have T: "T \<le> 4096" "3 \<le> T" "T \<le> nblk"
    using tfs_systemD [OF wf] nblk by (simp_all add: T_def)
  have n: "n \<le> 65024" "int n = sz" "nblocks n \<le> 127"
    using sz by (auto simp: n_def nblocks_def)
  have len: "length (t_inode s) = BLOCK" "length (t_bat s) = BLOCK" "t_totalblocks s = tb"
    using s(1) by (simp_all add: tfs_at_def)
  have b0': "b0 < T" "3 \<le> b0" "b0 < 4096" "\<not> bm_bit (D 1) b0"
    using b0 tfs_systemD(4) [OF wf, of b0] T by (force simp: bm_free_def T_def)+
  have w0: "unat (word_of_nat b0 :: u32) = b0"
    using b0' by (simp add: unat_of_nat take_bit_nat_eq_self)
  have free: "bm_free (t_bat s) T = bm_free (D 1) T - {b0}"
    unfolding s(2) by (rule bm_free_set) (use tfs_system_len [OF wf] b0' in simp_all)
  have "card (bm_free (t_bat s) T) = card (bm_free (D 1) T) - 1"
    unfolding free by (rule card_Diff_singleton) (use b0 in \<open>simp add: T_def\<close>)
  moreover have "0 < card (bm_free (D 1) T)"
    using b0 by (auto simp: card_gt_0_iff T_def)
  ultimately have card: "card (bm_free (D 1) T) = Suc (card (bm_free (t_bat s) T))"
    by linarith
  define s1 where "s1 = s\<lparr>t_inode := set32 (t_inode s) 0 (word_of_int sz)\<rparr>"
  have alloc: "wp (tfs_alloc [0..<nblocks n] s1)
    (\<lambda>(ok, s'). \<exists>bs. alloc_result (unat (t_totalblocks s1)) 0 (nblocks n) s1 bs ok s')"
    by (rule tfs_alloc_wp) (use len T n in \<open>simp_all add: s1_def T_def\<close>)
  have s1: "t_totalblocks s1 = tb" "t_bat s1 = t_bat s" "get32 (t_inode s1) 0 = word_of_int sz"
    "t_md s1 = t_md s" "t_disk s1 = t_disk s" "t_lock s1 = t_lock s"
    using len by (simp_all add: s1_def get32_set32_same)
  have sz32: "unat (word_of_int sz :: u32) = n"
    using n(1) sz(1) by (subst unat_of_int) (auto simp: n_def intro!: int_okI)
  define R where "R = (\<lambda>(r, s'). if nblocks n < card (bm_free (D 1) T)
    then r = VFS_OK \<and> (\<exists>D'. tfs_at ready blk D' tb (L + 1) s' \<and> tfs_wf D' T \<and>
      tfs_files D' = (tfs_files D)(name \<mapsto> replicate n 0))
    else r = VFS_ERROR \<and> tfs_at ready blk D tb (L + 1) s')"
  have full: "R (VFS_ERROR, tfs_V s2)" if "alloc_result T 0 (nblocks n) s1 bs False s2" for bs s2
  proof -
    have r: "s2 = s1\<lparr>t_bat := t_bat s2, t_inode := t_inode s2\<rparr>" "length (t_bat s2) = BLOCK"
      "length (t_inode s2) = BLOCK" "distinct bs" "length bs < nblocks n" "set bs = bm_free (t_bat s1) T"
      using that by (simp_all add: alloc_result_def)
    have "card (bm_free (t_bat s) T) < nblocks n"
      using r(4-6) distinct_card [of bs] by (simp add: s1)
    moreover have "tfs_at ready blk D tb L s2"
      using s(1) r(2,3) s1 by (subst r(1)) (simp add: tfs_at_def)
    ultimately show ?thesis
      using card by (simp add: R_def)
  qed
  have finish: "wp (do {
       inode \<leftarrow> for_each [nblocks n..<127] (\<lambda>i m. wr32 m (4 + 4 * i) 0) (t_inode s2);
       (r, s) \<leftarrow> store_bat G 1 (s2\<lparr>t_inode := inode\<rparr>);
       if r = 0 then Some (VFS_ERROR, tfs_V s)
       else do {
         (r, s) \<leftarrow> store_md G 2 s;
         if r = 0 then Some (VFS_ERROR, tfs_V s)
         else do {
           b \<leftarrow> rd32 (t_md s) (20 * i);
           (r, s) \<leftarrow> store_inode G b s;
           if r = 0 then Some (VFS_ERROR, tfs_V s)
           else do {
             bat \<leftarrow> memoryset 0 0 512 (t_bat s);
             tfs_zero_blocks G [0..<nblocks n] (s\<lparr>t_bat := bat\<rparr>)
           }
         }
       }
     }) R" if "alloc_result T 0 (nblocks n) s1 bs True s2" for bs s2
  proof -
    have r: "s2 = s1\<lparr>t_bat := t_bat s2, t_inode := t_inode s2\<rparr>" "length (t_bat s2) = BLOCK"
      "length (t_inode s2) = BLOCK" "distinct bs" "length bs = nblocks n" "set bs \<subseteq> bm_free (t_bat s1) T"
      "\<And>q. bm_bit (t_bat s2) q \<longleftrightarrow> q \<in> set bs \<or> bm_bit (t_bat s1) q" "get32 (t_inode s2) 0 = get32 (t_inode s1) 0"
      "\<And>j. j < nblocks n \<Longrightarrow> ino_block (t_inode s2) j = bs ! j"
      using that by (simp_all add: alloc_result_def)
    have md: "t_md s2 = dir_entry (D 2) i name (word_of_nat b0)"
      by (subst r(1)) (simp add: s1(4) s(3))
    have at2: "tfs_at ready blk D tb L s2"
      using s(1) r(2,3) s1 by (subst r(1)) (simp add: tfs_at_def)
    have enough: "nblocks n < card (bm_free (D 1) T)"
      using card_mono [OF finite_bm_free r(6)] r(5) distinct_card [OF r(4)] card by (simp add: s1)
    have bits: "bm_bit (t_bat s2) q \<longleftrightarrow> q \<in> set bs \<or> q = b0 \<or> bm_bit (D 1) q" for q
      using b0' tfs_system_len [OF wf] by (auto simp: r(7) s1 s(2) bm_bit_set bat_room)
    have bsT: "b < nblk" if "b \<in> set bs" for b
      using r(6) that T by (auto simp: bm_free_def)
    note entry = dir_entry_props [OF tfs_system_len(3) [OF wf] i(1) name(2,3), where inode = "word_of_nat b0"]
    have body: "wp (do {
       (r, s) \<leftarrow> store_bat G 1 (s2\<lparr>t_inode := inode\<rparr>);
       if r = 0 then Some (VFS_ERROR, tfs_V s)
       else do {
         (r, s) \<leftarrow> store_md G 2 s;
         if r = 0 then Some (VFS_ERROR, tfs_V s)
         else do {
           b \<leftarrow> rd32 (t_md s) (20 * i);
           (r, s) \<leftarrow> store_inode G b s;
           if r = 0 then Some (VFS_ERROR, tfs_V s)
           else do {
             bat \<leftarrow> memoryset 0 0 512 (t_bat s);
             tfs_zero_blocks G [0..<nblocks n] (s\<lparr>t_bat := bat\<rparr>)
           }
         }
       }
     }) R" if inode: "length inode = BLOCK" "get32 inode 0 = get32 (t_inode s2) 0"
        "\<forall>j<127. ino_block inode j = (if j < nblocks n then ino_block (t_inode s2) j else 0)" for inode
    proof -
      have at3: "tfs_at ready blk D tb L (s2\<lparr>t_inode := inode\<rparr>)"
        using at2 inode(1) by (simp add: tfs_at_def)
      have ino: "ino_block inode j = (if j < nblocks n then bs ! j else 0)" if "j < 127" for j
        using inode(3) r(9) that by simp
      have img: "ino_block inode ` {0..<nblocks n} = set bs"
      proof -
        have "ino_block inode ` {0..<nblocks n} = (!) bs ` {0..<nblocks n}"
          by (rule image_cong) (use ino n(3) in simp_all)
        then show ?thesis
          using r(5) by (simp add: nth_image)
      qed
      have size: "ino_size inode = n"
        by (simp add: ino_size_def inode(2) r(8) s1(3) sz32)
      have rd: "rd32 (dir_entry (D 2) i name (word_of_nat b0)) (20 * i) = Some (word_of_nat b0)"
        using dir_inode_rd [OF i(1) entry(1)] entry(2) by simp
      note correct = tfs_created_correct [OF wf i name b0 _ r(4,5) r(2) bits inode(1) size n(1) ino]
      have "set bs \<subseteq> bm_free (D 1) (unat tb) - {b0}"
        using r(6) unfolding s1(2) free by (simp only: T_def)
      note correct = correct [OF this]
      have D': "tfs_created D (unat tb) i name n b0 bs (t_bat s2) inode = (\<lambda>b.
          if b \<in> ino_block inode ` {0..<nblocks n} then replicate BLOCK 0
          else (D(1 := t_bat s2, 2 := t_md s2, b0 := inode)) b)"
        unfolding tfs_created_def img md ..
      have final: "wp (tfs_zero_blocks G [0..<nblocks n] (s5\<lparr>t_bat := replicate BLOCK 0\<rparr>)) R"
        if s5: "tfs_at ready blk (D(1 := t_bat s2, 2 := t_md s2, b0 := inode)) tb L s5" "t_inode s5 = inode" for s5
      proof -
        have at5: "tfs_at ready blk (D(1 := t_bat s2, 2 := t_md s2, b0 := inode)) tb L (s5\<lparr>t_bat := replicate BLOCK 0\<rparr>)"
          using s5(1) by (simp add: tfs_at_def)
        have bl: "ino_block inode j < nblk" if "j < nblocks n" for j
          using ino [of j] that n(3) bsT [of "bs ! j"] r(5) by simp
        have "wp (tfs_zero_blocks G [0..<nblocks n] (s5\<lparr>t_bat := replicate BLOCK 0\<rparr>))
          (\<lambda>(r, s'). r = VFS_OK \<and> tfs_at ready blk (tfs_created D (unat tb) i name n b0 bs (t_bat s2) inode) tb (L + 1) s')"
          using tfs_zero_wp [OF at5, of "nblocks n" 0] s5(2) inode(1) n(3) bl by (simp add: D' cong: if_cong)
        then show ?thesis
          by (rule wp_mono) (use correct enough in \<open>auto simp: R_def T_def\<close>)
      qed
      show ?thesis
        apply (rule wp_bindI, rule wp_store_bat [OF at3])
        using T apply simp
        apply simp
        apply (rule wp_bindI, erule wp_store_md)
        using T apply simp
        apply (simp add: md rd)
        apply (rule wp_bindI, erule wp_store_inode)
        using b0' T apply (simp add: w0)
        subgoal for s3 s4 s5
          using final [of s5] r(2) by (simp add: memoryset_block w0 md)
        done
    qed
    show ?thesis
      apply (rule wp_bindI, rule wp_mono [OF clear_tail_wp [OF r(3) n(3)]])
      subgoal for inode
        by (rule body) simp_all
      done
  qed
  show ?thesis
    unfolding tfs_create_blocks_def n_def [symmetric] T_def [symmetric] R_def [symmetric]
    apply (rule wp_bindI, simp only: wp_wr32 len, simp)
    apply (fold s1_def)
    apply (rule wp_bindI, rule wp_mono [OF alloc])
    subgoal for x
      apply (cases x, simp only: prod.case)
      apply (elim exE)
      subgoal for ok s2 bs
        by (cases ok) (use full [of bs s2] finish [of bs s2] in \<open>simp_all only: s1 T_def [symmetric] if_True if_False wp_Some HOL.simp_thms\<close>)
      done
    done
qed

lemma tfs_create_wp:
  assumes s: "tfs_at ready blk D tb L s" and "0 < L" and wf: "tfs_wf D (unat tb)" and nblk: "unat tb \<le> nblk"
    and f: "terminated f" "cstr f \<noteq> []" "length (cstr f) \<le> 15" and sz: "0 \<le> sz" "int_ok (sz + 512)"
  shows "wp (tfs_create G f sz s) (\<lambda>(r, s').
    if nblocks (nat sz) \<le> 127 \<and> tfs_files D (cstr f) = None \<and> (\<exists>i<MAX_FILES. \<not> tfs_used D i) \<and>
      nblocks (nat sz) < card (bm_free (D 1) (unat tb))
    then r = VFS_OK \<and> (\<exists>D'. tfs_at ready blk D' tb L s' \<and> tfs_wf D' (unat tb) \<and>
      tfs_files D' = (tfs_files D)(cstr f \<mapsto> replicate (nat sz) 0))
    else r = VFS_ERROR \<and> tfs_at ready blk D tb L s')"
proof -
  let ?nb = "nblocks (nat sz)"
  let ?ok = "?nb \<le> 127 \<and> tfs_files D (cstr f) = None \<and> (\<exists>i<MAX_FILES. \<not> tfs_used D i) \<and>
      ?nb < card (bm_free (D 1) (unat tb))"
  have sys: "unat (1::u32) < nblk" "unat (2::u32) < nblk" and T: "unat tb \<le> 4096"
    using tfs_systemD(1,2) [OF wf] nblk by simp_all
  note len = tfs_system_len [OF wf]
  define numblocks where "numblocks = (word_of_int (cdiv (sz + 512 - 1) 512) :: u32)"
  have numblocks: "unat numblocks = ?nb"
    unfolding numblocks_def by (rule create_numblocks [OF sz])
  have big: "numblocks > 127 \<longleftrightarrow> \<not> ?nb \<le> 127"
    unfolding word_less_nat_alt numblocks by auto
  have ck: "ck (sz + 512) = Some (sz + 512)"
    using sz(2) by (simp add: ck_def)
  have dir: "terminated (dir_name (D 2) i) \<and> 20 * i + 4 \<le> length (D 2)"
    if "i \<in> set [0..<MAX_FILES]" for i
    using that tfs_namesD(1) [OF wf, of i] len(3) by (auto intro: terminated_take simp del: upt_rec_numeral)
  have files: "tfs_files D (cstr f) = None \<longleftrightarrow> tfs_find D (cstr f) = None"
    by (simp add: tfs_files_def)
  define Q where "Q = (\<lambda>(r, s').
    if ?ok then r = VFS_OK \<and> (\<exists>D'. tfs_at ready blk D' tb L s' \<and> tfs_wf D' (unat tb) \<and>
      tfs_files D' = (tfs_files D)(cstr f \<mapsto> replicate (nat sz) 0))
    else r = VFS_ERROR \<and> tfs_at ready blk D tb L s')"
  have err: "Q (VFS_ERROR, tfs_V s')" if "\<not> ?ok" "tfs_at ready blk D tb (L - 1) s'" for s'
    unfolding Q_def prod.case if_not_P [OF that(1)] using that(2) by simp
  have place: "wp (do {
       md \<leftarrow> dir_set_name (t_md s2) i f;
       (r, s) \<leftarrow> load_bat G 1 (s2\<lparr>t_md := md\<rparr>);
       if r = 0 then Some (VFS_ERROR, tfs_V s)
       else do {
         (b, bat) \<leftarrow> bitmap_findnset (t_bat s) (sint (t_totalblocks s));
         md \<leftarrow> wr32 (t_md s) (20 * i) (word_of_int b);
         let s = s\<lparr>t_bat := bat, t_md := md\<rparr> in
           if b = - 1 then Some (VFS_ERROR, tfs_V s)
           else tfs_create_blocks G i sz (unat numblocks) s
       }
     }) Q"
    if at2: "tfs_at ready blk D tb (L - 1) s2" and md: "t_md s2 = D 2" and i: "i < MAX_FILES" "\<not> tfs_used D i"
      and new: "tfs_find D (cstr f) = None" and nb: "?nb \<le> 127" for s2 i
  proof -
    define pre where "pre = take (20 * i + 4) (D 2) @ cstr f @ 0 # drop (20 * i + 4 + length (cstr f) + 1) (D 2)"
    have fit: "20 * i + 4 + length (cstr f) + 1 \<le> BLOCK"
      using i(1) f(3) by simp
    have name: "dir_set_name (t_md s2) i f = Some pre"
      unfolding md pre_def by (rule dir_set_name_eq) (use len i f in simp_all)
    have pre: "length pre = BLOCK"
      unfolding pre_def
      using fit len(3) by (simp only: length_append length_take length_drop list.size)
    have at3: "tfs_at ready blk D tb (L - 1) (s2\<lparr>t_md := pre\<rparr>)"
      using at2 pre unfolding tfs_at_def by simp
    have wr: "wr32 pre (20 * i) w = Some (dir_entry (D 2) i (cstr f) w)" for w
      unfolding wr32_def dir_entry_def pre pre_def [symmetric] using i(1) by simp
    have body: "wp (do {
         (b, bat) \<leftarrow> bitmap_findnset (t_bat s3) (sint (t_totalblocks s3));
         md \<leftarrow> wr32 (t_md s3) (20 * i) (word_of_int b);
         let s = s3\<lparr>t_bat := bat, t_md := md\<rparr> in
           if b = - 1 then Some (VFS_ERROR, tfs_V s)
           else tfs_create_blocks G i sz (unat numblocks) s
       }) Q"
      if s3: "tfs_at ready blk D tb (L - 1) s3" "t_bat s3 = D 1" "t_md s3 = pre" for s3
    proof -
      have tb: "t_totalblocks s3 = tb"
        using s3(1) by (simp add: tfs_at_def)
      have full: ?thesis if e: "bm_free (D 1) (unat tb) = {}" "bitmap_findnset (D 1) (sint tb) = Some (- 1, D 1)"
      proof -
        have no: "\<not> ?ok"
          by (simp only: e(1)) simp
        have "tfs_at ready blk D tb (L - 1) (s3\<lparr>t_bat := D 1, t_md := dir_entry (D 2) i (cstr f) (word_of_int (- 1))\<rparr>)"
          using s3(1) len(1) dir_entry_props(1) [OF len(3) i(1) f(3) cstr_string]
          unfolding tfs_at_def by simp
        from err [OF no this] show ?thesis
          unfolding s3(2,3) tb e(2) by (simp add: wr)
      qed
      have found: ?thesis if e: "b0 \<in> bm_free (D 1) (unat tb)"
        "bitmap_findnset (D 1) (sint tb) = Some (int b0, bm_set (D 1) b0 True)" for b0
      proof -
        define s4 where "s4 = s3\<lparr>t_bat := bm_set (D 1) b0 True, t_md := dir_entry (D 2) i (cstr f) (word_of_nat b0)\<rparr>"
        have at4: "tfs_at ready blk D tb (L - 1) s4"
          using s3(1) len(1) dir_entry_props(1) [OF len(3) i(1) f(3) cstr_string]
          unfolding tfs_at_def s4_def by simp
        have "wp (tfs_create_blocks G i sz ?nb s4) Q"
        proof (rule wp_mono [OF tfs_create_blocks_wp [OF wf nblk i f(2,3) cstr_string new sz(1) nb e(1) at4]])
          show "t_bat s4 = bm_set (D 1) b0 True" "t_md s4 = dir_entry (D 2) i (cstr f) (word_of_nat b0)"
            by (simp_all add: s4_def)
        qed (use nb files new i in \<open>auto simp: Q_def\<close>)
        then show ?thesis
          unfolding s3(2,3) tb e(2) numblocks s4_def by (simp add: wr)
      qed
      show ?thesis
        using findnset_bat [OF len(1) T] full found by blast
    qed
    show ?thesis
      apply (rule wp_bindI, simp only: name wp_Some)
      apply (rule wp_bindI, rule wp_load_bat [OF at3 sys(1)])
      apply (simp only: prod.case)
      subgoal for s3
        using body [of s3] by simp
      done
  qed
  show ?thesis
    unfolding tfs_create_def Q_def [symmetric] ck Option.bind.simps numblocks_def [symmetric] Let_def
    apply (rule wp_bindI, rule wp_tfs_P [OF s \<open>0 < L\<close>])
    subgoal for s1
    proof (cases "?nb \<le> 127")
      case False
      assume s1: "tfs_at ready blk D tb (L - 1) s1"
      have no: "\<not> ?ok" and nb: "127 < numblocks"
        using False big by blast+
      show ?thesis
        unfolding if_P [OF nb] wp_Some by (rule err [OF no s1])
    next
      case nb: True
      assume s1: "tfs_at ready blk D tb (L - 1) s1"
      have nb': "\<not> 127 < numblocks"
        using nb big by blast
      show ?thesis
        unfolding if_not_P [OF nb']
        apply (rule wp_bindI, rule wp_load_md [OF s1 sys(2)])
        apply (simp only: prod.case)
        subgoal premises prems for s2
        proof -
          note at2 = prems(1)
          have md: "t_md s2 = D 2"
            using prems(2) by simp
          have one: "(1::int) \<noteq> 0" and two: "D (unat (2::u32)) = D 2" by simp_all
          show ?thesis
          proof (cases "tfs_find D (cstr f)")
            case (Some j)
            then have "dir_slot (D 2) f None [0..<MAX_FILES] = Some None"
              by (intro dir_slot_exists [OF f(1) dir]) (auto simp: tfs_find_Some [OF wf] tfs_name_def simp del: upt_rec_numeral)
            moreover have no: "\<not> ?ok"
              using Some files by simp
            ultimately show ?thesis
              using err [OF no at2] by (simp only: md two if_not_P [OF one] Option.bind.simps option.case wp_Some)
          next
            case None
            have differ: "cstr (dir_name (D 2) i) \<noteq> cstr f" if "i \<in> set [0..<MAX_FILES]" for i
              using None that tfs_namesD(3) [OF wf, of i] f(2)
              by (auto simp: tfs_find_None tfs_name_def simp del: upt_rec_numeral)
            from dir_slot_new [OF f(1) dir differ, of "[0..<MAX_FILES]" None] obtain y where
              y: "dir_slot (D 2) f None [0..<MAX_FILES] = Some (Some y)" and
              slot: "y = None \<and> (\<forall>i<MAX_FILES. dir_inode (D 2) i \<noteq> 0) \<or> (\<exists>i<MAX_FILES. y = Some i \<and> dir_inode (D 2) i = 0)"
              by (auto simp del: upt_rec_numeral)
            show ?thesis
            proof (cases y)
              case y': None
              then have no: "\<not> ?ok"
                using slot by (auto simp: tfs_used_def)
              show ?thesis
                using err [OF no at2] by (simp only: md two y y' if_not_P [OF one] Option.bind.simps option.case wp_Some)
            next
              case (Some i)
              then have i: "i < MAX_FILES" "\<not> tfs_used D i"
                using slot by (simp_all add: tfs_used_def)
              show ?thesis
                using place [OF at2 md i None nb]
                by (simp only: md two y Some if_not_P [OF one] Option.bind.simps option.case Let_def)
            qed
          qed
        qed
        done
    qed
    done
qed

end

end
