(* ===== verification/Tfs_Contract.thy ===== *)
theory Tfs_Contract
  imports Tfs_Properties Tfs_Create
begin

text \<open>
  The contract of the Trivial Filesystem: every operation over the disk driver against the
  map from names to contents that the disk stands for, and a sequence of calls against the
  same sequence on the map.
\<close>

section \<open>The abstract file system\<close>

text \<open>A call of a client; reading and writing open the file first, as \<open>vfs_open\<close> does.\<close>

datatype fs_call =
    Create mem int
  | Remove mem
  | Read mem int int
  | Write mem mem int

datatype fs_result = Status int | Data mem

text \<open>What the map of files allows as the result of a call and the map behind it.  A creation
  may fail, and then changes nothing; it succeeds on no existing file.\<close>

fun spec_call :: "fs_call \<Rightarrow> (mem \<rightharpoonup> mem) \<Rightarrow> fs_result \<Rightarrow> (mem \<rightharpoonup> mem) \<Rightarrow> bool" where
  "spec_call (Create f n) F r F' \<longleftrightarrow>
     r = Status VFS_ERROR \<and> F' = F \<or>
     r = Status VFS_OK \<and> F (cstr f) = None \<and> F' = F(cstr f \<mapsto> replicate (nat n) 0)"
| "spec_call (Remove f) F r F' \<longleftrightarrow>
     (if F (cstr f) = None then r = Status VFS_NOT_FOUND \<and> F' = F
      else r = Status VFS_OK \<and> F' = F(cstr f := None))"
| "spec_call (Read f n off) F r F' \<longleftrightarrow> F' = F \<and>
     (case F (cstr f) of
        None \<Rightarrow> r = Status VFS_NOT_FOUND
      | Some c \<Rightarrow> if off < 0 \<or> int (length c) < off then r = Status VFS_ERROR
          else r = Data (take (nat n) (drop (nat off) c)))"
| "spec_call (Write f data off) F r F' \<longleftrightarrow>
     (case F (cstr f) of
        None \<Rightarrow> r = Status VFS_NOT_FOUND \<and> F' = F
      | Some c \<Rightarrow> if off < 0 \<or> int (length c) < off then r = Status VFS_ERROR \<and> F' = F
          else let d = take (length c - nat off) data in
            r = Status (int (length d)) \<and> F' = F(cstr f \<mapsto> overwrite c (nat off) d))"

inductive spec_calls :: "fs_call list \<Rightarrow> (mem \<rightharpoonup> mem) \<Rightarrow> fs_result list \<Rightarrow> (mem \<rightharpoonup> mem) \<Rightarrow> bool" where
  spec_Nil: "spec_calls [] F [] F"
| spec_Cons: "spec_call c F r F' \<Longrightarrow> spec_calls cs F' rs F'' \<Longrightarrow> spec_calls (c # cs) F (r # rs) F''"

text \<open>The calls on the driver, with a buffer of \<open>n\<close> zero bytes to read into.\<close>

fun tfs_call :: "'d gbd \<Rightarrow> fs_call \<Rightarrow> 'd tfs \<Rightarrow> (fs_result \<times> 'd tfs) option" where
  "tfs_call G (Create f n) s = do { (r, s) \<leftarrow> tfs_create G f n s; Some (Status r, s) }"
| "tfs_call G (Remove f) s = do { (r, s) \<leftarrow> tfs_remove G f s; Some (Status r, s) }"
| "tfs_call G (Read f n off) s = do {
     (fd, s) \<leftarrow> tfs_open G f s;
     if fd < 0 then Some (Status fd, s)
     else do {
       (r, buf, s) \<leftarrow> tfs_read G fd (replicate (nat n) 0) n off s;
       Some (if r < 0 then Status r else Data (take (nat r) buf), s) } }"
| "tfs_call G (Write f data off) s = do {
     (fd, s) \<leftarrow> tfs_open G f s;
     if fd < 0 then Some (Status fd, s)
     else do { (r, s) \<leftarrow> tfs_write G fd data (int (length data)) off s; Some (Status r, s) } }"

fun tfs_calls :: "'d gbd \<Rightarrow> fs_call list \<Rightarrow> 'd tfs \<Rightarrow> (fs_result list \<times> 'd tfs) option" where
  "tfs_calls G [] s = Some ([], s)"
| "tfs_calls G (c # cs) s = do {
     (r, s) \<leftarrow> tfs_call G c s;
     (rs, s) \<leftarrow> tfs_calls G cs s;
     Some (r # rs, s) }"

text \<open>The arguments \<open>vfs.c\<close> passes: a terminated, non-empty name that fits a directory entry, and
  sizes that are not negative.\<close>

fun good_name :: "mem \<Rightarrow> bool" where
  "good_name f \<longleftrightarrow> terminated f \<and> cstr f \<noteq> [] \<and> length (cstr f) \<le> 15"

fun good_call :: "fs_call \<Rightarrow> bool" where
  "good_call (Create f n) \<longleftrightarrow> good_name f \<and> 0 \<le> n \<and> int_ok (n + 512)"
| "good_call (Remove f) \<longleftrightarrow> good_name f"
| "good_call (Read f n off) \<longleftrightarrow> good_name f \<and> 0 \<le> n"
| "good_call (Write f data off) \<longleftrightarrow> good_name f"

context block_device
begin

lemma tfs_find_names:
  assumes "tfs_wf D T" and "tfs_find D n = Some i"
  shows "i < MAX_FILES" "tfs_used D i" "tfs_name D i = n" "tfs_files D n = Some (tfs_content D i)"
  using assms tfs_find_Some [OF assms(1), of n i] by (simp_all add: tfs_files_def)

abbreviation (input) "call_ok c D tb L \<equiv> (\<lambda>(r, s'). \<exists>D'. tfs_at ready blk D' tb L s' \<and> tfs_wf D' (unat tb) \<and>
    spec_call c (tfs_files D) r (tfs_files D'))"

lemma tfs_read_call_wp:
  assumes s: "tfs_at ready blk D tb L s" and L: "0 < L" and wf: "tfs_wf D (unat tb)" and nblk: "unat tb \<le> nblk"
    and f: "tfs_find D (cstr f) = Some i" and n: "0 \<le> n"
  shows "wp (tfs_read G (int (tfs_ino D i)) (replicate (nat n) 0) n off s)
    (\<lambda>(r, buf, s'). call_ok (Read f n off) D tb L (if r < 0 then Status r else Data (take (nat r) buf), s'))"
proof -
  note i = tfs_find_names [OF wf f]
  have n': "nat n \<le> length (replicate (nat n) (0::u8))" by simp
  show ?thesis
  proof (rule wp_mono [OF tfs_read_wp [OF s L wf nblk i(1,2) n n']], clarify, goal_cases)
    case (1 r buf s')
    have "off < 0 \<or> int (length (tfs_content D i)) < off \<Longrightarrow> r = VFS_ERROR"
      "\<not> (off < 0 \<or> int (length (tfs_content D i)) < off) \<Longrightarrow>
        0 \<le> r \<and> take (nat r) buf = take (nat n) (drop (nat off) (tfs_content D i))"
      using 1(2) by (auto simp: Let_def min_def)
    with 1(1) show ?case
      by (cases "off < 0 \<or> int (length (tfs_content D i)) < off") (auto simp: i(4) intro!: exI [of _ D] wf)
  qed
qed

lemma tfs_write_call_wp:
  assumes s: "tfs_at ready blk D tb L s" and L: "0 < L" and wf: "tfs_wf D (unat tb)" and nblk: "unat tb \<le> nblk"
    and f: "tfs_find D (cstr f) = Some i"
  shows "wp (tfs_write G (int (tfs_ino D i)) data (int (length data)) off s)
    (\<lambda>(r, s'). call_ok (Write f data off) D tb L (Status r, s'))"
proof -
  note i = tfs_find_names [OF wf f]
  have n: "0 \<le> int (length data)" "nat (int (length data)) \<le> length data" by simp_all
  show ?thesis
  proof (rule wp_mono [OF tfs_write_wp [OF s L wf nblk i(1,2) n]], clarify, goal_cases)
    case (1 r s')
    show ?case
    proof (cases "off < 0 \<or> int (length (tfs_content D i)) < off")
      case True
      then show ?thesis
        using 1 by (intro exI [of _ D]) (simp add: i(4) wf)
    next
      case False
      then obtain D' where D': "tfs_at ready blk D' tb L s'"
        "tfs_updated D (unat tb) i (overwrite (tfs_content D i) (nat off)
          (take (length (tfs_content D i) - nat off) data)) D'"
        and r: "r = int (length (take (length (tfs_content D i) - nat off) data))"
        using 1 by (auto simp: Let_def)
      have "tfs_wf D' (unat tb)"
        using D'(2) by (simp add: tfs_updated_def)
      with D'(1) False show ?thesis
        by (intro exI [of _ D'])
          (simp add: i(4) r Let_def tfs_updated_files [OF wf D'(2) i(1,2), unfolded i(3)])
    qed
  qed
qed

lemma tfs_call_wp:
  assumes s: "tfs_at ready blk D tb L s" and L: "0 < L" and wf: "tfs_wf D (unat tb)" and nblk: "unat tb \<le> nblk"
    and c: "good_call c"
  shows "wp (tfs_call G c s) (call_ok c D tb L)"
proof (cases c)
  case (Create f n)
  then have "terminated f" "cstr f \<noteq> []" "length (cstr f) \<le> 15" "0 \<le> n" "int_ok (n + 512)"
    using c by simp_all
  from tfs_create_wp [OF s L wf nblk this] show ?thesis
    unfolding Create tfs_call.simps wp_bind
    by (rule wp_mono) (use wf in \<open>auto split: if_splits\<close>)
next
  case (Remove f)
  then have "terminated f" "cstr f \<noteq> []"
    using c by simp_all
  from tfs_remove_wp [OF s L wf nblk this] show ?thesis
    unfolding Remove tfs_call.simps wp_bind
    by (rule wp_mono) (use wf in \<open>auto split: if_splits\<close>)
next
  case (Read f n off)
  then have f: "terminated f" "cstr f \<noteq> []" and n: "0 \<le> n"
    using c by simp_all
  show ?thesis
    unfolding Read tfs_call.simps wp_bind
  proof (rule wp_mono [OF tfs_open_wp [OF s L wf nblk f]], clarify, goal_cases)
    case (1 fd s')
    show ?case
    proof (cases "tfs_find D (cstr f)")
      case None
      with 1 wf show ?thesis by (auto simp: tfs_files_def)
    next
      case (Some i)
      show ?thesis
        using tfs_read_call_wp [OF 1(1) L wf nblk Some n, where off = off]
        by (simp only: Some option.case of_nat_less_0_iff if_False wp_bind wp_pair wp_Some split_conv)
    qed
  qed
next
  case (Write f data off)
  then have f: "terminated f" "cstr f \<noteq> []"
    using c by simp_all
  show ?thesis
    unfolding Write tfs_call.simps wp_bind
  proof (rule wp_mono [OF tfs_open_wp [OF s L wf nblk f]], clarify, goal_cases)
    case (1 fd s')
    show ?case
    proof (cases "tfs_find D (cstr f)")
      case None
      with 1 wf show ?thesis by (auto simp: tfs_files_def)
    next
      case (Some i)
      show ?thesis
        using tfs_write_call_wp [OF 1(1) L wf nblk Some, where off = off]
        by (simp only: Some option.case of_nat_less_0_iff if_False wp_bind wp_pair wp_Some split_conv)
    qed
  qed
qed

lemma tfs_calls_wp:
  "tfs_at ready blk D tb L s \<Longrightarrow> 0 < L \<Longrightarrow> tfs_wf D (unat tb) \<Longrightarrow> unat tb \<le> nblk \<Longrightarrow> list_all good_call cs \<Longrightarrow>
    wp (tfs_calls G cs s) (\<lambda>(rs, s'). \<exists>D'. tfs_at ready blk D' tb L s' \<and> tfs_wf D' (unat tb) \<and>
      spec_calls cs (tfs_files D) rs (tfs_files D'))"
proof (induction cs arbitrary: D s)
  case Nil
  then show ?case
    by (auto intro: spec_Nil)
next
  case (Cons c cs)
  have c: "good_call c" "list_all good_call cs"
    using Cons.prems(5) by simp_all
  show ?case
    unfolding tfs_calls.simps
    apply (rule wp_bindI, rule wp_mono [OF tfs_call_wp [OF Cons.prems(1-4) c(1)]])
    apply clarify
    apply (rule wp_bindI, rule wp_mono [OF Cons.IH [OF _ Cons.prems(2) _ Cons.prems(4) c(2)]])
      apply assumption+
    apply clarify
    apply (simp only: wp_Some split_conv)
    apply (blast intro: spec_Cons)
    done
qed

end

lemma length_spec_calls: "spec_calls cs F rs F' \<Longrightarrow> length rs = length cs"
  by (induction rule: spec_calls.induct) simp_all

section \<open>Properties\<close>

text \<open>C16. Creating a file: on a consistent disk with a free directory slot and enough free blocks
  \<open>tfs_create\<close> adds a file of the given size holding zeros, touches no other file and keeps the
  disk consistent; when the name exists, the file is too large, or the directory or the disk is
  full, it is an error that changes nothing on the disk.\<close>

theorem tfs_create_correct:
  assumes "sector_hw H sectors nsect idle running irq"
    and "tfs_at (disk_ready idle) (disk_blk sectors) D tb L s" and "0 < L"
    and "tfs_wf D (unat tb)" and "unat tb \<le> nsect"
    and "terminated f" and "cstr f \<noteq> []" and "length (cstr f) \<le> 15" and "0 \<le> sz" and "int_ok (sz + 512)"
  shows "wp (tfs_create (disk_gbd H) f sz s) (\<lambda>(r, s').
    if nblocks (nat sz) \<le> 127 \<and> tfs_files D (cstr f) = None \<and> (\<exists>i<MAX_FILES. \<not> tfs_used D i) \<and>
      nblocks (nat sz) < card (bm_free (D 1) (unat tb))
    then r = VFS_OK \<and> (\<exists>D'. tfs_at (disk_ready idle) (disk_blk sectors) D' tb L s' \<and> tfs_wf D' (unat tb) \<and>
      tfs_files D' = (tfs_files D)(cstr f \<mapsto> replicate (nat sz) 0))
    else r = VFS_ERROR \<and> tfs_at (disk_ready idle) (disk_blk sectors) D tb L s')"
  using assms(2-) by (rule block_device.tfs_create_wp [OF sector_hw.disk_device [OF assms(1)]])

lemma demo_free: "bm_free (demo_content 1) 6 = {5}"
proof -
  have "bm_bit (demo_content 1) k \<longleftrightarrow> k < 5" if "k < 6" for k
  proof -
    have "k \<in> {0, 1, 2, 3, 4, 5}" using that by auto
    then show ?thesis
      by (auto simp: bm_bit_def demo_blocks get32_def be_word_def bit_simps)
  qed
  then show ?thesis
    by (auto simp: bm_free_def)
qed

lemma demo_names: "tfs_files demo_content n = (if n = [97] then Some [104, 105, 33] else None)"
proof (cases "tfs_find demo_content n")
  case None
  then show ?thesis
    using demo_file(1) by (auto simp: tfs_files_def)
next
  case (Some i)
  then have "i = 0" "n = [97]"
    using tfs_find_Some [OF demo_wf, of n i] by (auto simp: demo_used demo_name)
  then show ?thesis
    using demo_file by (simp add: tfs_files_def)
qed

theorem tfs_create_correct_witness:
  "wp (tfs_create (disk_gbd ram_hw) [98, 0] 0 demo_tfs) (\<lambda>(r, s').
     r = VFS_OK \<and> (\<exists>D'. tfs_at (disk_ready (ram_ok 6 Ram_Idle)) (disk_blk ram_sect) D' 6 1 s' \<and>
       tfs_files D' [98] = Some [] \<and> tfs_files D' [97] = Some [104, 105, 33]))"
proof (rule wp_mono [OF tfs_create_correct [OF ram.sector_hw_axioms demo_at]])
  have "\<exists>i<MAX_FILES. \<not> tfs_used demo_content i"
    by (rule exI [of _ 1]) (simp add: demo_used)
  then show "case x of (r, s') \<Rightarrow> r = VFS_OK \<and>
      (\<exists>D'. tfs_at (disk_ready (ram_ok 6 Ram_Idle)) (disk_blk ram_sect) D' 6 1 s' \<and>
        tfs_files D' [98] = Some [] \<and> tfs_files D' [97] = Some [104, 105, 33])"
    if "case x of (r, s') \<Rightarrow>
      if nblocks (nat 0) \<le> 127 \<and> tfs_files demo_content (cstr [98, 0]) = None \<and>
        (\<exists>i<MAX_FILES. \<not> tfs_used demo_content i) \<and>
        nblocks (nat 0) < card (bm_free (demo_content 1) (unat (6 :: u32)))
      then r = VFS_OK \<and> (\<exists>D'. tfs_at (disk_ready (ram_ok 6 Ram_Idle)) (disk_blk ram_sect) D' 6 1 s' \<and>
        tfs_wf D' (unat (6 :: u32)) \<and> tfs_files D' = (tfs_files demo_content)(cstr [98, 0] \<mapsto> replicate (nat 0) 0))
      else r = VFS_ERROR \<and> tfs_at (disk_ready (ram_ok 6 Ram_Idle)) (disk_blk ram_sect) demo_content 6 1 s'" for x
    using that by (auto simp: demo_names demo_free [simplified] cstr_def nblocks_def)
qed (simp_all add: demo_wf cstr_def terminated_def int_ok_def)



text \<open>C15. Writing a file: at an offset inside the file \<open>tfs_write\<close> replaces the bytes there by those
  of the buffer, as many as the file has behind the offset, leaves its size, all its other bytes
  and every other file as they are, and keeps the disk consistent.\<close>

theorem tfs_write_correct:
  assumes "sector_hw H sectors nsect idle running irq"
    and "tfs_at (disk_ready idle) (disk_blk sectors) D tb L s" and "0 < L"
    and "tfs_wf D (unat tb)" and "unat tb \<le> nsect" and "i < MAX_FILES" and "tfs_used D i"
    and "0 \<le> n" and "nat n \<le> length buf"
  shows "wp (tfs_write (disk_gbd H) (int (tfs_ino D i)) buf n off s) (\<lambda>(r, s').
    if off < 0 \<or> int (length (tfs_content D i)) < off
    then r = VFS_ERROR \<and> tfs_at (disk_ready idle) (disk_blk sectors) D tb L s'
    else let data = take (length (tfs_content D i) - nat off) (take (nat n) buf) in
      r = int (length data) \<and> (\<exists>D'. tfs_at (disk_ready idle) (disk_blk sectors) D' tb L s' \<and>
        tfs_wf D' (unat tb) \<and> tfs_ino D' = tfs_ino D \<and>
        tfs_files D' = (tfs_files D)(tfs_name D i \<mapsto> overwrite (tfs_content D i) (nat off) data)))"
proof -
  have upd: "tfs_wf D' (unat tb) \<and> tfs_ino D' = tfs_ino D \<and> tfs_files D' = (tfs_files D)(tfs_name D i \<mapsto> c)"
    if "tfs_updated D (unat tb) i c D'" for c D'
    using that tfs_updated_files [OF assms(4) that assms(6,7)] by (simp add: tfs_updated_def)
  show ?thesis
  proof (rule wp_mono [OF block_device.tfs_write_wp [OF sector_hw.disk_device [OF assms(1)] assms(2-)]])
    show "case x of (r, s') \<Rightarrow>
      if off < 0 \<or> int (length (tfs_content D i)) < off
      then r = VFS_ERROR \<and> tfs_at (disk_ready idle) (disk_blk sectors) D tb L s'
      else let data = take (length (tfs_content D i) - nat off) (take (nat n) buf) in
        r = int (length data) \<and> (\<exists>D'. tfs_at (disk_ready idle) (disk_blk sectors) D' tb L s' \<and>
          tfs_wf D' (unat tb) \<and> tfs_ino D' = tfs_ino D \<and>
          tfs_files D' = (tfs_files D)(tfs_name D i \<mapsto> overwrite (tfs_content D i) (nat off) data))"
      if "case x of (r, s') \<Rightarrow>
        if off < 0 \<or> int (length (tfs_content D i)) < off
        then r = VFS_ERROR \<and> tfs_at (disk_ready idle) (disk_blk sectors) D tb L s'
        else let data = take (length (tfs_content D i) - nat off) (take (nat n) buf) in
          r = int (length data) \<and> (\<exists>D'. tfs_at (disk_ready idle) (disk_blk sectors) D' tb L s' \<and>
            tfs_updated D (unat tb) i (overwrite (tfs_content D i) (nat off) data) D')" for x
      using that by (auto simp: Let_def dest!: upd split: if_splits)
  qed
qed

theorem tfs_write_correct_witness:
  "wp (tfs_write (disk_gbd ram_hw) 3 [111, 33] 2 1 demo_tfs) (\<lambda>(r, s').
    r = 2 \<and> (\<exists>D'. tfs_at (disk_ready (ram_ok 6 Ram_Idle)) (disk_blk ram_sect) D' 6 1 s' \<and>
      tfs_files D' [97] = Some [104, 111, 33]))"
proof -
  have "wp (tfs_write (disk_gbd ram_hw) (int (tfs_ino demo_content 0)) [111, 33] 2 1 demo_tfs) (\<lambda>(r, s').
    if (1::int) < 0 \<or> int (length (tfs_content demo_content 0)) < 1
    then r = VFS_ERROR \<and> tfs_at (disk_ready (ram_ok 6 Ram_Idle)) (disk_blk ram_sect) demo_content 6 1 s'
    else let data = take (length (tfs_content demo_content 0) - nat 1) (take (nat 2) [111, 33]) in
      r = int (length data) \<and> (\<exists>D'. tfs_at (disk_ready (ram_ok 6 Ram_Idle)) (disk_blk ram_sect) D' 6 1 s' \<and>
        tfs_wf D' (unat (6 :: u32)) \<and> tfs_ino D' = tfs_ino demo_content \<and>
        tfs_files D' = (tfs_files demo_content)(tfs_name demo_content 0 \<mapsto>
          overwrite (tfs_content demo_content 0) (nat 1) data)))"
    by (rule tfs_write_correct [OF ram.sector_hw_axioms demo_at]) (simp_all add: demo_wf demo_used)
  then show ?thesis
    unfolding demo_inode(1) of_nat_numeral
    by (rule wp_mono) (auto simp: demo_file demo_name overwrite_def Let_def)
qed

text \<open>C2. The Trivial Filesystem is a map from names to contents: any sequence of creations, removals,
  reads and writes that starts on a consistent disk returns (no assertion, no access outside a
  buffer, no waiting that nobody ends), gives for every call the result the map gives, and ends on
  a consistent disk that stands for the map the sequence produces, with the lock given back.\<close>

theorem tfs_refines_files:
  assumes "sector_hw H sectors nsect idle running irq"
    and "tfs_at (disk_ready idle) (disk_blk sectors) D tb L s" and "0 < L"
    and "tfs_wf D (unat tb)" and "unat tb \<le> nsect" and "list_all good_call cs"
  shows "wp (tfs_calls (disk_gbd H) cs s) (\<lambda>(rs, s'). \<exists>D'. tfs_at (disk_ready idle) (disk_blk sectors) D' tb L s' \<and>
    tfs_wf D' (unat tb) \<and> spec_calls cs (tfs_files D) rs (tfs_files D'))"
  using assms(2-) by (rule block_device.tfs_calls_wp [OF sector_hw.disk_device [OF assms(1)]])

inductive_cases spec_calls_ConsE: "spec_calls (c # cs) F rs F'"
inductive_cases spec_calls_NilE: "spec_calls [] F rs F'"

theorem tfs_refines_files_witness:
  "wp (tfs_calls (disk_gbd ram_hw) [Write [97, 0] [111] 1, Read [97, 0] 2 1, Remove [97, 0], Read [97, 0] 2 1] demo_tfs)
    (\<lambda>(rs, s'). rs = [Status 1, Data [111, 33], Status VFS_OK, Status VFS_NOT_FOUND])"
  by (rule wp_mono [OF tfs_refines_files [OF ram.sector_hw_axioms demo_at]])
    (auto simp: demo_wf demo_names cstr_def terminated_def overwrite_def Let_def
      elim!: spec_calls_ConsE spec_calls_NilE)

end
