(* ===== verification/Flatfs.thy ===== *)
theory Flatfs
  imports Fs_Common
begin

text \<open>
  FlatFS, \<open>fs/flatfs.c\<close>: like the Trivial Filesystem, but an inode block holds 7 direct
  block numbers, a single indirect and a double indirect block, and a write may grow the
  file.  The state is \<open>flatfs_t\<close>; its five block buffers are named by \<open>flatfs_buf\<close>, as is the
  constant block \<open>zeroblock\<close>.  A pointer to a word of a buffer is a buffer and an offset.
\<close>

abbreviation (input) FLATFS_DIRECT :: nat where "FLATFS_DIRECT \<equiv> 7"
abbreviation (input) FLATFS_SINDIR :: nat where "FLATFS_SINDIR \<equiv> 128"
abbreviation (input) FLATFS_MAX_BLOCKS :: u32 where "FLATFS_MAX_BLOCKS \<equiv> 7 + 128 + 128 * 128"

definition FLATFS_MAGIC :: u32 where "FLATFS_MAGIC = 0x00BAB5E2"

record 'd flatfs =
  f_totalblocks :: u32
  f_disk :: 'd
  f_lock :: int
  f_inode :: mem
  f_bat :: mem
  f_md :: mem
  f_si :: mem
  f_di :: mem
  f_volume :: mem

datatype flatfs_buf = F_Inode | F_Bat | F_Md | F_Si | F_Di | F_Zero

fun fbuf :: "flatfs_buf \<Rightarrow> 'd flatfs \<Rightarrow> mem" where
  "fbuf F_Inode s = f_inode s"
| "fbuf F_Bat s = f_bat s"
| "fbuf F_Md s = f_md s"
| "fbuf F_Si s = f_si s"
| "fbuf F_Di s = f_di s"
| "fbuf F_Zero s = replicate BLOCK 0"

fun set_fbuf :: "flatfs_buf \<Rightarrow> mem \<Rightarrow> 'd flatfs \<Rightarrow> 'd flatfs" where
  "set_fbuf F_Inode m s = s\<lparr>f_inode := m\<rparr>"
| "set_fbuf F_Bat m s = s\<lparr>f_bat := m\<rparr>"
| "set_fbuf F_Md m s = s\<lparr>f_md := m\<rparr>"
| "set_fbuf F_Si m s = s\<lparr>f_si := m\<rparr>"
| "set_fbuf F_Di m s = s\<lparr>f_di := m\<rparr>"
| "set_fbuf F_Zero m s = s"

definition flatfs_P :: "'d flatfs \<Rightarrow> 'd flatfs option" where
  "flatfs_P s = do { v \<leftarrow> sem_P (f_lock s); Some (s\<lparr>f_lock := v\<rparr>) }"

definition flatfs_V :: "'d flatfs \<Rightarrow> 'd flatfs" where
  "flatfs_V s = s\<lparr>f_lock := sem_V (f_lock s)\<rparr>"

text \<open>The word at a pointer, and an assignment through it.\<close>

definition fload :: "flatfs_buf \<Rightarrow> nat \<Rightarrow> 'd flatfs \<Rightarrow> u32 option" where
  "fload buf p s = rd32 (fbuf buf s) p"

definition fstore :: "flatfs_buf \<Rightarrow> nat \<Rightarrow> u32 \<Rightarrow> 'd flatfs \<Rightarrow> 'd flatfs option" where
  "fstore buf p w s = do { m \<leftarrow> wr32 (fbuf buf s) p w; Some (set_fbuf buf m s) }"

section \<open>Auxiliary functions\<close>

definition flatfs_disk_action ::
    "'d gbd \<Rightarrow> u32 \<Rightarrow> flatfs_buf \<Rightarrow> int \<Rightarrow> 'd flatfs \<Rightarrow> (int \<times> 'd flatfs) option" where
  "flatfs_disk_action G block buf rw s =
     (if rw = 0 then do {
        (r, m, d) \<leftarrow> read_block G block (fbuf buf s) (f_disk s);
        Some (r, set_fbuf buf m (s\<lparr>f_disk := d\<rparr>))
      }
      else if rw = 1 then do {
        (r, d) \<leftarrow> write_block G block (fbuf buf s) (f_disk s);
        Some (r, s\<lparr>f_disk := d\<rparr>)
      }
      else Some (0, s))"

definition flatfs_bm_alloc :: "flatfs_buf \<Rightarrow> nat \<Rightarrow> 'd flatfs \<Rightarrow> (int \<times> 'd flatfs) option" where
  "flatfs_bm_alloc buf p s = do {
     (b, bat) \<leftarrow> bitmap_findnset (f_bat s) (sint (f_totalblocks s));
     s \<leftarrow> fstore buf p (word_of_int b) (s\<lparr>f_bat := bat\<rparr>);
     w \<leftarrow> fload buf p s;
     Some (sint w, s)
   }"

text \<open>The pointer \<open>ind\<close> of \<open>alloc_indir\<close> and \<open>remove_indir\<close>.\<close>

definition flatfs_ind :: "int \<Rightarrow> flatfs_buf \<times> nat" where
  "flatfs_ind todbl = (if todbl \<ge> 0 then (F_Di, 4 * nat todbl) else (F_Inode, 32))"

text \<open>
  The loop that allocates and zeroes data blocks, for the entries \<open>i\<close> of the table at
  \<open>base\<close> of a buffer; \<open>False\<close> for the error return.
\<close>

fun flatfs_fill ::
    "'d gbd \<Rightarrow> flatfs_buf \<Rightarrow> nat \<Rightarrow> nat list \<Rightarrow> 'd flatfs \<Rightarrow> (bool \<times> 'd flatfs) option" where
  "flatfs_fill G buf base [] s = Some (True, s)"
| "flatfs_fill G buf base (i # is) s = do {
     (b, s) \<leftarrow> flatfs_bm_alloc buf (base + 4 * i) s;
     if b = - 1 then Some (False, s)
     else do {
       w \<leftarrow> fload buf (base + 4 * i) s;
       (r, s) \<leftarrow> flatfs_disk_action G w F_Zero 1 s;
       if r = 0 then Some (False, s) else flatfs_fill G buf base is s
     }
   }"

definition flatfs_alloc_indir ::
    "'d gbd \<Rightarrow> int \<Rightarrow> nat \<Rightarrow> nat \<Rightarrow> 'd flatfs \<Rightarrow> (int \<times> 'd flatfs) option" where
  "flatfs_alloc_indir G todbl numblocks offset s = (case flatfs_ind todbl of (ib, ip) \<Rightarrow> do {
     w \<leftarrow> fload ib ip s;
     (b, s) \<leftarrow> (if w = 0 then flatfs_bm_alloc ib ip s else Some (0, s));
     if b = - 1 then Some (VFS_ERROR, s)
     else do {
       w \<leftarrow> fload ib ip s;
       (r, s) \<leftarrow> flatfs_disk_action G w F_Si 0 s;
       if r = 0 then Some (VFS_ERROR, s)
       else do {
         (ok, s) \<leftarrow> flatfs_fill G F_Si 0 [offset..<offset + numblocks] s;
         if \<not> ok then Some (VFS_ERROR, s)
         else do {
           s \<leftarrow> for_each [offset + numblocks..<FLATFS_SINDIR] (\<lambda>i. fstore F_Si (4 * i) 0) s;
           (r, s) \<leftarrow> flatfs_disk_action G w F_Si 1 s;
           Some (if r = 0 then VFS_ERROR else VFS_OK, s)
         }
       }
     }
   })"

text \<open>
  The loop over the double indirect block; an index of 128 or more is outside
  \<open>buffer_di\<close>.
\<close>

fun flatfs_alloc_dbl ::
    "'d gbd \<Rightarrow> nat list \<Rightarrow> nat \<Rightarrow> nat \<Rightarrow> 'd flatfs \<Rightarrow> (int \<times> 'd flatfs) option" where
  "flatfs_alloc_dbl G [] numblocks offset s = (if numblocks = 0 then Some (VFS_OK, s) else None)"
| "flatfs_alloc_dbl G (i # is) numblocks offset s =
     (if numblocks = 0 then Some (VFS_OK, s)
      else let towrite = min numblocks (FLATFS_SINDIR - offset) in do {
        (r, s) \<leftarrow> flatfs_alloc_indir G (int i) towrite offset s;
        if r = VFS_ERROR then Some (VFS_ERROR, s)
        else flatfs_alloc_dbl G is (numblocks - towrite) 0 s
      })"

definition flatfs_store_bat :: "'d gbd \<Rightarrow> 'd flatfs \<Rightarrow> (int \<times> 'd flatfs) option" where
  "flatfs_store_bat G s = do {
     (r, s) \<leftarrow> flatfs_disk_action G 1 F_Bat 1 s;
     Some (if r = 0 then VFS_ERROR else VFS_OK, s)
   }"

text \<open>The three parts of \<open>flatfs_alloc_blocks\<close>: direct, single and double indirect blocks.\<close>

definition flatfs_alloc_direct ::
    "'d gbd \<Rightarrow> nat \<Rightarrow> nat \<Rightarrow> 'd flatfs \<Rightarrow> (bool \<times> 'd flatfs) option" where
  "flatfs_alloc_direct G tmpblocks offset s = do {
     (ok, s) \<leftarrow> flatfs_fill G F_Inode 4 [offset..<offset + tmpblocks] s;
     if \<not> ok then Some (False, s)
     else do {
       s \<leftarrow> for_each [tmpblocks + offset..<FLATFS_DIRECT] (\<lambda>i. fstore F_Inode (4 + 4 * i) 0) s;
       Some (True, s)
     }
   }"

definition flatfs_alloc_double :: "'d gbd \<Rightarrow> nat \<Rightarrow> nat \<Rightarrow> 'd flatfs \<Rightarrow> (int \<times> 'd flatfs) option" where
  "flatfs_alloc_double G numblocks offset s = do {
     w \<leftarrow> fload F_Inode 36 s;
     (r, s) \<leftarrow> flatfs_disk_action G w F_Di 0 s;
     if r = 0 then Some (VFS_ERROR, s)
     else let offset = offset - (FLATFS_DIRECT + FLATFS_SINDIR);
              start = offset div FLATFS_SINDIR; offset = offset mod FLATFS_SINDIR in do {
       (r, s) \<leftarrow> flatfs_alloc_dbl G [start..<FLATFS_SINDIR] numblocks offset s;
       if r = VFS_ERROR then Some (VFS_ERROR, s)
       else do {
         w \<leftarrow> fload F_Inode 36 s;
         (r, s) \<leftarrow> flatfs_disk_action G w F_Di 1 s;
         Some (if r = 0 then VFS_ERROR else VFS_OK, s)
       }
     }
   }"

definition flatfs_alloc_blocks :: "'d gbd \<Rightarrow> nat \<Rightarrow> nat \<Rightarrow> 'd flatfs \<Rightarrow> (int \<times> 'd flatfs) option" where
  "flatfs_alloc_blocks G numblocks offset s = do {
     (ok, numblocks, offset, s) \<leftarrow>
       (if offset < FLATFS_DIRECT then
          let tmpblocks = min (FLATFS_DIRECT - offset) numblocks in do {
            (ok, s) \<leftarrow> flatfs_alloc_direct G tmpblocks offset s;
            Some (ok, numblocks - tmpblocks, FLATFS_DIRECT, s)
          }
        else Some (True, numblocks, offset, s));
     if \<not> ok then Some (VFS_ERROR, s)
     else do {
       (r, numblocks, offset, s) \<leftarrow>
         (if 0 < numblocks \<and> offset < FLATFS_DIRECT + FLATFS_SINDIR then
            let tmpblocks = min numblocks (FLATFS_SINDIR + FLATFS_DIRECT - offset) in do {
              (r, s) \<leftarrow> flatfs_alloc_indir G (- 1) tmpblocks (offset - FLATFS_DIRECT) s;
              Some (r, numblocks - tmpblocks, FLATFS_DIRECT + FLATFS_SINDIR, s)
            }
          else Some (VFS_OK, numblocks, offset, s));
       if r = VFS_ERROR then Some (VFS_ERROR, s)
       else do {
         (r, s) \<leftarrow> (if 0 < numblocks then flatfs_alloc_double G numblocks offset s else Some (VFS_OK, s));
         if r = VFS_ERROR then Some (VFS_ERROR, s) else flatfs_store_bat G s
       }
     }
   }"

definition flatfs_remove_indir :: "'d gbd \<Rightarrow> int \<Rightarrow> 'd flatfs \<Rightarrow> (int \<times> 'd flatfs) option" where
  "flatfs_remove_indir G todbl s = (case flatfs_ind todbl of (ib, ip) \<Rightarrow> do {
     w \<leftarrow> fload ib ip s;
     (r, s) \<leftarrow> flatfs_disk_action G w F_Si 0 s;
     if r = 0 then Some (VFS_ERROR, s)
     else do {
       bat \<leftarrow> for_each [0..<FLATFS_SINDIR] (\<lambda>i bat. do {
         b \<leftarrow> rd32 (f_si s) (4 * i);
         if b > 0 then bitmap_set bat (sint b) 0 else Some bat
       }) (f_bat s);
       Some (VFS_OK, s\<lparr>f_bat := bat\<rparr>)
     }
   })"

definition flatfs_getblock :: "'d gbd \<Rightarrow> u32 \<Rightarrow> int \<Rightarrow> 'd flatfs \<Rightarrow> (u32 \<times> 'd flatfs) option" where
  "flatfs_getblock G block indirbuf s =
     (if block < 7 then do { w \<leftarrow> fload F_Inode (4 + 4 * unat block) s; Some (w, s) }
      else let block = block - 7 in
        if block < 128 then do {
          (r, s) \<leftarrow> (if indirbuf = 0
            then do { w \<leftarrow> fload F_Inode 32 s; flatfs_disk_action G w F_Si 0 s } else Some (1, s));
          if r = 0 then Some (word_of_int VFS_ERROR, s)
          else do { w \<leftarrow> fload F_Si (4 * unat block) s; Some (w, s) }
        }
        else let block = block - 128; indir = block div 128; block = block mod 128 in do {
          (r, s) \<leftarrow> (if indirbuf = 0
            then do { w \<leftarrow> fload F_Di (4 * unat indir) s; flatfs_disk_action G w F_Si 0 s } else Some (1, s));
          if r = 0 then Some (word_of_int VFS_ERROR, s)
          else do { w \<leftarrow> fload F_Si (4 * unat block) s; Some (w, s) }
        })"

section \<open>Mounting\<close>

text \<open>
  The page first receives the header block; \<open>fs_t\<close> (68 bytes), \<open>flatfs_t\<close> (32 bytes) and the
  five buffers are laid over it.
\<close>

definition flatfs_init :: "'d gbd \<Rightarrow> kres \<Rightarrow> 'd \<Rightarrow> ('d flatfs option \<times> kres \<times> 'd) option" where
  "flatfs_init G k d =
     (if block_size G d \<noteq> 512 then Some (None, k, d)
      else if kr_sems k = 0 then Some (None, k, d)
      else let k = k\<lparr>kr_sems := kr_sems k - 1\<rparr> in
        if kr_pages k = 0 then Some (None, k\<lparr>kr_sems := kr_sems k + 1\<rparr>, d)
        else let k = k\<lparr>kr_pages := kr_pages k - 1\<rparr> in do {
          (r, header, d) \<leftarrow> read_block G 0 (take BLOCK (kr_page k)) d;
          if r = 0 then Some (None, k\<lparr>kr_sems := kr_sems k + 1, kr_pages := kr_pages k + 1\<rparr>, d)
          else do {
            magic \<leftarrow> rd32 header 0;
            if magic \<noteq> FLATFS_MAGIC
            then Some (None, k\<lparr>kr_sems := kr_sems k + 1, kr_pages := kr_pages k + 1\<rparr>, d)
            else let page = header @ drop BLOCK (kr_page k) in do {
              name \<leftarrow> stringcopy (replicate 16 0) (drop 4 page) 16;
              volume \<leftarrow> stringcopy (take 16 (drop 4 page)) name VFS_NAME_LENGTH;
              Some (Some \<lparr>f_totalblocks = min (total_blocks G d) (8 * 512), f_disk = d, f_lock = 1,
                f_inode = take BLOCK (drop 100 page), f_bat = take BLOCK (drop (100 + BLOCK) page),
                f_md = take BLOCK (drop (100 + 2 * BLOCK) page), f_si = take BLOCK (drop (100 + 3 * BLOCK) page),
                f_di = take BLOCK (drop (100 + 4 * BLOCK) page), f_volume = volume\<rparr>, k, d)
            }
          }
        })"

definition flatfs_unmount :: "'d flatfs \<Rightarrow> kres \<Rightarrow> (int \<times> kres \<times> 'd) option" where
  "flatfs_unmount s k = do {
     s \<leftarrow> flatfs_P s;
     Some (VFS_OK, k\<lparr>kr_sems := kr_sems k + 1, kr_pages := kr_pages k + 1\<rparr>, f_disk s)
   }"

section \<open>Opening, creating and removing\<close>

definition flatfs_open :: "'d gbd \<Rightarrow> mem \<Rightarrow> 'd flatfs \<Rightarrow> (int \<times> 'd flatfs) option" where
  "flatfs_open G filename s = do {
     s \<leftarrow> flatfs_P s;
     (r, s) \<leftarrow> flatfs_disk_action G 2 F_Md 0 s;
     if r = 0 then Some (VFS_ERROR, flatfs_V s)
     else do {
       f \<leftarrow> dir_find (f_md s) filename [0..<MAX_FILES];
       case f of
         Some i \<Rightarrow> do { inode \<leftarrow> fload F_Md (20 * i) s; Some (sint inode, flatfs_V s) }
       | None \<Rightarrow> Some (VFS_NOT_FOUND, flatfs_V s)
     }
   }"

definition flatfs_close :: "int \<Rightarrow> 'd flatfs \<Rightarrow> (int \<times> 'd flatfs) option" where
  "flatfs_close fileid s = Some (VFS_OK, s)"

text \<open>The second half of \<open>flatfs_create\<close>, from the inode's block on; it holds the lock.\<close>

definition flatfs_create_inode ::
    "'d gbd \<Rightarrow> nat \<Rightarrow> int \<Rightarrow> u32 \<Rightarrow> 'd flatfs \<Rightarrow> (int \<times> 'd flatfs) option" where
  "flatfs_create_inode G index sz numblocks s = do {
     (b, s) \<leftarrow> flatfs_bm_alloc F_Md (20 * index) s;
     if b = - 1 then Some (VFS_ERROR, flatfs_V s)
     else do {
       s \<leftarrow> fstore F_Inode 0 (word_of_int sz) s;
       s \<leftarrow> fstore F_Inode 32 0 s;
       s \<leftarrow> fstore F_Inode 36 0 s;
       (ok, s) \<leftarrow> (if numblocks > 7 + 128 then do {
           (b, s) \<leftarrow> flatfs_bm_alloc F_Inode 36 s;
           if b = - 1 then Some (False, s)
           else do {
             w \<leftarrow> fload F_Inode 36 s;
             (r, s) \<leftarrow> flatfs_disk_action G w F_Zero 1 s;
             Some (r \<noteq> 0, s)
           }
         } else Some (True, s));
       if \<not> ok then Some (VFS_ERROR, flatfs_V s)
       else do {
         (r, s) \<leftarrow> flatfs_alloc_blocks G (unat numblocks) 0 s;
         if r = VFS_ERROR then Some (VFS_ERROR, flatfs_V s)
         else do {
           (r, s) \<leftarrow> flatfs_disk_action G 2 F_Md 1 s;
           if r = 0 then Some (VFS_ERROR, flatfs_V s)
           else do {
             w \<leftarrow> fload F_Md (20 * index) s;
             (r, s) \<leftarrow> flatfs_disk_action G w F_Inode 1 s;
             Some (if r = 0 then VFS_ERROR else VFS_OK, flatfs_V s)
           }
         }
       }
     }
   }"

definition flatfs_create :: "'d gbd \<Rightarrow> mem \<Rightarrow> int \<Rightarrow> 'd flatfs \<Rightarrow> (int \<times> 'd flatfs) option" where
  "flatfs_create G filename sz s = do {
     n \<leftarrow> ck (sz + 512);
     let numblocks = (word_of_int (cdiv (n - 1) 512) :: u32) in do {
       s \<leftarrow> flatfs_P s;
       if numblocks > FLATFS_MAX_BLOCKS then Some (VFS_ERROR, flatfs_V s)
       else do {
         (r, s) \<leftarrow> flatfs_disk_action G 2 F_Md 0 s;
         if r = 0 then Some (VFS_ERROR, flatfs_V s)
         else do {
           slot \<leftarrow> dir_slot (f_md s) filename None [0..<MAX_FILES];
           case slot of
             None \<Rightarrow> Some (VFS_ERROR, flatfs_V s)
           | Some None \<Rightarrow> Some (VFS_ERROR, flatfs_V s)
           | Some (Some index) \<Rightarrow> do {
               md \<leftarrow> dir_set_name (f_md s) index filename;
               (r, s) \<leftarrow> flatfs_disk_action G 1 F_Bat 0 (s\<lparr>f_md := md\<rparr>);
               if r = 0 then Some (VFS_ERROR, flatfs_V s)
               else flatfs_create_inode G index sz numblocks s
             }
         }
       }
     }
   }"

text \<open>
  The loop of \<open>flatfs_remove\<close> over the double indirect block.  \<open>tmpblocks\<close> is unsigned: when
  it is not a multiple of 128 it wraps around instead of reaching 0, and the loop runs off
  the end of \<open>buffer_di\<close>.
\<close>

fun flatfs_remove_dbl :: "'d gbd \<Rightarrow> nat list \<Rightarrow> u32 \<Rightarrow> 'd flatfs \<Rightarrow> (int \<times> 'd flatfs) option" where
  "flatfs_remove_dbl G [] tmpblocks s = (if tmpblocks = 0 then Some (VFS_OK, s) else None)"
| "flatfs_remove_dbl G (i # is) tmpblocks s =
     (if tmpblocks = 0 then Some (VFS_OK, s)
      else do {
        (r, s) \<leftarrow> flatfs_remove_indir G (int i) s;
        if r = VFS_ERROR then Some (VFS_ERROR, s) else flatfs_remove_dbl G is (tmpblocks - 128) s
      })"

text \<open>From the point where the inode is in its buffer; \<open>index\<close> is the directory entry.\<close>

definition flatfs_remove_blocks :: "'d gbd \<Rightarrow> nat \<Rightarrow> 'd flatfs \<Rightarrow> (int \<times> 'd flatfs) option" where
  "flatfs_remove_blocks G index s = do {
     filesize \<leftarrow> fload F_Inode 0 s;
     dbl \<leftarrow> fload F_Inode 36 s;
     let numblocks = (filesize + 512 - 1) div 512 in do {
       (r, s) \<leftarrow> (if numblocks > 7 + 128 \<and> dbl \<noteq> 0 then do {
           (r, s) \<leftarrow> flatfs_disk_action G dbl F_Di 0 s;
           if r = 0 then Some (VFS_ERROR, s)
           else flatfs_remove_dbl G [0..<FLATFS_SINDIR] (numblocks - 7 - 128) s
         } else Some (VFS_OK, s));
       if r = VFS_ERROR then Some (VFS_ERROR, flatfs_V s)
       else do {
         indir \<leftarrow> fload F_Inode 32 s;
         (r, s) \<leftarrow> (if indir > 0 then flatfs_remove_indir G (- 1) s else Some (VFS_OK, s));
         if r = VFS_ERROR then Some (VFS_ERROR, flatfs_V s)
         else do {
           inode \<leftarrow> fload F_Md (20 * index) s;
           bat \<leftarrow> bitmap_set (f_bat s) (sint inode) 0;
           bat \<leftarrow> for_each [0..<FLATFS_DIRECT] (\<lambda>i bat. do {
             b \<leftarrow> fload F_Inode (4 + 4 * i) s;
             if b > 0 then bitmap_set bat (sint b) 0 else Some bat
           }) bat;
           s \<leftarrow> fstore F_Md (20 * index) 0 (s\<lparr>f_bat := bat\<rparr>);
           md \<leftarrow> wr8 (f_md s) (20 * index + 4) 0;
           (r, s) \<leftarrow> flatfs_disk_action G 1 F_Bat 1 (s\<lparr>f_md := md\<rparr>);
           if r = 0 then Some (VFS_ERROR, flatfs_V s)
           else do {
             (r, s) \<leftarrow> flatfs_disk_action G 2 F_Md 1 s;
             if r = 0 then Some (VFS_ERROR, flatfs_V s) else Some (VFS_OK, flatfs_V s)
           }
         }
       }
     }
   }"

definition flatfs_remove :: "'d gbd \<Rightarrow> mem \<Rightarrow> 'd flatfs \<Rightarrow> (int \<times> 'd flatfs) option" where
  "flatfs_remove G filename s = do {
     s \<leftarrow> flatfs_P s;
     (r, s) \<leftarrow> flatfs_disk_action G 2 F_Md 0 s;
     if r = 0 then Some (VFS_ERROR, flatfs_V s)
     else do {
       f \<leftarrow> dir_find (f_md s) filename [0..<MAX_FILES];
       case f of None \<Rightarrow> Some (VFS_NOT_FOUND, flatfs_V s)
       | Some index \<Rightarrow> do {
           (r, s) \<leftarrow> flatfs_disk_action G 1 F_Bat 0 s;
           if r = 0 then Some (VFS_ERROR, flatfs_V s)
           else do {
             w \<leftarrow> fload F_Md (20 * index) s;
             (r, s) \<leftarrow> flatfs_disk_action G w F_Inode 0 s;
             if r = 0 then Some (VFS_ERROR, flatfs_V s)
             else flatfs_remove_blocks G index s
           }
         }
     }
   }"

section \<open>Reading\<close>

text \<open>The flag passed to \<open>flatfs_getblock\<close>: the subtraction is unsigned.\<close>

definition flatfs_indirbuf :: "u32 \<Rightarrow> int" where
  "flatfs_indirbuf b = sint ((b - 7) mod 128)"

fun flatfs_read_loop ::
    "'d gbd \<Rightarrow> int list \<Rightarrow> int \<Rightarrow> int \<Rightarrow> int \<Rightarrow> int \<Rightarrow> int \<Rightarrow> mem \<Rightarrow> 'd flatfs \<Rightarrow>
      (int \<times> mem \<times> 'd flatfs) option" where
  "flatfs_read_loop G [] b1 b2 bufsize offset rd buffer s = Some (rd, buffer, flatfs_V s)"
| "flatfs_read_loop G (b # bs) b1 b2 bufsize offset rd buffer s = do {
     (block, s) \<leftarrow> flatfs_getblock G (word_of_int b) (flatfs_indirbuf (word_of_int b)) s;
     (r, s) \<leftarrow> flatfs_disk_action G block F_Bat 0 s;
     if r = 0 then Some (VFS_ERROR, buffer, flatfs_V s)
     else if b = b1 then let rd = min (512 - cmod offset 512) bufsize in do {
       buffer \<leftarrow> blit (nat rd) buffer 0 (f_bat s) (nat (cmod offset 512));
       flatfs_read_loop G bs b1 b2 bufsize offset rd buffer s
     }
     else if b = b2 then do {
       buffer \<leftarrow> blit (nat (bufsize - rd)) buffer (nat rd) (f_bat s) 0;
       flatfs_read_loop G bs b1 b2 bufsize offset bufsize buffer s
     }
     else do {
       buffer \<leftarrow> blit 512 buffer (nat rd) (f_bat s) 0;
       flatfs_read_loop G bs b1 b2 bufsize offset (rd + 512) buffer s
     }
   }"

definition flatfs_read ::
    "'d gbd \<Rightarrow> int \<Rightarrow> mem \<Rightarrow> int \<Rightarrow> int \<Rightarrow> 'd flatfs \<Rightarrow> (int \<times> mem \<times> 'd flatfs) option" where
  "flatfs_read G fileid buffer bufsize offset s = do {
     s \<leftarrow> flatfs_P s;
     if fileid < 2 \<or> fileid > sint (f_totalblocks s) then Some (VFS_ERROR, buffer, flatfs_V s)
     else do {
       (r, s) \<leftarrow> flatfs_disk_action G (word_of_int fileid) F_Inode 0 s;
       if r = 0 then Some (VFS_ERROR, buffer, flatfs_V s)
       else do {
         filesize \<leftarrow> fload F_Inode 0 s;
         if offset < 0 \<or> offset > sint filesize then Some (VFS_INVALID_PARAMS, buffer, flatfs_V s)
         else let bufsize = min bufsize (sint filesize - offset) in
           if bufsize = 0 then Some (0, buffer, flatfs_V s)
           else let b1 = cdiv offset 512; b2 = cdiv (offset + bufsize - 1) 512 in do {
             dbl \<leftarrow> fload F_Inode 36 s;
             (r, s) \<leftarrow> (if dbl > 0 then flatfs_disk_action G dbl F_Di 0 s else Some (1, s));
             if r = 0 then Some (VFS_ERROR, buffer, flatfs_V s)
             else do {
               (_, s) \<leftarrow> flatfs_getblock G (word_of_int b1) 0 s;
               flatfs_read_loop G [b1..b2] b1 b2 bufsize offset 0 buffer s
             }
           }
       }
     }
   }"

section \<open>Writing\<close>

text \<open>
  Extending a file up to block \<open>b2\<close> before the data is written.  The result of
  \<open>flatfs_alloc_blocks\<close> is not looked at.
\<close>

definition flatfs_extend ::
    "'d gbd \<Rightarrow> u32 \<Rightarrow> u32 \<Rightarrow> u32 \<Rightarrow> 'd flatfs \<Rightarrow> (bool \<times> 'd flatfs) option" where
  "flatfs_extend G b2 last_block filesize s = do {
     (r, s) \<leftarrow> flatfs_disk_action G 1 F_Bat 0 s;
     if r = 0 then Some (False, s)
     else do {
       (ok, s) \<leftarrow> (if filesize = 0 then do {
           (b, s) \<leftarrow> flatfs_bm_alloc F_Inode 4 s;
           if b = - 1 then Some (False, s)
           else do {
             w \<leftarrow> fload F_Inode 4 s;
             (r, s) \<leftarrow> flatfs_disk_action G w F_Zero 1 s;
             Some (r \<noteq> 0, s)
           }
         } else Some (True, s));
       if \<not> ok then Some (False, s)
       else do {
         (ok, s) \<leftarrow> (if b2 \<ge> 7 + 128 \<and> last_block < 7 + 128 then do {
             (b, s) \<leftarrow> flatfs_bm_alloc F_Inode 36 s;
             if b = - 1 then Some (False, s)
             else do {
               w \<leftarrow> fload F_Inode 36 s;
               (r, s) \<leftarrow> flatfs_disk_action G w F_Zero 1 s;
               Some (r \<noteq> 0, s)
             }
           } else Some (True, s));
         if \<not> ok then Some (False, s)
         else if b2 > last_block then do {
           (_, s) \<leftarrow> flatfs_alloc_blocks G (unat (b2 - last_block)) (unat (last_block + 1)) s;
           Some (True, s)
         }
         else do {
           (r, s) \<leftarrow> flatfs_disk_action G 1 F_Bat 1 s;
           Some (r \<noteq> 0, s)
         }
       }
     }
   }"

text \<open>The loop over the blocks; \<open>None\<close> in the first component is the error return.\<close>

fun flatfs_write_loop ::
    "'d gbd \<Rightarrow> nat list \<Rightarrow> nat \<Rightarrow> nat \<Rightarrow> int \<Rightarrow> int \<Rightarrow> int \<Rightarrow> mem \<Rightarrow> 'd flatfs \<Rightarrow>
      (int option \<times> 'd flatfs) option" where
  "flatfs_write_loop G [] b1 b2 datasize offset written buffer s = Some (Some written, s)"
| "flatfs_write_loop G (b # bs) b1 b2 datasize offset written buffer s = do {
     (block, s) \<leftarrow> flatfs_getblock G (of_nat b) (flatfs_indirbuf (of_nat b)) s;
     let (n, p, load) =
       (if b = b1 then (min (512 - cmod offset 512) datasize, cmod offset 512, True)
        else if b = b2 then (datasize - written, 0, True) else (512, 0, False)) in do {
       (r, s) \<leftarrow> (if load then flatfs_disk_action G block F_Bat 0 s else Some (1, s));
       if r = 0 then Some (None, s)
       else do {
         bat \<leftarrow> blit (nat n) (f_bat s) (nat p) buffer (nat written);
         (r, s) \<leftarrow> flatfs_disk_action G block F_Bat 1 (s\<lparr>f_bat := bat\<rparr>);
         if r = 0 then Some (None, s)
         else flatfs_write_loop G bs b1 b2 datasize offset (written + n) buffer s
       }
     }
   }"

text \<open>Writing the data once the file is long enough, and storing a new size.\<close>

definition flatfs_write_data ::
    "'d gbd \<Rightarrow> int \<Rightarrow> mem \<Rightarrow> int \<Rightarrow> int \<Rightarrow> u32 \<Rightarrow> u32 \<Rightarrow> 'd flatfs \<Rightarrow> (int \<times> 'd flatfs) option" where
  "flatfs_write_data G fileid buffer datasize offset b1 b2 s = do {
     (_, s) \<leftarrow> flatfs_getblock G b1 0 s;
     (w, s) \<leftarrow> flatfs_write_loop G [unat b1..<unat b2 + 1] (unat b1) (unat b2) datasize offset 0 buffer s;
     case w of None \<Rightarrow> Some (VFS_ERROR, flatfs_V s)
     | Some written \<Rightarrow> do {
         filesize \<leftarrow> fload F_Inode 0 s;
         let end = (word_of_int offset + word_of_int datasize :: u32) in
           if end > filesize then do {
             s \<leftarrow> fstore F_Inode 0 end s;
             (r, s) \<leftarrow> flatfs_disk_action G (word_of_int fileid) F_Inode 1 s;
             Some (if r = 0 then VFS_ERROR else written, flatfs_V s)
           }
           else Some (written, flatfs_V s)
       }
   }"

definition flatfs_write ::
    "'d gbd \<Rightarrow> int \<Rightarrow> mem \<Rightarrow> int \<Rightarrow> int \<Rightarrow> 'd flatfs \<Rightarrow> (int \<times> 'd flatfs) option" where
  "flatfs_write G fileid buffer datasize offset s = do {
     s \<leftarrow> flatfs_P s;
     if fileid < 2 \<or> fileid > sint (f_totalblocks s) \<or> offset < 0 then Some (VFS_INVALID_PARAMS, flatfs_V s)
     else if datasize = 0 then Some (0, flatfs_V s)
     else do {
       (r, s) \<leftarrow> flatfs_disk_action G (word_of_int fileid) F_Inode 0 s;
       if r = 0 then Some (VFS_ERROR, flatfs_V s)
       else do {
         filesize \<leftarrow> fload F_Inode 0 s;
         if offset > sint filesize then Some (VFS_ERROR, flatfs_V s)
         else do {
           e \<leftarrow> ck (offset + datasize);
           let b1 = word_of_int (cdiv offset 512); b2 = word_of_int (cdiv (e - 1) 512);
               last_block = (if filesize = 0 then 0 else (filesize - 1) div 512) in do {
             dbl \<leftarrow> fload F_Inode 36 s;
             (r, s) \<leftarrow> (if dbl > 0 then flatfs_disk_action G dbl F_Di 0 s else Some (1, s));
             if r = 0 then Some (VFS_ERROR, flatfs_V s)
             else do {
               (ok, s) \<leftarrow> (if b2 > last_block \<or> filesize = 0
                 then flatfs_extend G b2 last_block filesize s else Some (True, s));
               if \<not> ok then Some (VFS_ERROR, flatfs_V s)
               else flatfs_write_data G fileid buffer datasize offset b1 b2 s
             }
           }
         }
       }
     }
   }"

section \<open>Queries\<close>

definition flatfs_getfree :: "'d gbd \<Rightarrow> 'd flatfs \<Rightarrow> (int \<times> 'd flatfs) option" where
  "flatfs_getfree G s = do {
     s \<leftarrow> flatfs_P s;
     (r, s) \<leftarrow> flatfs_disk_action G 1 F_Bat 0 s;
     if r = 0 then Some (VFS_ERROR, flatfs_V s)
     else do {
       allocated \<leftarrow> bat_count (f_bat s) 0 [0..<unat (f_totalblocks s)];
       Some (sint ((f_totalblocks s - word_of_int allocated) * 512), flatfs_V s)
     }
   }"

definition flatfs_filecount :: "'d gbd \<Rightarrow> mem \<Rightarrow> 'd flatfs \<Rightarrow> (int \<times> 'd flatfs) option" where
  "flatfs_filecount G dirname s = do {
     c \<leftarrow> stringcmp dirname [0];
     if c \<noteq> 0 then Some (- VFS_NOT_FOUND, s)
     else do {
       s \<leftarrow> flatfs_P s;
       (r, s) \<leftarrow> flatfs_disk_action G 2 F_Md 0 s;
       if r = 0 then Some (VFS_ERROR, flatfs_V s)
       else do {
         count \<leftarrow> dir_count (f_md s) 0 [0..<MAX_FILES];
         Some (count, flatfs_V s)
       }
     }
   }"

definition flatfs_file :: "'d gbd \<Rightarrow> mem \<Rightarrow> int \<Rightarrow> mem \<Rightarrow> 'd flatfs \<Rightarrow> (int \<times> mem \<times> 'd flatfs) option" where
  "flatfs_file G dirname idx buffer s = do {
     c \<leftarrow> stringcmp dirname [0];
     if c \<noteq> 0 \<or> idx < 0 then Some (VFS_NOT_FOUND, buffer, s)
     else do {
       s \<leftarrow> flatfs_P s;
       (r, s) \<leftarrow> flatfs_disk_action G 2 F_Md 0 s;
       if r = 0 then Some (VFS_ERROR, buffer, flatfs_V s)
       else do {
         f \<leftarrow> dir_nth (f_md s) idx 0 [0..<MAX_FILES];
         case f of
           Some i \<Rightarrow> do {
             buffer \<leftarrow> stringcopy buffer (dir_name (f_md s) i) 16;
             Some (VFS_ERROR, buffer, flatfs_V s)
           }
         | None \<Rightarrow> Some (VFS_NOT_FOUND, buffer, flatfs_V s)
       }
     }
   }"

definition flatfs_mkdir :: "mem \<Rightarrow> 'd flatfs \<Rightarrow> (int \<times> 'd flatfs) option" where
  "flatfs_mkdir dirname s = Some (VFS_NOT_SUPPORTED, s)"

definition flatfs_rmdir :: "mem \<Rightarrow> 'd flatfs \<Rightarrow> (int \<times> 'd flatfs) option" where
  "flatfs_rmdir dirname s = Some (VFS_NOT_SUPPORTED, s)"

section \<open>The lock\<close>

text \<open>
  Every auxiliary function leaves the lock alone: whatever holds of its results for any
  buffers and disk holds after the call.
\<close>

lemma fbuf_lock [simp]: "f_lock (set_fbuf buf m s) = f_lock s"
  by (cases buf) simp_all

lemma f_lock_V [simp]: "f_lock (flatfs_V s) = f_lock s + 1"
  by (simp add: flatfs_V_def sem_V_def)

lemma wlp_flatfs_P: "(\<And>s'. f_lock s' = f_lock s - 1 \<Longrightarrow> Q s') \<Longrightarrow> wlp (flatfs_P s) Q"
  by (simp add: flatfs_P_def sem_P_def)

lemma wlp_fload: "(\<And>w. Q w) \<Longrightarrow> wlp (fload buf p s) Q"
  by (simp add: wlp_iff)

lemma wlp_fstore: "(\<And>s'. f_lock s' = f_lock s \<Longrightarrow> Q s') \<Longrightarrow> wlp (fstore buf p w s) Q"
  by (simp add: fstore_def wp_simps)

lemma wlp_action:
  "(\<And>r s'. f_lock s' = f_lock s \<Longrightarrow> Q (r, s')) \<Longrightarrow> wlp (flatfs_disk_action G b buf rw s) Q"
  by (auto simp: flatfs_disk_action_def wp_simps wlp_calls)

lemma wlp_bm_alloc:
  "(\<And>r s'. f_lock s' = f_lock s \<Longrightarrow> Q (r, s')) \<Longrightarrow> wlp (flatfs_bm_alloc buf p s) Q"
  by (auto simp: flatfs_bm_alloc_def wp_simps wlp_calls intro!: wlp_fload wlp_fstore)

lemmas flatfs_small = wlp_fload wlp_fstore wlp_action wlp_bm_alloc

lemma wlp_for_each:
  assumes "\<And>x s. P s \<Longrightarrow> wlp (f x s) P" and "P s"
  shows "wlp (for_each xs f s) P"
  using assms(2) by (induction xs arbitrary: s) (auto simp: wp_simps intro: wlp_mono [OF assms(1)])

lemma wlp_for_each_fstore:
  assumes "\<And>s'. f_lock s' = f_lock s \<Longrightarrow> Q s'"
  shows "wlp (for_each xs (\<lambda>i. fstore buf (p i) w) s) Q"
  by (rule wlp_mono [OF wlp_for_each [where P = "\<lambda>s'. f_lock s' = f_lock s"]])
    (auto simp: assms intro!: wlp_fstore)

lemma wlp_fill:
  assumes "\<And>r s'. f_lock s' = f_lock s \<Longrightarrow> Q (r, s')"
  shows "wlp (flatfs_fill G buf base is s) Q"
proof -
  have "wlp (flatfs_fill G buf base is s) (\<lambda>(r, s'). f_lock s' = L)" if "f_lock s = L" for L
    using that by (induction "is" arbitrary: s) (auto simp: wp_simps intro!: flatfs_small)
  from wlp_mono [OF this] assms show ?thesis by fastforce
qed

lemma wlp_alloc_indir:
  "(\<And>r s'. f_lock s' = f_lock s \<Longrightarrow> Q (r, s')) \<Longrightarrow> wlp (flatfs_alloc_indir G t n p s) Q"
  by (auto simp: flatfs_alloc_indir_def wp_simps split: prod.split
      intro!: flatfs_small wlp_fill wlp_for_each_fstore)

lemma wlp_alloc_dbl:
  assumes "\<And>r s'. f_lock s' = f_lock s \<Longrightarrow> Q (r, s')"
  shows "wlp (flatfs_alloc_dbl G is n p s) Q"
proof -
  have "wlp (flatfs_alloc_dbl G is n p s) (\<lambda>(r, s'). f_lock s' = L)" if "f_lock s = L" for L
    using that by (induction "is" arbitrary: s n p) (auto simp: wp_simps intro!: wlp_alloc_indir wlp_Let_any)
  from wlp_mono [OF this] assms show ?thesis by fastforce
qed

lemma wlp_alloc_blocks:
  "(\<And>r s'. f_lock s' = f_lock s \<Longrightarrow> Q (r, s')) \<Longrightarrow> wlp (flatfs_alloc_blocks G n p s) Q"
  by (auto simp: flatfs_alloc_blocks_def flatfs_alloc_direct_def flatfs_alloc_double_def
      flatfs_store_bat_def wp_simps
      intro!: flatfs_small wlp_fill wlp_for_each_fstore wlp_alloc_indir wlp_alloc_dbl wlp_Let_any)

lemma wlp_remove_indir:
  "(\<And>r s'. f_lock s' = f_lock s \<Longrightarrow> Q (r, s')) \<Longrightarrow> wlp (flatfs_remove_indir G t s) Q"
  by (auto simp: flatfs_remove_indir_def wp_simps wlp_calls split: prod.split intro!: flatfs_small)

lemma wlp_remove_dbl:
  assumes "\<And>r s'. f_lock s' = f_lock s \<Longrightarrow> Q (r, s')"
  shows "wlp (flatfs_remove_dbl G is n s) Q"
proof -
  have "wlp (flatfs_remove_dbl G is n s) (\<lambda>(r, s'). f_lock s' = L)" if "f_lock s = L" for L
    using that by (induction "is" arbitrary: s n) (auto simp: wp_simps intro!: wlp_remove_indir)
  from wlp_mono [OF this] assms show ?thesis by fastforce
qed

lemma wlp_getblock:
  "(\<And>r s'. f_lock s' = f_lock s \<Longrightarrow> Q (r, s')) \<Longrightarrow> wlp (flatfs_getblock G b i s) Q"
  by (auto simp: flatfs_getblock_def wp_simps intro!: flatfs_small wlp_Let_any)

lemma wlp_read_loop:
  "f_lock s + 1 = L \<Longrightarrow>
    wlp (flatfs_read_loop G bs b1 b2 n off rd buf s) (\<lambda>(r, b, s'). f_lock s' = L)"
  by (induction bs arbitrary: s rd buf)
    (auto simp: wp_simps wlp_calls intro!: flatfs_small wlp_getblock wlp_Let_any)

lemma wlp_write_loop:
  assumes "\<And>r s'. f_lock s' = f_lock s \<Longrightarrow> Q (r, s')"
  shows "wlp (flatfs_write_loop G bs b1 b2 n off wr buf s) Q"
proof -
  have "wlp (flatfs_write_loop G bs b1 b2 n off wr buf s) (\<lambda>(r, s'). f_lock s' = L)" if "f_lock s = L" for L
    using that
    by (induction bs arbitrary: s wr)
      (auto simp: wp_simps wlp_calls intro!: flatfs_small wlp_getblock wlp_Let_any split: prod.split)
  from wlp_mono [OF this] assms show ?thesis by fastforce
qed

lemmas flatfs_steps = flatfs_small wlp_flatfs_P wlp_fill wlp_for_each_fstore wlp_alloc_indir
  wlp_alloc_blocks wlp_remove_indir wlp_remove_dbl wlp_getblock wlp_read_loop wlp_write_loop wlp_Let_any

lemma flatfs_open_lock: "wlp (flatfs_open G f s) (\<lambda>(r, s'). f_lock s' = f_lock s)"
  by (auto simp: flatfs_open_def wp_simps wlp_calls intro!: flatfs_steps split: option.split)

lemma flatfs_create_lock: "wlp (flatfs_create G f n s) (\<lambda>(r, s'). f_lock s' = f_lock s)"
  by (auto simp: flatfs_create_def flatfs_create_inode_def wp_simps wlp_calls
      intro!: flatfs_steps split: option.split)

lemma flatfs_remove_lock: "wlp (flatfs_remove G f s) (\<lambda>(r, s'). f_lock s' = f_lock s)"
  by (auto simp: flatfs_remove_def flatfs_remove_blocks_def wp_simps wlp_calls
      intro!: flatfs_steps split: option.split)

lemma flatfs_read_lock: "wlp (flatfs_read G fd buf n off s) (\<lambda>(r, b, s'). f_lock s' = f_lock s)"
  by (auto simp: flatfs_read_def wp_simps wlp_calls intro!: flatfs_steps)

lemma wlp_extend:
  "(\<And>r s'. f_lock s' = f_lock s \<Longrightarrow> Q (r, s')) \<Longrightarrow> wlp (flatfs_extend G b2 l fs s) Q"
  unfolding flatfs_extend_def wlp_bind wlp_pair wlp_if
  by (auto simp: wlp_Some intro!: flatfs_small wlp_alloc_blocks)

lemma wlp_write_data:
  "f_lock s + 1 = L \<Longrightarrow>
    wlp (flatfs_write_data G fd buf n off b1 b2 s) (\<lambda>(r, s'). f_lock s' = L)"
  by (auto simp: flatfs_write_data_def wp_simps intro!: flatfs_steps split: option.split)

lemma flatfs_write_lock: "wlp (flatfs_write G fd buf n off s) (\<lambda>(r, s'). f_lock s' = f_lock s)"
  unfolding flatfs_write_def
  by (auto simp: wp_simps wlp_calls intro!: flatfs_small wlp_flatfs_P wlp_extend wlp_write_data wlp_Let_any)

lemma flatfs_getfree_lock: "wlp (flatfs_getfree G s) (\<lambda>(r, s'). f_lock s' = f_lock s)"
  by (auto simp: flatfs_getfree_def wp_simps wlp_calls intro!: flatfs_steps)

lemma flatfs_filecount_lock: "wlp (flatfs_filecount G f s) (\<lambda>(r, s'). f_lock s' = f_lock s)"
  by (auto simp: flatfs_filecount_def wp_simps wlp_calls intro!: flatfs_steps)

lemma flatfs_file_lock: "wlp (flatfs_file G f i b s) (\<lambda>(r, buf, s'). f_lock s' = f_lock s)"
  by (auto simp: flatfs_file_def wp_simps wlp_calls intro!: flatfs_steps split: option.split)

section \<open>Removing large files\<close>

lemma mod_128_sub: "((n :: u32) - 128) mod 128 = n mod 128"
proof -
  have "uint ((n - 128) mod 128) = uint (n mod 128)"
    by (simp add: uint_mod uint_word_ariths mod_mod_cancel)
  then show ?thesis by (simp only: word_uint_eq_iff)
qed

lemma flatfs_remove_dbl_unaligned:
  "n mod 128 \<noteq> 0 \<Longrightarrow> wlp (flatfs_remove_dbl G is n s) (\<lambda>(r, s'). r = VFS_ERROR)"
proof (induction "is" arbitrary: n s)
  case Nil
  then show ?case by auto
next
  case (Cons i "is")
  then have "n \<noteq> 0" by auto
  then show ?case
    using Cons.IH [of "n - 128"] Cons.prems
    by (auto simp: wp_simps mod_128_sub wlp_iff [of "flatfs_remove_indir G t s" for t])
qed

lemma mod_128_shift:
  assumes "(x - 7) mod 128 = (0 :: int)"
  shows "x mod 128 = 7"
proof -
  from assms obtain k where "x - 7 = 128 * k"
    by (auto simp: mod_eq_0_iff_dvd elim: dvdE)
  then have "x = 7 + 128 * k" by simp
  then show ?thesis by simp
qed

lemma sub_7_128:
  assumes "(n :: u32) mod 128 \<noteq> 7"
  shows "(n - 7 - 128) mod 128 \<noteq> 0"
proof
  assume "(n - 7 - 128) mod 128 = 0"
  then have "uint ((n - 7) mod 128) = 0"
    unfolding mod_128_sub by simp
  then have "(uint n - 7) mod 128 = 0"
    by (simp add: uint_mod uint_word_ariths mod_mod_cancel)
  then have "uint n mod 128 = 7"
    by (rule mod_128_shift)
  then have "uint (n mod 128) = uint (7 :: u32)"
    by (simp add: uint_mod)
  then show False
    using assms by (simp only: word_uint_eq_iff)
qed

lemma flatfs_remove_large:
  assumes "get32 (f_inode s) 36 \<noteq> 0" and "n > 135" and "n mod 128 \<noteq> 7"
    and "n = (get32 (f_inode s) 0 + 511) div 512"
  shows "wlp (flatfs_remove_blocks G index s) (\<lambda>(r, s'). r = VFS_ERROR)"
proof -
  have "(n - 7 - 128) mod 128 \<noteq> 0"
    using assms(3) by (rule sub_7_128)
  note dbl = flatfs_remove_dbl_unaligned [OF this]
  have n: "(get32 (f_inode s) 0 + 512 - 1) div 512 = n"
    using assms(4) by (simp add: algebra_simps)
  have body: "wlp (if 7 + 128 < n \<and> get32 (f_inode s) 36 \<noteq> 0 then do {
           (r, s) \<leftarrow> flatfs_disk_action G (get32 (f_inode s) 36) F_Di 0 s;
           if r = 0 then Some (VFS_ERROR, s)
           else flatfs_remove_dbl G is (n - 7 - 128) s
         } else Some (VFS_OK, s)) (\<lambda>(r, s'). r = VFS_ERROR)" for "is"
    using assms(1,2) by (auto simp: wp_simps wlp_iff [of "flatfs_disk_action G b buf rw s" for b buf rw s] dbl [simplified])
  have step: "wlp (case x of (r, s) \<Rightarrow> if r = VFS_ERROR then Some (VFS_ERROR, flatfs_V s) else f r s)
      (\<lambda>(r, s'). r = VFS_ERROR)" if "case x of (r, s') \<Rightarrow> r = VFS_ERROR" for x f
    using that by (cases x) simp
  show ?thesis
    unfolding flatfs_remove_blocks_def fload_def fbuf.simps wlp_bind wlp_rd32 n Let_def
    by (intro impI, rule wlp_mono [OF body step])
qed

end
