(* ===== verification/Flatfs_Properties.thy ===== *)
theory Flatfs_Properties
  imports Flatfs
begin

text \<open>The properties of the FlatFS driver.\<close>

text \<open>The lock of FlatFS: every operation that returns, with whatever result and on whatever
  disk, leaves the value of the semaphore as it found it, so no path forgets or repeats
  the \<open>semaphore_V\<close>.\<close>

theorem flatfs_lock_balanced:
  "wlp (flatfs_open G f s) (\<lambda>(r, s'). f_lock s' = f_lock s) \<and>
   wlp (flatfs_create G f n s) (\<lambda>(r, s'). f_lock s' = f_lock s) \<and>
   wlp (flatfs_remove G f s) (\<lambda>(r, s'). f_lock s' = f_lock s) \<and>
   wlp (flatfs_read G fd buf n off s) (\<lambda>(r, b, s'). f_lock s' = f_lock s) \<and>
   wlp (flatfs_write G fd buf n off s) (\<lambda>(r, s'). f_lock s' = f_lock s) \<and>
   wlp (flatfs_getfree G s) (\<lambda>(r, s'). f_lock s' = f_lock s) \<and>
   wlp (flatfs_filecount G f s) (\<lambda>(r, s'). f_lock s' = f_lock s) \<and>
   wlp (flatfs_file G f n buf s) (\<lambda>(r, b, s'). f_lock s' = f_lock s)"
  by (simp only: flatfs_open_lock flatfs_create_lock flatfs_remove_lock flatfs_read_lock
      flatfs_write_lock flatfs_getfree_lock flatfs_filecount_lock flatfs_file_lock simp_thms)

text \<open>C37. A file with a double indirect block can only be removed when the number of blocks
  behind the first 135 is a multiple of 128: otherwise the unsigned counter of the loop wraps
  around and \<open>flatfs_remove\<close> ends with \<open>VFS_ERROR\<close> or does not return normally, whatever the disk.\<close>

theorem flatfs_large_not_removed:
  assumes "get32 (f_inode s) 36 \<noteq> 0" and "(get32 (f_inode s) 0 + 511) div 512 > 135"
    and "(get32 (f_inode s) 0 + 511) div 512 mod 128 \<noteq> 7"
  shows "wlp (flatfs_remove_blocks G index s) (\<lambda>(r, s'). r = VFS_ERROR)"
  by (rule flatfs_remove_large [OF assms refl])

definition large_flatfs :: "ram disk flatfs" where
  "large_flatfs = \<lparr>f_totalblocks = 4096, f_disk = disk_init \<lparr>ram_sectors = [], ram_phase = Ram_Idle\<rparr> 1,
     f_lock = 0, f_inode = [0, 1, 0x10, 0] @ replicate 28 5 @ [0, 0, 0, 9, 0, 0, 0, 10] @ replicate 472 0,
     f_bat = replicate 512 255, f_md = replicate 512 0, f_si = replicate 512 0,
     f_di = replicate 512 0, f_volume = [0]\<rparr>"

lemma large_flatfs_inode:
  "get32 (f_inode large_flatfs) 0 = 0x11000" "get32 (f_inode large_flatfs) 36 = 10"
  by (simp_all add: large_flatfs_def get32_def be_word_def nth_append)

theorem flatfs_large_not_removed_witness:
  "wlp (flatfs_remove_blocks (disk_gbd ram_hw) 0 large_flatfs) (\<lambda>(r, s'). r = VFS_ERROR)"
  by (rule flatfs_large_not_removed) (simp_all add: large_flatfs_inode)

end
