(* ===== verification/Newfs.thy ===== *)
theory Newfs
  imports Flatfs
begin

text \<open>
  NewFS, \<open>fs/newfs.c\<close>: the unfinished successor of FlatFS.  \<open>newfs_t\<close> and its inode have the
  fields of FlatFS, so the state, the buffers and the pointers into them are those of
  \<open>Flatfs\<close>; new are the place of the directory, the allocation bitmap that is read and
  written through a block on the stack, and the number of directory entries, which is
  computed from the size of the largest file and exceeds the directory buffer.
\<close>

abbreviation (input) NEWFS_DIRECT :: nat where "NEWFS_DIRECT \<equiv> 7"
abbreviation (input) NEWFS_SINDIR :: nat where "NEWFS_SINDIR \<equiv> 128"
abbreviation (input) NEWFS_MAX_BLOCKS :: u32 where "NEWFS_MAX_BLOCKS \<equiv> 7 + 128 + 128 * 128"
abbreviation (input) NEWFS_BLOCK_BITS :: int where "NEWFS_BLOCK_BITS \<equiv> 4096"

definition NEWFS_MAGIC :: u32 where "NEWFS_MAGIC = 0xFEEDBEEF"

definition NEWFS_MAX_FILES :: nat where "NEWFS_MAX_FILES = (7 + 128 + 128 * 128) * 512 div 20"

type_synonym 'd newfs = "'d flatfs"

definition newfs_directory_block :: "'d newfs \<Rightarrow> u32" where
  "newfs_directory_block s =
     1 + f_totalblocks s div 4096 + (if f_totalblocks s mod 4096 = 0 then 0 else 1)"

definition newfs_disk_action ::
    "'d gbd \<Rightarrow> u32 \<Rightarrow> flatfs_buf \<Rightarrow> int \<Rightarrow> 'd newfs \<Rightarrow> (int \<times> 'd newfs) option" where
  "newfs_disk_action G block buf rw s =
     (if rw = 0 then do {
        (r, m, d) \<leftarrow> read_block G block (fbuf buf s) (f_disk s);
        Some (r, set_fbuf buf m (s\<lparr>f_disk := d\<rparr>))
      }
      else if rw = 1 then do {
        (r, d) \<leftarrow> write_block G block (fbuf buf s) (f_disk s);
        Some (r, s\<lparr>f_disk := d\<rparr>)
      }
      else Some (0, s))"

section \<open>The allocation bitmap\<close>

text \<open>
  The three functions work on \<open>block_buffer\<close>, a local array that has no content before the
  disk has filled it: when the read fails, the model stops.  The result of the write is not
  looked at.
\<close>

definition blockbitmap_block :: "int \<Rightarrow> u32" where
  "blockbitmap_block pos = word_of_int
     (cdiv pos NEWFS_BLOCK_BITS + (if cmod pos NEWFS_BLOCK_BITS = 0 then 0 else 1) + 1)"

definition newfs_load_bitmap :: "'d gbd \<Rightarrow> u32 \<Rightarrow> 'd newfs \<Rightarrow> (mem \<times> 'd newfs) option" where
  "newfs_load_bitmap G block s = do {
     (r, m, d) \<leftarrow> read_block G block (replicate BLOCK 0) (f_disk s);
     guard (r \<noteq> 0);
     Some (m, s\<lparr>f_disk := d\<rparr>)
   }"

definition newfs_store_bitmap :: "'d gbd \<Rightarrow> u32 \<Rightarrow> mem \<Rightarrow> 'd newfs \<Rightarrow> 'd newfs option" where
  "newfs_store_bitmap G block m s = do {
     (_, d) \<leftarrow> write_block G block m (f_disk s);
     Some (s\<lparr>f_disk := d\<rparr>)
   }"

definition blockbitmap_get :: "'d gbd \<Rightarrow> int \<Rightarrow> int \<Rightarrow> 'd newfs \<Rightarrow> (int \<times> 'd newfs) option" where
  "blockbitmap_get G pos l s = do {
     guard (pos \<ge> 0);
     guard (pos < l);
     (m, s) \<leftarrow> newfs_load_bitmap G (blockbitmap_block pos) s;
     b \<leftarrow> bitmap_get m (cmod pos NEWFS_BLOCK_BITS);
     Some (b, s)
   }"

definition blockbitmap_set :: "'d gbd \<Rightarrow> int \<Rightarrow> int \<Rightarrow> int \<Rightarrow> 'd newfs \<Rightarrow> (int \<times> 'd newfs) option" where
  "blockbitmap_set G pos l value s = do {
     guard (pos \<ge> 0);
     guard (pos < l);
     (m, s) \<leftarrow> newfs_load_bitmap G (blockbitmap_block pos) s;
     m \<leftarrow> bitmap_set m (cmod pos NEWFS_BLOCK_BITS) value;
     s \<leftarrow> newfs_store_bitmap G (blockbitmap_block pos) m s;
     Some (1, s)
   }"

lemma bitmap_findnset_nonneg: "bitmap_findnset m l = Some x \<Longrightarrow> 0 \<le> l"
  by (auto simp: bitmap_findnset_def guard_def split: if_splits)

text \<open>The loop never advances \<open>block\<close>; \<open>l\<close> decreases until the search succeeds or panics.\<close>

function newfs_findnset_loop :: "'d gbd \<Rightarrow> int \<Rightarrow> int \<Rightarrow> int \<Rightarrow> 'd newfs \<Rightarrow> (int \<times> 'd newfs) option" where
  "newfs_findnset_loop G block max_block l s =
     (if block < max_block then do {
        (m, s) \<leftarrow> newfs_load_bitmap G (word_of_int block) s;
        (result, m) \<leftarrow> bitmap_findnset m (if l < NEWFS_BLOCK_BITS then l else NEWFS_BLOCK_BITS);
        if result \<noteq> - 1 then do {
          s \<leftarrow> newfs_store_bitmap G (word_of_int block) m s;
          Some (block * NEWFS_BLOCK_BITS + result, s)
        }
        else newfs_findnset_loop G block max_block (l - NEWFS_BLOCK_BITS) s
      }
      else Some (- 1, s))"
  by pat_completeness auto
termination
  by (relation "measure (\<lambda>(G, block, max_block, l, s). nat (l + 1))")
    (auto dest!: bitmap_findnset_nonneg split: if_splits)

declare newfs_findnset_loop.simps [simp del]

definition blockbitmap_findnset :: "'d gbd \<Rightarrow> int \<Rightarrow> 'd newfs \<Rightarrow> (int \<times> 'd newfs) option" where
  "blockbitmap_findnset G l s = do {
     guard (l \<ge> 0);
     n \<leftarrow> ck (l + NEWFS_BLOCK_BITS - 1);
     newfs_findnset_loop G 0 (cdiv n NEWFS_BLOCK_BITS) l s
   }"

section \<open>Auxiliary functions\<close>

definition newfs_bm_alloc :: "'d gbd \<Rightarrow> flatfs_buf \<Rightarrow> nat \<Rightarrow> 'd newfs \<Rightarrow> (int \<times> 'd newfs) option" where
  "newfs_bm_alloc G buf p s = do {
     (b, s) \<leftarrow> blockbitmap_findnset G (sint (f_totalblocks s)) s;
     s \<leftarrow> fstore buf p (word_of_int b) s;
     w \<leftarrow> fload buf p s;
     Some (sint w, s)
   }"

fun newfs_fill ::
    "'d gbd \<Rightarrow> flatfs_buf \<Rightarrow> nat \<Rightarrow> nat list \<Rightarrow> 'd newfs \<Rightarrow> (bool \<times> 'd newfs) option" where
  "newfs_fill G buf base [] s = Some (True, s)"
| "newfs_fill G buf base (i # is) s = do {
     (b, s) \<leftarrow> newfs_bm_alloc G buf (base + 4 * i) s;
     if b = - 1 then Some (False, s)
     else do {
       w \<leftarrow> fload buf (base + 4 * i) s;
       (r, s) \<leftarrow> newfs_disk_action G w F_Zero 1 s;
       if r = 0 then Some (False, s) else newfs_fill G buf base is s
     }
   }"

definition newfs_alloc_indir ::
    "'d gbd \<Rightarrow> int \<Rightarrow> nat \<Rightarrow> nat \<Rightarrow> 'd newfs \<Rightarrow> (int \<times> 'd newfs) option" where
  "newfs_alloc_indir G todbl numblocks offset s = (case flatfs_ind todbl of (ib, ip) \<Rightarrow> do {
     w \<leftarrow> fload ib ip s;
     (b, s) \<leftarrow> (if w = 0 then newfs_bm_alloc G ib ip s else Some (0, s));
     if b = - 1 then Some (VFS_ERROR, s)
     else do {
       w \<leftarrow> fload ib ip s;
       (r, s) \<leftarrow> newfs_disk_action G w F_Si 0 s;
       if r = 0 then Some (VFS_ERROR, s)
       else do {
         (ok, s) \<leftarrow> newfs_fill G F_Si 0 [offset..<offset + numblocks] s;
         if \<not> ok then Some (VFS_ERROR, s)
         else do {
           s \<leftarrow> for_each [offset + numblocks..<NEWFS_SINDIR] (\<lambda>i. fstore F_Si (4 * i) 0) s;
           (r, s) \<leftarrow> newfs_disk_action G w F_Si 1 s;
           Some (if r = 0 then VFS_ERROR else VFS_OK, s)
         }
       }
     }
   })"

fun newfs_alloc_dbl ::
    "'d gbd \<Rightarrow> nat list \<Rightarrow> nat \<Rightarrow> nat \<Rightarrow> 'd newfs \<Rightarrow> (int \<times> 'd newfs) option" where
  "newfs_alloc_dbl G [] numblocks offset s = (if numblocks = 0 then Some (VFS_OK, s) else None)"
| "newfs_alloc_dbl G (i # is) numblocks offset s =
     (if numblocks = 0 then Some (VFS_OK, s)
      else let towrite = min numblocks (NEWFS_SINDIR - offset) in do {
        (r, s) \<leftarrow> newfs_alloc_indir G (int i) towrite offset s;
        if r = VFS_ERROR then Some (VFS_ERROR, s)
        else newfs_alloc_dbl G is (numblocks - towrite) 0 s
      })"

definition newfs_store_bat :: "'d gbd \<Rightarrow> 'd newfs \<Rightarrow> (int \<times> 'd newfs) option" where
  "newfs_store_bat G s = do {
     (r, s) \<leftarrow> newfs_disk_action G 1 F_Bat 1 s;
     Some (if r = 0 then VFS_ERROR else VFS_OK, s)
   }"

definition newfs_alloc_direct ::
    "'d gbd \<Rightarrow> nat \<Rightarrow> nat \<Rightarrow> 'd newfs \<Rightarrow> (bool \<times> 'd newfs) option" where
  "newfs_alloc_direct G tmpblocks offset s = do {
     (ok, s) \<leftarrow> newfs_fill G F_Inode 4 [offset..<offset + tmpblocks] s;
     if \<not> ok then Some (False, s)
     else do {
       s \<leftarrow> for_each [tmpblocks + offset..<NEWFS_DIRECT] (\<lambda>i. fstore F_Inode (4 + 4 * i) 0) s;
       Some (True, s)
     }
   }"

definition newfs_alloc_double :: "'d gbd \<Rightarrow> nat \<Rightarrow> nat \<Rightarrow> 'd newfs \<Rightarrow> (int \<times> 'd newfs) option" where
  "newfs_alloc_double G numblocks offset s = do {
     w \<leftarrow> fload F_Inode 36 s;
     (r, s) \<leftarrow> newfs_disk_action G w F_Di 0 s;
     if r = 0 then Some (VFS_ERROR, s)
     else let offset = offset - (NEWFS_DIRECT + NEWFS_SINDIR);
              start = offset div NEWFS_SINDIR; offset = offset mod NEWFS_SINDIR in do {
       (r, s) \<leftarrow> newfs_alloc_dbl G [start..<NEWFS_SINDIR] numblocks offset s;
       if r = VFS_ERROR then Some (VFS_ERROR, s)
       else do {
         w \<leftarrow> fload F_Inode 36 s;
         (r, s) \<leftarrow> newfs_disk_action G w F_Di 1 s;
         Some (if r = 0 then VFS_ERROR else VFS_OK, s)
       }
     }
   }"

definition newfs_alloc_blocks :: "'d gbd \<Rightarrow> nat \<Rightarrow> nat \<Rightarrow> 'd newfs \<Rightarrow> (int \<times> 'd newfs) option" where
  "newfs_alloc_blocks G numblocks offset s = do {
     (ok, numblocks, offset, s) \<leftarrow>
       (if offset < NEWFS_DIRECT then
          let tmpblocks = min (NEWFS_DIRECT - offset) numblocks in do {
            (ok, s) \<leftarrow> newfs_alloc_direct G tmpblocks offset s;
            Some (ok, numblocks - tmpblocks, NEWFS_DIRECT, s)
          }
        else Some (True, numblocks, offset, s));
     if \<not> ok then Some (VFS_ERROR, s)
     else do {
       (r, numblocks, offset, s) \<leftarrow>
         (if 0 < numblocks \<and> offset < NEWFS_DIRECT + NEWFS_SINDIR then
            let tmpblocks = min numblocks (NEWFS_SINDIR + NEWFS_DIRECT - offset) in do {
              (r, s) \<leftarrow> newfs_alloc_indir G (- 1) tmpblocks (offset - NEWFS_DIRECT) s;
              Some (r, numblocks - tmpblocks, NEWFS_DIRECT + NEWFS_SINDIR, s)
            }
          else Some (VFS_OK, numblocks, offset, s));
       if r = VFS_ERROR then Some (VFS_ERROR, s)
       else do {
         (r, s) \<leftarrow> (if 0 < numblocks then newfs_alloc_double G numblocks offset s else Some (VFS_OK, s));
         if r = VFS_ERROR then Some (VFS_ERROR, s) else newfs_store_bat G s
       }
     }
   }"

text \<open>Clearing in the bitmap the blocks of the table at \<open>base\<close> of a buffer.\<close>

fun newfs_clear :: "'d gbd \<Rightarrow> flatfs_buf \<Rightarrow> nat \<Rightarrow> nat list \<Rightarrow> 'd newfs \<Rightarrow> 'd newfs option" where
  "newfs_clear G buf base [] s = Some s"
| "newfs_clear G buf base (i # is) s = do {
     b \<leftarrow> fload buf (base + 4 * i) s;
     s \<leftarrow> (if b > 0 then do { (_, s) \<leftarrow> blockbitmap_set G (sint b) (sint (f_totalblocks s)) 0 s; Some s }
          else Some s);
     newfs_clear G buf base is s
   }"

definition newfs_remove_indir :: "'d gbd \<Rightarrow> int \<Rightarrow> 'd newfs \<Rightarrow> (int \<times> 'd newfs) option" where
  "newfs_remove_indir G todbl s = (case flatfs_ind todbl of (ib, ip) \<Rightarrow> do {
     w \<leftarrow> fload ib ip s;
     (r, s) \<leftarrow> newfs_disk_action G w F_Si 0 s;
     if r = 0 then Some (VFS_ERROR, s)
     else do {
       s \<leftarrow> newfs_clear G F_Si 0 [0..<NEWFS_SINDIR] s;
       Some (VFS_OK, s)
     }
   })"

definition newfs_getblock :: "'d gbd \<Rightarrow> u32 \<Rightarrow> int \<Rightarrow> 'd newfs \<Rightarrow> (u32 \<times> 'd newfs) option" where
  "newfs_getblock G block indirbuf s =
     (if block < 7 then do { w \<leftarrow> fload F_Inode (4 + 4 * unat block) s; Some (w, s) }
      else let block = block - 7 in
        if block < 128 then do {
          (r, s) \<leftarrow> (if indirbuf = 0
            then do { w \<leftarrow> fload F_Inode 32 s; newfs_disk_action G w F_Si 0 s } else Some (1, s));
          if r = 0 then Some (word_of_int VFS_ERROR, s)
          else do { w \<leftarrow> fload F_Si (4 * unat block) s; Some (w, s) }
        }
        else let block = block - 128; indir = block div 128; block = block mod 128 in do {
          (r, s) \<leftarrow> (if indirbuf = 0
            then do { w \<leftarrow> fload F_Di (4 * unat indir) s; newfs_disk_action G w F_Si 0 s } else Some (1, s));
          if r = 0 then Some (word_of_int VFS_ERROR, s)
          else do { w \<leftarrow> fload F_Si (4 * unat block) s; Some (w, s) }
        })"

section \<open>Mounting\<close>

definition newfs_init :: "'d gbd \<Rightarrow> kres \<Rightarrow> 'd \<Rightarrow> ('d newfs option \<times> kres \<times> 'd) option" where
  "newfs_init G k d =
     (if block_size G d \<noteq> 512 then Some (None, k, d)
      else if kr_sems k = 0 then Some (None, k, d)
      else let k = k\<lparr>kr_sems := kr_sems k - 1\<rparr> in
        if kr_pages k = 0 then Some (None, k\<lparr>kr_sems := kr_sems k + 1\<rparr>, d)
        else let k = k\<lparr>kr_pages := kr_pages k - 1\<rparr> in do {
          (r, header, d) \<leftarrow> read_block G 0 (take BLOCK (kr_page k)) d;
          if r = 0 then Some (None, k\<lparr>kr_sems := kr_sems k + 1, kr_pages := kr_pages k + 1\<rparr>, d)
          else do {
            magic \<leftarrow> rd32 header 0;
            if magic \<noteq> NEWFS_MAGIC
            then Some (None, k\<lparr>kr_sems := kr_sems k + 1, kr_pages := kr_pages k + 1\<rparr>, d)
            else let page = header @ drop BLOCK (kr_page k) in do {
              name \<leftarrow> stringcopy (replicate 16 0) (drop 4 page) 16;
              totalblocks \<leftarrow> rd32 header 20;
              volume \<leftarrow> stringcopy (take 16 (drop 4 page)) name VFS_NAME_LENGTH;
              let s = \<lparr>f_totalblocks = totalblocks, f_disk = d, f_lock = 1,
                f_inode = take BLOCK (drop 100 page), f_bat = take BLOCK (drop (100 + BLOCK) page),
                f_md = take BLOCK (drop (100 + 2 * BLOCK) page), f_si = take BLOCK (drop (100 + 3 * BLOCK) page),
                f_di = take BLOCK (drop (100 + 4 * BLOCK) page), f_volume = volume\<rparr> in do {
                (_, s) \<leftarrow> newfs_disk_action G (newfs_directory_block s) F_Inode 0 s;
                Some (Some s, k, f_disk s)
              }
            }
          }
        })"

definition newfs_unmount :: "'d newfs \<Rightarrow> kres \<Rightarrow> (int \<times> kres \<times> 'd) option" where
  "newfs_unmount s k = do {
     s \<leftarrow> flatfs_P s;
     Some (VFS_OK, k\<lparr>kr_sems := kr_sems k + 1, kr_pages := kr_pages k + 1\<rparr>, f_disk s)
   }"

section \<open>Opening, creating and removing\<close>

definition newfs_open :: "'d gbd \<Rightarrow> mem \<Rightarrow> 'd newfs \<Rightarrow> (int \<times> 'd newfs) option" where
  "newfs_open G filename s = do {
     s \<leftarrow> flatfs_P s;
     (r, s) \<leftarrow> newfs_disk_action G (newfs_directory_block s) F_Md 0 s;
     if r = 0 then Some (VFS_ERROR, flatfs_V s)
     else do {
       f \<leftarrow> dir_find (f_md s) filename [0..<NEWFS_MAX_FILES];
       case f of
         Some i \<Rightarrow> do { inode \<leftarrow> fload F_Md (20 * i) s; Some (sint inode, flatfs_V s) }
       | None \<Rightarrow> Some (VFS_NOT_FOUND, flatfs_V s)
     }
   }"

definition newfs_close :: "int \<Rightarrow> 'd newfs \<Rightarrow> (int \<times> 'd newfs) option" where
  "newfs_close fileid s = Some (VFS_OK, s)"

definition newfs_create_inode ::
    "'d gbd \<Rightarrow> nat \<Rightarrow> int \<Rightarrow> u32 \<Rightarrow> 'd newfs \<Rightarrow> (int \<times> 'd newfs) option" where
  "newfs_create_inode G index sz numblocks s = do {
     (b, s) \<leftarrow> newfs_bm_alloc G F_Md (20 * index) s;
     if b = - 1 then Some (VFS_ERROR, flatfs_V s)
     else do {
       s \<leftarrow> fstore F_Inode 0 (word_of_int sz) s;
       s \<leftarrow> fstore F_Inode 32 0 s;
       s \<leftarrow> fstore F_Inode 36 0 s;
       (ok, s) \<leftarrow> (if numblocks > 7 + 128 then do {
           (b, s) \<leftarrow> newfs_bm_alloc G F_Inode 36 s;
           if b = - 1 then Some (False, s)
           else do {
             w \<leftarrow> fload F_Inode 36 s;
             (r, s) \<leftarrow> newfs_disk_action G w F_Zero 1 s;
             Some (r \<noteq> 0, s)
           }
         } else Some (True, s));
       if \<not> ok then Some (VFS_ERROR, flatfs_V s)
       else do {
         (r, s) \<leftarrow> newfs_alloc_blocks G (unat numblocks) 0 s;
         if r = VFS_ERROR then Some (VFS_ERROR, flatfs_V s)
         else do {
           (r, s) \<leftarrow> newfs_disk_action G (newfs_directory_block s) F_Md 1 s;
           if r = 0 then Some (VFS_ERROR, flatfs_V s)
           else do {
             w \<leftarrow> fload F_Md (20 * index) s;
             (r, s) \<leftarrow> newfs_disk_action G w F_Inode 1 s;
             Some (if r = 0 then VFS_ERROR else VFS_OK, flatfs_V s)
           }
         }
       }
     }
   }"

definition newfs_create :: "'d gbd \<Rightarrow> mem \<Rightarrow> int \<Rightarrow> 'd newfs \<Rightarrow> (int \<times> 'd newfs) option" where
  "newfs_create G filename sz s = do {
     n \<leftarrow> ck (sz + 512);
     let numblocks = (word_of_int (cdiv (n - 1) 512) :: u32) in do {
       s \<leftarrow> flatfs_P s;
       if numblocks > NEWFS_MAX_BLOCKS then Some (VFS_ERROR, flatfs_V s)
       else do {
         (r, s) \<leftarrow> newfs_disk_action G (newfs_directory_block s) F_Md 0 s;
         if r = 0 then Some (VFS_ERROR, flatfs_V s)
         else do {
           slot \<leftarrow> dir_slot (f_md s) filename None [0..<NEWFS_MAX_FILES];
           case slot of
             None \<Rightarrow> Some (VFS_ERROR, flatfs_V s)
           | Some None \<Rightarrow> Some (VFS_ERROR, flatfs_V s)
           | Some (Some index) \<Rightarrow> do {
               md \<leftarrow> dir_set_name (f_md s) index filename;
               (r, s) \<leftarrow> newfs_disk_action G 1 F_Bat 0 (s\<lparr>f_md := md\<rparr>);
               if r = 0 then Some (VFS_ERROR, flatfs_V s)
               else newfs_create_inode G index sz numblocks s
             }
         }
       }
     }
   }"

fun newfs_remove_dbl :: "'d gbd \<Rightarrow> nat list \<Rightarrow> u32 \<Rightarrow> 'd newfs \<Rightarrow> (int \<times> 'd newfs) option" where
  "newfs_remove_dbl G [] tmpblocks s = (if tmpblocks = 0 then Some (VFS_OK, s) else None)"
| "newfs_remove_dbl G (i # is) tmpblocks s =
     (if tmpblocks = 0 then Some (VFS_OK, s)
      else do {
        (r, s) \<leftarrow> newfs_remove_indir G (int i) s;
        if r = VFS_ERROR then Some (VFS_ERROR, s) else newfs_remove_dbl G is (tmpblocks - 128) s
      })"

definition newfs_remove_blocks :: "'d gbd \<Rightarrow> nat \<Rightarrow> 'd newfs \<Rightarrow> (int \<times> 'd newfs) option" where
  "newfs_remove_blocks G index s = do {
     filesize \<leftarrow> fload F_Inode 0 s;
     dbl \<leftarrow> fload F_Inode 36 s;
     let numblocks = (filesize + 512 - 1) div 512 in do {
       (r, s) \<leftarrow> (if numblocks > 7 + 128 \<and> dbl \<noteq> 0 then do {
           (r, s) \<leftarrow> newfs_disk_action G dbl F_Di 0 s;
           if r = 0 then Some (VFS_ERROR, s)
           else newfs_remove_dbl G [0..<NEWFS_SINDIR] (numblocks - 7 - 128) s
         } else Some (VFS_OK, s));
       if r = VFS_ERROR then Some (VFS_ERROR, flatfs_V s)
       else do {
         indir \<leftarrow> fload F_Inode 32 s;
         (r, s) \<leftarrow> (if indir > 0 then newfs_remove_indir G (- 1) s else Some (VFS_OK, s));
         if r = VFS_ERROR then Some (VFS_ERROR, flatfs_V s)
         else do {
           inode \<leftarrow> fload F_Md (20 * index) s;
           (_, s) \<leftarrow> blockbitmap_set G (sint inode) (sint (f_totalblocks s)) 0 s;
           s \<leftarrow> newfs_clear G F_Inode 4 [0..<NEWFS_DIRECT] s;
           s \<leftarrow> fstore F_Md (20 * index) 0 s;
           md \<leftarrow> wr8 (f_md s) (20 * index + 4) 0;
           (r, s) \<leftarrow> newfs_disk_action G 1 F_Bat 1 (s\<lparr>f_md := md\<rparr>);
           if r = 0 then Some (VFS_ERROR, flatfs_V s)
           else do {
             (r, s) \<leftarrow> newfs_disk_action G (newfs_directory_block s) F_Bat 1 s;
             if r = 0 then Some (VFS_ERROR, flatfs_V s)
             else do {
               (r, s) \<leftarrow> newfs_disk_action G (newfs_directory_block s) F_Md 1 s;
               if r = 0 then Some (VFS_ERROR, flatfs_V s) else Some (VFS_OK, flatfs_V s)
             }
           }
         }
       }
     }
   }"

definition newfs_remove :: "'d gbd \<Rightarrow> mem \<Rightarrow> 'd newfs \<Rightarrow> (int \<times> 'd newfs) option" where
  "newfs_remove G filename s = do {
     s \<leftarrow> flatfs_P s;
     (r, s) \<leftarrow> newfs_disk_action G (newfs_directory_block s) F_Md 0 s;
     if r = 0 then Some (VFS_ERROR, flatfs_V s)
     else do {
       f \<leftarrow> dir_find (f_md s) filename [0..<NEWFS_MAX_FILES];
       case f of None \<Rightarrow> Some (VFS_NOT_FOUND, flatfs_V s)
       | Some index \<Rightarrow> do {
           (r, s) \<leftarrow> newfs_disk_action G 1 F_Bat 0 s;
           if r = 0 then Some (VFS_ERROR, flatfs_V s)
           else do {
             w \<leftarrow> fload F_Md (20 * index) s;
             (r, s) \<leftarrow> newfs_disk_action G w F_Inode 0 s;
             if r = 0 then Some (VFS_ERROR, flatfs_V s)
             else newfs_remove_blocks G index s
           }
         }
     }
   }"

section \<open>Reading and writing\<close>

fun newfs_read_loop ::
    "'d gbd \<Rightarrow> int list \<Rightarrow> int \<Rightarrow> int \<Rightarrow> int \<Rightarrow> int \<Rightarrow> int \<Rightarrow> mem \<Rightarrow> 'd newfs \<Rightarrow>
      (int \<times> mem \<times> 'd newfs) option" where
  "newfs_read_loop G [] b1 b2 bufsize offset rd buffer s = Some (rd, buffer, flatfs_V s)"
| "newfs_read_loop G (b # bs) b1 b2 bufsize offset rd buffer s = do {
     (block, s) \<leftarrow> newfs_getblock G (word_of_int b) (flatfs_indirbuf (word_of_int b)) s;
     (r, s) \<leftarrow> newfs_disk_action G block F_Bat 0 s;
     if r = 0 then Some (VFS_ERROR, buffer, flatfs_V s)
     else if b = b1 then let rd = min (512 - cmod offset 512) bufsize in do {
       buffer \<leftarrow> blit (nat rd) buffer 0 (f_bat s) (nat (cmod offset 512));
       newfs_read_loop G bs b1 b2 bufsize offset rd buffer s
     }
     else if b = b2 then do {
       buffer \<leftarrow> blit (nat (bufsize - rd)) buffer (nat rd) (f_bat s) 0;
       newfs_read_loop G bs b1 b2 bufsize offset bufsize buffer s
     }
     else do {
       buffer \<leftarrow> blit 512 buffer (nat rd) (f_bat s) 0;
       newfs_read_loop G bs b1 b2 bufsize offset (rd + 512) buffer s
     }
   }"

definition newfs_read ::
    "'d gbd \<Rightarrow> int \<Rightarrow> mem \<Rightarrow> int \<Rightarrow> int \<Rightarrow> 'd newfs \<Rightarrow> (int \<times> mem \<times> 'd newfs) option" where
  "newfs_read G fileid buffer bufsize offset s = do {
     s \<leftarrow> flatfs_P s;
     if fileid < 2 \<or> fileid > sint (f_totalblocks s) then Some (VFS_ERROR, buffer, flatfs_V s)
     else do {
       (r, s) \<leftarrow> newfs_disk_action G (word_of_int fileid) F_Inode 0 s;
       if r = 0 then Some (VFS_ERROR, buffer, flatfs_V s)
       else do {
         filesize \<leftarrow> fload F_Inode 0 s;
         if offset < 0 \<or> offset > sint filesize then Some (VFS_INVALID_PARAMS, buffer, flatfs_V s)
         else let bufsize = min bufsize (sint filesize - offset) in
           if bufsize = 0 then Some (0, buffer, flatfs_V s)
           else let b1 = cdiv offset 512; b2 = cdiv (offset + bufsize - 1) 512 in do {
             dbl \<leftarrow> fload F_Inode 36 s;
             (r, s) \<leftarrow> (if dbl > 0 then newfs_disk_action G dbl F_Di 0 s else Some (1, s));
             if r = 0 then Some (VFS_ERROR, buffer, flatfs_V s)
             else do {
               (_, s) \<leftarrow> newfs_getblock G (word_of_int b1) 0 s;
               newfs_read_loop G [b1..b2] b1 b2 bufsize offset 0 buffer s
             }
           }
       }
     }
   }"

definition newfs_extend ::
    "'d gbd \<Rightarrow> u32 \<Rightarrow> u32 \<Rightarrow> u32 \<Rightarrow> 'd newfs \<Rightarrow> (bool \<times> 'd newfs) option" where
  "newfs_extend G b2 last_block filesize s = do {
     (r, s) \<leftarrow> newfs_disk_action G 1 F_Bat 0 s;
     if r = 0 then Some (False, s)
     else do {
       (ok, s) \<leftarrow> (if filesize = 0 then do {
           (b, s) \<leftarrow> newfs_bm_alloc G F_Inode 4 s;
           if b = - 1 then Some (False, s)
           else do {
             w \<leftarrow> fload F_Inode 4 s;
             (r, s) \<leftarrow> newfs_disk_action G w F_Zero 1 s;
             Some (r \<noteq> 0, s)
           }
         } else Some (True, s));
       if \<not> ok then Some (False, s)
       else do {
         (ok, s) \<leftarrow> (if b2 \<ge> 7 + 128 \<and> last_block < 7 + 128 then do {
             (b, s) \<leftarrow> newfs_bm_alloc G F_Inode 36 s;
             if b = - 1 then Some (False, s)
             else do {
               w \<leftarrow> fload F_Inode 36 s;
               (r, s) \<leftarrow> newfs_disk_action G w F_Zero 1 s;
               Some (r \<noteq> 0, s)
             }
           } else Some (True, s));
         if \<not> ok then Some (False, s)
         else if b2 > last_block then do {
           (_, s) \<leftarrow> newfs_alloc_blocks G (unat (b2 - last_block)) (unat (last_block + 1)) s;
           Some (True, s)
         }
         else do {
           (r, s) \<leftarrow> newfs_disk_action G 1 F_Bat 1 s;
           Some (r \<noteq> 0, s)
         }
       }
     }
   }"

fun newfs_write_loop ::
    "'d gbd \<Rightarrow> nat list \<Rightarrow> nat \<Rightarrow> nat \<Rightarrow> int \<Rightarrow> int \<Rightarrow> int \<Rightarrow> mem \<Rightarrow> 'd newfs \<Rightarrow>
      (int option \<times> 'd newfs) option" where
  "newfs_write_loop G [] b1 b2 datasize offset written buffer s = Some (Some written, s)"
| "newfs_write_loop G (b # bs) b1 b2 datasize offset written buffer s = do {
     (block, s) \<leftarrow> newfs_getblock G (of_nat b) (flatfs_indirbuf (of_nat b)) s;
     let (n, p, load) =
       (if b = b1 then (min (512 - cmod offset 512) datasize, cmod offset 512, True)
        else if b = b2 then (datasize - written, 0, True) else (512, 0, False)) in do {
       (r, s) \<leftarrow> (if load then newfs_disk_action G block F_Bat 0 s else Some (1, s));
       if r = 0 then Some (None, s)
       else do {
         bat \<leftarrow> blit (nat n) (f_bat s) (nat p) buffer (nat written);
         (r, s) \<leftarrow> newfs_disk_action G block F_Bat 1 (s\<lparr>f_bat := bat\<rparr>);
         if r = 0 then Some (None, s)
         else newfs_write_loop G bs b1 b2 datasize offset (written + n) buffer s
       }
     }
   }"

definition newfs_write_data ::
    "'d gbd \<Rightarrow> int \<Rightarrow> mem \<Rightarrow> int \<Rightarrow> int \<Rightarrow> u32 \<Rightarrow> u32 \<Rightarrow> 'd newfs \<Rightarrow> (int \<times> 'd newfs) option" where
  "newfs_write_data G fileid buffer datasize offset b1 b2 s = do {
     (_, s) \<leftarrow> newfs_getblock G b1 0 s;
     (w, s) \<leftarrow> newfs_write_loop G [unat b1..<unat b2 + 1] (unat b1) (unat b2) datasize offset 0 buffer s;
     case w of None \<Rightarrow> Some (VFS_ERROR, flatfs_V s)
     | Some written \<Rightarrow> do {
         filesize \<leftarrow> fload F_Inode 0 s;
         let end = (word_of_int offset + word_of_int datasize :: u32) in
           if end > filesize then do {
             s \<leftarrow> fstore F_Inode 0 end s;
             (r, s) \<leftarrow> newfs_disk_action G (word_of_int fileid) F_Inode 1 s;
             Some (if r = 0 then VFS_ERROR else written, flatfs_V s)
           }
           else Some (written, flatfs_V s)
       }
   }"

definition newfs_write ::
    "'d gbd \<Rightarrow> int \<Rightarrow> mem \<Rightarrow> int \<Rightarrow> int \<Rightarrow> 'd newfs \<Rightarrow> (int \<times> 'd newfs) option" where
  "newfs_write G fileid buffer datasize offset s = do {
     s \<leftarrow> flatfs_P s;
     if fileid < 2 \<or> fileid > sint (f_totalblocks s) \<or> offset < 0 then Some (VFS_INVALID_PARAMS, flatfs_V s)
     else if datasize = 0 then Some (0, flatfs_V s)
     else do {
       (r, s) \<leftarrow> newfs_disk_action G (word_of_int fileid) F_Inode 0 s;
       if r = 0 then Some (VFS_ERROR, flatfs_V s)
       else do {
         filesize \<leftarrow> fload F_Inode 0 s;
         if offset > sint filesize then Some (VFS_ERROR, flatfs_V s)
         else do {
           e \<leftarrow> ck (offset + datasize);
           let b1 = word_of_int (cdiv offset 512); b2 = word_of_int (cdiv (e - 1) 512);
               last_block = (if filesize = 0 then 0 else (filesize - 1) div 512) in do {
             dbl \<leftarrow> fload F_Inode 36 s;
             (r, s) \<leftarrow> (if dbl > 0 then newfs_disk_action G dbl F_Di 0 s else Some (1, s));
             if r = 0 then Some (VFS_ERROR, flatfs_V s)
             else do {
               (ok, s) \<leftarrow> (if b2 > last_block \<or> filesize = 0
                 then newfs_extend G b2 last_block filesize s else Some (True, s));
               if \<not> ok then Some (VFS_ERROR, flatfs_V s)
               else newfs_write_data G fileid buffer datasize offset b1 b2 s
             }
           }
         }
       }
     }
   }"

section \<open>Queries\<close>

text \<open>The loop of \<open>newfs_getfree\<close>: the position and the length are passed in the wrong order.\<close>

fun newfs_count :: "'d gbd \<Rightarrow> int \<Rightarrow> nat list \<Rightarrow> 'd newfs \<Rightarrow> (int \<times> 'd newfs) option" where
  "newfs_count G allocated [] s = Some (allocated, s)"
| "newfs_count G allocated (i # is) s = do {
     (b, s) \<leftarrow> blockbitmap_get G (sint (f_totalblocks s)) (int i) s;
     newfs_count G (allocated + b) is s
   }"

definition newfs_getfree :: "'d gbd \<Rightarrow> 'd newfs \<Rightarrow> (int \<times> 'd newfs) option" where
  "newfs_getfree G s = do {
     s \<leftarrow> flatfs_P s;
     (r, s) \<leftarrow> newfs_disk_action G 1 F_Bat 0 s;
     if r = 0 then Some (VFS_ERROR, flatfs_V s)
     else do {
       (allocated, s) \<leftarrow> newfs_count G 0 [0..<unat (f_totalblocks s)] s;
       Some (sint ((f_totalblocks s - word_of_int allocated) * 512), flatfs_V s)
     }
   }"

definition newfs_filecount :: "'d gbd \<Rightarrow> mem \<Rightarrow> 'd newfs \<Rightarrow> (int \<times> 'd newfs) option" where
  "newfs_filecount G dirname s = do {
     c \<leftarrow> stringcmp dirname [0];
     if c \<noteq> 0 then Some (- VFS_NOT_FOUND, s)
     else do {
       s \<leftarrow> flatfs_P s;
       (r, s) \<leftarrow> newfs_disk_action G (newfs_directory_block s) F_Md 0 s;
       if r = 0 then Some (VFS_ERROR, flatfs_V s)
       else do {
         count \<leftarrow> dir_count (f_md s) 0 [0..<NEWFS_MAX_FILES];
         Some (count, flatfs_V s)
       }
     }
   }"

definition newfs_file :: "'d gbd \<Rightarrow> mem \<Rightarrow> int \<Rightarrow> mem \<Rightarrow> 'd newfs \<Rightarrow> (int \<times> mem \<times> 'd newfs) option" where
  "newfs_file G dirname idx buffer s = do {
     c \<leftarrow> stringcmp dirname [0];
     if c \<noteq> 0 \<or> idx < 0 then Some (VFS_NOT_FOUND, buffer, s)
     else do {
       s \<leftarrow> flatfs_P s;
       (r, s) \<leftarrow> newfs_disk_action G (newfs_directory_block s) F_Md 0 s;
       if r = 0 then Some (VFS_ERROR, buffer, flatfs_V s)
       else do {
         f \<leftarrow> dir_nth (f_md s) idx 0 [0..<NEWFS_MAX_FILES];
         case f of
           Some i \<Rightarrow> do {
             buffer \<leftarrow> stringcopy buffer (dir_name (f_md s) i) 16;
             Some (VFS_ERROR, buffer, flatfs_V s)
           }
         | None \<Rightarrow> Some (VFS_NOT_FOUND, buffer, flatfs_V s)
       }
     }
   }"

definition newfs_mkdir :: "mem \<Rightarrow> 'd newfs \<Rightarrow> (int \<times> 'd newfs) option" where
  "newfs_mkdir dirname s = Some (VFS_NOT_SUPPORTED, s)"

definition newfs_rmdir :: "mem \<Rightarrow> 'd newfs \<Rightarrow> (int \<times> 'd newfs) option" where
  "newfs_rmdir dirname s = Some (VFS_NOT_SUPPORTED, s)"

section \<open>Splitting a path\<close>

text \<open>
  The scan of \<open>split_path\<close> goes on while the character is not a slash or not the end: it stops
  at no character, and runs off the end of every buffer.
\<close>

fun split_path_scan :: "mem \<Rightarrow> nat list \<Rightarrow> nat option" where
  "split_path_scan filepath [] = None"
| "split_path_scan filepath (p # ps) = do {
     c \<leftarrow> rd8 filepath p;
     if c \<noteq> 47 \<or> c \<noteq> 0 then split_path_scan filepath ps else Some p
   }"

definition split_path :: "mem \<Rightarrow> (nat option \<times> mem) option" where
  "split_path filepath = do {
     p \<leftarrow> split_path_scan filepath [0..<length filepath];
     c \<leftarrow> rd8 filepath p;
     if c = 0 then Some (None, filepath)
     else do { filepath \<leftarrow> wr8 filepath p 0; Some (Some p, filepath) }
   }"

end
