(* ===== verification/Newfs_Properties.thy ===== *)
theory Newfs_Properties
  imports Newfs
begin

text \<open>
  What NewFS shares with FlatFS, and what its unfinished allocation bitmap does instead of
  its contract.
\<close>

section \<open>The code shared with FlatFS\<close>

lemma newfs_disk_action_eq: "newfs_disk_action = flatfs_disk_action"
  by (intro ext) (simp add: newfs_disk_action_def flatfs_disk_action_def)

lemma newfs_getblock_eq: "newfs_getblock = flatfs_getblock"
  by (intro ext) (simp only: newfs_getblock_def flatfs_getblock_def newfs_disk_action_eq)

lemma newfs_read_loop_eq: "newfs_read_loop G bs b1 b2 n off rd buf s = flatfs_read_loop G bs b1 b2 n off rd buf s"
proof (induction bs arbitrary: rd buf s)
  case (Cons b bs)
  show ?case
    by (simp only: newfs_read_loop.simps flatfs_read_loop.simps Cons.IH newfs_getblock_eq newfs_disk_action_eq)
qed simp

section \<open>The lock\<close>

lemmas newfs_actions = wlp_action [folded newfs_disk_action_eq] wlp_getblock [folded newfs_getblock_eq]

lemma wlp_load_bitmap:
  "(\<And>m s'. f_lock s' = f_lock s \<Longrightarrow> Q (m, s')) \<Longrightarrow> wlp (newfs_load_bitmap G b s) Q"
  by (auto simp: newfs_load_bitmap_def wp_simps wlp_calls)

lemma wlp_store_bitmap:
  "(\<And>s'. f_lock s' = f_lock s \<Longrightarrow> Q s') \<Longrightarrow> wlp (newfs_store_bitmap G b m s) Q"
  by (auto simp: newfs_store_bitmap_def wp_simps wlp_calls)

lemma wlp_blockbitmap_get:
  "(\<And>r s'. f_lock s' = f_lock s \<Longrightarrow> Q (r, s')) \<Longrightarrow> wlp (blockbitmap_get G p l s) Q"
  by (auto simp: blockbitmap_get_def wp_simps wlp_iff [of "bitmap_get m q" for m q] intro!: wlp_load_bitmap)

lemma wlp_blockbitmap_set:
  "(\<And>r s'. f_lock s' = f_lock s \<Longrightarrow> Q (r, s')) \<Longrightarrow> wlp (blockbitmap_set G p l v s) Q"
  by (auto simp: blockbitmap_set_def wp_simps wlp_calls intro!: wlp_load_bitmap wlp_store_bitmap)

lemma findnset_loop_lock: "f_lock s = L \<Longrightarrow> wlp (newfs_findnset_loop G b m l s) (\<lambda>(r, s'). f_lock s' = L)"
proof (induction G b m l s rule: newfs_findnset_loop.induct)
  case (1 G b m l s)
  show ?case
  proof (subst newfs_findnset_loop.simps, cases "b < m")
    case True
    have "wlp (case r of (result, m') \<Rightarrow>
        if result \<noteq> - 1 then do {
          s \<leftarrow> newfs_store_bitmap G (word_of_int b) m' s';
          Some (b * NEWFS_BLOCK_BITS + result, s)
        }
        else newfs_findnset_loop G b m (l - NEWFS_BLOCK_BITS) s') (\<lambda>(r, s'). f_lock s' = L)"
      if "newfs_load_bitmap G (word_of_int b) s = Some (m0, s')" and s': "f_lock s' = f_lock s"
        and "bitmap_findnset m0 (if l < NEWFS_BLOCK_BITS then l else NEWFS_BLOCK_BITS) = Some r" for m0 s' r
      using "1.IH" [OF True that(1) refl that(3), of "fst r" "snd r"] "1.prems" s'
      by (auto simp: wp_simps split: prod.split intro!: wlp_store_bitmap)
    moreover have "wlp (newfs_load_bitmap G (word_of_int b) s) (\<lambda>(m0, s'). f_lock s' = f_lock s)"
      by (rule wlp_load_bitmap) simp
    ultimately show "wlp (if b < m then do {
        (m0, s) \<leftarrow> newfs_load_bitmap G (word_of_int b) s;
        (result, m') \<leftarrow> bitmap_findnset m0 (if l < NEWFS_BLOCK_BITS then l else NEWFS_BLOCK_BITS);
        if result \<noteq> - 1 then do {
          s \<leftarrow> newfs_store_bitmap G (word_of_int b) m' s;
          Some (b * NEWFS_BLOCK_BITS + result, s)
        }
        else newfs_findnset_loop G b m (l - NEWFS_BLOCK_BITS) s
      } else Some (- 1, s)) (\<lambda>(r, s'). f_lock s' = L)"
      using True by (auto simp: wlp_bind wlp_iff [of "newfs_load_bitmap G b s" for b s] wlp_iff [of "bitmap_findnset m l" for m l])
  qed (use "1.prems" in simp)
qed


lemma wlp_newfs_bm_alloc:
  "(\<And>r s'. f_lock s' = f_lock s \<Longrightarrow> Q (r, s')) \<Longrightarrow> wlp (newfs_bm_alloc G buf p s) Q"
  unfolding newfs_bm_alloc_def blockbitmap_findnset_def
  by (auto simp: wp_simps wlp_calls intro!: wlp_fload wlp_fstore wlp_mono [OF findnset_loop_lock])

lemmas newfs_small = wlp_fload wlp_fstore newfs_actions wlp_newfs_bm_alloc

lemma wlp_newfs_fill:
  assumes "\<And>r s'. f_lock s' = f_lock s \<Longrightarrow> Q (r, s')"
  shows "wlp (newfs_fill G buf base is s) Q"
proof -
  have "wlp (newfs_fill G buf base is s) (\<lambda>(r, s'). f_lock s' = L)" if "f_lock s = L" for L
    using that by (induction "is" arbitrary: s) (auto simp: wp_simps intro!: newfs_small)
  from wlp_mono [OF this] assms show ?thesis by fastforce
qed

lemma wlp_newfs_alloc_indir:
  "(\<And>r s'. f_lock s' = f_lock s \<Longrightarrow> Q (r, s')) \<Longrightarrow> wlp (newfs_alloc_indir G t n p s) Q"
  by (auto simp: newfs_alloc_indir_def wp_simps split: prod.split
      intro!: newfs_small wlp_newfs_fill wlp_for_each_fstore)

lemma wlp_newfs_alloc_dbl:
  assumes "\<And>r s'. f_lock s' = f_lock s \<Longrightarrow> Q (r, s')"
  shows "wlp (newfs_alloc_dbl G is n p s) Q"
proof -
  have "wlp (newfs_alloc_dbl G is n p s) (\<lambda>(r, s'). f_lock s' = L)" if "f_lock s = L" for L
    using that by (induction "is" arbitrary: s n p) (auto simp: wp_simps intro!: wlp_newfs_alloc_indir wlp_Let_any)
  from wlp_mono [OF this] assms show ?thesis by fastforce
qed

lemma wlp_newfs_alloc_blocks:
  "(\<And>r s'. f_lock s' = f_lock s \<Longrightarrow> Q (r, s')) \<Longrightarrow> wlp (newfs_alloc_blocks G n p s) Q"
  by (auto simp: newfs_alloc_blocks_def newfs_alloc_direct_def newfs_alloc_double_def
      newfs_store_bat_def wp_simps
      intro!: newfs_small wlp_newfs_fill wlp_for_each_fstore wlp_newfs_alloc_indir wlp_newfs_alloc_dbl wlp_Let_any)

lemma wlp_newfs_clear:
  assumes "\<And>s'. f_lock s' = f_lock s \<Longrightarrow> Q s'"
  shows "wlp (newfs_clear G buf base is s) Q"
proof -
  have "wlp (newfs_clear G buf base is s) (\<lambda>s'. f_lock s' = L)" if "f_lock s = L" for L
    using that by (induction "is" arbitrary: s) (auto simp: wp_simps intro!: wlp_fload wlp_blockbitmap_set)
  from wlp_mono [OF this] assms show ?thesis by fastforce
qed

lemma wlp_newfs_remove_indir:
  "(\<And>r s'. f_lock s' = f_lock s \<Longrightarrow> Q (r, s')) \<Longrightarrow> wlp (newfs_remove_indir G t s) Q"
  by (auto simp: newfs_remove_indir_def wp_simps wlp_calls split: prod.split intro!: newfs_small wlp_newfs_clear)

lemma wlp_newfs_remove_dbl:
  assumes "\<And>r s'. f_lock s' = f_lock s \<Longrightarrow> Q (r, s')"
  shows "wlp (newfs_remove_dbl G is n s) Q"
proof -
  have "wlp (newfs_remove_dbl G is n s) (\<lambda>(r, s'). f_lock s' = L)" if "f_lock s = L" for L
    using that by (induction "is" arbitrary: s n) (auto simp: wp_simps intro!: wlp_newfs_remove_indir)
  from wlp_mono [OF this] assms show ?thesis by fastforce
qed

lemma wlp_newfs_write_loop:
  assumes "\<And>r s'. f_lock s' = f_lock s \<Longrightarrow> Q (r, s')"
  shows "wlp (newfs_write_loop G bs b1 b2 n off wr buf s) Q"
proof -
  have "wlp (newfs_write_loop G bs b1 b2 n off wr buf s) (\<lambda>(r, s'). f_lock s' = L)" if "f_lock s = L" for L
    using that
    by (induction bs arbitrary: s wr)
      (auto simp: wp_simps wlp_calls intro!: newfs_small wlp_Let_any split: prod.split)
  from wlp_mono [OF this] assms show ?thesis by fastforce
qed

lemmas newfs_steps = newfs_small wlp_flatfs_P wlp_newfs_fill wlp_for_each_fstore wlp_newfs_alloc_indir
  wlp_newfs_alloc_blocks wlp_newfs_clear wlp_blockbitmap_set wlp_newfs_remove_indir wlp_newfs_remove_dbl
  wlp_newfs_write_loop wlp_Let_any

lemma newfs_open_lock: "wlp (newfs_open G f s) (\<lambda>(r, s'). f_lock s' = f_lock s)"
  by (auto simp: newfs_open_def wp_simps wlp_calls intro!: newfs_steps split: option.split)

lemma newfs_create_lock: "wlp (newfs_create G f n s) (\<lambda>(r, s'). f_lock s' = f_lock s)"
  by (auto simp: newfs_create_def newfs_create_inode_def wp_simps wlp_calls
      intro!: newfs_steps split: option.split)

lemma newfs_remove_lock: "wlp (newfs_remove G f s) (\<lambda>(r, s'). f_lock s' = f_lock s)"
  by (auto simp: newfs_remove_def newfs_remove_blocks_def wp_simps wlp_calls
      intro!: newfs_steps split: option.split)

lemma newfs_read_eq: "newfs_read = flatfs_read"
  by (intro ext) (simp only: newfs_read_def flatfs_read_def newfs_disk_action_eq newfs_getblock_eq newfs_read_loop_eq)

lemma wlp_newfs_extend:
  "(\<And>r s'. f_lock s' = f_lock s \<Longrightarrow> Q (r, s')) \<Longrightarrow> wlp (newfs_extend G b2 l fs s) Q"
  unfolding newfs_extend_def wlp_bind wlp_pair wlp_if
  by (auto simp: wlp_Some intro!: newfs_small wlp_newfs_alloc_blocks)

lemma wlp_newfs_write_data:
  "f_lock s + 1 = L \<Longrightarrow>
    wlp (newfs_write_data G fd buf n off b1 b2 s) (\<lambda>(r, s'). f_lock s' = L)"
  by (auto simp: newfs_write_data_def wp_simps intro!: newfs_steps split: option.split)

lemma newfs_write_lock: "wlp (newfs_write G fd buf n off s) (\<lambda>(r, s'). f_lock s' = f_lock s)"
  unfolding newfs_write_def
  by (auto simp: wp_simps wlp_calls intro!: newfs_small wlp_flatfs_P wlp_newfs_extend wlp_newfs_write_data wlp_Let_any)

lemma newfs_filecount_lock: "wlp (newfs_filecount G f s) (\<lambda>(r, s'). f_lock s' = f_lock s)"
  by (auto simp: newfs_filecount_def wp_simps wlp_calls intro!: newfs_steps)

lemma newfs_file_lock: "wlp (newfs_file G f i b s) (\<lambda>(r, buf, s'). f_lock s' = f_lock s)"
  by (auto simp: newfs_file_def wp_simps wlp_calls intro!: newfs_steps split: option.split)

text \<open>The lock of NewFS: every operation that returns, with whatever result and on whatever
  disk, leaves the value of the semaphore as it found it.\<close>

theorem newfs_lock_balanced:
  "wlp (newfs_open G f s) (\<lambda>(r, s'). f_lock s' = f_lock s) \<and>
   wlp (newfs_create G f n s) (\<lambda>(r, s'). f_lock s' = f_lock s) \<and>
   wlp (newfs_remove G f s) (\<lambda>(r, s'). f_lock s' = f_lock s) \<and>
   wlp (newfs_read G fd buf n off s) (\<lambda>(r, b, s'). f_lock s' = f_lock s) \<and>
   wlp (newfs_write G fd buf n off s) (\<lambda>(r, s'). f_lock s' = f_lock s) \<and>
   wlp (newfs_filecount G f s) (\<lambda>(r, s'). f_lock s' = f_lock s) \<and>
   wlp (newfs_file G f n buf s) (\<lambda>(r, b, s'). f_lock s' = f_lock s)"
  unfolding newfs_read_eq
  by (simp only: newfs_open_lock newfs_create_lock newfs_remove_lock flatfs_read_lock
      newfs_write_lock newfs_filecount_lock newfs_file_lock simp_thms)


section \<open>The unfinished parts\<close>

lemma sint_nonneg_uint: "0 \<le> sint (w :: u32) \<Longrightarrow> sint w = int (unat w)"
proof -
  assume nonneg: "0 \<le> sint w"
  have "sint w < 2 ^ 31"
    using sint_lt [of w] by simp
  then have "uint w = sint w"
    using nonneg by (simp only: uint_sint [of w]) (simp add: take_bit_int_eq_self)
  then show ?thesis
    by simp
qed

lemma newfs_count_panics:
  assumes "i < n" and "n \<le> unat (f_totalblocks s)"
  shows "newfs_count G a [i..<n] s = None"
proof -
  have "\<not> (0 \<le> sint (f_totalblocks s) \<and> sint (f_totalblocks s) < int i)"
  proof
    assume "0 \<le> sint (f_totalblocks s) \<and> sint (f_totalblocks s) < int i"
    moreover from this have "sint (f_totalblocks s) = int (unat (f_totalblocks s))"
      by (intro sint_nonneg_uint) simp
    ultimately show False
      using assms by linarith
  qed
  then have "blockbitmap_get G (sint (f_totalblocks s)) (int i) s = None"
    by (auto simp: blockbitmap_get_def guard_def)
  then show ?thesis
    using assms(1) by (simp add: upt_rec)
qed


text \<open>The free space of a NewFS volume is never reported: \<open>newfs_getfree\<close> passes the position
  and the length to \<open>blockbitmap_get\<close> in the wrong order, so on every volume with blocks the
  call either fails with \<open>VFS_ERROR\<close> or ends in the failed assertion.\<close>

theorem newfs_getfree_never:
  assumes "f_totalblocks s \<noteq> 0"
  shows "wlp (newfs_getfree G s) (\<lambda>(r, s'). r = VFS_ERROR)"
proof -
  have "newfs_count G 0 [0..<unat (f_totalblocks s)] s' = None" if "f_totalblocks s' = f_totalblocks s" for s'
    using that assms by (intro newfs_count_panics) (simp_all add: unat_gt_0)
  moreover have "f_totalblocks (set_fbuf b m s') = f_totalblocks s'" for b m s'
    by (cases b) simp_all
  ultimately show ?thesis
    using assms
    by (auto simp: newfs_getfree_def wp_simps flatfs_P_def newfs_disk_action_def wlp_calls sem_P_def)
qed

definition new_volume :: "ram disk newfs" where
  "new_volume = \<lparr>f_totalblocks = 2, f_disk = disk_init \<lparr>ram_sectors = [], ram_phase = Ram_Idle\<rparr> 1,
     f_lock = 1, f_inode = replicate 512 0, f_bat = replicate 512 0, f_md = replicate 512 0,
     f_si = replicate 512 0, f_di = replicate 512 0, f_volume = [0]\<rparr>"

theorem newfs_getfree_never_witness:
  "wlp (newfs_getfree (disk_gbd ram_hw) new_volume) (\<lambda>(r, s'). r = VFS_ERROR)"
  by (rule newfs_getfree_never) (simp add: new_volume_def)

text \<open>C38. \<open>split_path\<close> returns for no string: the condition of its loop, a disjunction where a
  conjunction is meant, holds for every character.\<close>

theorem split_path_never: "split_path filepath = None"
proof -
  have "split_path_scan filepath ps = None" for ps
    by (induction ps) (auto simp: bind_eq_None_conv)
  then show ?thesis
    by (simp add: split_path_def)
qed

end
