(* ===== verification/Device.thy ===== *)
theory Device
  imports Buenos_Prelude
begin

text \<open>
  The table of devices, \<open>drivers/device.c\<close>.  A descriptor of the hardware gives the type, the
  I/O area and the interrupt line of a device; the list of descriptors is the array at
  \<open>IO_DESCRIPTOR_AREA\<close>.  \<open>'v\<close> stands for what the driver keeps: the objects behind the
  pointers \<open>real_device\<close> and \<open>generic_device\<close>.
\<close>

abbreviation (input) MAX_DEVICES :: nat where "MAX_DEVICES \<equiv> 128"
abbreviation (input) TYPECODE_CPUMASK :: u32 where "TYPECODE_CPUMASK \<equiv> 0xffffff00"
abbreviation (input) TYPECODE_CPUSTATUS :: u32 where "TYPECODE_CPUSTATUS \<equiv> 0xC00"

record io_descriptor =
  io_type :: u32
  io_area_base :: u32
  io_area_len :: u32
  io_irq :: u32
  io_vendor_string :: mem
  io_resv :: "u32 list"

record 'v device =
  dev_real :: "'v option"
  dev_generic :: "'v option"
  dev_descriptor :: io_descriptor
  dev_io_address :: u32
  dev_type :: u32

fun find_driver_loop :: "(u32 \<times> 'f) list \<Rightarrow> u32 \<Rightarrow> 'f option" where
  "find_driver_loop [] typecode = None"
| "find_driver_loop ((t, f) # ds) typecode =
     (if t = 0 then None else if t = typecode then Some f else find_driver_loop ds typecode)"

definition find_driver :: "(u32 \<times> 'f) list \<Rightarrow> u32 \<Rightarrow> 'f option" where
  "find_driver drivers_available typecode = find_driver_loop drivers_available
     (if typecode AND TYPECODE_CPUMASK = TYPECODE_CPUSTATUS then TYPECODE_CPUSTATUS else typecode)"

fun device_init ::
    "(u32 \<times> (io_descriptor \<Rightarrow> 'v device option)) list \<Rightarrow> io_descriptor list \<Rightarrow>
      'v device list \<Rightarrow> 'v device list" where
  "device_init drivers [] table = table"
| "device_init drivers (d # ds) table =
     (if io_type d = 0 then device_init drivers ds table
      else case find_driver drivers (io_type d) of
        None \<Rightarrow> device_init drivers ds table
      | Some initfunc \<Rightarrow> (case initfunc d of
          None \<Rightarrow> device_init drivers ds table
        | Some v \<Rightarrow> (if length table + 1 \<ge> MAX_DEVICES then table @ [v]
            else device_init drivers ds (table @ [v]))))"

fun device_get :: "'v device list \<Rightarrow> u32 \<Rightarrow> nat \<Rightarrow> 'v device option" where
  "device_get [] typecode n = None"
| "device_get (d # ds) typecode n =
     (if dev_type d = typecode then if n = 0 then Some d else device_get ds typecode (n - 1)
      else device_get ds typecode n)"

section \<open>Properties\<close>

text \<open>\<open>device_get\<close> finds the device number \<open>n\<close> of a type, counted from 0 in the order of
  discovery, and nothing when there are not so many.\<close>

theorem device_get_nth:
  "device_get ds typecode n =
    (let xs = filter (\<lambda>d. dev_type d = typecode) ds in if n < length xs then Some (xs ! n) else None)"
  by (induction ds typecode n rule: device_get.induct) (auto simp: Let_def nth_Cons' split: if_splits)

text \<open>The devices a driver accepts, in the order of their descriptors.\<close>

definition accepted ::
    "(u32 \<times> (io_descriptor \<Rightarrow> 'v device option)) list \<Rightarrow> io_descriptor \<Rightarrow> 'v device option" where
  "accepted drivers d = (if io_type d = 0 then None
     else Option.bind (find_driver drivers (io_type d)) (\<lambda>initfunc. initfunc d))"

lemma device_init_take:
  "length table < MAX_DEVICES \<Longrightarrow> device_init drivers ds table =
    take MAX_DEVICES (table @ List.map_filter (accepted drivers) ds)"
proof (induction drivers ds table rule: device_init.induct)
  case (2 drivers d ds table)
  have "device_init drivers (d # ds) table = (case accepted drivers d of
      None \<Rightarrow> device_init drivers ds table
    | Some v \<Rightarrow> if length table + 1 \<ge> MAX_DEVICES then table @ [v] else device_init drivers ds (table @ [v]))"
    by (simp add: accepted_def split: option.splits)
  then show ?case
    using 2 by (auto simp: map_filter_simps accepted_def take_Cons' split: option.splits if_splits)
qed (simp add: map_filter_simps)


end
