(* ===== verification/Vfs.thy ===== *)
theory Vfs
  imports Fs_Common Device
begin

text \<open>
  The virtual file system, \<open>fs/vfs.c\<close> and \<open>fs/filesystems.c\<close>: the table of mounted file
  systems, the table of open files, and the count of operations in progress that a shutdown
  waits for.  \<open>fs_t\<close> is the struct of function pointers of \<open>fs/vfs.h\<close>, over the state \<open>'w\<close> of
  all drivers; a pointer to such a struct is its address, \<^term>\<open>None\<close> being \<open>NULL\<close>, and
  the memory \<open>F\<close> maps addresses to structs.  Names are the byte list from their pointer on.
\<close>

abbreviation (input) MAX_FILESYSTEMS :: nat where "MAX_FILESYSTEMS \<equiv> 8"
abbreviation (input) MAX_OPEN_FILES :: nat where "MAX_OPEN_FILES \<equiv> 512"
abbreviation (input) TYPECODE_DISK :: u32 where "TYPECODE_DISK \<equiv> 0x301"

record 'w fs_t =
  fs_volume_name :: mem
  fs_unmount :: "'w \<Rightarrow> (int \<times> 'w) option"
  fs_open :: "mem \<Rightarrow> 'w \<Rightarrow> (int \<times> 'w) option"
  fs_close :: "int \<Rightarrow> 'w \<Rightarrow> (int \<times> 'w) option"
  fs_read :: "int \<Rightarrow> mem \<Rightarrow> int \<Rightarrow> int \<Rightarrow> 'w \<Rightarrow> (int \<times> mem \<times> 'w) option"
  fs_write :: "int \<Rightarrow> mem \<Rightarrow> int \<Rightarrow> int \<Rightarrow> 'w \<Rightarrow> (int \<times> 'w) option"
  fs_create :: "mem \<Rightarrow> int \<Rightarrow> 'w \<Rightarrow> (int \<times> 'w) option"
  fs_remove :: "mem \<Rightarrow> 'w \<Rightarrow> (int \<times> 'w) option"
  fs_getfree :: "'w \<Rightarrow> (int \<times> 'w) option"
  fs_filecount :: "mem \<Rightarrow> 'w \<Rightarrow> (int \<times> 'w) option"
  fs_file :: "mem \<Rightarrow> int \<Rightarrow> mem \<Rightarrow> 'w \<Rightarrow> (int \<times> mem \<times> 'w) option"
  fs_mkdir :: "mem \<Rightarrow> 'w \<Rightarrow> (int \<times> 'w) option"
  fs_rmdir :: "mem \<Rightarrow> 'w \<Rightarrow> (int \<times> 'w) option"

type_synonym fs_ptr = nat

record vfs_entry =
  ve_filesystem :: "fs_ptr option"
  ve_mountpoint :: mem

record openfile_entry =
  of_filesystem :: "fs_ptr option"
  of_fileid :: int
  of_seek_position :: int

record 'w vfs =
  vfs_table_sem :: int
  filesystems :: "vfs_entry list"
  openfile_sem :: int
  files :: "openfile_entry list"
  vfs_op_sem :: int
  vfs_unmount_sem :: int
  vfs_ops :: int
  vfs_usable :: bool
  vfs_world :: 'w

section \<open>Locks and table rows\<close>

definition table_P :: "'w vfs \<Rightarrow> 'w vfs option" where
  "table_P s = do { v \<leftarrow> sem_P (vfs_table_sem s); Some (s\<lparr>vfs_table_sem := v\<rparr>) }"

definition table_V :: "'w vfs \<Rightarrow> 'w vfs" where
  "table_V s = s\<lparr>vfs_table_sem := sem_V (vfs_table_sem s)\<rparr>"

definition file_P :: "'w vfs \<Rightarrow> 'w vfs option" where
  "file_P s = do { v \<leftarrow> sem_P (openfile_sem s); Some (s\<lparr>openfile_sem := v\<rparr>) }"

definition file_V :: "'w vfs \<Rightarrow> 'w vfs" where
  "file_V s = s\<lparr>openfile_sem := sem_V (openfile_sem s)\<rparr>"

definition op_P :: "'w vfs \<Rightarrow> 'w vfs option" where
  "op_P s = do { v \<leftarrow> sem_P (vfs_op_sem s); Some (s\<lparr>vfs_op_sem := v\<rparr>) }"

definition op_V :: "'w vfs \<Rightarrow> 'w vfs" where
  "op_V s = s\<lparr>vfs_op_sem := sem_V (vfs_op_sem s)\<rparr>"

definition set_fs_row :: "nat \<Rightarrow> fs_ptr option \<Rightarrow> 'w vfs \<Rightarrow> 'w vfs" where
  "set_fs_row row fs s =
     s\<lparr>filesystems := (filesystems s)[row := (filesystems s ! row)\<lparr>ve_filesystem := fs\<rparr>]\<rparr>"

definition set_file_row :: "nat \<Rightarrow> openfile_entry \<Rightarrow> 'w vfs \<Rightarrow> 'w vfs" where
  "set_file_row row e s = s\<lparr>files := (files s)[row := e]\<rparr>"

text \<open>A call through a function pointer runs on the state of the drivers.\<close>

definition on_world :: "('w \<Rightarrow> (int \<times> 'w) option) \<Rightarrow> 'w vfs \<Rightarrow> (int \<times> 'w vfs) option" where
  "on_world f s = do { (r, w) \<leftarrow> f (vfs_world s); Some (r, s\<lparr>vfs_world := w\<rparr>) }"

definition on_world_buf ::
    "('w \<Rightarrow> (int \<times> mem \<times> 'w) option) \<Rightarrow> 'w vfs \<Rightarrow> (int \<times> mem \<times> 'w vfs) option" where
  "on_world_buf f s = do { (r, b, w) \<leftarrow> f (vfs_world s); Some (r, b, s\<lparr>vfs_world := w\<rparr>) }"

section \<open>Starting and stopping\<close>

text \<open>
  \<open>sems\<close> is the number of free semaphores; the tables have the content of static data.  Only
  the first two of the four semaphores are checked; without the others the kernel faults when
  it first uses them, and the model stops at once.
\<close>

definition vfs_init :: "nat \<Rightarrow> 'w vfs \<Rightarrow> 'w vfs option" where
  "vfs_init sems s = do {
     guard (sems \<ge> 4);
     Some (s\<lparr>vfs_table_sem := 1, openfile_sem := 1,
       filesystems := map (\<lambda>e. e\<lparr>ve_filesystem := None\<rparr>) (filesystems s),
       files := map (\<lambda>e. e\<lparr>of_filesystem := None\<rparr>) (files s),
       vfs_op_sem := 1, vfs_unmount_sem := 0, vfs_ops := 0, vfs_usable := True\<rparr>)
   }"

definition vfs_start_op :: "'w vfs \<Rightarrow> (int \<times> 'w vfs) option" where
  "vfs_start_op s = do {
     s \<leftarrow> op_P s;
     let (ret, s) = (if vfs_usable s then (VFS_OK, s\<lparr>vfs_ops := vfs_ops s + 1\<rparr>) else (VFS_UNUSABLE, s))
     in Some (ret, op_V s)
   }"

definition vfs_end_op :: "'w vfs \<Rightarrow> 'w vfs option" where
  "vfs_end_op s = do {
     s \<leftarrow> op_P s;
     let s = s\<lparr>vfs_ops := vfs_ops s - 1\<rparr> in do {
       guard (vfs_ops s \<ge> 0);
       Some (op_V (if \<not> vfs_usable s \<and> vfs_ops s = 0
         then s\<lparr>vfs_unmount_sem := sem_V (vfs_unmount_sem s)\<rparr> else s))
     }
   }"

fun vfs_unmount_rows :: "(fs_ptr \<Rightarrow> 'w fs_t) \<Rightarrow> nat list \<Rightarrow> 'w vfs \<Rightarrow> 'w vfs option" where
  "vfs_unmount_rows F [] s = Some s"
| "vfs_unmount_rows F (row # rows) s = (case ve_filesystem (filesystems s ! row) of
     None \<Rightarrow> vfs_unmount_rows F rows s
   | Some fs \<Rightarrow> do {
       (_, s) \<leftarrow> on_world (fs_unmount (F fs)) s;
       vfs_unmount_rows F rows (set_fs_row row None s)
     })"

text \<open>
  Shutting down, in the parts between which other threads run: \<open>vfs_deinit_begin\<close> stops new
  operations and says whether there are some to wait for, \<open>vfs_deinit_resume\<close> is the code behind
  the wait, \<open>vfs_deinit_finish\<close> unmounts with \<open>vfs_op_sem\<close> held.
\<close>

definition vfs_deinit_begin :: "'w vfs \<Rightarrow> (bool \<times> 'w vfs) option" where
  "vfs_deinit_begin s = do {
     s \<leftarrow> op_P s;
     let s = s\<lparr>vfs_usable := False\<rparr> in
       Some (if vfs_ops s > 0 then (True, op_V s) else (False, s))
   }"

definition vfs_deinit_resume :: "'w vfs \<Rightarrow> 'w vfs option" where
  "vfs_deinit_resume s = do {
     v \<leftarrow> sem_P (vfs_unmount_sem s);
     s \<leftarrow> op_P (s\<lparr>vfs_unmount_sem := v\<rparr>);
     guard (vfs_ops s = 0);
     Some s
   }"

definition vfs_deinit_finish :: "(fs_ptr \<Rightarrow> 'w fs_t) \<Rightarrow> 'w vfs \<Rightarrow> 'w vfs option" where
  "vfs_deinit_finish F s = do {
     s \<leftarrow> table_P s;
     s \<leftarrow> file_P s;
     s \<leftarrow> vfs_unmount_rows F [0..<MAX_FILESYSTEMS] s;
     Some (op_V (table_V (file_V s)))
   }"

definition vfs_deinit :: "(fs_ptr \<Rightarrow> 'w fs_t) \<Rightarrow> 'w vfs \<Rightarrow> 'w vfs option" where
  "vfs_deinit F s = do {
     (wait, s) \<leftarrow> vfs_deinit_begin s;
     s \<leftarrow> (if wait then vfs_deinit_resume s else Some s);
     vfs_deinit_finish F s
   }"

section \<open>Names\<close>

text \<open>
  The two loops of \<open>vfs_parse_pathname\<close>; the list holds the remaining values of \<open>i\<close>, and
  \<open>p\<close>, \<open>v\<close> the offsets of \<open>pathname\<close> and the target pointer.
\<close>

fun vfs_parse_volume :: "nat list \<Rightarrow> mem \<Rightarrow> nat \<Rightarrow> mem \<Rightarrow> nat \<Rightarrow> (int \<times> nat \<times> mem \<times> nat) option" where
  "vfs_parse_volume [] pathname p volume v = Some (VFS_ERROR, p, volume, v)"
| "vfs_parse_volume (i # is) pathname p volume v = do {
     c \<leftarrow> rd8 pathname p;
     if c = 0 then Some (VFS_ERROR, p, volume, v)
     else if c = 93 then Some (VFS_OK, p + 1, volume, v)
     else do {
       volume \<leftarrow> wr8 volume v c;
       vfs_parse_volume is pathname (p + 1) volume (v + 1)
     }
   }"

fun vfs_parse_file :: "nat list \<Rightarrow> mem \<Rightarrow> nat \<Rightarrow> mem \<Rightarrow> nat \<Rightarrow> (int \<times> mem) option" where
  "vfs_parse_file [] pathname p filename f = Some (VFS_ERROR, filename)"
| "vfs_parse_file (i # is) pathname p filename f = do {
     c \<leftarrow> rd8 pathname p;
     filename \<leftarrow> wr8 filename f c;
     if c = 0 then Some (VFS_OK, filename)
     else vfs_parse_file is pathname (p + 1) filename (f + 1)
   }"

definition vfs_parse_pathname :: "mem \<Rightarrow> mem \<Rightarrow> mem \<Rightarrow> (int \<times> mem \<times> mem) option" where
  "vfs_parse_pathname pathname volume filename = do {
     c \<leftarrow> rd8 pathname 0;
     (r, p, volume, v) \<leftarrow> (if c = 91
       then vfs_parse_volume [0..<15] pathname 1 volume 0 else Some (VFS_OK, 0, volume, 0));
     if r \<noteq> VFS_OK then Some (VFS_ERROR, volume, filename)
     else do {
       volume \<leftarrow> wr8 volume v 0;
       (r, filename) \<leftarrow> vfs_parse_file [0..<16] pathname p filename 0;
       Some (r, volume, filename)
     }
   }"

text \<open>The row of the first mount point with the given name.\<close>

fun vfs_find_row :: "'w vfs \<Rightarrow> mem \<Rightarrow> nat list \<Rightarrow> nat option option" where
  "vfs_find_row s name [] = Some None"
| "vfs_find_row s name (row # rows) = do {
     r \<leftarrow> stringcmp (ve_mountpoint (filesystems s ! row)) name;
     if r = 0 then Some (Some row) else vfs_find_row s name rows
   }"

definition vfs_get_filesystem :: "mem \<Rightarrow> 'w vfs \<Rightarrow> fs_ptr option option" where
  "vfs_get_filesystem name s = do {
     r \<leftarrow> vfs_find_row s name [0..<MAX_FILESYSTEMS];
     Some (case r of None \<Rightarrow> None | Some row \<Rightarrow> ve_filesystem (filesystems s ! row))
   }"

section \<open>Mounting\<close>

definition vfs_mount :: "fs_ptr \<Rightarrow> mem \<Rightarrow> 'w vfs \<Rightarrow> (int \<times> 'w vfs) option" where
  "vfs_mount fs name s = do {
     c \<leftarrow> rd8 name 0;
     guard (c \<noteq> 0);
     (r, s) \<leftarrow> vfs_start_op s;
     if r \<noteq> VFS_OK then Some (VFS_UNUSABLE, s)
     else do {
       s \<leftarrow> table_P s;
       case List.find (\<lambda>i. ve_filesystem (filesystems s ! i) = None) [0..<MAX_FILESYSTEMS] of
         None \<Rightarrow> do { s \<leftarrow> vfs_end_op (table_V s); Some (VFS_LIMIT, s) }
       | Some row \<Rightarrow> do {
           dup \<leftarrow> vfs_find_row s name [0..<MAX_FILESYSTEMS];
           case dup of
             Some _ \<Rightarrow> do { s \<leftarrow> vfs_end_op (table_V s); Some (VFS_ERROR, s) }
           | None \<Rightarrow> do {
               mp \<leftarrow> stringcopy (ve_mountpoint (filesystems s ! row)) name VFS_NAME_LENGTH;
               let s = s\<lparr>filesystems := (filesystems s)[row :=
                   \<lparr>ve_filesystem = Some fs, ve_mountpoint = mp\<rparr>]\<rparr> in do {
                 s \<leftarrow> vfs_end_op (table_V s);
                 Some (VFS_OK, s)
               }
             }
         }
     }
   }"

definition vfs_unmount :: "(fs_ptr \<Rightarrow> 'w fs_t) \<Rightarrow> mem \<Rightarrow> 'w vfs \<Rightarrow> (int \<times> 'w vfs) option" where
  "vfs_unmount F name s = do {
     (r, s) \<leftarrow> vfs_start_op s;
     if r \<noteq> VFS_OK then Some (VFS_UNUSABLE, s)
     else do {
       s \<leftarrow> table_P s;
       r \<leftarrow> vfs_find_row s name [0..<MAX_FILESYSTEMS];
       case (case r of None \<Rightarrow> None
             | Some row \<Rightarrow> map_option (Pair row) (ve_filesystem (filesystems s ! row))) of
         None \<Rightarrow> do { s \<leftarrow> vfs_end_op (table_V s); Some (VFS_NOT_FOUND, s) }
       | Some (row, fs) \<Rightarrow> do {
           s \<leftarrow> file_P s;
           if \<exists>i\<in>set [0..<MAX_OPEN_FILES]. of_filesystem (files s ! i) = Some fs
           then do { s \<leftarrow> vfs_end_op (table_V (file_V s)); Some (VFS_IN_USE, s) }
           else do {
             (_, s) \<leftarrow> on_world (fs_unmount (F fs)) s;
             s \<leftarrow> vfs_end_op (table_V (file_V (set_fs_row row None s)));
             Some (VFS_OK, s)
           }
         }
     }
   }"

text \<open>\<open>filesystems_try_all\<close>: the \<open>init\<close> functions of the drivers, in the order of the table.\<close>

fun filesystems_try_all ::
    "('k \<Rightarrow> 'w \<Rightarrow> (fs_ptr option \<times> 'w) option) list \<Rightarrow> 'k \<Rightarrow> 'w \<Rightarrow> (fs_ptr option \<times> 'w) option" where
  "filesystems_try_all [] disk w = Some (None, w)"
| "filesystems_try_all (ini # inits) disk w = do {
     (fs, w) \<leftarrow> ini disk w;
     if fs = None then filesystems_try_all inits disk w else Some (fs, w)
   }"

definition vfs_mount_fs ::
    "('k \<Rightarrow> 'w \<Rightarrow> (fs_ptr option \<times> 'w) option) list \<Rightarrow> (fs_ptr \<Rightarrow> 'w fs_t) \<Rightarrow> 'k \<Rightarrow> mem option \<Rightarrow>
      'w vfs \<Rightarrow> (int \<times> 'w vfs) option" where
  "vfs_mount_fs inits F disk volumename s = do {
     (fs, w) \<leftarrow> filesystems_try_all inits disk (vfs_world s);
     let s = s\<lparr>vfs_world := w\<rparr> in
       case fs of None \<Rightarrow> Some (VFS_NO_SUCH_FS, s)
       | Some fs \<Rightarrow>
           let name = (case volumename of None \<Rightarrow> fs_volume_name (F fs) | Some n \<Rightarrow> n) in do {
             c \<leftarrow> rd8 name 0;
             if c = 0 then do {
               (_, s) \<leftarrow> on_world (fs_unmount (F fs)) s;
               Some (VFS_INVALID_PARAMS, s)
             }
             else do {
               (ret, s) \<leftarrow> vfs_mount fs name s;
               if ret = VFS_OK then Some (ret, s)
               else do { (_, s) \<leftarrow> on_world (fs_unmount (F fs)) s; Some (ret, s) }
             }
           }
   }"

fun vfs_mount_all ::
    "('k \<Rightarrow> 'w \<Rightarrow> (fs_ptr option \<times> 'w) option) list \<Rightarrow> (fs_ptr \<Rightarrow> 'w fs_t) \<Rightarrow> 'k device list \<Rightarrow>
      nat list \<Rightarrow> 'w vfs \<Rightarrow> 'w vfs option" where
  "vfs_mount_all inits F devs [] s = Some s"
| "vfs_mount_all inits F devs (i # is) s = (case device_get devs TYPECODE_DISK i of
     None \<Rightarrow> Some s
   | Some dev \<Rightarrow> (case dev_generic dev of
       None \<Rightarrow> vfs_mount_all inits F devs is s
     | Some gbd \<Rightarrow> do {
         (_, s) \<leftarrow> vfs_mount_fs inits F gbd None s;
         vfs_mount_all inits F devs is s
       }))"

section \<open>Open files\<close>

definition vfs_open :: "(fs_ptr \<Rightarrow> 'w fs_t) \<Rightarrow> mem \<Rightarrow> 'w vfs \<Rightarrow> (int \<times> 'w vfs) option" where
  "vfs_open F pathname s = do {
     (r, s) \<leftarrow> vfs_start_op s;
     if r \<noteq> VFS_OK then Some (VFS_UNUSABLE, s)
     else do {
       (r, volumename, filename) \<leftarrow> vfs_parse_pathname pathname (replicate 16 0) (replicate 16 0);
       if r \<noteq> VFS_OK then do { s \<leftarrow> vfs_end_op s; Some (VFS_ERROR, s) }
       else do {
         s \<leftarrow> table_P s;
         s \<leftarrow> file_P s;
         case List.find (\<lambda>i. of_filesystem (files s ! i) = None) [0..<MAX_OPEN_FILES] of
           None \<Rightarrow> do { s \<leftarrow> vfs_end_op (table_V (file_V s)); Some (VFS_LIMIT, s) }
         | Some file \<Rightarrow> do {
             fs \<leftarrow> vfs_get_filesystem volumename s;
             case fs of
               None \<Rightarrow> do { s \<leftarrow> vfs_end_op (table_V (file_V s)); Some (VFS_NO_SUCH_FS, s) }
             | Some fs \<Rightarrow>
                 let s = table_V (file_V (set_file_row file
                       ((files s ! file)\<lparr>of_filesystem := Some fs\<rparr>) s)) in do {
                   (fileid, s) \<leftarrow> on_world (fs_open (F fs) filename) s;
                   if fileid < 0 then do {
                     s \<leftarrow> file_P s;
                     s \<leftarrow> vfs_end_op (file_V (set_file_row file
                       ((files s ! file)\<lparr>of_filesystem := None\<rparr>) s));
                     Some (fileid, s)
                   }
                   else do {
                     s \<leftarrow> vfs_end_op (set_file_row file
                       ((files s ! file)\<lparr>of_fileid := fileid, of_seek_position := 0\<rparr>) s);
                     Some (int file, s)
                   }
                 }
           }
       }
     }
   }"

definition vfs_verify_open :: "int \<Rightarrow> 'w vfs \<Rightarrow> (fs_ptr \<times> openfile_entry) option" where
  "vfs_verify_open file s = do {
     guard (0 \<le> file \<and> file < int MAX_OPEN_FILES);
     fs \<leftarrow> of_filesystem (files s ! nat file);
     Some (fs, files s ! nat file)
   }"

definition vfs_close :: "(fs_ptr \<Rightarrow> 'w fs_t) \<Rightarrow> int \<Rightarrow> 'w vfs \<Rightarrow> (int \<times> 'w vfs) option" where
  "vfs_close F file s = do {
     (r, s) \<leftarrow> vfs_start_op s;
     if r \<noteq> VFS_OK then Some (VFS_UNUSABLE, s)
     else do {
       s \<leftarrow> file_P s;
       (fs, e) \<leftarrow> vfs_verify_open file s;
       (ret, s) \<leftarrow> on_world (fs_close (F fs) (of_fileid e)) s;
       let s = set_file_row (nat file) ((files s ! nat file)\<lparr>of_filesystem := None\<rparr>) s in do {
         s \<leftarrow> vfs_end_op (file_V s);
         Some (ret, s)
       }
     }
   }"

definition vfs_seek :: "int \<Rightarrow> int \<Rightarrow> 'w vfs \<Rightarrow> (int \<times> 'w vfs) option" where
  "vfs_seek file seek_position s = do {
     (r, s) \<leftarrow> vfs_start_op s;
     if r \<noteq> VFS_OK then Some (VFS_UNUSABLE, s)
     else do {
       guard (seek_position \<ge> 0);
       s \<leftarrow> file_P s;
       (fs, e) \<leftarrow> vfs_verify_open file s;
       let s = set_file_row (nat file) (e\<lparr>of_seek_position := seek_position\<rparr>) s in do {
         s \<leftarrow> vfs_end_op (file_V s);
         Some (VFS_OK, s)
       }
     }
   }"

text \<open>Moving the seek position after a transfer of \<open>ret\<close> bytes.\<close>

definition vfs_advance :: "int \<Rightarrow> int \<Rightarrow> 'w vfs \<Rightarrow> 'w vfs option" where
  "vfs_advance file ret s =
     (if ret > 0 then do {
        s \<leftarrow> file_P s;
        pos \<leftarrow> ck (of_seek_position (files s ! nat file) + ret);
        Some (file_V (set_file_row (nat file) ((files s ! nat file)\<lparr>of_seek_position := pos\<rparr>) s))
      }
      else Some s)"

definition vfs_read ::
    "(fs_ptr \<Rightarrow> 'w fs_t) \<Rightarrow> int \<Rightarrow> mem \<Rightarrow> int \<Rightarrow> 'w vfs \<Rightarrow> (int \<times> mem \<times> 'w vfs) option" where
  "vfs_read F file buffer bufsize s = do {
     (r, s) \<leftarrow> vfs_start_op s;
     if r \<noteq> VFS_OK then Some (VFS_UNUSABLE, buffer, s)
     else do {
       (fs, e) \<leftarrow> vfs_verify_open file s;
       guard (bufsize \<ge> 0);
       (ret, buffer, s) \<leftarrow> on_world_buf
         (fs_read (F fs) (of_fileid e) buffer bufsize (of_seek_position e)) s;
       s \<leftarrow> vfs_advance file ret s;
       s \<leftarrow> vfs_end_op s;
       Some (ret, buffer, s)
     }
   }"

definition vfs_write ::
    "(fs_ptr \<Rightarrow> 'w fs_t) \<Rightarrow> int \<Rightarrow> mem \<Rightarrow> int \<Rightarrow> 'w vfs \<Rightarrow> (int \<times> 'w vfs) option" where
  "vfs_write F file buffer datasize s = do {
     (r, s) \<leftarrow> vfs_start_op s;
     if r \<noteq> VFS_OK then Some (VFS_UNUSABLE, s)
     else do {
       (fs, e) \<leftarrow> vfs_verify_open file s;
       guard (datasize \<ge> 0);
       (ret, s) \<leftarrow> on_world
         (fs_write (F fs) (of_fileid e) buffer datasize (of_seek_position e)) s;
       s \<leftarrow> vfs_advance file ret s;
       s \<leftarrow> vfs_end_op s;
       Some (ret, s)
     }
   }"

section \<open>Operations on names\<close>

definition vfs_create :: "(fs_ptr \<Rightarrow> 'w fs_t) \<Rightarrow> mem \<Rightarrow> int \<Rightarrow> 'w vfs \<Rightarrow> (int \<times> 'w vfs) option" where
  "vfs_create F pathname sz s = do {
     guard (sz \<ge> 0);
     (r, s) \<leftarrow> vfs_start_op s;
     if r \<noteq> VFS_OK then Some (VFS_UNUSABLE, s)
     else do {
       (r, volumename, filename) \<leftarrow> vfs_parse_pathname pathname (replicate 16 0) (replicate 16 0);
       if r \<noteq> VFS_OK then do { s \<leftarrow> vfs_end_op s; Some (VFS_ERROR, s) }
       else do {
         s \<leftarrow> table_P s;
         fs \<leftarrow> vfs_get_filesystem volumename s;
         case fs of None \<Rightarrow> do { s \<leftarrow> vfs_end_op (table_V s); Some (VFS_NO_SUCH_FS, s) }
         | Some fs \<Rightarrow> do {
             (ret, s) \<leftarrow> on_world (fs_create (F fs) filename sz) s;
             s \<leftarrow> vfs_end_op (table_V s);
             Some (ret, s)
           }
       }
     }
   }"

definition vfs_remove :: "(fs_ptr \<Rightarrow> 'w fs_t) \<Rightarrow> mem \<Rightarrow> 'w vfs \<Rightarrow> (int \<times> 'w vfs) option" where
  "vfs_remove F pathname s = do {
     (r, s) \<leftarrow> vfs_start_op s;
     if r \<noteq> VFS_OK then Some (VFS_UNUSABLE, s)
     else do {
       (r, volumename, filename) \<leftarrow> vfs_parse_pathname pathname (replicate 16 0) (replicate 16 0);
       if r \<noteq> VFS_OK then do { s \<leftarrow> vfs_end_op s; Some (VFS_ERROR, s) }
       else do {
         s \<leftarrow> table_P s;
         fs \<leftarrow> vfs_get_filesystem volumename s;
         case fs of None \<Rightarrow> do { s \<leftarrow> vfs_end_op (table_V s); Some (VFS_NO_SUCH_FS, s) }
         | Some fs \<Rightarrow> do {
             (ret, s) \<leftarrow> on_world (fs_remove (F fs) filename) s;
             s \<leftarrow> vfs_end_op (table_V s);
             Some (ret, s)
           }
       }
     }
   }"

definition vfs_getfree :: "(fs_ptr \<Rightarrow> 'w fs_t) \<Rightarrow> mem \<Rightarrow> 'w vfs \<Rightarrow> (int \<times> 'w vfs) option" where
  "vfs_getfree F name s = do {
     (r, s) \<leftarrow> vfs_start_op s;
     if r \<noteq> VFS_OK then Some (VFS_UNUSABLE, s)
     else do {
       s \<leftarrow> table_P s;
       fs \<leftarrow> vfs_get_filesystem name s;
       case fs of None \<Rightarrow> do { s \<leftarrow> vfs_end_op (table_V s); Some (VFS_NO_SUCH_FS, s) }
       | Some fs \<Rightarrow> do {
           (ret, s) \<leftarrow> on_world (fs_getfree (F fs)) s;
           s \<leftarrow> vfs_end_op (table_V s);
           Some (ret, s)
         }
     }
   }"

definition vfs_filecount :: "(fs_ptr \<Rightarrow> 'w fs_t) \<Rightarrow> mem \<Rightarrow> 'w vfs \<Rightarrow> (int \<times> 'w vfs) option" where
  "vfs_filecount F pathname s = do {
     (r, s) \<leftarrow> vfs_start_op s;
     if r \<noteq> VFS_OK then Some (VFS_UNUSABLE, s)
     else do {
       (r, volumename, dirname) \<leftarrow> vfs_parse_pathname pathname (replicate 16 0) (replicate 16 0);
       if r \<noteq> VFS_OK then do { s \<leftarrow> vfs_end_op s; Some (VFS_ERROR, s) }
       else do {
         s \<leftarrow> table_P s;
         fs \<leftarrow> vfs_get_filesystem volumename s;
         case fs of None \<Rightarrow> do { s \<leftarrow> vfs_end_op (table_V s); Some (VFS_NO_SUCH_FS, s) }
         | Some fs \<Rightarrow> do {
             (ret, s) \<leftarrow> on_world (fs_filecount (F fs) dirname) s;
             s \<leftarrow> vfs_end_op (table_V s);
             Some (ret, s)
           }
       }
     }
   }"

definition vfs_file ::
    "(fs_ptr \<Rightarrow> 'w fs_t) \<Rightarrow> mem \<Rightarrow> int \<Rightarrow> mem \<Rightarrow> 'w vfs \<Rightarrow> (int \<times> mem \<times> 'w vfs) option" where
  "vfs_file F pathname idx buffer s = do {
     (r, s) \<leftarrow> vfs_start_op s;
     if r \<noteq> VFS_OK then Some (VFS_UNUSABLE, buffer, s)
     else do {
       (r, volumename, dirname) \<leftarrow> vfs_parse_pathname pathname (replicate 16 0) (replicate 16 0);
       if r \<noteq> VFS_OK then do { s \<leftarrow> vfs_end_op s; Some (VFS_ERROR, buffer, s) }
       else do {
         s \<leftarrow> table_P s;
         fs \<leftarrow> vfs_get_filesystem volumename s;
         case fs of None \<Rightarrow> do { s \<leftarrow> vfs_end_op (table_V s); Some (VFS_NO_SUCH_FS, buffer, s) }
         | Some fs \<Rightarrow> do {
             (ret, buffer, s) \<leftarrow> on_world_buf (fs_file (F fs) dirname idx buffer) s;
             s \<leftarrow> vfs_end_op (table_V s);
             Some (ret, buffer, s)
           }
       }
     }
   }"

section \<open>The locks\<close>

text \<open>The synchronisation state; every operation brings it back to where it was.\<close>

definition vfs_sync :: "'w vfs \<Rightarrow> int \<times> int \<times> int \<times> int \<times> int \<times> bool" where
  "vfs_sync s = (vfs_table_sem s, openfile_sem s, vfs_op_sem s, vfs_unmount_sem s, vfs_ops s, vfs_usable s)"

lemma wlp_on_world: "(\<And>r w. Q (r, s\<lparr>vfs_world := w\<rparr>)) \<Longrightarrow> wlp (on_world f s) Q"
  by (auto simp: on_world_def wp_simps wlp_iff [of "f w" for w])

lemma wlp_on_world_buf: "(\<And>r b w. Q (r, b, s\<lparr>vfs_world := w\<rparr>)) \<Longrightarrow> wlp (on_world_buf f s) Q"
  by (auto simp: on_world_buf_def wp_simps wlp_iff [of "f w" for w])

lemma wlp_table_P [wp_simps]:
  "wlp (table_P s) Q = (0 < vfs_table_sem s \<longrightarrow> Q (s\<lparr>vfs_table_sem := vfs_table_sem s - 1\<rparr>))"
  by (simp add: table_P_def sem_P_def)

lemma wlp_file_P [wp_simps]:
  "wlp (file_P s) Q = (0 < openfile_sem s \<longrightarrow> Q (s\<lparr>openfile_sem := openfile_sem s - 1\<rparr>))"
  by (simp add: file_P_def sem_P_def)

lemma wlp_start_op [wp_simps]:
  "wlp (vfs_start_op s) Q = (0 < vfs_op_sem s \<longrightarrow>
    (if vfs_usable s then Q (VFS_OK, s\<lparr>vfs_ops := vfs_ops s + 1\<rparr>) else Q (VFS_UNUSABLE, s)))"
  by (simp add: vfs_start_op_def op_P_def op_V_def sem_P_def sem_V_def)

lemma wlp_end_op [wp_simps]:
  "wlp (vfs_end_op s) Q = (0 < vfs_op_sem s \<longrightarrow> 0 < vfs_ops s \<longrightarrow>
    Q (s\<lparr>vfs_ops := vfs_ops s - 1,
      vfs_unmount_sem := vfs_unmount_sem s + of_bool (\<not> vfs_usable s \<and> vfs_ops s = 1)\<rparr>))"
  by (auto simp: vfs_end_op_def op_P_def op_V_def sem_P_def sem_V_def wp_simps)

lemmas vfs_defs = table_V_def file_V_def sem_V_def set_fs_row_def set_file_row_def vfs_sync_def

lemmas vfs_calls = wlp_calls wlp_iff [of "rd8 m a" for m a]
  wlp_iff [of "vfs_parse_pathname p v f" for p v f]
  wlp_iff [of "vfs_get_filesystem n s" for n s] wlp_iff [of "vfs_find_row s n rows" for s n rows]
  wlp_iff [of "vfs_verify_open f s" for f s]

lemmas vfs_rules = wlp_on_world wlp_on_world_buf

lemma vfs_mount_sync: "wlp (vfs_mount fs name s) (\<lambda>(r, s'). vfs_sync s' = vfs_sync s)"
  by (auto simp: vfs_mount_def wp_simps vfs_calls vfs_defs Let_def split: option.split)

lemma vfs_unmount_sync: "wlp (vfs_unmount F name s) (\<lambda>(r, s'). vfs_sync s' = vfs_sync s)"
  unfolding vfs_unmount_def
  by (auto simp: wp_simps vfs_calls vfs_defs Let_def simp del: set_upt intro!: vfs_rules split: option.split)

lemma vfs_open_sync: "wlp (vfs_open F path s) (\<lambda>(r, s'). vfs_sync s' = vfs_sync s)"
  unfolding vfs_open_def
  by (auto simp: wp_simps vfs_calls vfs_defs Let_def intro!: vfs_rules split: option.split)

lemma vfs_close_sync: "wlp (vfs_close F file s) (\<lambda>(r, s'). vfs_sync s' = vfs_sync s)"
  by (auto simp: vfs_close_def wp_simps vfs_calls vfs_defs Let_def intro!: vfs_rules)

lemma vfs_seek_sync: "wlp (vfs_seek file p s) (\<lambda>(r, s'). vfs_sync s' = vfs_sync s)"
  by (auto simp: vfs_seek_def wp_simps vfs_calls vfs_defs Let_def)

lemma vfs_read_sync: "wlp (vfs_read F file buf n s) (\<lambda>(r, b, s'). vfs_sync s' = vfs_sync s)"
  by (auto simp: vfs_read_def vfs_advance_def wp_simps vfs_calls vfs_defs Let_def intro!: vfs_rules)

lemma vfs_write_sync: "wlp (vfs_write F file buf n s) (\<lambda>(r, s'). vfs_sync s' = vfs_sync s)"
  by (auto simp: vfs_write_def vfs_advance_def wp_simps vfs_calls vfs_defs Let_def intro!: vfs_rules)

lemma vfs_create_sync: "wlp (vfs_create F path n s) (\<lambda>(r, s'). vfs_sync s' = vfs_sync s)"
  by (auto simp: vfs_create_def wp_simps vfs_calls vfs_defs intro!: vfs_rules split: option.split)

lemma vfs_remove_sync: "wlp (vfs_remove F path s) (\<lambda>(r, s'). vfs_sync s' = vfs_sync s)"
  by (auto simp: vfs_remove_def wp_simps vfs_calls vfs_defs intro!: vfs_rules split: option.split)

lemma vfs_getfree_sync: "wlp (vfs_getfree F name s) (\<lambda>(r, s'). vfs_sync s' = vfs_sync s)"
  by (auto simp: vfs_getfree_def wp_simps vfs_calls vfs_defs intro!: vfs_rules split: option.split)

lemma vfs_filecount_sync: "wlp (vfs_filecount F path s) (\<lambda>(r, s'). vfs_sync s' = vfs_sync s)"
  by (auto simp: vfs_filecount_def wp_simps vfs_calls vfs_defs intro!: vfs_rules split: option.split)

lemma vfs_file_sync: "wlp (vfs_file F path i b s) (\<lambda>(r, b, s'). vfs_sync s' = vfs_sync s)"
  by (auto simp: vfs_file_def wp_simps vfs_calls vfs_defs intro!: vfs_rules split: option.split)

end
