(* ===== verification/Vfs_Spec.thy ===== *)
theory Vfs_Spec
  imports Vfs
begin

text \<open>
  What the virtual file system promises: the meaning of path names and the effect of the
  operations on the tables.
\<close>

section \<open>Path names\<close>

text \<open>The meaning of a path: \<open>[volume]file\<close>, or a file of the volume without a name.\<close>

definition path_parts :: "mem \<Rightarrow> (mem \<times> mem) option" where
  "path_parts s =
     (if s \<noteq> [] \<and> hd s = 91 then
        let v = takeWhile (\<lambda>c. c \<noteq> 93) (tl s); rest = drop (length v) (tl s) in
          if length v \<le> 14 \<and> rest \<noteq> [] \<and> length (tl rest) \<le> 15 then Some (v, tl rest) else None
      else if length s \<le> 15 then Some ([], s) else None)"

lemma drop_nth_Cons: "p < length xs \<Longrightarrow> drop p xs = xs ! p # drop (Suc p) xs"
  by (rule Cons_nth_drop_Suc [symmetric])

lemma terminated_less: "terminated (drop p xs) \<Longrightarrow> p < length xs"
  by (metis drop_all not_le terminated_Nil)

lemma take_Suc_upd: "p < length t \<Longrightarrow> take (Suc p) (t[p := c]) = take p t @ [c]"
  by (simp add: take_Suc_conv_app_nth)

lemma parse_file_eq:
  assumes "terminated (drop p path)" and "f + length is \<le> length fn"
  shows "\<exists>fn'. vfs_parse_file is path p fn f =
    Some (if length (cstr (drop p path)) < length is then VFS_OK else VFS_ERROR, fn') \<and>
    (length (cstr (drop p path)) < length is \<longrightarrow>
      fn' = take f fn @ cstr (drop p path) @ 0 # drop (f + length (cstr (drop p path)) + 1) fn)"
  using assms
proof (induction "is" arbitrary: p fn f)
  case Nil
  then show ?case by simp
next
  case (Cons i "is")
  have p: "p < length path"
    using Cons.prems(1) by (rule terminated_less)
  note split = drop_nth_Cons [OF p]
  have rd: "rd8 path p = Some (path ! p)" "wr8 fn f c = Some (fn[f := c])" for c
    using p Cons.prems(2) by (simp_all add: rd8_def wr8_def)
  show ?case
  proof (cases "path ! p = 0")
    case True
    then show ?thesis
      using Cons.prems by (simp add: rd split upd_conv_take_nth_drop)
  next
    case False
    then have "terminated (drop (Suc p) path)"
      using Cons.prems(1) by (simp add: split)
    moreover have "Suc f + length is \<le> length (fn[f := path ! p])"
      using Cons.prems(2) by simp
    ultimately obtain fn' where "vfs_parse_file is path (Suc p) (fn[f := path ! p]) (Suc f) =
        Some (if length (cstr (drop (Suc p) path)) < length is then VFS_OK else VFS_ERROR, fn')"
      and "length (cstr (drop (Suc p) path)) < length is \<Longrightarrow>
        fn' = take (Suc f) (fn[f := path ! p]) @ cstr (drop (Suc p) path) @
          0 # drop (Suc f + length (cstr (drop (Suc p) path)) + 1) (fn[f := path ! p])"
      using Cons.IH [of "Suc p" "Suc f" "fn[f := path ! p]"] by blast
    then show ?thesis
      using False Cons.prems(2) by (simp add: rd split take_Suc_upd)
  qed
qed

lemma parse_volume_eq:
  assumes "terminated (drop p path)" and "k + length is < length vol"
  defines "w \<equiv> takeWhile (\<lambda>c. c \<noteq> 93) (cstr (drop p path))"
  shows "\<exists>vol' p' k'. vfs_parse_volume is path p vol k =
      Some (if length w < length is \<and> path ! (p + length w) = 93 then VFS_OK else VFS_ERROR, p', vol', k') \<and>
    length vol' = length vol \<and>
    (length w < length is \<and> path ! (p + length w) = 93 \<longrightarrow>
      p' = p + length w + 1 \<and> k' = k + length w \<and> vol' = take k vol @ w @ drop (k + length w) vol)"
  using assms(1,2) unfolding w_def
proof (induction "is" arbitrary: p vol k)
  case Nil
  then show ?case by simp
next
  case (Cons i "is")
  have p: "p < length path"
    using Cons.prems(1) by (rule terminated_less)
  note split = drop_nth_Cons [OF p]
  have rd: "rd8 path p = Some (path ! p)" "wr8 vol k c = Some (vol[k := c])" for c
    using p Cons.prems(2) by (simp_all add: rd8_def wr8_def)
  show ?case
  proof (cases "path ! p = 0 \<or> path ! p = 93")
    case True
    then show ?thesis
      using Cons.prems by (auto simp: rd split)
  next
    case False
    then have "terminated (drop (Suc p) path)"
      using Cons.prems(1) by (simp add: split)
    moreover have "Suc k + length is < length (vol[k := path ! p])"
      using Cons.prems(2) by simp
    ultimately show ?thesis
      using Cons.IH [of "Suc p" "Suc k" "vol[k := path ! p]"] False Cons.prems(2)
      by (simp add: rd split take_Suc_upd)
  qed
qed

lemma cstr_drop_tl: "terminated s \<Longrightarrow> n \<le> length (cstr s) \<Longrightarrow> cstr (drop n s) = drop n (cstr s) \<and> terminated (drop n s)"
proof (induction n arbitrary: s)
  case (Suc n)
  then show ?case by (cases s) (auto split: if_splits)
qed simp

text \<open>The closing bracket: the volume ends at one, or the string ends before it.\<close>

lemma bracket_iff:
  "terminated s \<Longrightarrow> s ! length (takeWhile (\<lambda>c. c \<noteq> 93) (cstr s)) = 93 \<longleftrightarrow>
    drop (length (takeWhile (\<lambda>c. c \<noteq> 93) (cstr s))) (cstr s) \<noteq> []"
  by (induction s) auto

lemma parse_file_wp:
  assumes "terminated (drop q path)" and "length fn = 16"
  shows "wp (do { (r, filename) \<leftarrow> vfs_parse_file [0..<16] path q fn 0; Some (r, volume, filename) })
      (\<lambda>(r, vol', fn'). vol' = volume \<and> r = (if length (cstr (drop q path)) \<le> 15 then VFS_OK else VFS_ERROR) \<and>
        (length (cstr (drop q path)) \<le> 15 \<longrightarrow> terminated fn' \<and> cstr fn' = cstr (drop q path)))"
  using parse_file_eq [OF assms(1), of 0 "[0..<16]" fn] assms(2) cstr_string [of "drop q path"]
  by (auto simp: wp_simps terminated_def simp del: upt_rec_numeral)

lemma parse_pathname_wp:
  assumes path: "terminated path" and vol: "length vol = 16" and fn: "length fn = 16"
  shows "wp (vfs_parse_pathname path vol fn) (\<lambda>(r, vol', fn').
    case path_parts (cstr path) of
      None \<Rightarrow> r = VFS_ERROR
    | Some (v, f) \<Rightarrow> r = VFS_OK \<and> terminated vol' \<and> terminated fn' \<and> cstr vol' = v \<and> cstr fn' = f)"
proof -
  obtain c rest where p: "path = c # rest"
    using path by (cases path) auto
  have wr: "wr8 vol' k 0 = Some (vol'[k := 0])" if "length vol' = 16" "k < 16" for vol' k
    using that by (simp add: wr8_def)
  show ?thesis
  proof (cases "c = 91")
    case False
    then have parts: "path_parts (cstr path) = (if length (cstr path) \<le> 15 then Some ([], cstr path) else None)"
      by (simp add: path_parts_def p)
    have "cstr (vol[0 := 0]) = []" "terminated (vol[0 := 0])"
      using vol by (cases vol; simp)+
    with parse_file_wp [of 0 path fn "vol[0 := 0]"] show ?thesis
      unfolding vfs_parse_pathname_def parts
      using False path vol fn
      by (auto simp: p rd8_def wr simp del: upt_rec_numeral vfs_parse_file.simps elim!: wp_mono)
  next
    case True
    define w where "w = takeWhile (\<lambda>c. c \<noteq> 93) (cstr rest)"
    have rest: "terminated rest"
      using path True by (simp add: p)
    obtain vol' p' k' where vp: "vfs_parse_volume [0..<15] path 1 vol 0 =
        Some (if length w < 15 \<and> path ! (1 + length w) = 93 then VFS_OK else VFS_ERROR, p', vol', k')"
      and ok: "length vol' = 16" "length w < 15 \<Longrightarrow> path ! (1 + length w) = 93 \<Longrightarrow>
        p' = 1 + length w + 1 \<and> k' = length w \<and> vol' = w @ drop (length w) vol"
      using parse_volume_eq [of 1 path 0 "[0..<15]" vol] vol rest
      by (auto simp: p w_def simp del: upt_rec_numeral)
    have br: "path ! (1 + length w) = 93 \<longleftrightarrow> drop (length w) (cstr rest) \<noteq> []"
      using bracket_iff [OF rest] by (simp add: p w_def)
    have rd: "rd8 path 0 = Some 91"
      using True by (simp add: p rd8_def)
    have parts: "path_parts (cstr path) = (if length w \<le> 14 \<and> drop (length w) (cstr rest) \<noteq> [] \<and>
        length (cstr rest) - (length w + 1) \<le> 15 then Some (w, drop (length w + 1) (cstr rest)) else None)"
      using True by (auto simp: path_parts_def p w_def [symmetric] Let_def drop_Suc tl_drop)
    show ?thesis
    proof (cases "length w < 15 \<and> path ! (1 + length w) = 93")
      case False
      then show ?thesis
        using br by (auto simp: vfs_parse_pathname_def rd parts vp [unfolded One_nat_def] simp del: upt_rec_numeral)
    next
      case open_ok: True
      have f: "cstr (drop (length w + 2) path) = drop (length w + 1) (cstr rest)" "terminated (drop (length w + 2) path)"
        using cstr_drop_tl [OF rest, of "length w + 1"] open_ok br by (simp_all add: p)
      have w0: "0 \<notin> set w"
        unfolding w_def using cstr_string [of rest] by (auto dest: set_takeWhileD)
      have vol'': "vol'[k' := 0] = w @ 0 # drop (Suc (length w)) vol"
        using ok open_ok vol by (simp add: upd_conv_take_nth_drop)
      then have v: "cstr (vol'[k' := 0]) = w" "terminated (vol'[k' := 0])"
        using w0 by (simp_all add: terminated_def)
      have wr': "wr8 vol' k' 0 = Some (vol'[k' := 0])"
        using ok open_ok by (intro wr) auto
      have p': "p' = length w + 2"
        using ok open_ok by simp
      have eq: "vfs_parse_pathname path vol fn = do {
          (r, filename) \<leftarrow> vfs_parse_file [0..<16] path (length w + 2) fn 0;
          Some (r, vol'[k' := 0], filename) }"
        using open_ok by (simp add: vfs_parse_pathname_def rd vp [unfolded One_nat_def] wr' p' del: upt_rec_numeral)
      have parts': "path_parts (cstr path) = (if length (cstr (drop (length w + 2) path)) \<le> 15
          then Some (w, cstr (drop (length w + 2) path)) else None)"
        using open_ok br f(1) by (simp add: parts)
      show ?thesis
        unfolding eq parts' by (rule wp_mono [OF parse_file_wp [OF f(2) fn]]) (use v in \<open>auto split: if_splits\<close>)
    qed
  qed
qed
end
