(* ===== verification/Vfs_Driver.thy ===== *)
theory Vfs_Driver
  imports Vfs_Spec Tfs_Contract
begin

text \<open>
  The interface between the virtual file system and a driver, as a locale: what the function
  pointers of \<open>fs_t\<close> promise about the files of the volume.  Inside it the operations on open
  files are proved against that abstract volume; the Trivial Filesystem over the disk driver is
  an instance.
\<close>

section \<open>Steps of the operations\<close>

lemma wp_table_P [wp_simps]:
  "wp (table_P s) Q = (0 < vfs_table_sem s \<and> Q (s\<lparr>vfs_table_sem := vfs_table_sem s - 1\<rparr>))"
  by (simp add: table_P_def sem_P_def)

lemma wp_file_P [wp_simps]:
  "wp (file_P s) Q = (0 < openfile_sem s \<and> Q (s\<lparr>openfile_sem := openfile_sem s - 1\<rparr>))"
  by (simp add: file_P_def sem_P_def)

lemma wp_start_op [wp_simps]:
  "wp (vfs_start_op s) Q = (0 < vfs_op_sem s \<and>
    (if vfs_usable s then Q (VFS_OK, s\<lparr>vfs_ops := vfs_ops s + 1\<rparr>) else Q (VFS_UNUSABLE, s)))"
  by (simp add: vfs_start_op_def op_P_def op_V_def sem_P_def sem_V_def)

lemma wp_end_op [wp_simps]:
  "wp (vfs_end_op s) Q = (0 < vfs_op_sem s \<and> 0 < vfs_ops s \<and>
    Q (s\<lparr>vfs_ops := vfs_ops s - 1,
      vfs_unmount_sem := vfs_unmount_sem s + of_bool (\<not> vfs_usable s \<and> vfs_ops s = 1)\<rparr>))"
  by (auto simp: vfs_end_op_def op_P_def op_V_def sem_P_def sem_V_def wp_simps)

lemma wp_on_world [wp_simps]:
  "wp (on_world f s) Q = wp (f (vfs_world s)) (\<lambda>(r, w). Q (r, s\<lparr>vfs_world := w\<rparr>))"
  by (cases "f (vfs_world s)") (auto simp: on_world_def)

lemma wp_on_world_buf [wp_simps]:
  "wp (on_world_buf f s) Q = wp (f (vfs_world s)) (\<lambda>(r, b, w). Q (r, b, s\<lparr>vfs_world := w\<rparr>))"
  by (cases "f (vfs_world s)") (auto simp: on_world_buf_def)

text \<open>The virtual file system between operations: usable, no lock held, the tables of their size.\<close>

definition vfs_idle :: "'w vfs \<Rightarrow> bool" where
  "vfs_idle s \<longleftrightarrow> vfs_usable s \<and> 0 < vfs_op_sem s \<and> 0 < vfs_table_sem s \<and> 0 < openfile_sem s \<and> 0 \<le> vfs_ops s \<and>
     length (files s) = MAX_OPEN_FILES \<and> length (filesystems s) = MAX_FILESYSTEMS \<and>
     (\<forall>e \<in> set (filesystems s). terminated (ve_mountpoint e))"

text \<open>Open file \<open>fd\<close> of the mounted file system \<open>p\<close>: file id and seek position.\<close>

definition open_at :: "'w vfs \<Rightarrow> int \<Rightarrow> fs_ptr \<Rightarrow> int \<Rightarrow> int \<Rightarrow> bool" where
  "open_at s fd p fid pos \<longleftrightarrow> 0 \<le> fd \<and> fd < int MAX_OPEN_FILES \<and>
     files s ! nat fd = \<lparr>of_filesystem = Some p, of_fileid = fid, of_seek_position = pos\<rparr>"

text \<open>The state after an operation on open file \<open>fd\<close>: its row, and the drivers' state.\<close>

definition vfs_then :: "'w vfs \<Rightarrow> int \<Rightarrow> openfile_entry \<Rightarrow> 'w \<Rightarrow> 'w vfs" where
  "vfs_then s fd e w = s\<lparr>vfs_world := w, files := (files s)[nat fd := e]\<rparr>"

lemma vfs_then_idle [simp]: "vfs_idle (vfs_then s fd e w) = vfs_idle s"
  by (simp add: vfs_idle_def vfs_then_def)

lemma vfs_then_world [simp]: "vfs_world (vfs_then s fd e w) = w"
  by (simp add: vfs_then_def)

lemma vfs_then_open:
  "vfs_idle s \<Longrightarrow> open_at s fd p i q \<Longrightarrow>
    open_at (vfs_then s fd \<lparr>of_filesystem = Some p', of_fileid = i', of_seek_position = q'\<rparr> w) fd p' i' q'"
  by (simp add: open_at_def vfs_then_def vfs_idle_def nat_less_iff)

lemma advance_eq:
  assumes "open_at s fd p i pos" and "0 < openfile_sem s" and "0 < r \<Longrightarrow> int_ok (pos + r)"
  shows "vfs_advance fd r s = Some (s\<lparr>files := (files s)[nat fd :=
    \<lparr>of_filesystem = Some p, of_fileid = i, of_seek_position = pos + max r 0\<rparr>]\<rparr>)"
proof -
  have row: "(files s)[nat fd := \<lparr>of_filesystem = Some p, of_fileid = i, of_seek_position = pos\<rparr>] = files s"
    using assms(1) by (metis list_update_id open_at_def)
  show ?thesis
    using assms
    by (auto simp: vfs_advance_def file_P_def file_V_def sem_P_def sem_V_def ck_def set_file_row_def open_at_def row)
qed

text \<open>The frame of \<open>vfs_read\<close> and \<open>vfs_write\<close> around the call of the driver.\<close>

lemma wp_transfer:
  assumes "vfs_idle s" and "open_at s fd p i pos" and "0 < r \<Longrightarrow> int_ok (pos + r)"
    and "Q (vfs_then s fd \<lparr>of_filesystem = Some p, of_fileid = i, of_seek_position = pos + max r 0\<rparr> w)"
  shows "wp (Option.bind (vfs_advance fd r (s\<lparr>vfs_ops := vfs_ops s + 1, vfs_world := w\<rparr>)) (\<lambda>s. vfs_end_op s)) Q"
proof -
  have "open_at (s\<lparr>vfs_ops := vfs_ops s + 1, vfs_world := w\<rparr>) fd p i pos"
    using assms(2) by (simp add: open_at_def)
  from advance_eq [OF this _ assms(3)] show ?thesis
    using assms(1,4) by (simp add: wp_simps vfs_idle_def vfs_then_def)
qed

text \<open>The mount point table: \<open>volume v\<close> is the first row of that name.\<close>

definition mounted :: "'w vfs \<Rightarrow> mem \<Rightarrow> fs_ptr option" where
  "mounted s v = Option.bind
     (List.find (\<lambda>row. cstr (ve_mountpoint (filesystems s ! row)) = v) [0..<MAX_FILESYSTEMS])
     (\<lambda>row. ve_filesystem (filesystems s ! row))"

lemma mounted_then: "mounted (vfs_then s fd e w) v = mounted s v"
  by (simp add: mounted_def vfs_then_def del: upt_rec_numeral)

lemma find_row_eq:
  assumes "terminated v" and "\<And>row. row \<in> set rows \<Longrightarrow> terminated (ve_mountpoint (filesystems s ! row))"
  shows "vfs_find_row s v rows = Some (List.find (\<lambda>row. cstr (ve_mountpoint (filesystems s ! row)) = cstr v) rows)"
  using assms(2)
proof (induction rows)
  case (Cons row rows)
  have t: "terminated (ve_mountpoint (filesystems s ! row))"
    using Cons.prems by simp
  obtain r where r: "stringcmp (ve_mountpoint (filesystems s ! row)) v = Some r"
    using stringcmp_total [OF t assms(1)] ..
  show ?case
    using stringcmp_zero_iff [OF t assms(1)] r Cons by simp
qed simp

lemma get_filesystem_eq:
  assumes "vfs_idle s" and "filesystems s' = filesystems s" and "terminated v"
  shows "vfs_get_filesystem v s' = Some (mounted s (cstr v))"
proof -
  have "vfs_find_row s' v [0..<MAX_FILESYSTEMS] =
      Some (List.find (\<lambda>row. cstr (ve_mountpoint (filesystems s' ! row)) = cstr v) [0..<MAX_FILESYSTEMS])"
    by (rule find_row_eq [OF assms(3)]) (use assms(1,2) in \<open>auto simp: vfs_idle_def\<close>)
  then show ?thesis
    by (simp add: vfs_get_filesystem_def mounted_def assms(2) del: upt_rec_numeral split: option.split)
qed

text \<open>The lowest free row of the table of open files.\<close>

definition free_file :: "'w vfs \<Rightarrow> nat option" where
  "free_file s = List.find (\<lambda>i. of_filesystem (files s ! i) = None) [0..<MAX_OPEN_FILES]"

lemma free_fileD: "free_file s = Some k \<Longrightarrow> k < MAX_OPEN_FILES \<and> of_filesystem (files s ! k) = None"
  unfolding free_file_def by (auto simp: find_Some_iff simp del: upt_rec_numeral)

section \<open>The contract of a driver\<close>

text \<open>\<open>vol w\<close> is the volume in the driver's state \<open>w\<close>: file names to file id and content.\<close>

locale file_driver =
  fixes drv :: "'w fs_t"
    and good :: "'w \<Rightarrow> bool"
    and vol :: "'w \<Rightarrow> mem \<rightharpoonup> int \<times> mem"
  assumes id_nonneg: "good w \<Longrightarrow> vol w f = Some (i, c) \<Longrightarrow> 0 \<le> i"
    and size_ok: "good w \<Longrightarrow> vol w f = Some (i, c) \<Longrightarrow> int_ok (int (length c))"
    and open_law: "good w \<Longrightarrow> terminated name \<Longrightarrow> cstr name \<noteq> [] \<Longrightarrow>
      wp (fs_open drv name w) (\<lambda>(r, w'). good w' \<and> vol w' = vol w \<and>
        r = (case vol w (cstr name) of None \<Rightarrow> VFS_NOT_FOUND | Some (i, c) \<Rightarrow> i))"
    and close_law: "good w \<Longrightarrow> wp (fs_close drv i w) (\<lambda>(r, w'). good w' \<and> vol w' = vol w \<and> r = VFS_OK)"
    and read_law: "good w \<Longrightarrow> vol w f = Some (i, c) \<Longrightarrow> 0 \<le> n \<Longrightarrow> nat n \<le> length buf \<Longrightarrow> 0 \<le> off \<Longrightarrow>
      wp (fs_read drv i buf n off w) (\<lambda>(r, b, w'). good w' \<and> vol w' = vol w \<and>
        (if int (length c) < off then r = VFS_ERROR \<and> b = buf
         else let d = take (nat n) (drop (nat off) c) in r = int (length d) \<and> b = d @ drop (length d) buf))"
    and write_law: "good w \<Longrightarrow> vol w f = Some (i, c) \<Longrightarrow> 0 \<le> n \<Longrightarrow> nat n \<le> length buf \<Longrightarrow> 0 \<le> off \<Longrightarrow>
      wp (fs_write drv i buf n off w) (\<lambda>(r, w'). good w' \<and>
        (if int (length c) < off then r = VFS_ERROR \<and> vol w' = vol w
         else let d = take (length c - nat off) (take (nat n) buf) in
           r = int (length d) \<and> vol w' = (vol w)(f \<mapsto> (i, overwrite c (nat off) d))))"
begin

lemma vfs_read_file:
  assumes s: "vfs_idle s" "good (vfs_world s)" "F p = drv" "open_at s fd p i pos" and "0 \<le> pos"
    and f: "vol (vfs_world s) f = Some (i, c)" and n: "0 \<le> n" "nat n \<le> length buf"
  shows "wp (vfs_read F fd buf n s) (\<lambda>(r, b, s').
    \<exists>w. good w \<and> vol w = vol (vfs_world s) \<and> s' = vfs_then s fd
      \<lparr>of_filesystem = Some p, of_fileid = i, of_seek_position = pos + max r 0\<rparr> w \<and>
    (if int (length c) < pos then r = VFS_ERROR \<and> b = buf
     else let d = take (nat n) (drop (nat pos) c) in r = int (length d) \<and> b = d @ drop (length d) buf))"
proof -
  have e: "vfs_verify_open fd (s\<lparr>vfs_ops := vfs_ops s + 1\<rparr>) =
      Some (p, \<lparr>of_filesystem = Some p, of_fileid = i, of_seek_position = pos\<rparr>)"
    using s(4) by (simp add: open_at_def vfs_verify_open_def guard_def)
  note c = size_ok [OF s(2) f]
  have world: "vfs_world (s\<lparr>vfs_ops := x\<rparr>) = vfs_world s" for x
    by simp
  have "vfs_read F fd buf n s = do {
      (ret, b, s) \<leftarrow> on_world_buf (fs_read drv i buf n pos) (s\<lparr>vfs_ops := vfs_ops s + 1\<rparr>);
      s \<leftarrow> vfs_advance fd ret s;
      s \<leftarrow> vfs_end_op s;
      Some (ret, b, s) }"
    using s(1,3) n(1) e
    by (simp add: vfs_read_def vfs_start_op_def op_P_def op_V_def sem_P_def sem_V_def vfs_idle_def guard_def)
  then show ?thesis
    apply (simp only: wp_bind wp_pair wp_on_world_buf world)
    apply (rule wp_mono [OF read_law [OF s(2) f n \<open>0 \<le> pos\<close>]])
    apply (clarsimp simp only: wp_Some split_conv)
    apply (rule wp_transfer [unfolded wp_bind, OF s(1,4)])
    subgoal using c \<open>0 \<le> pos\<close> by (auto simp: int_ok_def Let_def split: if_splits)
    subgoal by auto
    done
qed

lemma vfs_write_file:
  assumes s: "vfs_idle s" "good (vfs_world s)" "F p = drv" "open_at s fd p i pos" and "0 \<le> pos"
    and f: "vol (vfs_world s) f = Some (i, c)" and n: "0 \<le> n" "nat n \<le> length buf"
  shows "wp (vfs_write F fd buf n s) (\<lambda>(r, s').
    \<exists>w. good w \<and> s' = vfs_then s fd
      \<lparr>of_filesystem = Some p, of_fileid = i, of_seek_position = pos + max r 0\<rparr> w \<and>
    (if int (length c) < pos then r = VFS_ERROR \<and> vol w = vol (vfs_world s)
     else let d = take (length c - nat pos) (take (nat n) buf) in
       r = int (length d) \<and> vol w = (vol (vfs_world s))(f \<mapsto> (i, overwrite c (nat pos) d))))"
proof -
  have e: "vfs_verify_open fd (s\<lparr>vfs_ops := vfs_ops s + 1\<rparr>) =
      Some (p, \<lparr>of_filesystem = Some p, of_fileid = i, of_seek_position = pos\<rparr>)"
    using s(4) by (simp add: open_at_def vfs_verify_open_def guard_def)
  note c = size_ok [OF s(2) f]
  have world: "vfs_world (s\<lparr>vfs_ops := x\<rparr>) = vfs_world s" for x
    by simp
  have "vfs_write F fd buf n s = do {
      (ret, s) \<leftarrow> on_world (fs_write drv i buf n pos) (s\<lparr>vfs_ops := vfs_ops s + 1\<rparr>);
      s \<leftarrow> vfs_advance fd ret s;
      s \<leftarrow> vfs_end_op s;
      Some (ret, s) }"
    using s(1,3) n(1) e
    by (simp add: vfs_write_def vfs_start_op_def op_P_def op_V_def sem_P_def sem_V_def vfs_idle_def guard_def)
  then show ?thesis
    apply (simp only: wp_bind wp_pair wp_on_world world)
    apply (rule wp_mono [OF write_law [OF s(2) f n \<open>0 \<le> pos\<close>]])
    apply (clarsimp simp only: wp_Some split_conv)
    apply (rule wp_transfer [unfolded wp_bind, OF s(1,4)])
    subgoal using c \<open>0 \<le> pos\<close> by (auto simp: int_ok_def Let_def split: if_splits)
    subgoal by auto
    done
qed

lemma vfs_open_file:
  assumes s: "vfs_idle s" "good (vfs_world s)" "F p = drv"
    and path: "terminated path" "path_parts (cstr path) = Some (v, f)" "f \<noteq> []"
    and p: "mounted s v = Some p" and k: "free_file s = Some k"
  shows "wp (vfs_open F path s) (\<lambda>(r, s'). \<exists>w. good w \<and> vol w = vol (vfs_world s) \<and>
    (case vol (vfs_world s) f of
       None \<Rightarrow> r = VFS_NOT_FOUND \<and> s' = s\<lparr>vfs_world := w\<rparr>
     | Some (i, c) \<Rightarrow> r = int k \<and>
         s' = vfs_then s (int k) \<lparr>of_filesystem = Some p, of_fileid = i, of_seek_position = 0\<rparr> w))"
proof -
  obtain vn fn where parse: "vfs_parse_pathname path (replicate 16 0) (replicate 16 0) = Some (VFS_OK, vn, fn)"
    and vn: "terminated vn" "cstr vn = v" and fn: "terminated fn" "cstr fn = f"
    using parse_pathname_wp [OF path(1), of "replicate 16 0" "replicate 16 0"] path(2)
    by (auto simp: wp_iff)
  note k' = free_fileD [OF k]
  have row: "(files s)[k := (files s ! k)\<lparr>of_filesystem := None\<rparr>] = files s"
    using k' by (metis (mono_tags, lifting) list_update_id openfile_entry.surjective openfile_entry.update_convs(1))
  note find = k [unfolded free_file_def] and fs = get_filesystem_eq [OF s(1) _ vn(1), unfolded vn(2) p]
  note law = open_law [OF s(2) fn(1), unfolded fn(2), OF path(3)]
  define s1 where "s1 = s\<lparr>vfs_ops := vfs_ops s + 1, files := (files s)[k := (files s ! k)\<lparr>of_filesystem := Some p\<rparr>]\<rparr>"
  have eq: "vfs_open F path s = do {
      (fileid, s) \<leftarrow> on_world (fs_open drv fn) s1;
      if fileid < 0 then do {
        s \<leftarrow> file_P s;
        s \<leftarrow> vfs_end_op (file_V (set_file_row k ((files s ! k)\<lparr>of_filesystem := None\<rparr>) s));
        Some (fileid, s)
      }
      else do {
        s \<leftarrow> vfs_end_op (set_file_row k ((files s ! k)\<lparr>of_fileid := fileid, of_seek_position := 0\<rparr>) s);
        Some (int k, s)
      } }"
  proof -
    define s0 where "s0 = s\<lparr>vfs_ops := vfs_ops s + 1\<rparr>"
    have start: "vfs_start_op s = Some (VFS_OK, s0)"
      using s(1) by (simp add: vfs_start_op_def op_P_def op_V_def sem_P_def sem_V_def vfs_idle_def s0_def)
    define s2 where "s2 = s0\<lparr>vfs_table_sem := vfs_table_sem s - 1, openfile_sem := openfile_sem s - 1\<rparr>"
    have locks: "table_P s0 = Some (s0\<lparr>vfs_table_sem := vfs_table_sem s - 1\<rparr>)"
      "file_P (s0\<lparr>vfs_table_sem := vfs_table_sem s - 1\<rparr>) = Some s2"
      using s(1) by (simp_all add: table_P_def file_P_def sem_P_def vfs_idle_def s0_def s2_def)
    have find: "List.find (\<lambda>i. of_filesystem (files s2 ! i) = None) [0..<MAX_OPEN_FILES] = Some k"
      using k by (simp add: free_file_def s2_def s0_def del: upt_rec_numeral)
    have fs: "vfs_get_filesystem vn s2 = Some (Some p)"
      using get_filesystem_eq [OF s(1) _ vn(1), of s2] p vn(2) by (simp add: s2_def s0_def)
    have unlock: "table_V (file_V (set_file_row k ((files s2 ! k)\<lparr>of_filesystem := Some p\<rparr>) s2)) = s1"
      by (simp add: table_V_def file_V_def set_file_row_def sem_V_def s1_def s2_def s0_def)
    show ?thesis
      unfolding vfs_open_def start Option.bind.simps split_conv parse locks find option.case fs Let_def unlock s(3)
      by simp
  qed
  have entry: "e\<lparr>of_filesystem := x, of_fileid := y, of_seek_position := z\<rparr> =
      \<lparr>of_filesystem = x, of_fileid = y, of_seek_position = z\<rparr>" for e x y z
    by (rule openfile_entry.equality) simp_all
  have world: "vfs_world s1 = vfs_world s"
    by (simp add: s1_def)
  show ?thesis
    unfolding eq wp_bind wp_pair wp_on_world world
  proof (rule wp_mono [OF law], clarsimp simp only: split_conv, goal_cases)
    case (1 r w)
    show ?case
    proof (cases "vol (vfs_world s) f")
      case None
      then show ?thesis
        using s(1) k' 1 by (auto simp: wp_simps s1_def vfs_idle_def file_V_def sem_V_def set_file_row_def row)
    next
      case (Some ic)
      obtain a b where ic: "ic = (a, b)" by (cases ic)
      have a: "0 \<le> a"
        using id_nonneg [OF s(2)] Some ic by blast
      have idle: "0 < vfs_op_sem s" "0 \<le> vfs_ops s" "vfs_usable s" "k < length (files s)"
        using s(1) k' by (simp_all add: vfs_idle_def)
      show ?thesis
        unfolding Some ic option.case split_conv
        using idle a 1 by (auto simp: wp_simps s1_def set_file_row_def vfs_then_def entry)
    qed
  qed
qed

lemma vfs_close_file:
  assumes s: "vfs_idle s" "good (vfs_world s)" "F p = drv" "open_at s fd p i pos"
  shows "wp (vfs_close F fd s) (\<lambda>(r, s'). r = VFS_OK \<and> (\<exists>w. good w \<and> vol w = vol (vfs_world s) \<and>
    s' = vfs_then s fd \<lparr>of_filesystem = None, of_fileid = i, of_seek_position = pos\<rparr> w))"
proof -
  have e: "vfs_verify_open fd (s\<lparr>vfs_ops := vfs_ops s + 1, openfile_sem := openfile_sem s - 1\<rparr>) =
      Some (p, \<lparr>of_filesystem = Some p, of_fileid = i, of_seek_position = pos\<rparr>)"
    and row: "files s ! nat fd = \<lparr>of_filesystem = Some p, of_fileid = i, of_seek_position = pos\<rparr>"
    using s(4) by (simp_all add: open_at_def vfs_verify_open_def guard_def)
  have "vfs_close F fd s = do {
      (ret, s) \<leftarrow> on_world (fs_close drv i) (s\<lparr>vfs_ops := vfs_ops s + 1, openfile_sem := openfile_sem s - 1\<rparr>);
      s \<leftarrow> vfs_end_op (file_V (set_file_row (nat fd) ((files s ! nat fd)\<lparr>of_filesystem := None\<rparr>) s));
      Some (ret, s) }"
    using s(1,3) e
    by (simp add: vfs_close_def vfs_start_op_def op_P_def op_V_def file_P_def sem_P_def sem_V_def vfs_idle_def Let_def)
  then show ?thesis
    using s(1)
    by (auto simp: wp_simps row vfs_idle_def file_V_def sem_V_def set_file_row_def vfs_then_def
        intro!: wp_mono [OF close_law [OF s(2)]])
qed

lemma vfs_seek_file:
  assumes s: "vfs_idle s" "open_at s fd p i pos" and q: "0 \<le> q"
  shows "vfs_seek fd q s = Some (VFS_OK,
    vfs_then s fd \<lparr>of_filesystem = Some p, of_fileid = i, of_seek_position = q\<rparr> (vfs_world s))"
proof -
  have e: "vfs_verify_open fd (s\<lparr>vfs_ops := vfs_ops s + 1, openfile_sem := openfile_sem s - 1\<rparr>) =
      Some (p, \<lparr>of_filesystem = Some p, of_fileid = i, of_seek_position = pos\<rparr>)"
    using s(2) by (simp add: open_at_def vfs_verify_open_def guard_def)
  have start: "vfs_start_op s = Some (VFS_OK, s\<lparr>vfs_ops := vfs_ops s + 1\<rparr>)"
    and lock: "file_P (s\<lparr>vfs_ops := vfs_ops s + 1\<rparr>) = Some (s\<lparr>vfs_ops := vfs_ops s + 1, openfile_sem := openfile_sem s - 1\<rparr>)"
    using s(1) by (simp_all add: vfs_start_op_def op_P_def op_V_def file_P_def sem_P_def sem_V_def vfs_idle_def)
  show ?thesis
    using s(1) q
    by (simp add: vfs_seek_def start lock e guard_def)
      (simp add: vfs_end_op_def op_P_def op_V_def file_V_def sem_P_def sem_V_def guard_def set_file_row_def
        vfs_then_def vfs_idle_def)
qed

text \<open>Opening a file, writing it from the start, seeking back, reading, closing.\<close>

lemma vfs_session:
  assumes s: "vfs_idle s" "good (vfs_world s)" "F p = drv"
    and path: "terminated path" "path_parts (cstr path) = Some (v, f)" "f \<noteq> []"
    and p: "mounted s v = Some p" and k: "free_file s = Some k"
    and f: "vol (vfs_world s) f = Some (i, c)"
    and n: "length data \<le> length c" "0 \<le> n" "nat n \<le> length buf"
  shows "wp (do {
      (fd, s) \<leftarrow> vfs_open F path s;
      (r1, s) \<leftarrow> vfs_write F fd data (int (length data)) s;
      (_, s) \<leftarrow> vfs_seek fd 0 s;
      (r2, b, s) \<leftarrow> vfs_read F fd buf n s;
      (_, s) \<leftarrow> vfs_close F fd s;
      Some (r1, r2, b, s) })
    (\<lambda>(r1, r2, b, s'). r1 = int (length data) \<and> r2 = min n (int (length c)) \<and>
      take (nat r2) b = take (nat n) (data @ drop (length data) c) \<and>
      vfs_idle s' \<and> good (vfs_world s') \<and> mounted s' v = Some p \<and> free_file s' = Some k \<and>
      vol (vfs_world s') = (vol (vfs_world s))(f \<mapsto> (i, data @ drop (length data) c)))"
  (is "wp _ ?Q")
proof -
  note k' = free_fileD [OF k]
  have fd: "0 \<le> int k" "int k < int MAX_OPEN_FILES"
    using k' by simp_all
  let ?e = "\<lambda>pos. \<lparr>of_filesystem = Some p, of_fileid = i, of_seek_position = pos\<rparr>"
  have twice: "vfs_then (vfs_then s' fd e w) fd e' w' = vfs_then s' fd e' w'" for s' :: "'w vfs" and fd e w e' w'
    by (simp add: vfs_then_def)
  have at: "open_at (vfs_then s (int k) (?e pos) w) (int k) p i pos" for pos w
    using s(1) k' by (simp add: open_at_def vfs_then_def vfs_idle_def)
  have idle: "vfs_idle (vfs_then s (int k) e w)" for e w
    using s(1) by simp
  let ?c = "data @ drop (length data) c"
  have len: "int (length (take (nat n) ?c)) = min n (int (length c))"
    using n(1,2) by simp
  have row: "files s ! k = \<lparr>of_filesystem = None, of_fileid = of_fileid (files s ! k), of_seek_position = of_seek_position (files s ! k)\<rparr>"
    using k' by (intro openfile_entry.equality) simp_all
  have fin: "?Q (int (length data), r2, b, vfs_then s (int k) \<lparr>of_filesystem = None, of_fileid = i, of_seek_position = q\<rparr> w)"
    if "good w" "vol w = (vol (vfs_world s))(f \<mapsto> (i, ?c))" "r2 = int (length (take (nat n) ?c))"
      "b = take (nat n) ?c @ drop (length (take (nat n) ?c)) buf" for r2 b q w
  proof -
    have "free_file (vfs_then s (int k) \<lparr>of_filesystem = None, of_fileid = i, of_seek_position = q\<rparr> w) = Some k"
    proof -
      have "of_filesystem ((files s)[k := \<lparr>of_filesystem = None, of_fileid = i, of_seek_position = q\<rparr>] ! j) = of_filesystem (files s ! j)" for j
        using k' s(1) by (cases "j = k") (auto simp: vfs_idle_def)
      then show ?thesis
        using k by (simp add: free_file_def vfs_then_def del: upt_rec_numeral)
    qed
    moreover have "take (nat r2) b = take (nat n) ?c"
    proof -
      have *: "take (length xs) (xs @ ys) = xs" for xs ys :: mem
        by simp
      show ?thesis
        unfolding that(3,4) nat_int by (rule *)
    qed
    moreover have "vfs_idle (vfs_then s (int k) \<lparr>of_filesystem = None, of_fileid = i, of_seek_position = q\<rparr> w)"
      by (rule idle)
    ultimately show ?thesis
      unfolding split_conv vfs_then_world mounted_then
      using that(1,2) p that(3) [unfolded len] by blast
  qed
  have close: "wp (vfs_close F (int k) (vfs_then s (int k) (?e pos) w)) (\<lambda>(_, s). ?Q (int (length data), r2, b, s))"
    if "good w" "vol w = (vol (vfs_world s))(f \<mapsto> (i, ?c))" "r2 = int (length (take (nat n) ?c))"
      "b = take (nat n) ?c @ drop (length (take (nat n) ?c)) buf" for r2 b pos w
  proof (rule wp_mono [OF vfs_close_file [where F = F and p = p and fd = "int k" and i = i and pos = pos and
        s = "vfs_then s (int k) (?e pos) w", OF idle _ s(3) at]], goal_cases)
    case 2
    then show ?case
      unfolding twice vfs_then_world by clarify (rule fin [unfolded split_conv], simp_all only: that)
  qed (simp_all only: that vfs_then_world)
  have read: "wp (vfs_read F (int k) buf n (vfs_then s (int k) (?e 0) w)) (\<lambda>(r2, b, s).
      wp (vfs_close F (int k) s) (\<lambda>(_, s). ?Q (int (length data), r2, b, s)))"
    if "good w" "vol w = (vol (vfs_world s))(f \<mapsto> (i, ?c))" for w
  proof (rule wp_mono [OF vfs_read_file [where F = F and p = p and fd = "int k" and i = i and pos = 0 and
        s = "vfs_then s (int k) (?e 0) w" and f = f and c = ?c, OF idle _ s(3) at]], goal_cases)
    case (6 x)
    have "\<not> int (length ?c) < 0" by simp
    then have nn: "(int (length ?c) < 0) = False" by blast
    show ?case
      using 6 unfolding twice vfs_then_world Let_def nn if_False nat_0 drop_0
      by clarify (rule close [unfolded split_conv], simp_all only: that)
  qed (simp_all add: that n fun_upd_apply)
  have wr_step: "wp (vfs_write F (int k) data (int (length data)) (vfs_then s (int k) (?e 0) w)) (\<lambda>(r1, s).
      r1 = int (length data) \<and> (\<exists>w pos. good w \<and> vol w = (vol (vfs_world s0))(f \<mapsto> (i, ?c)) \<and> s = vfs_then s0 (int k) (?e pos) w))"
    if "good w" "vol w = vol (vfs_world s)" "s0 = s" for w s0
  proof (rule wp_mono [OF vfs_write_file [where F = F and p = p and fd = "int k" and i = i and pos = 0 and
        s = "vfs_then s (int k) (?e 0) w" and f = f and c = c, OF idle _ s(3) at]], goal_cases)
    case (6 x)
    have "\<not> int (length c) < 0" by simp
    with 6 n(1) show ?case
      unfolding twice vfs_then_world Let_def that(3) by (auto simp: overwrite_def that(2))
  qed (simp_all add: that n f)
  show ?thesis
  proof (rule wp_bindI, rule wp_mono [OF vfs_open_file [where F = F and p = p, OF s path p k]], clarify, goal_cases)
    case (1 fd s1)
    then obtain w where w: "good w" "vol w = vol (vfs_world s)"
      and fd: "fd = int k" and s1: "s1 = vfs_then s (int k) (?e 0) w"
      by (simp only: f option.case split_conv; blast)
    show ?case
      unfolding fd s1
    proof (rule wp_bindI, rule wp_mono [OF wr_step [OF w refl]], clarify, goal_cases)
      case (1 r1 s2 w2 pos)
      have seek: "vfs_seek (int k) 0 (vfs_then s (int k) (?e pos) w2) = Some (VFS_OK, vfs_then s (int k) (?e 0) w2)"
        using vfs_seek_file [OF idle at order_refl, of pos w2] by (simp only: twice vfs_then_world)
      show ?case
        unfolding seek Option.bind.simps split_conv
      proof (rule wp_bindI, rule wp_mono [OF read [OF 1]], clarify, goal_cases)
        case (1 r2 b s3)
        then show ?case
          by (rule wp_bindI [OF wp_mono]) (clarify, simp only: wp_Some split_conv)
      qed
    qed
  qed
qed

end

section \<open>The Trivial Filesystem as a driver\<close>

text \<open>The struct that \<open>tfs_init\<close> fills in, over the state of the driver and the kernel's
  resources.\<close>

definition on_tfs :: "('s \<Rightarrow> (int \<times> 's) option) \<Rightarrow> 's \<times> kres \<Rightarrow> (int \<times> 's \<times> kres) option" where
  "on_tfs f = (\<lambda>(s, k). do { (r, s) \<leftarrow> f s; Some (r, (s, k)) })"

definition on_tfs_buf :: "('s \<Rightarrow> (int \<times> mem \<times> 's) option) \<Rightarrow> 's \<times> kres \<Rightarrow> (int \<times> mem \<times> 's \<times> kres) option" where
  "on_tfs_buf f = (\<lambda>(s, k). do { (r, b, s) \<leftarrow> f s; Some (r, b, (s, k)) })"

definition tfs_driver :: "'d gbd \<Rightarrow> mem \<Rightarrow> ('d tfs \<times> kres) fs_t" where
  "tfs_driver G volume_name = \<lparr>fs_volume_name = volume_name,
     fs_unmount = (\<lambda>(s, k). do { (r, k, d) \<leftarrow> tfs_unmount s k; Some (r, (s\<lparr>t_disk := d\<rparr>, k)) }),
     fs_open = (\<lambda>f. on_tfs (tfs_open G f)),
     fs_close = (\<lambda>i. on_tfs (tfs_close i)),
     fs_read = (\<lambda>i b n off. on_tfs_buf (tfs_read G i b n off)),
     fs_write = (\<lambda>i b n off. on_tfs (tfs_write G i b n off)),
     fs_create = (\<lambda>f n. on_tfs (tfs_create G f n)),
     fs_remove = (\<lambda>f. on_tfs (tfs_remove G f)),
     fs_getfree = on_tfs (tfs_getfree G),
     fs_filecount = (\<lambda>f. on_tfs (tfs_filecount G f)),
     fs_file = (\<lambda>f i b. on_tfs_buf (tfs_file G f i b)),
     fs_mkdir = (\<lambda>f. on_tfs (tfs_mkdir f)),
     fs_rmdir = (\<lambda>f. on_tfs (tfs_rmdir f))\<rparr>"

definition tfs_good :: "('d \<Rightarrow> bool) \<Rightarrow> ('d \<Rightarrow> content) \<Rightarrow> nat \<Rightarrow> 'd tfs \<times> kres \<Rightarrow> bool" where
  "tfs_good ready blk n = (\<lambda>(s, k). 0 < t_lock s \<and> unat (t_totalblocks s) \<le> n \<and>
     tfs_at ready blk (blk (t_disk s)) (t_totalblocks s) (t_lock s) s \<and>
     tfs_wf (blk (t_disk s)) (unat (t_totalblocks s)))"

definition tfs_volume :: "('d \<Rightarrow> content) \<Rightarrow> 'd tfs \<times> kres \<Rightarrow> mem \<rightharpoonup> int \<times> mem" where
  "tfs_volume blk = (\<lambda>(s, k) f. let D = blk (t_disk s) in
     map_option (\<lambda>i. (int (tfs_ino D i), tfs_content D i)) (tfs_find D f))"

lemma wp_on_tfs: "wp (on_tfs f (s, k)) Q = wp (f s) (\<lambda>(r, s). Q (r, (s, k)))"
  by (cases "f s") (auto simp: on_tfs_def)

lemma wp_on_tfs_buf: "wp (on_tfs_buf f (s, k)) Q = wp (f s) (\<lambda>(r, b, s). Q (r, b, (s, k)))"
  by (cases "f s") (auto simp: on_tfs_buf_def)

lemma tfs_goodD:
  assumes "tfs_good ready blk n (s, k)" and "D = blk (t_disk s)"
  shows "tfs_at ready blk D (t_totalblocks s) (t_lock s) s" "0 < t_lock s"
    "tfs_wf D (unat (t_totalblocks s))" "unat (t_totalblocks s) \<le> n"
  using assms by (simp_all add: tfs_good_def)

lemma tfs_goodI:
  "tfs_at ready blk D tb L s \<Longrightarrow> 0 < L \<Longrightarrow> tfs_wf D (unat tb) \<Longrightarrow> unat tb \<le> n \<Longrightarrow> tfs_good ready blk n (s, k)"
  by (auto simp: tfs_good_def tfs_at_def)

lemma tfs_at_volume: "tfs_at ready blk D tb L s \<Longrightarrow> tfs_volume blk (s, k) =
    (\<lambda>f. map_option (\<lambda>i. (int (tfs_ino D i), tfs_content D i)) (tfs_find D f))"
  by (auto simp: tfs_volume_def tfs_at_def Let_def)

lemma tfs_volume_Some:
  assumes "tfs_good ready blk n (s, k)" and "tfs_volume blk (s, k) f = Some (i, c)" and "D = blk (t_disk s)"
  obtains j where "j < MAX_FILES" "tfs_used D j" "tfs_name D j = f" "i = int (tfs_ino D j)" "c = tfs_content D j"
    "tfs_find D f = Some j"
  using assms tfs_find_Some [OF tfs_goodD(3) [OF assms(1) refl]]
  by (auto simp: tfs_volume_def Let_def)

context block_device
begin

lemma tfs_driver_open:
  assumes "tfs_good ready blk nblk w" and "terminated name" and "cstr name \<noteq> []"
  shows "wp (fs_open (tfs_driver G v) name w) (\<lambda>(r, w'). tfs_good ready blk nblk w' \<and> tfs_volume blk w' = tfs_volume blk w \<and>
    r = (case tfs_volume blk w (cstr name) of None \<Rightarrow> VFS_NOT_FOUND | Some (i, c) \<Rightarrow> i))"
proof -
  obtain s k where w: "w = (s, k)" by (cases w)
  note g = tfs_goodD [OF assms(1) [unfolded w] refl]
  show ?thesis
    unfolding w tfs_driver_def fs_t.simps wp_on_tfs
  proof (rule wp_mono [OF tfs_open_wp [OF g assms(2,3)]], clarify, goal_cases)
    case (1 r s')
    then show ?case
      using tfs_goodI [OF 1(1) g(2-4)]
      by (simp add: tfs_at_volume [OF 1(1)] tfs_at_volume [OF g(1)] split: option.split)
  qed
qed

lemma tfs_driver_read:
  assumes "tfs_good ready blk nblk w" and "tfs_volume blk w f = Some (i, c)"
    and "0 \<le> n" and "nat n \<le> length buf" and "0 \<le> off"
  shows "wp (fs_read (tfs_driver G v) i buf n off w) (\<lambda>(r, b, w'). tfs_good ready blk nblk w' \<and>
    tfs_volume blk w' = tfs_volume blk w \<and>
    (if int (length c) < off then r = VFS_ERROR \<and> b = buf
     else let d = take (nat n) (drop (nat off) c) in r = int (length d) \<and> b = d @ drop (length d) buf))"
proof -
  obtain s k where w: "w = (s, k)" by (cases w)
  note g = tfs_goodD [OF assms(1) [unfolded w] refl]
  from tfs_volume_Some [OF assms(1,2) [unfolded w] refl] obtain j
    where j: "j < MAX_FILES" "tfs_used (blk (t_disk s)) j"
      and i: "i = int (tfs_ino (blk (t_disk s)) j)" and c: "c = tfs_content (blk (t_disk s)) j"
    by metis
  have off: "off < 0 \<or> int (length c) < off \<longleftrightarrow> int (length c) < off"
    using assms(5) by auto
  show ?thesis
    unfolding w tfs_driver_def fs_t.simps wp_on_tfs_buf i
  proof (rule wp_mono [OF tfs_read_wp [OF g j assms(3,4)]], clarify, goal_cases)
    case (1 r b s')
    then show ?case
      using tfs_goodI [OF 1(1) g(2-4)] unfolding c [symmetric] off
      by (simp add: tfs_at_volume [OF 1(1)] tfs_at_volume [OF g(1)])
  qed
qed

lemma tfs_driver_write:
  assumes "tfs_good ready blk nblk w" and "tfs_volume blk w f = Some (i, c)"
    and "0 \<le> n" and "nat n \<le> length buf" and "0 \<le> off"
  shows "wp (fs_write (tfs_driver G v) i buf n off w) (\<lambda>(r, w'). tfs_good ready blk nblk w' \<and>
    (if int (length c) < off then r = VFS_ERROR \<and> tfs_volume blk w' = tfs_volume blk w
     else let d = take (length c - nat off) (take (nat n) buf) in
       r = int (length d) \<and> tfs_volume blk w' = (tfs_volume blk w)(f \<mapsto> (i, overwrite c (nat off) d))))"
proof -
  obtain s k where w: "w = (s, k)" by (cases w)
  note g = tfs_goodD [OF assms(1) [unfolded w] refl]
  from tfs_volume_Some [OF assms(1,2) [unfolded w] refl] obtain j
    where j: "j < MAX_FILES" "tfs_used (blk (t_disk s)) j"
      and f: "tfs_name (blk (t_disk s)) j = f" "tfs_find (blk (t_disk s)) f = Some j"
      and i: "i = int (tfs_ino (blk (t_disk s)) j)" and c: "c = tfs_content (blk (t_disk s)) j"
    by metis
  have upd: "tfs_good ready blk nblk (s', k) \<and> tfs_volume blk (s', k) = (tfs_volume blk (s, k))(f \<mapsto> (i, x))"
    if at: "tfs_at ready blk D' (t_totalblocks s) (t_lock s) s'"
      and u: "tfs_updated (blk (t_disk s)) (unat (t_totalblocks s)) j x D'" for s' D' x
  proof -
    have "tfs_volume blk (s', k) h = ((tfs_volume blk (s, k))(f \<mapsto> (i, x))) h" for h
    proof (cases "tfs_find (blk (t_disk s)) h")
      case None
      then show ?thesis
        using u f(2) by (auto simp: tfs_at_volume [OF at] tfs_at_volume [OF g(1)] tfs_updated_def)
    next
      case (Some a)
      then have a: "a < MAX_FILES" "tfs_used (blk (t_disk s)) a" "tfs_name (blk (t_disk s)) a = h"
        using tfs_find_Some [OF g(3), of h a] by simp_all
      show ?thesis
      proof (cases "a = j")
        case True
        then show ?thesis
          using u a(3) f by (simp add: tfs_at_volume [OF at] tfs_at_volume [OF g(1)] tfs_updated_def i)
      next
        case False
        then have "h \<noteq> f"
          using Some f(2) by auto
        then show ?thesis
          using u a False Some by (simp add: tfs_at_volume [OF at] tfs_at_volume [OF g(1)] tfs_updated_def)
      qed
    qed
    then show ?thesis
      using tfs_goodI [OF at g(2) _ g(4)] u by (auto simp: tfs_updated_def)
  qed
  show ?thesis
    unfolding w tfs_driver_def fs_t.simps wp_on_tfs
    unfolding i
  proof (rule wp_mono [OF tfs_write_wp [OF g j assms(3,4)]], clarify, goal_cases)
    case (1 r s')
    show ?case
    proof (cases "int (length c) < off")
      case True
      with 1 have at: "tfs_at ready blk (blk (t_disk s)) (t_totalblocks s) (t_lock s) s'" and "r = VFS_ERROR"
        by (simp_all add: c)
      then show ?thesis
        using True tfs_goodI [OF at g(2-4)] by (simp add: tfs_at_volume [OF at] tfs_at_volume [OF g(1)])
    next
      case False
      with 1 assms(5) show ?thesis
        using upd by (auto simp: Let_def c [symmetric] i)
    qed
  qed
qed

lemma tfs_volume_bounds:
  assumes "tfs_good ready blk nblk w" and "tfs_volume blk w f = Some (i, c)"
  shows "0 \<le> i" "int_ok (int (length c))"
proof -
  obtain s k where w: "w = (s, k)" by (cases w)
  from tfs_volume_Some [OF assms [unfolded w] refl] obtain j
    where j: "j < MAX_FILES" "tfs_used (blk (t_disk s)) j"
      and i: "i = int (tfs_ino (blk (t_disk s)) j)" and c: "c = tfs_content (blk (t_disk s)) j"
    by metis
  show "0 \<le> i"
    by (simp add: i)
  have "ino_size (blk (t_disk s) (tfs_ino (blk (t_disk s)) j)) \<le> 65024"
    using tfs_wfD [OF tfs_goodD(3) [OF assms(1) [unfolded w] refl]] j by (simp add: tfs_inode_ok_def)
  then show "int_ok (int (length c))"
    by (simp add: c tfs_content_def Let_def int_ok_def)
qed

end

sublocale block_device \<subseteq> tfs: file_driver "tfs_driver G v" "tfs_good ready blk nblk" "tfs_volume blk" for v
proof (unfold_locales, goal_cases)
  case (1 w f i c)
  then show ?case by (rule tfs_volume_bounds(1))
next
  case (2 w f i c)
  then show ?case by (rule tfs_volume_bounds(2))
next
  case (3 w name)
  then show ?case by (rule tfs_driver_open)
next
  case (4 w i)
  then show ?case
    by (cases w) (simp add: tfs_driver_def wp_on_tfs tfs_close_def)
next
  case (5 w f i c n buf off)
  then show ?case by (rule tfs_driver_read)
next
  case (6 w f i c n buf off)
  then show ?case by (rule tfs_driver_write)
qed

context block_device
begin

lemma tfs_driver_contract: "file_driver (tfs_driver G v) (tfs_good ready blk nblk) (tfs_volume blk)"
  by (rule tfs.file_driver_axioms)

end

end
