(* ===== verification/Vfs_Properties.thy ===== *)
theory Vfs_Properties
  imports Vfs_Driver
begin

text \<open>
  The properties of the virtual file system: path names, its locks, and a session on a file of
  the Trivial Filesystem on a disk.
\<close>

text \<open>Path names: \<open>vfs_parse_pathname\<close> splits \<open>[volume]file\<close> into its two parts, takes a name
  without brackets as a file of the volume without a name, writes both as terminated strings
  into their 16-byte buffers, and refuses every other string: a volume name longer than 14
  characters, a file name longer than 15, a missing bracket.\<close>

theorem vfs_pathname_parts:
  assumes "terminated path" and "length vol = 16" and "length fn = 16"
  shows "wp (vfs_parse_pathname path vol fn) (\<lambda>(r, vol', fn').
    case path_parts (cstr path) of
      None \<Rightarrow> r = VFS_ERROR
    | Some (v, f) \<Rightarrow> r = VFS_OK \<and> terminated vol' \<and> terminated fn' \<and> cstr vol' = v \<and> cstr fn' = f)"
  by (rule parse_pathname_wp [OF assms])

theorem vfs_pathname_parts_witness:
  "wp (vfs_parse_pathname [91, 100, 93, 97, 0] (replicate 16 9) (replicate 16 9))
    (\<lambda>(r, vol, fn). r = VFS_OK \<and> cstr vol = [100] \<and> cstr fn = [97])"
  by (rule wp_mono [OF vfs_pathname_parts]) (auto simp: path_parts_def)

text \<open>C36. Locks of the virtual file system: every operation that returns, on whatever arguments and
  with whatever drivers, leaves the semaphores, the count of operations in progress and the
  usable flag as it found them.\<close>

theorem vfs_locks_balanced:
  "wlp (vfs_mount fs name s) (\<lambda>(r, s'). vfs_sync s' = vfs_sync s) \<and>
   wlp (vfs_unmount F name s) (\<lambda>(r, s'). vfs_sync s' = vfs_sync s) \<and>
   wlp (vfs_open F path s) (\<lambda>(r, s'). vfs_sync s' = vfs_sync s) \<and>
   wlp (vfs_close F fd s) (\<lambda>(r, s'). vfs_sync s' = vfs_sync s) \<and>
   wlp (vfs_seek fd q s) (\<lambda>(r, s'). vfs_sync s' = vfs_sync s) \<and>
   wlp (vfs_read F fd buf n s) (\<lambda>(r, b, s'). vfs_sync s' = vfs_sync s) \<and>
   wlp (vfs_write F fd buf n s) (\<lambda>(r, s'). vfs_sync s' = vfs_sync s) \<and>
   wlp (vfs_create F path n s) (\<lambda>(r, s'). vfs_sync s' = vfs_sync s) \<and>
   wlp (vfs_remove F path s) (\<lambda>(r, s'). vfs_sync s' = vfs_sync s) \<and>
   wlp (vfs_getfree F name s) (\<lambda>(r, s'). vfs_sync s' = vfs_sync s) \<and>
   wlp (vfs_filecount F path s) (\<lambda>(r, s'). vfs_sync s' = vfs_sync s) \<and>
   wlp (vfs_file F path i buf s) (\<lambda>(r, b, s'). vfs_sync s' = vfs_sync s)"
  by (simp only: vfs_mount_sync vfs_unmount_sync vfs_open_sync vfs_close_sync vfs_seek_sync vfs_read_sync
      vfs_write_sync vfs_create_sync vfs_remove_sync vfs_getfree_sync vfs_filecount_sync vfs_file_sync simp_thms)

text \<open>C3. A session through all layers: on a consistent Trivial Filesystem volume, mounted over the
  disk driver, a program opens a file, writes a string that fits into it, seeks back to the
  start, reads into a buffer and closes the file.  All five calls return; the read returns what
  was written, followed by the old rest of the file; no other file of the volume changes, and
  the file table row is free again.\<close>

theorem vfs_session_correct:
  assumes "sector_hw H sectors nsect idle running irq"
    and "vfs_idle s" and "tfs_good (disk_ready idle) (disk_blk sectors) nsect (vfs_world s)"
    and "F p = tfs_driver (disk_gbd H) name" and "terminated path" and "path_parts (cstr path) = Some (v, f)"
    and "f \<noteq> []" and "mounted s v = Some p" and "free_file s = Some k"
    and "tfs_volume (disk_blk sectors) (vfs_world s) f = Some (i, c)"
    and "length data \<le> length c" and "0 \<le> n" and "nat n \<le> length buf"
  shows "wp (do {
      (fd, s) \<leftarrow> vfs_open F path s;
      (r1, s) \<leftarrow> vfs_write F fd data (int (length data)) s;
      (_, s) \<leftarrow> vfs_seek fd 0 s;
      (r2, b, s) \<leftarrow> vfs_read F fd buf n s;
      (_, s) \<leftarrow> vfs_close F fd s;
      Some (r1, r2, b, s) })
    (\<lambda>(r1, r2, b, s'). r1 = int (length data) \<and> r2 = min n (int (length c)) \<and>
      take (nat r2) b = take (nat n) (data @ drop (length data) c) \<and>
      vfs_idle s' \<and> tfs_good (disk_ready idle) (disk_blk sectors) nsect (vfs_world s') \<and>
      mounted s' v = Some p \<and> free_file s' = Some k \<and>
      tfs_volume (disk_blk sectors) (vfs_world s') =
        (tfs_volume (disk_blk sectors) (vfs_world s))(f \<mapsto> (i, data @ drop (length data) c)))"
  using assms(2-) by (rule file_driver.vfs_session [OF block_device.tfs_driver_contract [OF sector_hw.disk_device [OF assms(1)]]])

interpretation ram_tfs: file_driver "tfs_driver (disk_gbd ram_hw) v"
    "tfs_good (disk_ready (ram_ok n Ram_Idle)) (disk_blk ram_sect) n" "tfs_volume (disk_blk ram_sect)" for v n
  by (rule block_device.tfs_driver_contract [OF ram.disk_device])

text \<open>The one-file disk mounted as volume \<open>d\<close>.\<close>

definition one_file_mount :: "mem \<Rightarrow> (ram disk tfs \<times> kres) vfs" where
  "one_file_mount data = \<lparr>vfs_table_sem = 1,
     filesystems = \<lparr>ve_filesystem = Some 1, ve_mountpoint = [100, 0]\<rparr> # replicate 7 \<lparr>ve_filesystem = None, ve_mountpoint = [0]\<rparr>,
     openfile_sem = 1, files = replicate 512 \<lparr>of_filesystem = None, of_fileid = 0, of_seek_position = 0\<rparr>,
     vfs_op_sem = 1, vfs_unmount_sem = 0, vfs_ops = 0, vfs_usable = True,
     vfs_world = (one_file_tfs data, \<lparr>kr_sems = 0, kr_pages = 0, kr_page = []\<rparr>)\<rparr>"

lemma one_file_mount_ok:
  assumes "0 < length data" and "length data \<le> 512"
  shows "vfs_idle (one_file_mount data)"
    and "tfs_good (disk_ready (ram_ok 6 Ram_Idle)) (disk_blk ram_sect) 6 (vfs_world (one_file_mount data))"
    and "mounted (one_file_mount data) [100] = Some 1" and "free_file (one_file_mount data) = Some 0"
    and "tfs_volume (disk_blk ram_sect) (vfs_world (one_file_mount data)) [97] = Some (3, data)"
proof -
  have D: "disk_blk ram_sect (t_disk (one_file_tfs data)) = one_file data"
    and tb: "t_totalblocks (one_file_tfs data) = 6" "t_lock (one_file_tfs data) = 1"
    using one_file_at [OF assms] by (simp_all add: tfs_at_def)
  show "vfs_idle (one_file_mount data)"
    by (simp add: vfs_idle_def one_file_mount_def)
  show "tfs_good (disk_ready (ram_ok 6 Ram_Idle)) (disk_blk ram_sect) 6 (vfs_world (one_file_mount data))"
    using one_file_at [OF assms] one_file_wf [OF assms] by (simp add: one_file_mount_def tfs_good_def D tb)
  show "mounted (one_file_mount data) [100] = Some 1"
    by (simp add: mounted_def one_file_mount_def upt_rec [of 0] del: upt_rec_numeral)
  show "free_file (one_file_mount data) = Some 0"
    by (simp add: free_file_def one_file_mount_def upt_rec [of 0] del: upt_rec_numeral)
  show "tfs_volume (disk_blk ram_sect) (vfs_world (one_file_mount data)) [97] = Some (3, data)"
    using one_file_file [OF assms] one_file_inode(1) [of data] by (simp add: tfs_volume_def one_file_mount_def D)
qed

definition demo_mount :: "(ram disk tfs \<times> kres) vfs" where
  "demo_mount = one_file_mount [104, 105, 33]"

lemmas demo_mount_ok = one_file_mount_ok [of "[104, 105, 33]", folded demo_mount_def, simplified]

theorem vfs_session_correct_witness:
  "wp (do {
      (fd, s) \<leftarrow> vfs_open (\<lambda>_. tfs_driver (disk_gbd ram_hw) [0]) [91, 100, 93, 97, 0] demo_mount;
      (r1, s) \<leftarrow> vfs_write (\<lambda>_. tfs_driver (disk_gbd ram_hw) [0]) fd [72] (int (length [72 :: u8])) s;
      (_, s) \<leftarrow> vfs_seek fd 0 s;
      (r2, b, s) \<leftarrow> vfs_read (\<lambda>_. tfs_driver (disk_gbd ram_hw) [0]) fd [0, 0, 0, 0] 4 s;
      (_, s) \<leftarrow> vfs_close (\<lambda>_. tfs_driver (disk_gbd ram_hw) [0]) fd s;
      Some (r1, r2, b, s) })
    (\<lambda>(r1, r2, b, s'). r1 = 1 \<and> r2 = 3 \<and> take 3 b = [72, 105, 33])"
  by (rule wp_mono [OF vfs_session_correct [OF ram.sector_hw_axioms demo_mount_ok(1,2) refl _ _ _ demo_mount_ok(3-5)]])
    (auto simp: path_parts_def)

end
