(* ===== verification/Vfs_Shutdown.thy ===== *)
theory Vfs_Shutdown
  imports Vfs
begin

text \<open>
  The shutdown of the virtual file system while other threads are inside its operations: the
  calls of \<open>vfs_start_op\<close>, \<open>vfs_end_op\<close> and the parts of \<open>vfs_deinit\<close> in any order, as an
  inductive step relation with the invariant that ties the counter and the two semaphores to
  the threads.
\<close>

section \<open>Interleavings\<close>

text \<open>What the thread that halts the system does: nothing yet, waiting for the operations, unmounting,
  or done.\<close>

datatype phase = Running | Waiting | Unmounting | Stopped

text \<open>The fields the protocol uses.\<close>

definition op_state :: "'w vfs \<Rightarrow> int \<times> int \<times> int \<times> bool" where
  "op_state s = (vfs_op_sem s, vfs_unmount_sem s, vfs_ops s, vfs_usable s)"

text \<open>A state of the system: the tables, the number of threads inside an operation, and the phase.
  The body of an operation changes anything but the fields of the protocol.\<close>

inductive vfs_step :: "(fs_ptr \<Rightarrow> 'w fs_t) \<Rightarrow> 'w vfs \<times> nat \<times> phase \<Rightarrow> 'w vfs \<times> nat \<times> phase \<Rightarrow> bool" for F where
  enter: "vfs_start_op s = Some (VFS_OK, s') \<Longrightarrow> vfs_step F (s, n, ph) (s', Suc n, ph)"
| refused: "vfs_start_op s = Some (VFS_UNUSABLE, s') \<Longrightarrow> vfs_step F (s, n, ph) (s', n, ph)"
| body: "op_state s' = op_state s \<Longrightarrow> vfs_step F (s, Suc n, ph) (s', Suc n, ph)"
| leave: "vfs_end_op s = Some s' \<Longrightarrow> vfs_step F (s, Suc n, ph) (s', n, ph)"
| halt: "vfs_deinit_begin s = Some (b, s') \<Longrightarrow>
    vfs_step F (s, n, Running) (s', n, if b then Waiting else Unmounting)"
| resume: "vfs_deinit_resume s = Some s' \<Longrightarrow> vfs_step F (s, n, Waiting) (s', n, Unmounting)"
| unmount: "vfs_deinit_finish F s = Some s' \<Longrightarrow> vfs_step F (s, n, Unmounting) (s', n, Stopped)"

inductive_cases vfs_stepE: "vfs_step F (s, n, ph) t"

definition shutdown_inv :: "'w vfs \<times> nat \<times> phase \<Rightarrow> bool" where
  "shutdown_inv = (\<lambda>(s, n, ph). vfs_ops s = int n \<and> (vfs_usable s \<longleftrightarrow> ph = Running) \<and>
     vfs_op_sem s = of_bool (ph \<noteq> Unmounting) \<and> vfs_unmount_sem s = of_bool (ph = Waiting \<and> n = 0) \<and>
     (ph = Unmounting \<or> ph = Stopped \<longrightarrow> n = 0))"

lemma unmount_rows_op_state: "wlp (vfs_unmount_rows F rows s) (\<lambda>s'. op_state s' = op_state s)"
proof (induction rows arbitrary: s)
  case (Cons row rows)
  have "op_state (set_fs_row row None (s\<lparr>vfs_world := w\<rparr>)) = op_state s" for w
    by (simp add: op_state_def set_fs_row_def)
  then show ?case
    using Cons.IH by (auto simp: wp_simps split: option.split intro!: wlp_on_world wlp_mono [OF Cons.IH])
qed simp

lemma deinit_finish_op_state:
  assumes "vfs_deinit_finish F s = Some s'"
  shows "op_state s' = (vfs_op_sem s + 1, vfs_unmount_sem s, vfs_ops s, vfs_usable s)"
proof -
  have "wlp (vfs_deinit_finish F s) (\<lambda>s'. op_state s' = (vfs_op_sem s + 1, vfs_unmount_sem s, vfs_ops s, vfs_usable s))"
    unfolding vfs_deinit_finish_def
    by (auto simp: wp_simps op_V_def table_V_def file_V_def sem_V_def op_state_def
        intro!: wlp_mono [OF unmount_rows_op_state])
  then show ?thesis
    using assms by simp
qed

lemma vfs_step_inv:
  assumes "vfs_step F x y" and "shutdown_inv x"
  shows "shutdown_inv y"
  using assms
proof (cases rule: vfs_step.cases)
  case (unmount s s' n)
  then show ?thesis
    using deinit_finish_op_state [OF unmount(3)] assms(2) by (auto simp: shutdown_inv_def op_state_def)
next
  case (leave s s' n ph)
  then show ?thesis
    using assms(2)
    by (cases ph) (auto simp: shutdown_inv_def vfs_end_op_def op_P_def op_V_def sem_P_def sem_V_def
        guard_def Let_def split: if_splits bind_splits)
qed (auto simp: shutdown_inv_def op_state_def vfs_start_op_def vfs_end_op_def vfs_deinit_begin_def
    vfs_deinit_resume_def op_P_def op_V_def sem_P_def sem_V_def guard_def Let_def
    split: if_splits bind_splits)

lemma vfs_reachable_inv:
  assumes "(vfs_step F)\<^sup>*\<^sup>* (s0, 0, Running) x" and "vfs_init sems s = Some s0"
  shows "shutdown_inv x"
  using assms(1)
proof (induction rule: rtranclp_induct)
  case base
  show ?case
    using assms(2) by (auto simp: vfs_init_def guard_def shutdown_inv_def split: if_splits)
next
  case (step y z)
  then show ?case
    using vfs_step_inv by blast
qed

section \<open>Properties\<close>

text \<open>C6. The shutdown is safe and is not lost: from \<open>vfs_init\<close> on, whatever the order in which
  threads enter and leave operations and the system is halted, the file systems are unmounted
  only when no thread is inside an operation and none can enter one any more; the assertions
  of \<open>vfs_end_op\<close> and \<open>vfs_deinit\<close> never fail and no thread waits in \<open>vfs_end_op\<close>; and when the
  last operation is over, the waiting \<open>vfs_deinit\<close> is always woken.\<close>

theorem vfs_shutdown_safe:
  assumes "vfs_init sems s0 = Some s1" and "(vfs_step F)\<^sup>*\<^sup>* (s1, 0, Running) (s, n, ph)"
  shows "(ph = Unmounting \<or> ph = Stopped \<longrightarrow> n = 0) \<and>
    (ph \<noteq> Running \<longrightarrow> (\<forall>s'. vfs_start_op s \<noteq> Some (VFS_OK, s'))) \<and>
    (ph \<noteq> Unmounting \<and> 0 < n \<longrightarrow> vfs_end_op s \<noteq> None) \<and>
    (ph = Waiting \<longrightarrow> (vfs_deinit_resume s \<noteq> None \<longleftrightarrow> n = 0))"
  using vfs_reachable_inv [OF assms(2,1)]
  by (auto simp: shutdown_inv_def vfs_start_op_def vfs_end_op_def vfs_deinit_resume_def
      op_P_def op_V_def sem_P_def sem_V_def guard_def Let_def split: if_splits)

definition demo_vfs :: "unit vfs" where
  "demo_vfs = \<lparr>vfs_table_sem = 1, filesystems = [], openfile_sem = 1, files = [], vfs_op_sem = 1,
     vfs_unmount_sem = 0, vfs_ops = 0, vfs_usable = True, vfs_world = ()\<rparr>"

theorem vfs_shutdown_safe_witness:
  "vfs_deinit_resume (demo_vfs\<lparr>vfs_usable := False, vfs_unmount_sem := 1\<rparr>) \<noteq> None"
proof -
  let ?s1 = "demo_vfs\<lparr>vfs_ops := 1\<rparr>" and ?s2 = "demo_vfs\<lparr>vfs_ops := 1, vfs_usable := False\<rparr>"
  let ?s3 = "demo_vfs\<lparr>vfs_usable := False, vfs_unmount_sem := 1\<rparr>"
  have init: "vfs_init 4 demo_vfs = Some demo_vfs"
    by (simp add: vfs_init_def guard_def demo_vfs_def)
  have "vfs_step (\<lambda>_. undefined) (demo_vfs, 0, Running) (?s1, Suc 0, Running)"
    by (rule vfs_step.enter)
      (simp add: vfs_start_op_def op_P_def op_V_def sem_P_def sem_V_def demo_vfs_def)
  moreover have "vfs_step (\<lambda>_. undefined) (?s1, Suc 0, Running) (?s2, Suc 0, if True then Waiting else Unmounting)"
    by (rule vfs_step.halt)
      (simp add: vfs_deinit_begin_def op_P_def op_V_def sem_P_def sem_V_def demo_vfs_def)
  moreover have "vfs_step (\<lambda>_. undefined) (?s2, Suc 0, Waiting) (?s3, 0, Waiting)"
    by (rule vfs_step.leave)
      (simp add: vfs_end_op_def op_P_def op_V_def sem_P_def sem_V_def guard_def demo_vfs_def)
  ultimately have "(vfs_step (\<lambda>_. undefined))\<^sup>*\<^sup>* (demo_vfs, 0, Running) (?s3, 0, Waiting)"
    by (simp add: converse_rtranclp_into_rtranclp)
  from vfs_shutdown_safe [OF init this] show ?thesis
    by simp
qed

end
