(* ===== verification/Thread.thy ===== *)
theory Thread
  imports Buenos_Prelude
begin

text \<open>
  Threads and the scheduler, \<open>kernel/thread.c\<close> and \<open>kernel/scheduler.c\<close>.  The state is that of
  the file-scope variables: the thread table, the ready queue threaded through its \<open>next\<close>
  fields, the thread that runs on each processor, the sleep queue heads (\<open>kernel/sleepq.c\<close>)
  and the contexts on the kernel stacks, found by their address.  Every operation holds
  \<open>thread_table_slock\<close> with interrupts disabled, so it is one step.  A failed assertion and an index
  outside a table end in \<^term>\<open>None\<close>.
\<close>

abbreviation (input) MAX_THREADS :: nat where "MAX_THREADS \<equiv> 32"
abbreviation (input) MAX_CPUS :: nat where "MAX_CPUS \<equiv> 4"
abbreviation (input) STACKSIZE :: u32 where "STACKSIZE \<equiv> 4096"
abbreviation (input) IDLE_THREAD_TID :: int where "IDLE_THREAD_TID \<equiv> 0"
abbreviation (input) SCHEDULER_TIMESLICE :: u32 where "SCHEDULER_TIMESLICE \<equiv> 750"
abbreviation (input) SIZEOF_CONTEXT :: u32 where "SIZEOF_CONTEXT \<equiv> 136"
abbreviation (input) REGISTER_A0 :: nat where "REGISTER_A0 \<equiv> 3"
abbreviation (input) REGISTER_SP :: nat where "REGISTER_SP \<equiv> 26"
abbreviation (input) REGISTER_RA :: nat where "REGISTER_RA \<equiv> 28"
abbreviation (input) INTERRUPT_MASK_ALL :: u32 where "INTERRUPT_MASK_ALL \<equiv> 0xff00"
abbreviation (input) INTERRUPT_MASK_MASTER :: u32 where "INTERRUPT_MASK_MASTER \<equiv> 1"
abbreviation (input) USERLAND_ENABLE_BIT :: u32 where "USERLAND_ENABLE_BIT \<equiv> 0x10"

datatype thread_state =
  Thread_Free | Thread_Running | Thread_Ready | Thread_Sleeping | Thread_Nonready | Thread_Dying

record cpu_context =
  cpu_regs :: "u32 list"
  c_hi :: u32
  c_lo :: u32
  c_pc :: u32
  c_status :: u32
  c_prev_context :: u32

record thread =
  t_context :: u32
  t_user_context :: u32
  t_state :: thread_state
  t_sleeps_on :: u32
  t_pagetable :: u32
  t_process_id :: int
  t_next :: int

record kernel =
  thread_table :: "thread list"
  ready_head :: int
  ready_tail :: int
  current_thread :: "int list"
  sleepq_table :: "int list"
  contexts :: "u32 \<Rightarrow> cpu_context"
  next_tid :: int

definition get_thread :: "int \<Rightarrow> kernel \<Rightarrow> thread option" where
  "get_thread t k = (if 0 \<le> t \<and> nat t < length (thread_table k) then Some (thread_table k ! nat t) else None)"

definition upd_thread :: "int \<Rightarrow> (thread \<Rightarrow> thread) \<Rightarrow> kernel \<Rightarrow> kernel option" where
  "upd_thread t f k =
     (if 0 \<le> t \<and> nat t < length (thread_table k)
      then Some (k\<lparr>thread_table := (thread_table k)[nat t := f (thread_table k ! nat t)]\<rparr>) else None)"

definition current_on :: "nat \<Rightarrow> kernel \<Rightarrow> int option" where
  "current_on cpu k = (if cpu < length (current_thread k) then Some (current_thread k ! cpu) else None)"

section \<open>The scheduler\<close>

definition scheduler_init :: "kernel \<Rightarrow> kernel" where
  "scheduler_init k = k\<lparr>current_thread := map (\<lambda>_. 0) (current_thread k)\<rparr>"

definition scheduler_add_to_ready_list :: "int \<Rightarrow> kernel \<Rightarrow> kernel option" where
  "scheduler_add_to_ready_list t k = do {
     guard (t \<noteq> IDLE_THREAD_TID);
     guard (t \<ge> 0 \<and> t < int MAX_THREADS);
     if ready_tail k < 0 then
       upd_thread t (t_next_update (\<lambda>_. - 1)) (k\<lparr>ready_head := t, ready_tail := t\<rparr>)
     else do {
       k \<leftarrow> upd_thread (ready_tail k) (t_next_update (\<lambda>_. t)) k;
       k \<leftarrow> upd_thread t (t_next_update (\<lambda>_. - 1)) k;
       Some (k\<lparr>ready_tail := t\<rparr>)
     }
   }"

definition scheduler_remove_first_ready :: "kernel \<Rightarrow> (int \<times> kernel) option" where
  "scheduler_remove_first_ready k =
     (let t = ready_head k in do {
        guard (t \<noteq> IDLE_THREAD_TID);
        if t \<ge> 0 then do {
          e \<leftarrow> get_thread t k;
          guard (t_state e = Thread_Ready);
          Some (t, k\<lparr>ready_tail := (if ready_tail k = t then - 1 else ready_tail k), ready_head := t_next e\<rparr>)
        }
        else Some (IDLE_THREAD_TID, k)
      })"

definition scheduler_add_ready :: "int \<Rightarrow> kernel \<Rightarrow> kernel option" where
  "scheduler_add_ready t k = do {
     k \<leftarrow> scheduler_add_to_ready_list t k;
     upd_thread t (t_state_update (\<lambda>_. Thread_Ready)) k
   }"

text \<open>
  \<open>rnd\<close> is the value of \<open>_get_rand\<close>; the second component of the result is the argument of
  \<open>timer_set_ticks\<close>.
\<close>

definition scheduler_schedule :: "nat \<Rightarrow> u32 \<Rightarrow> kernel \<Rightarrow> (kernel \<times> u32) option" where
  "scheduler_schedule this_cpu rnd k = do {
     cur \<leftarrow> current_on this_cpu k;
     e \<leftarrow> get_thread cur k;
     k \<leftarrow> (if t_state e = Thread_Dying then upd_thread cur (t_state_update (\<lambda>_. Thread_Free)) k
          else if t_sleeps_on e \<noteq> 0 then upd_thread cur (t_state_update (\<lambda>_. Thread_Sleeping)) k
          else do {
            k \<leftarrow> (if cur \<noteq> IDLE_THREAD_TID then scheduler_add_to_ready_list cur k else Some k);
            upd_thread cur (t_state_update (\<lambda>_. Thread_Ready)) k
          });
     (t, k) \<leftarrow> scheduler_remove_first_ready k;
     k \<leftarrow> upd_thread t (t_state_update (\<lambda>_. Thread_Running)) k;
     Some (k\<lparr>current_thread := (current_thread k)[this_cpu := t]\<rparr>, rnd + SCHEDULER_TIMESLICE div 2)
   }"

section \<open>Threads\<close>

text \<open>
  \<open>stacks\<close>, \<open>idle_loop\<close> and \<open>finish\<close> are the addresses of \<open>thread_stack_areas\<close>,
  \<open>_idle_thread_wait_loop\<close> and \<open>thread_finish\<close>, which the linker chooses.
\<close>

definition stack_context :: "u32 \<Rightarrow> nat \<Rightarrow> u32" where
  "stack_context stacks i = stacks + STACKSIZE * of_nat i + STACKSIZE - SIZEOF_CONTEXT"

definition thread_table_init :: "u32 \<Rightarrow> u32 \<Rightarrow> kernel \<Rightarrow> kernel" where
  "thread_table_init stacks idle_loop k =
     (let table = map (\<lambda>i. \<lparr>t_context = stack_context stacks i, t_user_context = 0,
            t_state = (if i = 0 then Thread_Ready else Thread_Free), t_sleeps_on = 0,
            t_pagetable = 0, t_process_id = - 1, t_next = - 1\<rparr>) [0..<MAX_THREADS];
          p = stack_context stacks 0; c = contexts k p
      in k\<lparr>thread_table := table,
           contexts := (contexts k)(p := c\<lparr>
             cpu_regs := (cpu_regs c)[REGISTER_SP := stacks + STACKSIZE - 4 - SIZEOF_CONTEXT],
             c_pc := idle_loop, c_status := INTERRUPT_MASK_ALL OR INTERRUPT_MASK_MASTER,
             c_prev_context := p\<rparr>)\<rparr>)"

text \<open>The search for a free entry, over the values of \<open>i\<close>.\<close>

fun find_free_thread :: "nat list \<Rightarrow> kernel \<Rightarrow> int option option" where
  "find_free_thread [] k = Some None"
| "find_free_thread (i # is) k =
     (let t = cmod (int i + next_tid k) (int MAX_THREADS) in
        if t = IDLE_THREAD_TID then find_free_thread is k
        else do {
          e \<leftarrow> get_thread t k;
          if t_state e = Thread_Free then Some (Some t) else find_free_thread is k
        })"

definition thread_create :: "u32 \<Rightarrow> u32 \<Rightarrow> u32 \<Rightarrow> u32 \<Rightarrow> kernel \<Rightarrow> (int \<times> kernel) option" where
  "thread_create stacks finish func arg k = do {
     r \<leftarrow> find_free_thread [0..<MAX_THREADS] k;
     case r of
       None \<Rightarrow> Some (- 1, k)
     | Some tid \<Rightarrow>
         let k = k\<lparr>next_tid := cmod (tid + 1) (int MAX_THREADS)\<rparr>;
             p = stack_context stacks (nat tid);
             sp = stacks + STACKSIZE * word_of_int tid + STACKSIZE - 4 - SIZEOF_CONTEXT in do {
           k \<leftarrow> upd_thread tid (\<lambda>e. e\<lparr>t_state := Thread_Nonready, t_context := p, t_user_context := 0,
             t_pagetable := 0, t_sleeps_on := 0, t_process_id := - 1, t_next := - 1\<rparr>) k;
           Some (tid, k\<lparr>contexts := (contexts k)(p :=
             \<lparr>cpu_regs = (replicate 29 0)[REGISTER_RA := finish, REGISTER_A0 := arg, REGISTER_SP := sp - 4],
              c_hi = 0, c_lo = 0, c_pc = func, c_status = INTERRUPT_MASK_ALL OR INTERRUPT_MASK_MASTER,
              c_prev_context = p\<rparr>)\<rparr>)
         }
   }"

definition thread_run :: "int \<Rightarrow> kernel \<Rightarrow> kernel option" where
  "thread_run t k = scheduler_add_ready t k"

text \<open>The software interrupt that \<open>thread_switch\<close> raises runs the scheduler.\<close>

definition thread_switch :: "nat \<Rightarrow> u32 \<Rightarrow> kernel \<Rightarrow> kernel option" where
  "thread_switch cpu rnd k = do { (k, _) \<leftarrow> scheduler_schedule cpu rnd k; Some k }"

definition thread_get_current_thread :: "nat \<Rightarrow> kernel \<Rightarrow> int option" where
  "thread_get_current_thread cpu k = current_on cpu k"

definition thread_get_current_thread_entry :: "nat \<Rightarrow> kernel \<Rightarrow> thread option" where
  "thread_get_current_thread_entry cpu k = do { t \<leftarrow> current_on cpu k; get_thread t k }"

definition thread_goto_userland :: "cpu_context \<Rightarrow> cpu_context" where
  "thread_goto_userland c =
     c\<lparr>c_status := ((c_status c OR USERLAND_ENABLE_BIT) OR INTERRUPT_MASK_ALL) OR INTERRUPT_MASK_MASTER\<rparr>"

text \<open>Up to the software interrupt, after which the thread does not run again.\<close>

definition thread_finish :: "nat \<Rightarrow> kernel \<Rightarrow> kernel option" where
  "thread_finish cpu k = do {
     my_tid \<leftarrow> current_on cpu k;
     e \<leftarrow> get_thread my_tid k;
     guard (t_pagetable e = 0);
     upd_thread my_tid (t_state_update (\<lambda>_. Thread_Dying)) k
   }"

end
