(* ===== verification/Sleepq.thy ===== *)
theory Sleepq
  imports Thread
begin

text \<open>
  The sleep queue, \<open>kernel/sleepq.c\<close>, and semaphores, \<open>kernel/semaphore.c\<close>.  A slot of the hash
  table holds the first thread of a list through the \<open>next\<close> fields; threads that wait for
  different resources may share a slot.  A resource is its address.
\<close>

abbreviation (input) SLEEPQ_HASHTABLE_SIZE :: nat where "SLEEPQ_HASHTABLE_SIZE \<equiv> 127"
abbreviation (input) MAX_SEMAPHORES :: nat where "MAX_SEMAPHORES \<equiv> 128"

definition sleepq_init :: "kernel \<Rightarrow> kernel" where
  "sleepq_init k = k\<lparr>sleepq_table := replicate SLEEPQ_HASHTABLE_SIZE (- 1)\<rparr>"

definition SLEEPQ_HASH :: "u32 \<Rightarrow> nat" where
  "SLEEPQ_HASH res = unat (res mod 127)"

definition get_slot :: "nat \<Rightarrow> kernel \<Rightarrow> int option" where
  "get_slot h k = (if h < length (sleepq_table k) then Some (sleepq_table k ! h) else None)"

definition set_slot :: "nat \<Rightarrow> int \<Rightarrow> kernel \<Rightarrow> kernel" where
  "set_slot h t k = k\<lparr>sleepq_table := (sleepq_table k)[h := t]\<rparr>"

text \<open>The walk to the end of a list; it would not end on a cyclic one.\<close>

partial_function (option) sleepq_last :: "int \<Rightarrow> kernel \<Rightarrow> int option" where
  "sleepq_last prev k = Option.bind (get_thread prev k)
     (\<lambda>e. if t_next e > 0 then sleepq_last (t_next e) k else Some prev)"

definition sleepq_add :: "nat \<Rightarrow> u32 \<Rightarrow> kernel \<Rightarrow> kernel option" where
  "sleepq_add cpu resource k = do {
     my_tid \<leftarrow> current_on cpu k;
     k \<leftarrow> upd_thread my_tid (\<lambda>e. e\<lparr>t_next := - 1, t_sleeps_on := resource\<rparr>) k;
     guard (my_tid \<noteq> IDLE_THREAD_TID);
     first \<leftarrow> get_slot (SLEEPQ_HASH resource) k;
     if first \<le> 0 then Some (set_slot (SLEEPQ_HASH resource) my_tid k)
     else do {
       prev \<leftarrow> sleepq_last first k;
       upd_thread prev (t_next_update (\<lambda>_. my_tid)) k
     }
   }"

text \<open>
  The search for the first thread that waits for \<open>resource\<close>: the final values of \<open>prev\<close> and
  \<open>first\<close>.
\<close>

partial_function (option) sleepq_find :: "u32 \<Rightarrow> int \<Rightarrow> int \<Rightarrow> kernel \<Rightarrow> (int \<times> int) option" where
  "sleepq_find resource prev first k =
     (if first > 0 then Option.bind (get_thread first k)
        (\<lambda>e. if t_sleeps_on e \<noteq> resource then sleepq_find resource first (t_next e) k else Some (prev, first))
      else Some (prev, first))"

text \<open>Taking \<open>first\<close>, the successor of \<open>prev\<close>, out of its list, and making it ready.\<close>

definition sleepq_unlink :: "nat \<Rightarrow> int \<Rightarrow> int \<Rightarrow> kernel \<Rightarrow> kernel option" where
  "sleepq_unlink h prev first k = do {
     e \<leftarrow> get_thread first k;
     if prev \<le> 0 then Some (set_slot h (t_next e) k)
     else upd_thread prev (t_next_update (\<lambda>_. t_next e)) k
   }"

definition sleepq_ready :: "int \<Rightarrow> kernel \<Rightarrow> kernel option" where
  "sleepq_ready first k = do {
     k \<leftarrow> upd_thread first (\<lambda>e. e\<lparr>t_sleeps_on := 0, t_next := - 1\<rparr>) k;
     e \<leftarrow> get_thread first k;
     if t_state e = Thread_Sleeping then do {
       k \<leftarrow> upd_thread first (t_state_update (\<lambda>_. Thread_Ready)) k;
       scheduler_add_to_ready_list first k
     }
     else Some k
   }"

definition sleepq_wake :: "u32 \<Rightarrow> kernel \<Rightarrow> kernel option" where
  "sleepq_wake resource k = do {
     head \<leftarrow> get_slot (SLEEPQ_HASH resource) k;
     (prev, first) \<leftarrow> sleepq_find resource (- 1) head k;
     if first > 0 then do {
       k \<leftarrow> sleepq_unlink (SLEEPQ_HASH resource) prev first k;
       sleepq_ready first k
     }
     else Some k
   }"

text \<open>The loop of \<open>sleepq_wake_all\<close> goes on behind the thread it woke.\<close>

partial_function (option) sleepq_wake_loop :: "u32 \<Rightarrow> int \<Rightarrow> int \<Rightarrow> kernel \<Rightarrow> kernel option" where
  "sleepq_wake_loop resource prev first k =
     (if first > 0 then
        Option.bind (sleepq_find resource prev first k) (\<lambda>(prev, wake).
          if wake > 0 then
            Option.bind (get_thread wake k) (\<lambda>e.
            Option.bind (sleepq_unlink (SLEEPQ_HASH resource) prev wake k) (\<lambda>k.
            Option.bind (sleepq_ready wake k) (\<lambda>k.
              sleepq_wake_loop resource prev (t_next e) k)))
          else Some k)
      else Some k)"

definition sleepq_wake_all :: "u32 \<Rightarrow> kernel \<Rightarrow> kernel option" where
  "sleepq_wake_all resource k = do {
     head \<leftarrow> get_slot (SLEEPQ_HASH resource) k;
     sleepq_wake_loop resource (- 1) head k
   }"

section \<open>Semaphores\<close>

record semaphore =
  sem_value :: int
  sem_creator :: int

text \<open>The table, with the address of its first entry, and the rotating index of the search.\<close>

record sems =
  semaphore_table :: "semaphore list"
  sem_base :: u32
  sem_next :: nat

definition sem_addr :: "sems \<Rightarrow> nat \<Rightarrow> u32" where
  "sem_addr s i = sem_base s + 12 * of_nat i"

definition semaphore_init :: "sems \<Rightarrow> sems" where
  "semaphore_init s = s\<lparr>semaphore_table := map (sem_creator_update (\<lambda>_. - 1)) (semaphore_table s)\<rparr>"

fun find_free_sem :: "nat list \<Rightarrow> sems \<Rightarrow> nat option \<times> sems" where
  "find_free_sem [] s = (None, s)"
| "find_free_sem (i # is) s =
     (let sem_id = sem_next s; s = s\<lparr>sem_next := (sem_next s + 1) mod MAX_SEMAPHORES\<rparr> in
        if sem_creator (semaphore_table s ! sem_id) = - 1 then (Some sem_id, s) else find_free_sem is s)"

definition semaphore_create :: "nat \<Rightarrow> int \<Rightarrow> kernel \<Rightarrow> sems \<Rightarrow> (nat option \<times> sems) option" where
  "semaphore_create cpu value k s = do {
     guard (value \<ge> 0);
     me \<leftarrow> thread_get_current_thread cpu k;
     case find_free_sem [0..<MAX_SEMAPHORES] s of
       (None, s) \<Rightarrow> Some (None, s)
     | (Some i, s) \<Rightarrow>
         Some (Some i, s\<lparr>semaphore_table := (semaphore_table s)[i := \<lparr>sem_value = value, sem_creator = me\<rparr>]\<rparr>)
   }"

definition semaphore_destroy :: "nat \<Rightarrow> sems \<Rightarrow> sems" where
  "semaphore_destroy i s =
     s\<lparr>semaphore_table := (semaphore_table s)[i := (semaphore_table s ! i)\<lparr>sem_creator := - 1\<rparr>]\<rparr>"

definition set_sem_value :: "nat \<Rightarrow> int \<Rightarrow> sems \<Rightarrow> sems" where
  "set_sem_value i v s =
     s\<lparr>semaphore_table := (semaphore_table s)[i := (semaphore_table s ! i)\<lparr>sem_value := v\<rparr>]\<rparr>"

text \<open>
  \<open>semaphore_P\<close> up to \<open>thread_switch\<close>: the flag says whether the caller has to switch.  The
  lock of the semaphore and disabled interrupts make it one step.
\<close>

definition semaphore_P :: "nat \<Rightarrow> nat \<Rightarrow> sems \<times> kernel \<Rightarrow> (bool \<times> sems \<times> kernel) option" where
  "semaphore_P cpu i = (\<lambda>(s, k). do {
     v \<leftarrow> ck (sem_value (semaphore_table s ! i) - 1);
     let s = set_sem_value i v s in
       if v < 0 then do { k \<leftarrow> sleepq_add cpu (sem_addr s i) k; Some (True, s, k) }
       else Some (False, s, k)
   })"

definition semaphore_V :: "nat \<Rightarrow> sems \<times> kernel \<Rightarrow> (sems \<times> kernel) option" where
  "semaphore_V i = (\<lambda>(s, k). do {
     v \<leftarrow> ck (sem_value (semaphore_table s ! i) + 1);
     let s = set_sem_value i v s in
       if v \<le> 0 then do { k \<leftarrow> sleepq_wake (sem_addr s i) k; Some (s, k) }
       else Some (s, k)
   })"

end
