(* ===== verification/Thread_Lists.thy ===== *)
theory Thread_Lists
  imports Sleepq
begin

text \<open>
  The linked lists through the \<open>next\<close> fields of the thread table, the queue of ready threads,
  and the contract of a first-in-first-out queue, which the scheduler fulfils.
\<close>

section \<open>Lists through the thread table\<close>

text \<open>\<open>seg ts h xs e\<close>: following \<open>next\<close> from \<open>h\<close> visits the threads \<open>xs\<close> and then yields \<open>e\<close>.
  A complete list ends with -1.\<close>

fun seg :: "thread list \<Rightarrow> int \<Rightarrow> nat list \<Rightarrow> int \<Rightarrow> bool" where
  "seg ts h [] e = (h = e)"
| "seg ts h (t # xs) e = (h = int t \<and> 0 < t \<and> t < length ts \<and> seg ts (t_next (ts ! t)) xs e)"

abbreviation chain :: "thread list \<Rightarrow> int \<Rightarrow> nat list \<Rightarrow> bool" where
  "chain ts h xs \<equiv> seg ts h xs (- 1)"

lemma seg_append: "seg ts h (xs @ ys) e \<longleftrightarrow> (\<exists>m. seg ts h xs m \<and> seg ts m ys e)"
  by (induction xs arbitrary: h) auto

lemma chain_end_iff [simp]: "chain ts (- 1) xs \<longleftrightarrow> xs = []"
  by (cases xs) auto

lemma chain_nonpos: "chain ts h xs \<Longrightarrow> h \<le> 0 \<Longrightarrow> xs = [] \<and> h = - 1"
  by (cases xs) auto

lemma chain_pos: "chain ts h xs \<Longrightarrow> 0 < h \<Longrightarrow> \<exists>ys. xs = nat h # ys"
  by (cases xs) auto

lemma seg_range: "seg ts h xs e \<Longrightarrow> t \<in> set xs \<Longrightarrow> 0 < t \<and> t < length ts"
  by (induction xs arbitrary: h) auto

lemma chain_unique: "chain ts h xs \<Longrightarrow> chain ts h ys \<Longrightarrow> xs = ys"
proof (induction xs arbitrary: h ys)
  case (Cons t xs)
  then show ?case by (cases ys) auto
qed simp

lemma seg_frame:
  "length ts' = length ts \<Longrightarrow> (\<And>u. u \<in> set xs \<Longrightarrow> t_next (ts' ! u) = t_next (ts ! u)) \<Longrightarrow>
    seg ts' h xs e = seg ts h xs e"
  by (induction xs arbitrary: h) auto

lemma nth_update_if: "ts[t := x] ! u = (if u = t \<and> t < length ts then x else ts ! u)"
  by (cases "t < length ts") (simp_all add: nth_list_update list_update_beyond)

lemma seg_upd [simp]: "t \<notin> set xs \<Longrightarrow> seg (ts[t := x]) h xs e = seg ts h xs e"
  by (rule seg_frame) (auto simp: nth_update_if)

lemma chain_distinct: "chain ts h xs \<Longrightarrow> distinct xs"
proof (induction xs arbitrary: h)
  case (Cons t xs)
  have "t \<notin> set xs"
  proof
    assume "t \<in> set xs"
    then obtain as bs where xs: "xs = as @ t # bs"
      by (auto simp: in_set_conv_decomp)
    then have "chain ts (int t) (t # bs)" "chain ts (int t) (t # xs)"
      using Cons.prems by (auto simp: seg_append)
    from chain_unique [OF this] xs show False by simp
  qed
  then show ?case
    using Cons by auto
qed simp

lemma seg_relast:
  assumes "seg ts h (xs @ [l]) e" and "l \<notin> set xs" and "t_next x = e'"
  shows "seg (ts[l := x]) h (xs @ [l]) e'"
  using assms by (auto simp: seg_append)

lemma chain_snoc:
  assumes "chain ts h (xs @ [l])" and "t \<notin> set (xs @ [l])" and "0 < t" and "t < length ts"
    and "t_next x = int t" and "t_next y = - 1"
  shows "chain (ts[l := x, t := y]) h ((xs @ [l]) @ [t])"
proof -
  have "l \<notin> set xs" and l: "l < length ts"
    using chain_distinct [OF assms(1)] seg_range [OF assms(1), of l] by auto
  then have "seg (ts[l := x]) h (xs @ [l]) (int t)"
    using seg_relast assms(1,5) by blast
  then have "seg (ts[l := x, t := y]) h (xs @ [l]) (int t)"
    by (subst seg_upd) (use assms(2) in auto)
  then show ?thesis
    unfolding seg_append using assms(3,4,6) by (auto simp: seg_append)
qed

lemma chain_remove:
  assumes "chain ts h (xs @ t # ys)"
  shows "xs = [] \<Longrightarrow> chain ts (t_next (ts ! t)) ys"
    "xs \<noteq> [] \<Longrightarrow> t_next x = t_next (ts ! t) \<Longrightarrow> chain (ts[last xs := x]) h (xs @ ys)"
proof -
  show "xs = [] \<Longrightarrow> chain ts (t_next (ts ! t)) ys"
    using assms by auto
  assume ne: "xs \<noteq> []" and x: "t_next x = t_next (ts ! t)"
  then obtain as l where xs: "xs = as @ [l]"
    by (metis rev_exhaust)
  have d: "distinct (xs @ t # ys)"
    using assms by (rule chain_distinct)
  from assms have "seg ts h xs (int t)" and tail: "chain ts (t_next (ts ! t)) ys"
    by (auto simp: seg_append)
  then have "seg (ts[l := x]) h xs (t_next x)"
    using seg_relast [of ts h as l "int t" x] d unfolding xs by auto
  moreover have "chain (ts[l := x]) (t_next (ts ! t)) ys"
    using tail d unfolding xs by auto
  ultimately show "chain (ts[last xs := x]) h (xs @ ys)"
    unfolding seg_append using x xs by auto
qed

section \<open>The queue of ready threads\<close>

definition ready_queue :: "kernel \<Rightarrow> nat list \<Rightarrow> bool" where
  "ready_queue k qs \<longleftrightarrow> chain (thread_table k) (ready_head k) qs \<and>
     ready_tail k = (if qs = [] then - 1 else int (last qs))"

text \<open>What an operation on the lists leaves alone: everything but the \<open>next\<close> fields of the
  threads in \<open>X\<close> and the head and tail of the ready queue.\<close>

definition same_but_next :: "nat set \<Rightarrow> kernel \<Rightarrow> kernel \<Rightarrow> bool" where
  "same_but_next X k k' \<longleftrightarrow> length (thread_table k') = length (thread_table k) \<and>
     current_thread k' = current_thread k \<and> sleepq_table k' = sleepq_table k \<and> next_tid k' = next_tid k \<and>
     (\<forall>u. t_state (thread_table k' ! u) = t_state (thread_table k ! u) \<and>
       t_sleeps_on (thread_table k' ! u) = t_sleeps_on (thread_table k ! u)) \<and>
     (\<forall>u. u \<notin> X \<longrightarrow> thread_table k' ! u = thread_table k ! u)"

lemma upd_thread_int [simp]:
  "t < length (thread_table k) \<Longrightarrow>
    upd_thread (int t) f k = Some (k\<lparr>thread_table := (thread_table k)[t := f (thread_table k ! t)]\<rparr>)"
  by (simp add: upd_thread_def)

lemma get_thread_int [simp]: "t < length (thread_table k) \<Longrightarrow> get_thread (int t) k = Some (thread_table k ! t)"
  by (simp add: get_thread_def)

lemma add_to_ready_list:
  assumes q: "ready_queue k qs" and len: "length (thread_table k) = MAX_THREADS"
    and t: "0 < t" "t < MAX_THREADS" "t \<notin> set qs"
  shows "wp (scheduler_add_to_ready_list (int t) k)
    (\<lambda>k'. ready_queue k' (qs @ [t]) \<and> same_but_next (insert t (set qs)) k k')"
proof (cases "qs = []")
  case True
  then show ?thesis
    using assms by (simp add: scheduler_add_to_ready_list_def ready_queue_def same_but_next_def wp_simps nth_update_if)
next
  case False
  then obtain xs l where qs: "qs = xs @ [l]"
    by (metis rev_exhaust)
  have tail: "ready_tail k = int l"
    using q by (simp add: ready_queue_def qs)
  have chain: "chain (thread_table k) (ready_head k) (xs @ [l])"
    using q by (simp add: ready_queue_def qs)
  have l: "0 < l" "l < MAX_THREADS"
    using seg_range [OF chain, of l] len by auto
  have "t \<noteq> l"
    using t(3) qs by auto
  let ?ts = "thread_table k"
  have "chain (?ts[l := (?ts ! l)\<lparr>t_next := int t\<rparr>, t := (?ts ! t)\<lparr>t_next := - 1\<rparr>]) (ready_head k) ((xs @ [l]) @ [t])"
    by (rule chain_snoc) (use chain t len qs in auto)
  then show ?thesis
    using l t len \<open>t \<noteq> l\<close>
    by (auto simp: scheduler_add_to_ready_list_def wp_simps tail ready_queue_def same_but_next_def qs nth_update_if)
qed


lemma remove_first_ready:
  assumes q: "ready_queue k qs" and st: "\<And>t. t \<in> set qs \<Longrightarrow> t_state (thread_table k ! t) = Thread_Ready"
  shows "wp (scheduler_remove_first_ready k) (\<lambda>(r, k'). thread_table k' = thread_table k \<and>
    current_thread k' = current_thread k \<and> sleepq_table k' = sleepq_table k \<and> next_tid k' = next_tid k \<and>
    (case qs of [] \<Rightarrow> r = IDLE_THREAD_TID \<and> ready_queue k' []
     | t # ts \<Rightarrow> r = int t \<and> ready_queue k' ts))"
proof (cases qs)
  case Nil
  then show ?thesis
    using q by (simp add: scheduler_remove_first_ready_def ready_queue_def wp_simps)
next
  case (Cons t ts)
  then have t: "0 < t" "t < length (thread_table k)" "ready_head k = int t"
    and ts: "chain (thread_table k) (t_next (thread_table k ! t)) ts"
    using q by (auto simp: ready_queue_def)
  have "t \<notin> set ts"
    using q chain_distinct unfolding ready_queue_def Cons by fastforce
  then have "ts \<noteq> [] \<Longrightarrow> last ts \<noteq> t"
    by (metis last_in_set)
  moreover have "ready_tail k = int (last qs)"
    using q by (simp add: ready_queue_def Cons)
  ultimately show ?thesis
    using t ts st [of t] by (auto simp: scheduler_remove_first_ready_def ready_queue_def Cons wp_simps Let_def)
qed

text \<open>A change of the state field of one thread leaves every list as it is.\<close>

lemma seg_same_next: "t_next x = t_next (ts ! t) \<Longrightarrow> seg (ts[t := x]) h xs e = seg ts h xs e"
  by (rule seg_frame) (auto simp: nth_update_if)

definition set_state :: "nat \<Rightarrow> thread_state \<Rightarrow> kernel \<Rightarrow> kernel" where
  "set_state t st k = k\<lparr>thread_table := (thread_table k)[t := (thread_table k ! t)\<lparr>t_state := st\<rparr>]\<rparr>"

lemma set_state_simps [simp]:
  "length (thread_table (set_state t st k)) = length (thread_table k)"
  "seg (thread_table (set_state t st k)) h xs e = seg (thread_table k) h xs e"
  "current_thread (set_state t st k) = current_thread k" "sleepq_table (set_state t st k) = sleepq_table k"
  "ready_queue (set_state t st k) qs = ready_queue k qs" "next_tid (set_state t st k) = next_tid k"
  "t_sleeps_on (thread_table (set_state t st k) ! u) = t_sleeps_on (thread_table k ! u)"
  by (simp_all add: set_state_def seg_same_next ready_queue_def nth_update_if)

lemma set_state_nth: "thread_table (set_state t st k) ! u =
    (if u = t \<and> t < length (thread_table k) then (thread_table k ! t)\<lparr>t_state := st\<rparr> else thread_table k ! u)"
  by (simp add: set_state_def nth_update_if)

lemma upd_state: "t < length (thread_table k) \<Longrightarrow> upd_thread (int t) (t_state_update (\<lambda>_. st)) k = Some (set_state t st k)"
  by (simp add: set_state_def)

section \<open>First in, first out\<close>

datatype queue_op = Enq nat | Deq

fun run_queue :: "(nat \<Rightarrow> 's \<Rightarrow> 's option) \<Rightarrow> ('s \<Rightarrow> (int \<times> 's) option) \<Rightarrow> queue_op list \<Rightarrow> 's \<Rightarrow>
    (int list \<times> 's) option" where
  "run_queue enq deq [] s = Some ([], s)"
| "run_queue enq deq (Enq t # ops) s = do { s \<leftarrow> enq t s; run_queue enq deq ops s }"
| "run_queue enq deq (Deq # ops) s = do {
     (r, s) \<leftarrow> deq s;
     (rs, s) \<leftarrow> run_queue enq deq ops s;
     Some (r # rs, s)
   }"

text \<open>The same operations on a list; 0, the idle thread, comes out of the empty queue.\<close>

fun list_queue :: "queue_op list \<Rightarrow> nat list \<Rightarrow> (int list \<times> nat list) option" where
  "list_queue [] xs = Some ([], xs)"
| "list_queue (Enq t # ops) xs = (if t \<in> set xs then None else list_queue ops (xs @ [t]))"
| "list_queue (Deq # ops) xs = do {
     (rs, ys) \<leftarrow> list_queue ops (tl xs);
     Some ((if xs = [] then 0 else int (hd xs)) # rs, ys)
   }"

locale fifo_queue =
  fixes rep :: "'s \<Rightarrow> nat list \<Rightarrow> bool" and elem :: "'s \<Rightarrow> nat \<Rightarrow> bool"
    and enq :: "nat \<Rightarrow> 's \<Rightarrow> 's option" and deq :: "'s \<Rightarrow> (int \<times> 's) option"
  assumes enq: "rep s xs \<Longrightarrow> elem s t \<Longrightarrow> t \<notin> set xs \<Longrightarrow>
      wp (enq t s) (\<lambda>s'. rep s' (xs @ [t]) \<and> (\<forall>u. elem s u \<longrightarrow> elem s' u))"
    and deq: "rep s xs \<Longrightarrow> wp (deq s) (\<lambda>(r, s'). r = (if xs = [] then 0 else int (hd xs)) \<and> rep s' (tl xs) \<and>
      (\<forall>u. elem s u \<longrightarrow> elem s' u))"
begin

lemma run_refines:
  "rep s xs \<Longrightarrow> (\<And>t. Enq t \<in> set ops \<Longrightarrow> elem s t) \<Longrightarrow> list_queue ops xs = Some (rs, ys) \<Longrightarrow>
    wp (run_queue enq deq ops s) (\<lambda>(rs', s'). rs' = rs \<and> rep s' ys)"
proof (induction ops arbitrary: s xs rs)
  case (Cons x ops)
  show ?case
  proof (cases x)
    case (Enq t)
    then have t: "elem s t" "t \<notin> set xs" "list_queue ops (xs @ [t]) = Some (rs, ys)"
      using Cons.prems by (auto split: if_splits)
    show ?thesis
      unfolding Enq run_queue.simps wp_bind
      by (rule wp_mono [OF enq [OF Cons.prems(1) t(1,2)]], rule Cons.IH [OF _ _ t(3)])
        (use Cons.prems(2) in auto)
  next
    case Deq
    then obtain rs' where rs: "list_queue ops (tl xs) = Some (rs', ys)"
      "rs = (if xs = [] then 0 else int (hd xs)) # rs'"
      using Cons.prems(3) by (auto split: bind_splits)
    have "wp (run_queue enq deq ops s') (\<lambda>(rs'', s'). (if xs = [] then 0 else int (hd xs)) # rs'' = rs \<and> rep s' ys)"
      if "rep s' (tl xs) \<and> (\<forall>u. elem s u \<longrightarrow> elem s' u)" for s'
      by (rule wp_mono [OF Cons.IH [OF _ _ rs(1), of s']]) (use that Cons.prems(2) rs in auto)
    then show ?thesis
      unfolding Deq run_queue.simps wp_bind
      apply (intro wp_mono [OF deq [OF Cons.prems(1)]])
      subgoal for x
        apply (cases x, simp add: wp_bind split del: if_split)
        apply (rule wp_mono, blast)
        apply auto
        done
      done
  qed
qed simp

end

text \<open>The thread with \<open>n\<close> threads before it comes out with the \<open>n\<close>-th removal after it.\<close>

lemma list_queue_nth:
  "list_queue ops (as @ t # bs) = Some (rs, ys) \<Longrightarrow> length as < length rs \<Longrightarrow> rs ! length as = int t"
proof (induction ops arbitrary: as bs rs)
  case (Cons x ops)
  show ?case
  proof (cases x)
    case (Enq u)
    then show ?thesis
      using Cons.prems Cons.IH [of as "bs @ [u]"] by (simp split: if_splits)
  next
    case Deq
    then show ?thesis
      using Cons.prems Cons.IH [of "tl as" bs] by (cases as) (auto split: bind_splits)
  qed
qed simp

lemma list_queue_length: "list_queue ops xs = Some (rs, ys) \<Longrightarrow> length rs = length (filter (\<lambda>x. x = Deq) ops)"
  by (induction ops xs arbitrary: rs rule: list_queue.induct) (auto split: bind_splits if_splits)

text \<open>The scheduler's queue: its threads are in the state \<open>Ready\<close>.\<close>

definition scheduler_rep :: "kernel \<Rightarrow> nat list \<Rightarrow> bool" where
  "scheduler_rep k qs \<longleftrightarrow> length (thread_table k) = MAX_THREADS \<and> ready_queue k qs \<and>
     (\<forall>t\<in>set qs. t_state (thread_table k ! t) = Thread_Ready)"

interpretation scheduler: fifo_queue scheduler_rep "\<lambda>k t. 0 < t \<and> t < MAX_THREADS"
  "\<lambda>t. scheduler_add_ready (int t)" scheduler_remove_first_ready
proof unfold_locales
  fix k qs t assume k: "scheduler_rep k qs" and t: "0 < t \<and> t < MAX_THREADS" "t \<notin> set qs"
  then have q: "length (thread_table k) = MAX_THREADS" "ready_queue k qs"
    "\<And>u. u \<in> set qs \<Longrightarrow> t_state (thread_table k ! u) = Thread_Ready"
    by (simp_all add: scheduler_rep_def)
  show "wp (scheduler_add_ready (int t) k) (\<lambda>k'. scheduler_rep k' (qs @ [t]) \<and>
      (\<forall>u. 0 < u \<and> u < MAX_THREADS \<longrightarrow> 0 < u \<and> u < MAX_THREADS))"
    unfolding scheduler_add_ready_def wp_bind
  proof (rule wp_mono [OF add_to_ready_list [OF q(2,1)]])
    fix k1 assume a: "ready_queue k1 (qs @ [t]) \<and> same_but_next (insert t (set qs)) k k1"
    then have "length (thread_table k1) = MAX_THREADS"
      using q(1) by (simp add: same_but_next_def)
    then show "wp (upd_thread (int t) (t_state_update (\<lambda>_. Thread_Ready)) k1) (\<lambda>k'. scheduler_rep k' (qs @ [t]) \<and>
      (\<forall>u. 0 < u \<and> u < MAX_THREADS \<longrightarrow> 0 < u \<and> u < MAX_THREADS))"
      using a t q(3) by (auto simp: upd_state scheduler_rep_def same_but_next_def set_state_nth simp del: upd_thread_int)
  qed (use t in auto)
next
  fix k qs assume "scheduler_rep k qs"
  then have q: "length (thread_table k) = MAX_THREADS" "ready_queue k qs"
    "\<And>u. u \<in> set qs \<Longrightarrow> t_state (thread_table k ! u) = Thread_Ready"
    by (simp_all add: scheduler_rep_def)
  show "wp (scheduler_remove_first_ready k) (\<lambda>(r, k'). r = (if qs = [] then 0 else int (hd qs)) \<and>
      scheduler_rep k' (tl qs) \<and> (\<forall>u. 0 < u \<and> u < MAX_THREADS \<longrightarrow> 0 < u \<and> u < MAX_THREADS))"
    apply (rule wp_mono [OF remove_first_ready [OF q(2,3)]])
     apply assumption
    subgoal for x
      using q by (cases x; cases qs) (auto simp: scheduler_rep_def)
    done
qed

end
