(* ===== verification/Kernel_State.thy ===== *)
theory Kernel_State
  imports Thread_Lists
begin

text \<open>
  The invariant of the thread table, the ready queue, the sleep queues and the processors,
  and its preservation by the scheduler and the operations on threads.
\<close>

section \<open>The state of the threads\<close>

text \<open>
  The kernel with ready queue \<open>qs\<close> and sleep queues \<open>B\<close>: a thread other than the idle thread is in the
  ready queue exactly when it is ready, in the list of the hash of the resource it waits for
  exactly when it waits for one, and on a processor exactly when it runs or dies.
\<close>

definition running_on :: "kernel \<Rightarrow> nat \<Rightarrow> bool" where
  "running_on k t \<longleftrightarrow> int t \<in> set (current_thread k)"

definition thread_ok :: "kernel \<Rightarrow> nat list \<Rightarrow> (nat \<Rightarrow> nat list) \<Rightarrow> nat \<Rightarrow> bool" where
  "thread_ok k qs B t \<longleftrightarrow> (let e = thread_table k ! t in
     (t \<in> set qs \<longleftrightarrow> t_state e = Thread_Ready) \<and>
     (\<forall>h<SLEEPQ_HASHTABLE_SIZE. t \<in> set (B h) \<longleftrightarrow> t_sleeps_on e \<noteq> 0 \<and> SLEEPQ_HASH (t_sleeps_on e) = h) \<and>
     (running_on k t \<longleftrightarrow> t_state e \<in> {Thread_Running, Thread_Dying}) \<and>
     (t_sleeps_on e \<noteq> 0 \<longrightarrow> t_state e \<in> {Thread_Running, Thread_Sleeping}) \<and>
     (t_state e = Thread_Sleeping \<longrightarrow> t_sleeps_on e \<noteq> 0))"

definition kernel_at :: "kernel \<Rightarrow> nat list \<Rightarrow> (nat \<Rightarrow> nat list) \<Rightarrow> bool" where
  "kernel_at k qs B \<longleftrightarrow>
     length (thread_table k) = MAX_THREADS \<and> length (current_thread k) = MAX_CPUS \<and>
     length (sleepq_table k) = SLEEPQ_HASHTABLE_SIZE \<and>
     ready_queue k qs \<and> (\<forall>h<SLEEPQ_HASHTABLE_SIZE. chain (thread_table k) (sleepq_table k ! h) (B h)) \<and>
     (\<forall>t. 0 < t \<and> t < MAX_THREADS \<longrightarrow> thread_ok k qs B t) \<and>
     t_state (thread_table k ! 0) \<noteq> Thread_Dying \<and> t_sleeps_on (thread_table k ! 0) = 0 \<and>
     (\<forall>c<MAX_CPUS. 0 \<le> current_thread k ! c \<and> current_thread k ! c < int MAX_THREADS) \<and>
     (\<forall>c<MAX_CPUS. \<forall>d<MAX_CPUS. current_thread k ! c = current_thread k ! d \<longrightarrow> c = d \<or> current_thread k ! c = 0)"

definition kernel_ok :: "kernel \<Rightarrow> bool" where
  "kernel_ok k \<longleftrightarrow> (\<exists>qs B. kernel_at k qs B)"

lemma kernel_atD:
  assumes "kernel_at k qs B"
  shows "length (thread_table k) = MAX_THREADS" "length (current_thread k) = MAX_CPUS"
    "length (sleepq_table k) = SLEEPQ_HASHTABLE_SIZE" "ready_queue k qs"
    "\<And>h. h < SLEEPQ_HASHTABLE_SIZE \<Longrightarrow> chain (thread_table k) (sleepq_table k ! h) (B h)"
    "\<And>t. 0 < t \<Longrightarrow> t < MAX_THREADS \<Longrightarrow> thread_ok k qs B t"
    "t_state (thread_table k ! 0) \<noteq> Thread_Dying" "t_sleeps_on (thread_table k ! 0) = 0"
    "\<And>c. c < MAX_CPUS \<Longrightarrow> 0 \<le> current_thread k ! c \<and> current_thread k ! c < int MAX_THREADS"
    "\<And>c d. c < MAX_CPUS \<Longrightarrow> d < MAX_CPUS \<Longrightarrow> current_thread k ! c = current_thread k ! d \<Longrightarrow>
      c = d \<or> current_thread k ! c = 0"
  using assms unfolding kernel_at_def by blast+

lemma thread_okD:
  assumes "kernel_at k qs B" and "0 < t" and "t < MAX_THREADS"
  shows "t \<in> set qs \<longleftrightarrow> t_state (thread_table k ! t) = Thread_Ready"
    "h < SLEEPQ_HASHTABLE_SIZE \<Longrightarrow> t \<in> set (B h) \<longleftrightarrow>
      t_sleeps_on (thread_table k ! t) \<noteq> 0 \<and> SLEEPQ_HASH (t_sleeps_on (thread_table k ! t)) = h"
    "running_on k t \<longleftrightarrow> t_state (thread_table k ! t) \<in> {Thread_Running, Thread_Dying}"
    "t_sleeps_on (thread_table k ! t) \<noteq> 0 \<Longrightarrow> t_state (thread_table k ! t) \<in> {Thread_Running, Thread_Sleeping}"
    "t_state (thread_table k ! t) = Thread_Sleeping \<Longrightarrow> t_sleeps_on (thread_table k ! t) \<noteq> 0"
  using kernel_atD(6) [OF assms] unfolding thread_ok_def Let_def by blast+

lemma queue_range:
  assumes "kernel_at k qs B"
  shows "t \<in> set qs \<Longrightarrow> 0 < t \<and> t < MAX_THREADS"
    "h < SLEEPQ_HASHTABLE_SIZE \<Longrightarrow> t \<in> set (B h) \<Longrightarrow> 0 < t \<and> t < MAX_THREADS"
  using kernel_atD(1,4) [OF assms] kernel_atD(5) [OF assms, of h] seg_range unfolding ready_queue_def by fastforce+

lemma hash_less: "SLEEPQ_HASH r < SLEEPQ_HASHTABLE_SIZE"
  by (simp add: SLEEPQ_HASH_def unat_mod)

text \<open>Threads in the ready queue do not wait, so the lists are disjoint.\<close>

lemma queues_disjoint:
  assumes "kernel_at k qs B"
  shows "h < SLEEPQ_HASHTABLE_SIZE \<Longrightarrow> set qs \<inter> set (B h) = {}"
    "g < SLEEPQ_HASHTABLE_SIZE \<Longrightarrow> h < SLEEPQ_HASHTABLE_SIZE \<Longrightarrow> g \<noteq> h \<Longrightarrow> set (B g) \<inter> set (B h) = {}"
proof -
  show "set qs \<inter> set (B h) = {}" if h: "h < SLEEPQ_HASHTABLE_SIZE"
  proof (rule equals0I)
    fix t assume "t \<in> set qs \<inter> set (B h)"
    then show False
      using queue_range(1) [OF assms, of t] thread_okD(1,4) [OF assms, of t] thread_okD(2) [OF assms _ _ h, of t] by auto
  qed
  show "set (B g) \<inter> set (B h) = {}" if "g < SLEEPQ_HASHTABLE_SIZE" "h < SLEEPQ_HASHTABLE_SIZE" "g \<noteq> h"
  proof (rule equals0I)
    fix t assume "t \<in> set (B g) \<inter> set (B h)"
    then show False
      using queue_range(2) [OF assms that(1), of t] thread_okD(2) [OF assms _ _ that(1), of t]
        thread_okD(2) [OF assms _ _ that(2), of t] that(3) by auto
  qed
qed

lemma kernel_at_update:
  assumes k: "kernel_at k qs B"
    and len: "length (thread_table k') = MAX_THREADS" "length (current_thread k') = MAX_CPUS"
      "length (sleepq_table k') = SLEEPQ_HASHTABLE_SIZE"
    and lists: "ready_queue k' qs'" "\<And>h. h < SLEEPQ_HASHTABLE_SIZE \<Longrightarrow> chain (thread_table k') (sleepq_table k' ! h) (B' h)"
    and others: "\<And>u. 0 < u \<Longrightarrow> u < MAX_THREADS \<Longrightarrow> u \<notin> X \<Longrightarrow>
      t_state (thread_table k' ! u) = t_state (thread_table k ! u) \<and>
      t_sleeps_on (thread_table k' ! u) = t_sleeps_on (thread_table k ! u) \<and>
      (u \<in> set qs' \<longleftrightarrow> u \<in> set qs) \<and> (\<forall>h<SLEEPQ_HASHTABLE_SIZE. u \<in> set (B' h) \<longleftrightarrow> u \<in> set (B h)) \<and>
      (running_on k' u \<longleftrightarrow> running_on k u)"
    and changed: "\<And>t. 0 < t \<Longrightarrow> t < MAX_THREADS \<Longrightarrow> t \<in> X \<Longrightarrow> thread_ok k' qs' B' t"
    and idle: "t_state (thread_table k' ! 0) \<noteq> Thread_Dying" "t_sleeps_on (thread_table k' ! 0) = 0"
    and cpus: "\<And>c. c < MAX_CPUS \<Longrightarrow> 0 \<le> current_thread k' ! c \<and> current_thread k' ! c < int MAX_THREADS"
      "\<And>c d. c < MAX_CPUS \<Longrightarrow> d < MAX_CPUS \<Longrightarrow> current_thread k' ! c = current_thread k' ! d \<Longrightarrow>
        c = d \<or> current_thread k' ! c = 0"
  shows "kernel_at k' qs' B'"
proof -
  have "thread_ok k' qs' B' t" if "0 < t" "t < MAX_THREADS" for t
  proof (cases "t \<in> X")
    case True
    then show ?thesis
      using changed that by blast
  next
    case False
    then show ?thesis
      using others [OF that False] kernel_atD(6) [OF k that] unfolding thread_ok_def Let_def by simp
  qed
  then show ?thesis
    unfolding kernel_at_def using len lists idle cpus by blast
qed

lemma chains_add_ready:
  assumes k: "kernel_at k qs B" and f: "same_but_next (insert t (set qs)) k k'"
    and t: "\<And>h. h < SLEEPQ_HASHTABLE_SIZE \<Longrightarrow> t \<notin> set (B h)" and h: "h < SLEEPQ_HASHTABLE_SIZE"
  shows "chain (thread_table k') (sleepq_table k' ! h) (B h)"
proof -
  have "chain (thread_table k') (sleepq_table k ! h) (B h) = chain (thread_table k) (sleepq_table k ! h) (B h)"
  proof (rule seg_frame)
    fix u assume "u \<in> set (B h)"
    then have "u \<notin> insert t (set qs)"
      using t [OF h] queues_disjoint(1) [OF k h] by auto
    then show "t_next (thread_table k' ! u) = t_next (thread_table k ! u)"
      using f by (simp add: same_but_next_def)
  qed (use f in \<open>simp add: same_but_next_def\<close>)
  then show ?thesis
    using kernel_atD(5) [OF k h] f by (simp add: same_but_next_def)
qed

lemma ready_queue_cong:
  "ready_queue k qs \<Longrightarrow> length (thread_table k') = length (thread_table k) \<Longrightarrow>
    (\<And>u. u \<in> set qs \<Longrightarrow> t_next (thread_table k' ! u) = t_next (thread_table k ! u)) \<Longrightarrow>
    ready_head k' = ready_head k \<Longrightarrow> ready_tail k' = ready_tail k \<Longrightarrow> ready_queue k' qs"
  unfolding ready_queue_def using seg_frame by metis

text \<open>Putting a thread without a place into the ready queue.\<close>

lemma add_ready_at:
  assumes k: "kernel_at k qs B" and t: "0 < t" "t < MAX_THREADS"
    and st: "t_state (thread_table k ! t) = Thread_Nonready"
  shows "wp (scheduler_add_ready (int t) k) (\<lambda>k'. kernel_at k' (qs @ [t]) B \<and> current_thread k' = current_thread k \<and>
    next_tid k' = next_tid k \<and> (\<forall>u. t_sleeps_on (thread_table k' ! u) = t_sleeps_on (thread_table k ! u)))"
proof -
  have len: "length (thread_table k) = MAX_THREADS"
    using kernel_atD(1) [OF k] .
  have out: "t \<notin> set qs" "\<not> running_on k t" "t_sleeps_on (thread_table k ! t) = 0"
    "\<And>h. h < SLEEPQ_HASHTABLE_SIZE \<Longrightarrow> t \<notin> set (B h)"
    using thread_okD [OF k t] st by auto
  have result: "kernel_at (k'\<lparr>thread_table := (thread_table k')[t := (thread_table k' ! t)\<lparr>t_state := Thread_Ready\<rparr>]\<rparr>) (qs @ [t]) B
      \<and> current_thread k' = current_thread k \<and> next_tid k' = next_tid k \<and>
      (\<forall>u. t_sleeps_on (thread_table k' ! u) = t_sleeps_on (thread_table k ! u))"
    if q: "ready_queue k' (qs @ [t])" and f: "same_but_next (insert t (set qs)) k k'" for k'
  proof
    have len': "length (thread_table k') = MAX_THREADS"
      using f len by (simp add: same_but_next_def)
    show "kernel_at (k'\<lparr>thread_table := (thread_table k')[t := (thread_table k' ! t)\<lparr>t_state := Thread_Ready\<rparr>]\<rparr>) (qs @ [t]) B"
    proof (rule kernel_at_update [OF k, where X = "{t}"])
      show "ready_queue (k'\<lparr>thread_table := (thread_table k')[t := (thread_table k' ! t)\<lparr>t_state := Thread_Ready\<rparr>]\<rparr>) (qs @ [t])"
        by (rule ready_queue_cong [OF q]) (auto simp: nth_update_if)
      show "chain (thread_table (k'\<lparr>thread_table := (thread_table k')[t := (thread_table k' ! t)\<lparr>t_state := Thread_Ready\<rparr>]\<rparr>))
         (sleepq_table (k'\<lparr>thread_table := (thread_table k')[t := (thread_table k' ! t)\<lparr>t_state := Thread_Ready\<rparr>]\<rparr>) ! h) (B h)"
        if "h < SLEEPQ_HASHTABLE_SIZE" for h
        using chains_add_ready [OF k f out(4) that] by (simp add: seg_same_next)
    qed (use kernel_atD(2,3,7,8,9,10) [OF k] f t len' out in \<open>auto simp: same_but_next_def nth_update_if running_on_def thread_ok_def Let_def\<close>)
  qed (use f in \<open>simp add: same_but_next_def\<close>)
  show ?thesis
    unfolding scheduler_add_ready_def wp_bind
  proof (rule wp_mono [OF add_to_ready_list [OF kernel_atD(4) [OF k] len t out(1)]])
    fix k' assume a: "ready_queue k' (qs @ [t]) \<and> same_but_next (insert t (set qs)) k k'"
    then have "length (thread_table k') = MAX_THREADS"
      using len by (simp add: same_but_next_def)
    then show "wp (upd_thread (int t) (t_state_update (\<lambda>_. Thread_Ready)) k')
        (\<lambda>k'. kernel_at k' (qs @ [t]) B \<and> current_thread k' = current_thread k \<and>
          next_tid k' = next_tid k \<and> (\<forall>u. t_sleeps_on (thread_table k' ! u) = t_sleeps_on (thread_table k ! u)))"
      using result [of k'] a t by (simp add: nth_update_if)
  qed
qed

section \<open>Rescheduling\<close>

text \<open>The kernel while a processor has no thread of its own.\<close>

definition free_cpu :: "nat \<Rightarrow> kernel \<Rightarrow> kernel" where
  "free_cpu c k = k\<lparr>current_thread := (current_thread k)[c := 0]\<rparr>"

lemma free_cpu_simps [simp]:
  "thread_table (free_cpu c k) = thread_table k" "sleepq_table (free_cpu c k) = sleepq_table k"
  "ready_head (free_cpu c k) = ready_head k" "ready_tail (free_cpu c k) = ready_tail k"
  "current_thread (free_cpu c k) = (current_thread k)[c := 0]" "next_tid (free_cpu c k) = next_tid k"
  by (simp_all add: free_cpu_def)

lemma ready_queue_free [simp]: "ready_queue (free_cpu c k) qs = ready_queue k qs"
  by (simp add: ready_queue_def)

lemma running_free:
  assumes k: "kernel_at k qs B" and c: "c < MAX_CPUS" and u: "0 < u"
  shows "running_on (free_cpu c k) u \<longleftrightarrow> running_on k u \<and> int u \<noteq> current_thread k ! c"
proof -
  have len: "length (current_thread k) = MAX_CPUS"
    using kernel_atD(2) [OF k] .
  show ?thesis
    unfolding running_on_def in_set_conv_nth free_cpu_simps length_list_update len
    using kernel_atD(10) [OF k c] c u len
    by (auto simp: nth_list_update split: if_splits) (metis (full_types))
qed

lemma cpus_free:
  assumes k: "kernel_at k qs B" and c: "c < MAX_CPUS" and cur: "current_thread k' = (current_thread k)[c := t]"
    and t: "t = 0 \<or> (0 < t \<and> t < int MAX_THREADS \<and> \<not> running_on k (nat t))"
  shows "length (current_thread k') = MAX_CPUS"
    "d < MAX_CPUS \<Longrightarrow> 0 \<le> current_thread k' ! d \<and> current_thread k' ! d < int MAX_THREADS"
    "d < MAX_CPUS \<Longrightarrow> d' < MAX_CPUS \<Longrightarrow> current_thread k' ! d = current_thread k' ! d' \<Longrightarrow>
      d = d' \<or> current_thread k' ! d = 0"
proof -
  have len: "length (current_thread k) = MAX_CPUS"
    using kernel_atD(2) [OF k] .
  show "length (current_thread k') = MAX_CPUS"
    using len cur by simp
  show "0 \<le> current_thread k' ! d \<and> current_thread k' ! d < int MAX_THREADS" if "d < MAX_CPUS"
    using that kernel_atD(9) [OF k that] t c len by (auto simp: cur nth_list_update)
  have fresh: "t = 0 \<or> current_thread k ! d \<noteq> t" if "d < MAX_CPUS" for d
    using that t len unfolding running_on_def by (auto simp: in_set_conv_nth)
  show "d = d' \<or> current_thread k' ! d = 0"
    if "d < MAX_CPUS" "d' < MAX_CPUS" "current_thread k' ! d = current_thread k' ! d'"
    using that(3) kernel_atD(10) [OF k that(1,2)] fresh [OF that(1)] fresh [OF that(2)] that(1,2) c len
    by (auto simp: cur nth_list_update split: if_splits)
qed

text \<open>The thread of a processor stops running: it dies, sleeps or goes to the ready queue.\<close>

lemma stop_at:
  assumes k: "kernel_at k qs B" and c: "c < MAX_CPUS" and t: "current_thread k ! c = int t" "0 < t"
    and st: "if t_sleeps_on (thread_table k ! t) = 0 then st = Thread_Free else st = Thread_Sleeping"
  shows "kernel_at (free_cpu c (set_state t st k)) qs B"
proof -
  have range: "t < MAX_THREADS"
    using kernel_atD(9) [OF k c] t by simp
  have run: "running_on k t"
    using t c kernel_atD(2) [OF k] by (auto simp: running_on_def in_set_conv_nth)
  note ok = thread_okD [OF k t(2) range]
  note cpus = cpus_free [OF k c, of "free_cpu c k" 0, simplified]
  show ?thesis
  proof (rule kernel_at_update [OF k, where X = "{t}"])
    fix u :: nat assume "0 < u" "u < MAX_THREADS" "u \<notin> {t}"
    then show "t_state (thread_table (free_cpu c (set_state t st k)) ! u) = t_state (thread_table k ! u) \<and>
      t_sleeps_on (thread_table (free_cpu c (set_state t st k)) ! u) = t_sleeps_on (thread_table k ! u) \<and>
      (u \<in> set qs \<longleftrightarrow> u \<in> set qs) \<and> (\<forall>h<SLEEPQ_HASHTABLE_SIZE. u \<in> set (B h) \<longleftrightarrow> u \<in> set (B h)) \<and>
      (running_on (free_cpu c (set_state t st k)) u \<longleftrightarrow> running_on k u)"
      using running_free [OF k c, of u] t by (simp add: running_on_def set_state_nth)
  next
    show "thread_ok (free_cpu c (set_state t st k)) qs B u" if "u \<in> {t}" "0 < u" for u
      using that st ok run running_free [OF k c, of t] t kernel_atD(1) [OF k] range
      by (auto simp: thread_ok_def set_state_nth running_on_def Let_def split: if_splits)
  qed (use kernel_atD(1,3,4,5,7,8) [OF k] cpus t in \<open>auto simp: set_state_nth\<close>)
qed

lemma idle_at:
  assumes k: "kernel_at k qs B" and st: "st \<noteq> Thread_Dying"
  shows "kernel_at (set_state 0 st k) qs B"
  by (rule kernel_at_update [OF k, where X = "{}"])
    (use kernel_atD [OF k] st in \<open>auto simp: set_state_nth running_on_def\<close>)

lemma same_current: "current_thread k = x \<Longrightarrow> k\<lparr>current_thread := x\<rparr> = k"
  by (cases k) simp

lemma requeue_at:
  assumes k: "kernel_at k qs B" and c: "c < MAX_CPUS" and t: "current_thread k ! c = int t" "0 < t"
    and st: "t_sleeps_on (thread_table k ! t) = 0" "t_state (thread_table k ! t) \<noteq> Thread_Dying"
  shows "wp (scheduler_add_to_ready_list (int t) k) (\<lambda>k1.
    length (thread_table k1) = MAX_THREADS \<and> current_thread k1 = current_thread k \<and> next_tid k1 = next_tid k \<and>
    (\<forall>u. t_sleeps_on (thread_table k1 ! u) = t_sleeps_on (thread_table k ! u)) \<and>
    kernel_at (free_cpu c (set_state t Thread_Ready k1)) (qs @ [t]) B)"
proof -
  have range: "t < MAX_THREADS"
    using kernel_atD(9) [OF k c] t by simp
  have run: "running_on k t"
    using t c kernel_atD(2) [OF k] by (auto simp: running_on_def in_set_conv_nth)
  note ok = thread_okD [OF k t(2) range]
  have out: "t \<notin> set qs" "\<And>h. h < SLEEPQ_HASHTABLE_SIZE \<Longrightarrow> t \<notin> set (B h)"
    using ok st run by auto
  note cpus = cpus_free [OF k c, of "free_cpu c k" 0, simplified]
  show ?thesis
  proof (rule wp_mono [OF add_to_ready_list [OF kernel_atD(4,1) [OF k] t(2) range out(1)]])
    fix k1 assume a: "ready_queue k1 (qs @ [t]) \<and> same_but_next (insert t (set qs)) k k1"
    then have f: "same_but_next (insert t (set qs)) k k1" and q: "ready_queue k1 (qs @ [t])"
      by simp_all
    have same: "length (thread_table k1) = MAX_THREADS" "current_thread k1 = current_thread k"
      "sleepq_table k1 = sleepq_table k"
      "t_state (thread_table k1 ! u) = t_state (thread_table k ! u)"
      "t_sleeps_on (thread_table k1 ! u) = t_sleeps_on (thread_table k ! u)" for u
      using f kernel_atD(1) [OF k] by (simp_all add: same_but_next_def)
    have run': "running_on (free_cpu c (set_state t Thread_Ready k1)) u \<longleftrightarrow> running_on (free_cpu c k) u" for u
      by (simp add: running_on_def same)
    have "kernel_at (free_cpu c (set_state t Thread_Ready k1)) (qs @ [t]) B"
    proof (rule kernel_at_update [OF k, where X = "{t}"])
      fix u :: nat assume "0 < u" "u < MAX_THREADS" "u \<notin> {t}"
      then show "t_state (thread_table (free_cpu c (set_state t Thread_Ready k1)) ! u) = t_state (thread_table k ! u) \<and>
        t_sleeps_on (thread_table (free_cpu c (set_state t Thread_Ready k1)) ! u) = t_sleeps_on (thread_table k ! u) \<and>
        (u \<in> set (qs @ [t]) \<longleftrightarrow> u \<in> set qs) \<and> (\<forall>h<SLEEPQ_HASHTABLE_SIZE. u \<in> set (B h) \<longleftrightarrow> u \<in> set (B h)) \<and>
        (running_on (free_cpu c (set_state t Thread_Ready k1)) u \<longleftrightarrow> running_on k u)"
        using running_free [OF k c, of u] t unfolding run' by (simp add: set_state_nth same)
    next
      show "chain (thread_table (free_cpu c (set_state t Thread_Ready k1)))
          (sleepq_table (free_cpu c (set_state t Thread_Ready k1)) ! h) (B h)" if "h < SLEEPQ_HASHTABLE_SIZE" for h
        using chains_add_ready [OF k f out(2) that] by simp
      show "thread_ok (free_cpu c (set_state t Thread_Ready k1)) (qs @ [t]) B u" if "u \<in> {t}" "0 < u" for u
        using that st ok out run running_free [OF k c, of t] t range
        unfolding thread_ok_def run' by (auto simp: set_state_nth Let_def same split: if_splits)
    qed (use same kernel_atD(3,7,8) [OF k] cpus t q in \<open>auto simp: set_state_nth\<close>)
    then show "length (thread_table k1) = MAX_THREADS \<and> current_thread k1 = current_thread k \<and> next_tid k1 = next_tid k \<and>
      (\<forall>u. t_sleeps_on (thread_table k1 ! u) = t_sleeps_on (thread_table k ! u)) \<and>
      kernel_at (free_cpu c (set_state t Thread_Ready k1)) (qs @ [t]) B"
      using same f by (simp add: same_but_next_def)
  qed
qed

text \<open>The first ready thread starts to run, or the idle thread when there is none.\<close>

definition dispatch :: "nat \<Rightarrow> kernel \<Rightarrow> kernel option" where
  "dispatch c k = do {
     (t, k) \<leftarrow> scheduler_remove_first_ready k;
     k \<leftarrow> upd_thread t (t_state_update (\<lambda>_. Thread_Running)) k;
     Some (k\<lparr>current_thread := (current_thread k)[c := t]\<rparr>)
   }"

lemma dispatch_free: "dispatch c (free_cpu c k) = dispatch c k"
  by (simp add: dispatch_def scheduler_remove_first_ready_def free_cpu_def get_thread_def upd_thread_def guard_def Let_def)

lemma dispatch_at:
  assumes k: "kernel_at k qs B" and c: "c < MAX_CPUS" and idle: "current_thread k ! c = 0"
  shows "wp (dispatch c k) (\<lambda>k'. kernel_at k' (tl qs) B \<and> next_tid k' = next_tid k \<and>
    (\<forall>u. t_sleeps_on (thread_table k' ! u) = t_sleeps_on (thread_table k ! u)) \<and> sleepq_table k' = sleepq_table k \<and>
    current_thread k' = (current_thread k)[c := (if qs = [] then 0 else int (hd qs))])"
proof -
  have ready: "t \<in> set qs \<Longrightarrow> t_state (thread_table k ! t) = Thread_Ready" for t
    using queue_range(1) [OF k] thread_okD(1) [OF k] by blast
  note len = kernel_atD(1,2) [OF k]
  show ?thesis
    unfolding dispatch_def wp_bind
  proof (rule wp_mono [OF remove_first_ready [OF kernel_atD(4) [OF k] ready]])
    fix x
    assume "case x of (r, k') \<Rightarrow> thread_table k' = thread_table k \<and>
      current_thread k' = current_thread k \<and> sleepq_table k' = sleepq_table k \<and> next_tid k' = next_tid k \<and>
      (case qs of [] \<Rightarrow> r = IDLE_THREAD_TID \<and> ready_queue k' []
       | t # ts \<Rightarrow> r = int t \<and> ready_queue k' ts)"
    then obtain r k1 where x: "x = (r, k1)" and same: "thread_table k1 = thread_table k"
      "current_thread k1 = current_thread k" "sleepq_table k1 = sleepq_table k"
      "next_tid k1 = next_tid k" and q: "case qs of [] \<Rightarrow> r = 0 \<and> ready_queue k1 [] | t # ts \<Rightarrow> r = int t \<and> ready_queue k1 ts"
      by (cases x) auto
    show "wp (case x of (t, k) \<Rightarrow> upd_thread t (t_state_update (\<lambda>_. Thread_Running)) k \<bind>
        (\<lambda>k. Some (k\<lparr>current_thread := (current_thread k)[c := t]\<rparr>)))
      (\<lambda>k'. kernel_at k' (tl qs) B \<and> next_tid k' = next_tid k \<and>
    (\<forall>u. t_sleeps_on (thread_table k' ! u) = t_sleeps_on (thread_table k ! u)) \<and> sleepq_table k' = sleepq_table k \<and>
        current_thread k' = (current_thread k)[c := (if qs = [] then 0 else int (hd qs))])"
    proof (cases qs)
      case Nil
      have k1: "kernel_at k1 [] B"
        by (rule kernel_at_update [OF k, where X = "{}"])
          (use kernel_atD [OF k] same q Nil in \<open>auto simp: running_on_def\<close>)
      have "(current_thread k)[c := 0] = current_thread k"
        using idle by (metis list_update_id)
      moreover have "upd_thread 0 (t_state_update (\<lambda>_. Thread_Running)) k1 = Some (set_state 0 Thread_Running k1)"
        using upd_state [of 0 k1 Thread_Running] same len by simp
      ultimately show ?thesis
        using q idle_at [OF k1, of Thread_Running] same
        by (simp add: x Nil same_current set_state_nth)
    next
      case (Cons t ts)
      have range: "0 < t" "t < MAX_THREADS"
        using queue_range(1) [OF k, of t] Cons by auto
      have st: "t_state (thread_table k ! t) = Thread_Ready" "t \<notin> set ts"
        using ready [of t] Cons chain_distinct [of "thread_table k" "ready_head k" qs] kernel_atD(4) [OF k]
        by (simp_all add: ready_queue_def)
      note ok = thread_okD [OF k range]
      have not_run: "\<not> running_on k t"
        using ok(3) st by simp
      define k2 where "k2 = (set_state t Thread_Running k1)\<lparr>current_thread := (current_thread k)[c := int t]\<rparr>"
      note cpus = cpus_free [OF k c, of k2 "int t"]
      have run: "running_on k2 u \<longleftrightarrow> running_on k u \<or> u = t" if "0 < u" for u
        using that idle c len by (auto simp: running_on_def k2_def in_set_conv_nth nth_list_update) (metis of_nat_0_less_iff less_irrefl)+
      have "kernel_at k2 ts B"
      proof (rule kernel_at_update [OF k, where X = "{t}"])
        fix u :: nat assume "0 < u" "u < MAX_THREADS" "u \<notin> {t}"
        then show "t_state (thread_table k2 ! u) = t_state (thread_table k ! u) \<and>
          t_sleeps_on (thread_table k2 ! u) = t_sleeps_on (thread_table k ! u) \<and>
          (u \<in> set ts \<longleftrightarrow> u \<in> set qs) \<and> (\<forall>h<SLEEPQ_HASHTABLE_SIZE. u \<in> set (B h) \<longleftrightarrow> u \<in> set (B h)) \<and>
          (running_on k2 u \<longleftrightarrow> running_on k u)"
          using run [of u] by (simp add: k2_def set_state_nth same Cons)
      next
        show "thread_ok k2 ts B u" if "u \<in> {t}" "0 < u" for u
          using that st ok run [OF range(1)] range len
          unfolding thread_ok_def by (auto simp: k2_def set_state_nth Let_def same)
        show "ready_queue k2 ts"
          using q Cons by (simp add: k2_def ready_queue_def set_state_def seg_same_next same)
        show "chain (thread_table k2) (sleepq_table k2 ! h) (B h)" if "h < SLEEPQ_HASHTABLE_SIZE" for h
          using kernel_atD(5) [OF k that] by (simp add: k2_def same)
        show "length (current_thread k2) = MAX_CPUS"
          using len by (simp add: k2_def)
        show "0 \<le> current_thread k2 ! d \<and> current_thread k2 ! d < int MAX_THREADS" if "d < MAX_CPUS" for d
          using cpus(2) that range not_run by (simp add: k2_def)
        show "d = d' \<or> current_thread k2 ! d = 0"
          if "d < MAX_CPUS" "d' < MAX_CPUS" "current_thread k2 ! d = current_thread k2 ! d'" for d d'
          using cpus(3) that range not_run by (simp add: k2_def)
      qed (use same kernel_atD(1,3,7,8) [OF k] range in \<open>auto simp: k2_def set_state_nth\<close>)
      moreover have "upd_thread (int t) (t_state_update (\<lambda>_. Thread_Running)) k1 = Some (set_state t Thread_Running k1)"
        using upd_state [of t k1 Thread_Running] same len range by simp
      ultimately show ?thesis
        using q by (simp add: x Cons k2_def same set_state_nth)
    qed
  qed
qed

text \<open>The ready queue after the current thread of processor \<open>c\<close> has left it.\<close>

definition requeued :: "kernel \<Rightarrow> nat \<Rightarrow> nat list \<Rightarrow> nat list" where
  "requeued k c qs = (let t = current_thread k ! c; e = thread_table k ! nat t in
     if t \<noteq> 0 \<and> t_state e \<noteq> Thread_Dying \<and> t_sleeps_on e = 0 then qs @ [nat t] else qs)"

lemma current_cases:
  assumes "kernel_at k qs B" and "c < MAX_CPUS"
  obtains "current_thread k ! c = 0" | t where "current_thread k ! c = int t" "0 < t" "t < MAX_THREADS"
proof (cases "current_thread k ! c = 0")
  case False
  then have "current_thread k ! c = int (nat (current_thread k ! c))" "0 < nat (current_thread k ! c)"
    "nat (current_thread k ! c) < MAX_THREADS"
    using kernel_atD(9) [OF assms] by auto
  then show ?thesis by (rule that(2))
qed (rule that(1))

definition vacate :: "nat \<Rightarrow> kernel \<Rightarrow> kernel option" where
  "vacate c k = do {
     cur \<leftarrow> current_on c k;
     e \<leftarrow> get_thread cur k;
     if t_state e = Thread_Dying then upd_thread cur (t_state_update (\<lambda>_. Thread_Free)) k
     else if t_sleeps_on e \<noteq> 0 then upd_thread cur (t_state_update (\<lambda>_. Thread_Sleeping)) k
     else do {
       k \<leftarrow> (if cur \<noteq> IDLE_THREAD_TID then scheduler_add_to_ready_list cur k else Some k);
       upd_thread cur (t_state_update (\<lambda>_. Thread_Ready)) k
     }
   }"

lemma schedule_split:
  "scheduler_schedule c rnd k =
     do { k \<leftarrow> vacate c k; k \<leftarrow> dispatch c k; Some (k, rnd + SCHEDULER_TIMESLICE div 2) }"
  by (simp add: scheduler_schedule_def vacate_def dispatch_def case_prod_unfold bind_assoc)

lemma vacate_at:
  assumes k: "kernel_at k qs B" and c: "c < MAX_CPUS"
  shows "wp (vacate c k) (\<lambda>k1. kernel_at (free_cpu c k1) (requeued k c qs) B \<and>
    current_thread k1 = current_thread k \<and> next_tid k1 = next_tid k \<and>
    (\<forall>u. t_sleeps_on (thread_table k1 ! u) = t_sleeps_on (thread_table k ! u)))"
  using k c
proof (rule current_cases)
  note len = kernel_atD(1,2) [OF k]
  have cur: "current_on c k = Some (current_thread k ! c)"
    using len c by (simp add: current_on_def)
  {
    assume idle: "current_thread k ! c = 0"
    have "free_cpu c (set_state 0 Thread_Ready k) = set_state 0 Thread_Ready k"
      using idle by (simp add: free_cpu_def same_current) (metis list_update_id same_current set_state_simps(3))
    moreover have "get_thread 0 k = Some (thread_table k ! 0)"
      "upd_thread 0 (t_state_update (\<lambda>_. Thread_Ready)) k = Some (set_state 0 Thread_Ready k)"
      using get_thread_int [of 0 k] upd_state [of 0 k Thread_Ready] len by simp_all
    ultimately show ?thesis
      using kernel_atD(7,8) [OF k] idle_at [OF k, of Thread_Ready] idle
      by (simp add: vacate_def cur requeued_def Let_def)
  next
    fix t assume t: "current_thread k ! c = int t" "0 < t" "t < MAX_THREADS"
    have run: "t_state (thread_table k ! t) = Thread_Running \<or> t_state (thread_table k ! t) = Thread_Dying"
      using thread_okD(3) [OF k t(2,3)] t c len unfolding running_on_def by (auto simp: in_set_conv_nth)
    have get: "get_thread (int t) k = Some (thread_table k ! t)"
      "upd_thread (int t) (t_state_update (\<lambda>_. st)) k = Some (set_state t st k)" for st
      using upd_state [of t k st] len t by simp_all
    show ?thesis
    proof (cases "t_state (thread_table k ! t) = Thread_Dying \<or> t_sleeps_on (thread_table k ! t) \<noteq> 0")
      case True
      then show ?thesis
        using stop_at [OF k c t(1,2)] thread_okD(4) [OF k t(2,3)] t
        by (auto simp: vacate_def cur get requeued_def Let_def)
    next
      case False
      then have re: "requeued k c qs = qs @ [t]"
        using t by (simp add: requeued_def Let_def)
      show ?thesis
        unfolding re vacate_def cur t(1) wp_bind wp_Some get(1) using False t
        apply (simp add: wp_bind)
        apply (rule wp_mono [OF requeue_at [OF k c t(1,2)]])
        subgoal by simp
        subgoal by simp
        subgoal for k1 by (simp add: set_state_def nth_update_if)
        done
    qed
  }
qed

lemma schedule_at:
  assumes k: "kernel_at k qs B" and c: "c < MAX_CPUS"
  shows "wp (scheduler_schedule c rnd k) (\<lambda>(k', ticks).
    kernel_at k' (tl (requeued k c qs)) B \<and> ticks = rnd + 375 \<and> next_tid k' = next_tid k \<and>
    (\<forall>u. t_sleeps_on (thread_table k' ! u) = t_sleeps_on (thread_table k ! u)) \<and>
    current_thread k' = (current_thread k)[c :=
      (if requeued k c qs = [] then 0 else int (hd (requeued k c qs)))])"
  unfolding schedule_split wp_bind
proof (rule wp_mono [OF vacate_at [OF k c]])
  fix k1 assume a: "kernel_at (free_cpu c k1) (requeued k c qs) B \<and> current_thread k1 = current_thread k \<and> next_tid k1 = next_tid k \<and>
    (\<forall>u. t_sleeps_on (thread_table k1 ! u) = t_sleeps_on (thread_table k ! u))"
  have "current_thread (free_cpu c k1) ! c = 0"
    using a c kernel_atD(2) [OF k] by simp
  from dispatch_at [OF conjunct1 [OF a] c this] show "wp (dispatch c k1) (\<lambda>x. wp (Some (x, rnd + SCHEDULER_TIMESLICE div 2))
    (\<lambda>(k', ticks). kernel_at k' (tl (requeued k c qs)) B \<and> ticks = rnd + 375 \<and> next_tid k' = next_tid k \<and>
      (\<forall>u. t_sleeps_on (thread_table k' ! u) = t_sleeps_on (thread_table k ! u)) \<and>
      current_thread k' = (current_thread k)[c :=
        (if requeued k c qs = [] then 0 else int (hd (requeued k c qs)))]))"
    unfolding dispatch_free by (rule wp_mono) (use a in simp)
qed

section \<open>Creating and ending threads\<close>

lemma find_free_thread_wp:
  assumes "length (thread_table k) = MAX_THREADS" and "0 \<le> next_tid k"
  shows "wp (find_free_thread is k) (\<lambda>r. case r of
      None \<Rightarrow> \<forall>i\<in>set is. (int i + next_tid k) mod 32 = 0 \<or>
        t_state (thread_table k ! nat ((int i + next_tid k) mod 32)) \<noteq> Thread_Free
    | Some t \<Rightarrow> 0 < t \<and> t < int MAX_THREADS \<and> t_state (thread_table k ! nat t) = Thread_Free)"
proof (induction "is")
  case (Cons i "is")
  have t: "cmod (int i + next_tid k) (int MAX_THREADS) = (int i + next_tid k) mod 32"
    using assms(2) by simp
  have range: "0 \<le> (int i + next_tid k) mod 32" "(int i + next_tid k) mod 32 < 32"
    by simp_all
  then have "nat ((int i + next_tid k) mod 32) < 32" by linarith
  then have get: "get_thread ((int i + next_tid k) mod 32) k = Some (thread_table k ! nat ((int i + next_tid k) mod 32))"
    using assms(1) range by (simp add: get_thread_def)
  show ?case
    unfolding find_free_thread.simps t Let_def
    using range Cons.IH
    by (cases "(int i + next_tid k) mod 32 = 0")
      (auto simp: get wp_simps order.not_eq_order_implies_strict elim!: wp_mono split: option.splits)
qed simp

lemma create_at:
  assumes k: "kernel_at k qs B" and tid: "0 \<le> next_tid k" "next_tid k < int MAX_THREADS"
  shows "wp (thread_create stacks fin func arg k) (\<lambda>(t, k').
    kernel_at k' qs B \<and> current_thread k' = current_thread k \<and> 0 \<le> next_tid k' \<and> next_tid k' < int MAX_THREADS \<and>
    (\<forall>u. t_sleeps_on (thread_table k' ! u) = t_sleeps_on (thread_table k ! u)) \<and>
    (if \<exists>u\<in>{0<..<MAX_THREADS}. t_state (thread_table k ! u) = Thread_Free
     then 0 < t \<and> t < int MAX_THREADS \<and> t_state (thread_table k ! nat t) = Thread_Free \<and>
       t_state (thread_table k' ! nat t) = Thread_Nonready
     else t = - 1 \<and> k' = k))"
proof -
  note len = kernel_atD(1,2) [OF k]
  have cover: "\<exists>i\<in>set [0..<MAX_THREADS]. (int i + next_tid k) mod 32 = int u" if "u < MAX_THREADS" for u
  proof
    let ?i = "nat ((int u - next_tid k) mod 32)"
    have "int ?i = (int u - next_tid k) mod 32" by simp
    then have "(int ?i + next_tid k) mod 32 = int u mod 32"
      by (simp add: mod_add_left_eq)
    then show "(int ?i + next_tid k) mod 32 = int u"
      using that by simp
    show "?i \<in> set [0..<MAX_THREADS]"
      using pos_mod_bound [of 32 "int u - next_tid k"] by (simp del: upt_rec_numeral)
  qed
  show ?thesis
    unfolding thread_create_def wp_bind
  proof (rule wp_mono [OF find_free_thread_wp [OF len(1) tid(1)]])
    fix r
    assume r: "case r of None \<Rightarrow> \<forall>i\<in>set [0..<MAX_THREADS]. (int i + next_tid k) mod 32 = 0 \<or>
        t_state (thread_table k ! nat ((int i + next_tid k) mod 32)) \<noteq> Thread_Free
      | Some t \<Rightarrow> 0 < t \<and> t < int MAX_THREADS \<and> t_state (thread_table k ! nat t) = Thread_Free"
    show "wp (case r of None \<Rightarrow> Some (- 1, k)
       | Some tid \<Rightarrow> let k = k\<lparr>next_tid := cmod (tid + 1) (int MAX_THREADS)\<rparr>;
             p = stack_context stacks (nat tid);
             sp = stacks + STACKSIZE * word_of_int tid + STACKSIZE - 4 - SIZEOF_CONTEXT in do {
           k \<leftarrow> upd_thread tid (\<lambda>e. e\<lparr>t_state := Thread_Nonready, t_context := p, t_user_context := 0,
             t_pagetable := 0, t_sleeps_on := 0, t_process_id := - 1, t_next := - 1\<rparr>) k;
           Some (tid, k\<lparr>contexts := (contexts k)(p :=
             \<lparr>cpu_regs = (replicate 29 0)[REGISTER_RA := fin, REGISTER_A0 := arg, REGISTER_SP := sp - 4],
              c_hi = 0, c_lo = 0, c_pc = func, c_status = INTERRUPT_MASK_ALL OR INTERRUPT_MASK_MASTER,
              c_prev_context = p\<rparr>)\<rparr>)
         }) (\<lambda>(t, k'). kernel_at k' qs B \<and> current_thread k' = current_thread k \<and> 0 \<le> next_tid k' \<and> next_tid k' < int MAX_THREADS \<and>
    (\<forall>u. t_sleeps_on (thread_table k' ! u) = t_sleeps_on (thread_table k ! u)) \<and>
    (if \<exists>u\<in>{0<..<MAX_THREADS}. t_state (thread_table k ! u) = Thread_Free
     then 0 < t \<and> t < int MAX_THREADS \<and> t_state (thread_table k ! nat t) = Thread_Free \<and>
       t_state (thread_table k' ! nat t) = Thread_Nonready
     else t = - 1 \<and> k' = k))"
    proof (cases r)
      case None
      have "\<not> (\<exists>u\<in>{0<..<MAX_THREADS}. t_state (thread_table k ! u) = Thread_Free)"
        using r cover unfolding None option.case by (force simp del: upt_rec_numeral)
      then show ?thesis
        using k tid by (simp add: None)
    next
      case (Some t)
      then obtain u where t: "t = int u" "0 < u" "u < MAX_THREADS" and free: "t_state (thread_table k ! u) = Thread_Free"
        using r by (auto intro: that [of "nat t"])
      note ok = thread_okD [OF k t(2,3)]
      have out: "u \<notin> set qs" "\<And>h. h < SLEEPQ_HASHTABLE_SIZE \<Longrightarrow> u \<notin> set (B h)"
        "t_sleeps_on (thread_table k ! u) = 0"
        using ok free by auto
      have at: "kernel_at k' qs B"
        if k': "length (thread_table k') = MAX_THREADS" "\<And>v. v \<noteq> u \<Longrightarrow> thread_table k' ! v = thread_table k ! v"
          "\<And>h xs. u \<notin> set xs \<Longrightarrow> chain (thread_table k') h xs = chain (thread_table k) h xs"
          "current_thread k' = current_thread k" "sleepq_table k' = sleepq_table k"
          "ready_head k' = ready_head k" "ready_tail k' = ready_tail k"
          and e: "t_state (thread_table k' ! u) = Thread_Nonready" "t_sleeps_on (thread_table k' ! u) = 0" for k'
        by (rule kernel_at_update [OF k, where X = "{u}"])
          (use kernel_atD [OF k] out ok free e t len in \<open>auto simp: k' ready_queue_def running_on_def thread_ok_def Let_def\<close>)
      have found: "\<exists>u\<in>{0<..<MAX_THREADS}. t_state (thread_table k ! u) = Thread_Free"
        using t free by auto
      have "0 \<le> cmod (int u + 1) 32" "cmod (int u + 1) 32 < 32"
        by simp_all
      then show ?thesis
        unfolding Some option.case Let_def t(1) if_P [OF found]
        using t(2,3) len free out(3) by (simp add: nth_update_if) (rule at, auto simp: nth_update_if)
    qed
  qed
qed

lemma running_state:
  assumes k: "kernel_at k qs B" and c: "c < MAX_CPUS" and t: "current_thread k ! c = int t" "0 < t"
  shows "t < MAX_THREADS" "running_on k t" "current_on c k = Some (int t)"
    "t_state (thread_table k ! t) = Thread_Running \<or> t_state (thread_table k ! t) = Thread_Dying"
proof -
  show range: "t < MAX_THREADS"
    using kernel_atD(9) [OF k c] t by simp
  show run: "running_on k t"
    using t c kernel_atD(2) [OF k] by (auto simp: running_on_def in_set_conv_nth)
  show "current_on c k = Some (int t)"
    using c kernel_atD(2) [OF k] t by (simp add: current_on_def)
  show "t_state (thread_table k ! t) = Thread_Running \<or> t_state (thread_table k ! t) = Thread_Dying"
    using thread_okD(3) [OF k t(2) range] run by simp
qed

lemma finish_at:
  assumes k: "kernel_at k qs B" and c: "c < MAX_CPUS" and t: "current_thread k ! c = int t" "0 < t"
    and st: "t_sleeps_on (thread_table k ! t) = 0" "t_pagetable (thread_table k ! t) = 0"
  shows "wp (thread_finish c k) (\<lambda>k'. kernel_at k' qs B \<and> current_thread k' = current_thread k \<and>
    next_tid k' = next_tid k \<and> (\<forall>u. t_sleeps_on (thread_table k' ! u) = t_sleeps_on (thread_table k ! u)))"
proof -
  note run = running_state [OF k c t]
  note ok = thread_okD [OF k t(2) run(1)]
  have "kernel_at (set_state t Thread_Dying k) qs B"
    by (rule kernel_at_update [OF k, where X = "{t}"])
      (use kernel_atD [OF k] st run ok t in \<open>auto simp: set_state_nth running_on_def thread_ok_def Let_def\<close>)
  moreover have "next_tid (set_state t Thread_Dying k) = next_tid k"
    by (simp add: set_state_def)
  ultimately show ?thesis
    using st run kernel_atD(1) [OF k] by (simp add: thread_finish_def wp_simps upd_state del: upd_thread_int)
qed

end
