(* ===== verification/Sleep_Spec.thy ===== *)
theory Sleep_Spec
  imports Kernel_State
begin

text \<open>
  Going to sleep on a resource and waking the threads that wait for it.
\<close>

section \<open>Sleeping and waking\<close>

lemma sleepq_last_chain: "chain (thread_table k) h xs \<Longrightarrow> xs \<noteq> [] \<Longrightarrow> sleepq_last h k = Some (int (last xs))"
proof (induction xs arbitrary: h)
  case (Cons t xs)
  then show ?case
    by (subst sleepq_last.simps) (cases xs; auto)
qed simp

lemma sleepq_find_chain:
  fixes r :: u32
  assumes "chain (thread_table k) first xs"
  defines "P \<equiv> \<lambda>t. t_sleeps_on (thread_table k ! t) \<noteq> r"
  shows "sleepq_find r prev first k = Some
    (if takeWhile P xs = [] then prev else int (last (takeWhile P xs)),
     case dropWhile P xs of [] \<Rightarrow> - 1 | t # ts \<Rightarrow> int t)"
  using assms(1)
proof (induction xs arbitrary: first prev)
  case Nil
  then show ?case by (simp add: sleepq_find.simps)
next
  case (Cons t xs)
  then have t: "first = int t" "0 < t" "t < length (thread_table k)"
    and xs: "chain (thread_table k) (t_next (thread_table k ! t)) xs"
    by simp_all
  show ?case
  proof (cases "P t")
    case True
    then show ?thesis
      using t Cons.IH [OF xs, of "int t"] by (subst sleepq_find.simps) (auto simp: P_def)
  next
    case False
    then show ?thesis
      using t by (subst sleepq_find.simps) (auto simp: P_def)
  qed
qed

text \<open>The current thread goes to the end of the list of its resource.\<close>

lemma add_at:
  assumes k: "kernel_at k qs B" and c: "c < MAX_CPUS" and t: "current_thread k ! c = int t" "0 < t"
    and st: "t_state (thread_table k ! t) = Thread_Running" "t_sleeps_on (thread_table k ! t) = 0" and r: "r \<noteq> 0"
  defines "h \<equiv> SLEEPQ_HASH r"
  shows "wp (sleepq_add c r k) (\<lambda>k'. kernel_at k' qs (B(h := B h @ [t])) \<and> current_thread k' = current_thread k \<and>
    next_tid k' = next_tid k \<and> (\<forall>u. t_state (thread_table k' ! u) = t_state (thread_table k ! u)) \<and>
    (\<forall>u. t_sleeps_on (thread_table k' ! u) = (if u = t then r else t_sleeps_on (thread_table k ! u))))"
proof -
  note run = running_state [OF k c t]
  note ok = thread_okD [OF k t(2) run(1)]
  note len = kernel_atD(1,2,3) [OF k]
  have h: "h < SLEEPQ_HASHTABLE_SIZE"
    unfolding h_def by (rule hash_less)
  have out: "t \<notin> set qs" "\<And>g. g < SLEEPQ_HASHTABLE_SIZE \<Longrightarrow> t \<notin> set (B g)"
    using ok st by auto
  define k1 where "k1 = k\<lparr>thread_table := (thread_table k)[t := (thread_table k ! t)\<lparr>t_next := - 1, t_sleeps_on := r\<rparr>]\<rparr>"
  have k1: "upd_thread (int t) (\<lambda>e. e\<lparr>t_next := - 1, t_sleeps_on := r\<rparr>) k = Some k1"
    using len run by (simp add: k1_def)
  have slot: "get_slot h k1 = Some (sleepq_table k ! h)"
    using len h by (simp add: get_slot_def k1_def)
  have chain1: "chain (thread_table k1) (sleepq_table k ! g) (B g)" if "g < SLEEPQ_HASHTABLE_SIZE" for g
    using kernel_atD(5) [OF k that] out(2) [OF that] by (simp add: k1_def)
  have result: "kernel_at k' qs (B(h := B h @ [t]))"
    if k': "length (thread_table k') = MAX_THREADS" "current_thread k' = current_thread k"
      "length (sleepq_table k') = SLEEPQ_HASHTABLE_SIZE"
      "ready_head k' = ready_head k" "ready_tail k' = ready_tail k"
      and same: "\<forall>u. t_state (thread_table k' ! u) = t_state (thread_table k ! u)"
        "\<forall>u. t_sleeps_on (thread_table k' ! u) = (if u = t then r else t_sleeps_on (thread_table k ! u))"
      and nxt: "\<And>u. u \<notin> set (B h) \<Longrightarrow> u \<noteq> t \<Longrightarrow> thread_table k' ! u = thread_table k ! u"
      and ch: "chain (thread_table k') (sleepq_table k' ! h) (B h @ [t])"
      and sl: "\<And>g. g \<noteq> h \<Longrightarrow> sleepq_table k' ! g = sleepq_table k ! g" for k'
  proof (rule kernel_at_update [OF k, where X = "{t}"])
    show "ready_queue k' qs"
    proof (rule ready_queue_cong [OF kernel_atD(4) [OF k]])
      fix u assume "u \<in> set qs"
      then have "u \<notin> set (B h)" "u \<noteq> t"
        using queues_disjoint(1) [OF k h] out(1) by auto
      then show "t_next (thread_table k' ! u) = t_next (thread_table k ! u)"
        by (simp add: nxt)
    qed (use k' len in simp_all)
    show "chain (thread_table k') (sleepq_table k' ! g) ((B(h := B h @ [t])) g)" if g: "g < SLEEPQ_HASHTABLE_SIZE" for g
    proof (cases "g = h")
      case False
      have "chain (thread_table k') (sleepq_table k ! g) (B g) = chain (thread_table k) (sleepq_table k ! g) (B g)"
      proof (rule seg_frame)
        fix u assume "u \<in> set (B g)"
        then have "u \<notin> set (B h)" "u \<noteq> t"
          using queues_disjoint(2) [OF k g h False] out(2) [OF g] by auto
        then show "t_next (thread_table k' ! u) = t_next (thread_table k ! u)"
          by (simp add: nxt)
      qed (use k' len in simp)
      then show ?thesis
        using kernel_atD(5) [OF k g] False sl by simp
    qed (use ch in simp)
    show "thread_ok k' qs (B(h := B h @ [t])) u" if "u \<in> {t}" for u
      using that ok st out run r k' unfolding thread_ok_def Let_def
      by (auto simp: same running_on_def h_def)
  qed (use kernel_atD(2,3,7,8,9,10) [OF k] k' same t in \<open>auto simp: running_on_def\<close>)
  show ?thesis
  proof (cases "B h = []")
    case True
    then have first: "sleepq_table k ! h = - 1"
      using kernel_atD(5) [OF k h] by simp
    have "kernel_at (set_slot h (int t) k1) qs (B(h := B h @ [t]))"
      by (rule result) (use True t run len h in \<open>auto simp: set_slot_def k1_def nth_update_if\<close>)
    moreover have "sleepq_add c r k = Some (set_slot h (int t) k1)"
      using t by (simp add: sleepq_add_def run(3) k1 h_def [symmetric] slot first guard_def del: upd_thread_int)
    moreover have "next_tid (set_slot h (int t) k1) = next_tid k"
      "current_thread (set_slot h (int t) k1) = current_thread k"
      "thread_table (set_slot h (int t) k1) = thread_table k1"
      by (simp_all add: set_slot_def k1_def)
    ultimately show ?thesis
      using len run by (simp add: k1_def nth_update_if)
  next
    case False
    then obtain xs l where xs: "B h = xs @ [l]"
      by (metis rev_exhaust)
    have first: "\<not> sleepq_table k ! h \<le> 0" "sleepq_last (sleepq_table k ! h) k1 = Some (int l)"
      using chain_nonpos [OF chain1 [OF h]] False sleepq_last_chain [OF chain1 [OF h] False] xs by auto
    have l: "l < MAX_THREADS" "l \<noteq> t"
      using queue_range(2) [OF k h, of l] out(2) [OF h] xs by auto
    define k2 where "k2 = k1\<lparr>thread_table := (thread_table k1)[l := (thread_table k1 ! l)\<lparr>t_next := int t\<rparr>]\<rparr>"
    have k2: "upd_thread (int l) (t_next_update (\<lambda>_. int t)) k1 = Some k2"
      using len l by (simp add: k2_def k1_def)
    have tt: "thread_table k2 = (thread_table k)[l := (thread_table k ! l)\<lparr>t_next := int t\<rparr>,
        t := (thread_table k ! t)\<lparr>t_next := - 1, t_sleeps_on := r\<rparr>]"
      using l by (simp add: k2_def k1_def list_update_swap)
    have "kernel_at k2 qs (B(h := B h @ [t]))"
    proof (rule result)
      show "chain (thread_table k2) (sleepq_table k2 ! h) (B h @ [t])"
        unfolding tt xs
        by (rule chain_snoc) (use kernel_atD(5) [OF k h] xs out(2) [OF h] t run len in \<open>auto simp: k2_def k1_def\<close>)
    qed (use len l xs t run in \<open>auto simp: tt nth_update_if, auto simp: k2_def k1_def\<close>)
    moreover have "sleepq_add c r k = Some k2"
      using t by (simp add: sleepq_add_def run(3) k1 k2 h_def [symmetric] slot first guard_def del: upd_thread_int)
    moreover have "next_tid k2 = next_tid k" "current_thread k2 = current_thread k"
      by (simp_all add: k2_def k1_def)
    ultimately show ?thesis
      using len run l by (simp add: tt nth_update_if)
  qed
qed

text \<open>One thread leaves the list of its resource; it becomes ready when it was asleep already.\<close>

lemma unlink_at:
  assumes k: "kernel_at k qs B" and h: "h < SLEEPQ_HASHTABLE_SIZE" and b: "B h = pre @ t # ys"
    and prev: "if pre = [] then prev \<le> 0 else prev = int (last pre)"
  shows "wp (do { k \<leftarrow> sleepq_unlink h prev (int t) k; sleepq_ready (int t) k }) (\<lambda>k'.
    kernel_at k' (if t_state (thread_table k ! t) = Thread_Sleeping then qs @ [t] else qs) (B(h := pre @ ys)) \<and>
    current_thread k' = current_thread k \<and> next_tid k' = next_tid k \<and>
    (\<forall>u. u \<noteq> t \<longrightarrow> t_state (thread_table k' ! u) = t_state (thread_table k ! u)) \<and>
    (\<forall>u. t_sleeps_on (thread_table k' ! u) = (if u = t then 0 else t_sleeps_on (thread_table k ! u))) \<and>
    sleepq_table k' ! h = (if pre = [] then (case ys of [] \<Rightarrow> - 1 | y # _ \<Rightarrow> int y) else sleepq_table k ! h))"
proof -
  note len = kernel_atD(1,2,3) [OF k]
  have t: "0 < t" "t < MAX_THREADS"
    using queue_range(2) [OF k h, of t] b by auto
  note ok = thread_okD [OF k t]
  have chain: "chain (thread_table k) (sleepq_table k ! h) (pre @ t # ys)"
    using kernel_atD(5) [OF k h] b by simp
  then have dist: "distinct (pre @ t # ys)"
    by (rule chain_distinct)
  have sl: "t_sleeps_on (thread_table k ! t) \<noteq> 0"
    using ok(2) [OF h] b by auto
  have st: "t_state (thread_table k ! t) = Thread_Running \<or> t_state (thread_table k ! t) = Thread_Sleeping"
    using ok(4) [OF sl] by auto
  have hash: "SLEEPQ_HASH (t_sleeps_on (thread_table k ! t)) = h"
    using ok(2) [OF h] b by auto
  have notq: "t \<notin> set qs"
    using ok(1) st by auto
  let ?ts = "thread_table k"
  define k1 where "k1 = (if pre = [] then set_slot h (t_next (?ts ! t)) k
    else k\<lparr>thread_table := ?ts[last pre := (?ts ! last pre)\<lparr>t_next := t_next (?ts ! t)\<rparr>]\<rparr>)"
  have l: "last pre < MAX_THREADS \<and> 0 < last pre \<and> last pre \<noteq> t" if "pre \<noteq> []"
    using queue_range(2) [OF k h, of "last pre"] that b dist by (auto simp: last_in_set)
  have unlink: "sleepq_unlink h prev (int t) k = Some k1"
    using prev l t len by (auto simp: sleepq_unlink_def k1_def)
  have tt1: "thread_table k1 ! t = ?ts ! t" "length (thread_table k1) = MAX_THREADS"
    "current_thread k1 = current_thread k" "next_tid k1 = next_tid k" "length (sleepq_table k1) = SLEEPQ_HASHTABLE_SIZE"
    "ready_head k1 = ready_head k" "ready_tail k1 = ready_tail k"
    using l len by (auto simp: k1_def set_slot_def nth_update_if)
  have other1: "thread_table k1 ! u = ?ts ! u" if "u \<notin> set (B h)" for u
    using that b l by (auto simp: k1_def set_slot_def nth_update_if)
  have same1: "t_state (thread_table k1 ! u) = t_state (?ts ! u) \<and> t_sleeps_on (thread_table k1 ! u) = t_sleeps_on (?ts ! u)" for u
    by (auto simp: k1_def set_slot_def nth_update_if)
  have chain1: "chain (thread_table k1) (sleepq_table k1 ! h) (pre @ ys)"
    using chain_remove [OF chain] l len h by (cases "pre = []") (auto simp: k1_def set_slot_def)
  have slots1: "g \<noteq> h \<Longrightarrow> sleepq_table k1 ! g = sleepq_table k ! g" for g
    by (simp add: k1_def set_slot_def)
  define k2 where "k2 = k1\<lparr>thread_table := (thread_table k1)[t := (?ts ! t)\<lparr>t_sleeps_on := 0, t_next := - 1\<rparr>]\<rparr>"
  have k2: "upd_thread (int t) (\<lambda>e. e\<lparr>t_sleeps_on := 0, t_next := - 1\<rparr>) k1 = Some k2"
    using tt1 t by (simp add: k2_def)
  have len2: "length (thread_table k2) = MAX_THREADS"
    by (simp add: k2_def tt1)
  have B': "t \<notin> set ((B(h := pre @ ys)) g)" if "g < SLEEPQ_HASHTABLE_SIZE" for g
    using dist hash ok(2) [OF that] by auto
  have chain2: "chain (thread_table k2) (sleepq_table k2 ! g) ((B(h := pre @ ys)) g)" if g: "g < SLEEPQ_HASHTABLE_SIZE" for g
  proof (cases "g = h")
    case True
    then show ?thesis
      using chain1 dist by (simp add: k2_def)
  next
    case False
    have "chain (thread_table k1) (sleepq_table k ! g) (B g) = chain (thread_table k) (sleepq_table k ! g) (B g)"
    proof (rule seg_frame)
      fix u assume "u \<in> set (B g)"
      then have "u \<notin> set (B h)"
        using queues_disjoint(2) [OF k g h False] by auto
      then show "t_next (thread_table k1 ! u) = t_next (thread_table k ! u)"
        by (simp add: other1)
    qed (use tt1 len in simp)
    then show ?thesis
      using kernel_atD(5) [OF k g] False slots1 B' [OF g] by (simp add: k2_def)
  qed
  have ready2: "ready_queue k2 qs"
  proof (rule ready_queue_cong [OF kernel_atD(4) [OF k]])
    fix u assume "u \<in> set qs"
    then have "u \<notin> set (B h)" "u \<noteq> t"
      using queues_disjoint(1) [OF k h] notq by auto
    then show "t_next (thread_table k2 ! u) = t_next (thread_table k ! u)"
      by (simp add: k2_def nth_update_if other1)
  qed (simp_all add: k2_def tt1 len)
  have same2: "t_state (thread_table k2 ! u) = t_state (?ts ! u) \<and>
      t_sleeps_on (thread_table k2 ! u) = (if u = t then 0 else t_sleeps_on (?ts ! u))" for u
    using t tt1 same1 by (simp add: k2_def nth_update_if)
  have rest2: "current_thread k2 = current_thread k" "next_tid k2 = next_tid k" "sleepq_table k2 = sleepq_table k1"
    "length (sleepq_table k2) = SLEEPQ_HASHTABLE_SIZE"
    by (simp_all add: k2_def tt1)
  have head: "sleepq_table k1 ! h = (if pre = [] then (case ys of [] \<Rightarrow> - 1 | y # _ \<Rightarrow> int y) else sleepq_table k ! h)"
    using chain h len by (cases ys) (auto simp: k1_def set_slot_def seg_append)
  have result: "kernel_at k' qs' (B(h := pre @ ys))"
    if k': "length (thread_table k') = MAX_THREADS" "current_thread k' = current_thread k"
      "length (sleepq_table k') = SLEEPQ_HASHTABLE_SIZE"
      and same: "\<forall>u. u \<noteq> t \<longrightarrow> t_state (thread_table k' ! u) = t_state (?ts ! u)"
        "\<forall>u. t_sleeps_on (thread_table k' ! u) = (if u = t then 0 else t_sleeps_on (?ts ! u))"
      and q: "ready_queue k' qs'" "\<And>u. u \<noteq> t \<Longrightarrow> u \<in> set qs' \<longleftrightarrow> u \<in> set qs"
        "t \<in> set qs' \<longleftrightarrow> t_state (thread_table k' ! t) = Thread_Ready"
      and ch: "\<And>g. g < SLEEPQ_HASHTABLE_SIZE \<Longrightarrow> chain (thread_table k') (sleepq_table k' ! g) ((B(h := pre @ ys)) g)"
      and s: "t_state (thread_table k' ! t) = (if t_state (?ts ! t) = Thread_Sleeping then Thread_Ready else Thread_Running)" for k' qs'
  proof (rule kernel_at_update [OF k, where X = "{t}"])
    show "thread_ok k' qs' (B(h := pre @ ys)) u" if "u \<in> {t}" for u
      using that ok st q k' s B' unfolding thread_ok_def Let_def by (auto simp: same running_on_def)
    fix u :: nat assume "0 < u" "u < MAX_THREADS" "u \<notin> {t}"
    then show "t_state (thread_table k' ! u) = t_state (?ts ! u) \<and> t_sleeps_on (thread_table k' ! u) = t_sleeps_on (?ts ! u) \<and>
      (u \<in> set qs' \<longleftrightarrow> u \<in> set qs) \<and> (\<forall>g<SLEEPQ_HASHTABLE_SIZE. u \<in> set ((B(h := pre @ ys)) g) \<longleftrightarrow> u \<in> set (B g)) \<and>
      (running_on k' u \<longleftrightarrow> running_on k u)"
      using same q k' b by (auto simp: running_on_def)
  qed (use kernel_atD(2,3,7,8,9,10) [OF k] k' same t q ch in \<open>auto simp: running_on_def\<close>)
  show ?thesis
    unfolding unlink Option.bind.simps
  proof (cases "t_state (?ts ! t) = Thread_Sleeping")
    case False
    then have "sleepq_ready (int t) k1 = Some k2"
      using k2 t len2 same2 by (simp add: sleepq_ready_def del: upd_thread_int)
    moreover have "kernel_at k2 qs (B(h := pre @ ys))"
      by (rule result) (use False st notq len2 rest2 same2 ready2 chain2 in auto)
    ultimately show "wp (sleepq_ready (int t) k1) (\<lambda>k'.
      kernel_at k' (if t_state (?ts ! t) = Thread_Sleeping then qs @ [t] else qs) (B(h := pre @ ys)) \<and>
      current_thread k' = current_thread k \<and> next_tid k' = next_tid k \<and>
      (\<forall>u. u \<noteq> t \<longrightarrow> t_state (thread_table k' ! u) = t_state (?ts ! u)) \<and>
      (\<forall>u. t_sleeps_on (thread_table k' ! u) = (if u = t then 0 else t_sleeps_on (?ts ! u))) \<and>
      sleepq_table k' ! h = (if pre = [] then (case ys of [] \<Rightarrow> - 1 | y # _ \<Rightarrow> int y) else sleepq_table k ! h))"
      using False same2 rest2 head by simp
  next
    case True
    have k3: "upd_thread (int t) (t_state_update (\<lambda>_. Thread_Ready)) k2 = Some (set_state t Thread_Ready k2)"
      using t len2 by (intro upd_state) simp
    then have eq: "sleepq_ready (int t) k1 = scheduler_add_to_ready_list (int t) (set_state t Thread_Ready k2)"
      using True k2 t len2 same2 by (simp add: sleepq_ready_def del: upd_thread_int)
    have add: "wp (scheduler_add_to_ready_list (int t) (set_state t Thread_Ready k2))
      (\<lambda>k'. ready_queue k' (qs @ [t]) \<and> same_but_next (insert t (set qs)) (set_state t Thread_Ready k2) k')"
      by (rule add_to_ready_list) (use ready2 len2 t notq in simp_all)
    show "wp (sleepq_ready (int t) k1) (\<lambda>k'.
      kernel_at k' (if t_state (?ts ! t) = Thread_Sleeping then qs @ [t] else qs) (B(h := pre @ ys)) \<and>
      current_thread k' = current_thread k \<and> next_tid k' = next_tid k \<and>
      (\<forall>u. u \<noteq> t \<longrightarrow> t_state (thread_table k' ! u) = t_state (?ts ! u)) \<and>
      (\<forall>u. t_sleeps_on (thread_table k' ! u) = (if u = t then 0 else t_sleeps_on (?ts ! u))) \<and>
      sleepq_table k' ! h = (if pre = [] then (case ys of [] \<Rightarrow> - 1 | y # _ \<Rightarrow> int y) else sleepq_table k ! h))"
      unfolding eq
    proof (rule wp_mono [OF add])
      fix k' assume a: "ready_queue k' (qs @ [t]) \<and> same_but_next (insert t (set qs)) (set_state t Thread_Ready k2) k'"
      have same3: "length (thread_table k') = MAX_THREADS" "current_thread k' = current_thread k"
        "sleepq_table k' = sleepq_table k1" "next_tid k' = next_tid k"
        "t_state (thread_table k' ! u) = (if u = t then Thread_Ready else t_state (?ts ! u))"
        "t_sleeps_on (thread_table k' ! u) = (if u = t then 0 else t_sleeps_on (?ts ! u))" for u
        using a len2 rest2 same2 t by (simp_all add: same_but_next_def set_state_nth)
      have chain3: "chain (thread_table k') (sleepq_table k' ! g) ((B(h := pre @ ys)) g)" if g: "g < SLEEPQ_HASHTABLE_SIZE" for g
      proof -
        have "chain (thread_table k') (sleepq_table k2 ! g) ((B(h := pre @ ys)) g) =
          chain (thread_table k2) (sleepq_table k2 ! g) ((B(h := pre @ ys)) g)"
        proof (rule seg_frame)
          fix u assume u: "u \<in> set ((B(h := pre @ ys)) g)"
          have "set ((B(h := pre @ ys)) g) \<subseteq> set (B g)"
            using b by auto
          then have "u \<notin> insert t (set qs)"
            using u B' [OF g] queues_disjoint(1) [OF k g] by auto
          then show "t_next (thread_table k' ! u) = t_next (thread_table k2 ! u)"
            using a by (simp add: same_but_next_def set_state_nth)
        qed (use same3 len2 in simp)
        then show ?thesis
          using chain2 [OF g] same3 rest2 by simp
      qed
      have "kernel_at k' (qs @ [t]) (B(h := pre @ ys))"
        by (rule result) (use True a same3 chain3 tt1 in auto)
      then show "kernel_at k' (if t_state (?ts ! t) = Thread_Sleeping then qs @ [t] else qs) (B(h := pre @ ys)) \<and>
        current_thread k' = current_thread k \<and> next_tid k' = next_tid k \<and>
        (\<forall>u. u \<noteq> t \<longrightarrow> t_state (thread_table k' ! u) = t_state (?ts ! u)) \<and>
        (\<forall>u. t_sleeps_on (thread_table k' ! u) = (if u = t then 0 else t_sleeps_on (?ts ! u))) \<and>
        sleepq_table k' ! h = (if pre = [] then (case ys of [] \<Rightarrow> - 1 | y # _ \<Rightarrow> int y) else sleepq_table k ! h)"
        using True same3 head by simp
    qed
  qed
qed

text \<open>The threads that wait for a resource, in the order in which they came.\<close>

definition waiters :: "kernel \<Rightarrow> (nat \<Rightarrow> nat list) \<Rightarrow> u32 \<Rightarrow> nat list" where
  "waiters k B r = filter (\<lambda>t. t_sleeps_on (thread_table k ! t) = r) (B (SLEEPQ_HASH r))"

definition asleep :: "kernel \<Rightarrow> nat \<Rightarrow> bool" where
  "asleep k t \<longleftrightarrow> t_state (thread_table k ! t) = Thread_Sleeping"

lemma split_first:
  "dropWhile P xs = t # ys \<Longrightarrow> xs = takeWhile P xs @ t # ys \<and> \<not> P t \<and> (\<forall>u\<in>set (takeWhile P xs). P u)"
  by (metis hd_dropWhile list.distinct(1) list.sel(1) set_takeWhileD takeWhile_dropWhile_id)

lemma wake_at:
  assumes k: "kernel_at k qs B" and r: "r \<noteq> 0"
  shows "wp (sleepq_wake r k) (\<lambda>k'. current_thread k' = current_thread k \<and> next_tid k' = next_tid k \<and>
    (case waiters k B r of [] \<Rightarrow> k' = k
     | t # ts \<Rightarrow> kernel_at k' (if asleep k t then qs @ [t] else qs) (B(SLEEPQ_HASH r := removeAll t (B (SLEEPQ_HASH r)))) \<and>
       (\<forall>u. u \<noteq> t \<longrightarrow> t_state (thread_table k' ! u) = t_state (thread_table k ! u)) \<and>
       (\<forall>u. t_sleeps_on (thread_table k' ! u) = (if u = t then 0 else t_sleeps_on (thread_table k ! u)))))"
proof -
  define h where "h = SLEEPQ_HASH r"
  have h: "h < SLEEPQ_HASHTABLE_SIZE"
    unfolding h_def by (rule hash_less)
  let ?P = "\<lambda>t. t_sleeps_on (thread_table k ! t) \<noteq> r"
  have chain: "chain (thread_table k) (sleepq_table k ! h) (B h)"
    using kernel_atD(5) [OF k h] .
  have slot: "get_slot h k = Some (sleepq_table k ! h)"
    using kernel_atD(3) [OF k] h by (simp add: get_slot_def)
  note find = sleepq_find_chain [OF chain, of r "- 1"]
  show ?thesis
  proof (cases "dropWhile ?P (B h)")
    case Nil
    then have "waiters k B r = []"
      by (simp add: waiters_def h_def [symmetric] filter_empty_conv)
    then show ?thesis
      using find unfolding Nil list.case by (simp add: sleepq_wake_def h_def [symmetric] slot)
  next
    case (Cons t ys)
    let ?pre = "takeWhile ?P (B h)"
    have b: "B h = ?pre @ t # ys" and t: "\<not> ?P t" and pre: "\<forall>u\<in>set ?pre. ?P u"
      using split_first [OF Cons] by blast+
    have w: "waiters k B r = t # filter (\<lambda>t. t_sleeps_on (thread_table k ! t) = r) ys"
      unfolding waiters_def h_def [symmetric] using t pre by (subst b) (simp add: filter_empty_conv)
    have pos: "0 < t"
      using queue_range(2) [OF k h, of t] b by (metis in_set_conv_decomp)
    have dist: "distinct (?pre @ t # ys)"
      using chain_distinct [OF chain] b by metis
    then have rem: "removeAll t (B h) = ?pre @ ys"
      by (subst b) simp
    show ?thesis
      unfolding sleepq_wake_def h_def [symmetric] slot wp_bind w
      using pos Cons unlink_at [OF k h b, of "if ?pre = [] then - 1 else int (last ?pre)"]
      by (auto simp: find wp_bind rem asleep_def elim!: wp_mono)
  qed
qed

text \<open>The loop of \<open>sleepq_wake_all\<close>, with \<open>pre\<close> behind it and \<open>xs\<close> in front.\<close>

lemma wake_loop_at:
  assumes "kernel_at k qs B" and "B h = pre @ xs" and "\<forall>u\<in>set pre. t_sleeps_on (thread_table k ! u) \<noteq> r"
    and h: "h = SLEEPQ_HASH r" and "r \<noteq> 0"
    and "first = (case xs of [] \<Rightarrow> - 1 | t # _ \<Rightarrow> int t)" and "prev = (if pre = [] then - 1 else int (last pre))"
  shows "wp (sleepq_wake_loop r prev first k) (\<lambda>k'. \<exists>qs'.
    kernel_at k' (qs @ qs') (B(h := pre @ filter (\<lambda>t. t_sleeps_on (thread_table k ! t) \<noteq> r) xs)) \<and>
    qs' = filter (asleep k) (filter (\<lambda>t. t_sleeps_on (thread_table k ! t) = r) xs) \<and>
    current_thread k' = current_thread k \<and> next_tid k' = next_tid k \<and>
    (\<forall>u. t_sleeps_on (thread_table k' ! u) =
      (if u \<in> set xs \<and> t_sleeps_on (thread_table k ! u) = r then 0 else t_sleeps_on (thread_table k ! u))))"
  using assms
proof (induction "length xs" arbitrary: k qs B pre xs first prev rule: less_induct)
  case less
  note k = less.prems(1) and b = less.prems(2) and pre = less.prems(3) and r = less.prems(5)
  have hl: "h < SLEEPQ_HASHTABLE_SIZE"
    unfolding h by (rule hash_less)
  let ?P = "\<lambda>t. t_sleeps_on (thread_table k ! t) \<noteq> r"
  have chain: "chain (thread_table k) (sleepq_table k ! h) (pre @ xs)"
    using kernel_atD(5) [OF k hl] b by simp
  have dist: "distinct (pre @ xs)"
    using chain by (rule chain_distinct)
  have tail: "chain (thread_table k) first xs"
    using chain less.prems(6) by (cases xs) (auto simp: seg_append)
  show ?case
  proof (cases "dropWhile ?P xs")
    case Nil
    then have all: "\<forall>u\<in>set xs. ?P u"
      by simp
    have "wp (sleepq_wake_loop r prev first k) (\<lambda>k'. k' = k)"
      using sleepq_find_chain [OF tail, of r prev] unfolding Nil list.case
      by (subst sleepq_wake_loop.simps) simp
    moreover have "B(h := pre @ xs) = B" "filter ?P xs = xs"
      using all b by (auto simp: filter_id_conv)
    moreover have "filter (\<lambda>t. t_sleeps_on (thread_table k ! t) = r) xs = []"
      using all by (simp add: filter_empty_conv)
    ultimately show ?thesis
      using k all by (auto elim!: wp_mono)
  next
    case (Cons t ys)
    let ?mid = "takeWhile ?P xs"
    have xs: "xs = ?mid @ t # ys" and t: "\<not> ?P t" and mid: "\<forall>u\<in>set ?mid. ?P u"
      using split_first [OF Cons] by blast+
    have b': "B h = (pre @ ?mid) @ t # ys"
      using b xs by simp
    have pos: "0 < t" "t < length (thread_table k)"
      using queue_range(2) [OF k hl, of t] b' kernel_atD(1) [OF k] by auto
    have first: "0 < first"
      using less.prems(6) tail xs by (cases xs) auto
    define prev' where "prev' = (if pre @ ?mid = [] then - 1 else int (last (pre @ ?mid)))"
    have find: "sleepq_find r prev first k = Some (prev', int t)"
      using sleepq_find_chain [OF tail, of r prev] Cons less.prems(7)
      by (auto simp: prev'_def)
    have loop: "sleepq_wake_loop r prev first k =
      do { k' \<leftarrow> (do { k \<leftarrow> sleepq_unlink h prev' (int t) k; sleepq_ready (int t) k });
           sleepq_wake_loop r prev' (t_next (thread_table k ! t)) k' }"
      using first find pos by (subst sleepq_wake_loop.simps) (simp add: h bind_assoc)
    have nxt: "t_next (thread_table k ! t) = (case ys of [] \<Rightarrow> - 1 | y # _ \<Rightarrow> int y)"
      using kernel_atD(5) [OF k hl] unfolding b' by (cases ys) (auto simp: seg_append)
    show ?thesis
      unfolding loop wp_bind [of "do { k \<leftarrow> sleepq_unlink h prev' (int t) k; sleepq_ready (int t) k }"]
    proof (rule wp_mono [OF unlink_at [OF k hl b']])
      show "if pre @ ?mid = [] then prev' \<le> 0 else prev' = int (last (pre @ ?mid))"
        by (simp add: prev'_def)
      fix k'
      assume a: "kernel_at k' (if t_state (thread_table k ! t) = Thread_Sleeping then qs @ [t] else qs) (B(h := (pre @ ?mid) @ ys)) \<and>
        current_thread k' = current_thread k \<and> next_tid k' = next_tid k \<and>
        (\<forall>u. u \<noteq> t \<longrightarrow> t_state (thread_table k' ! u) = t_state (thread_table k ! u)) \<and>
        (\<forall>u. t_sleeps_on (thread_table k' ! u) = (if u = t then 0 else t_sleeps_on (thread_table k ! u))) \<and>
        sleepq_table k' ! h = (if pre @ ?mid = [] then (case ys of [] \<Rightarrow> - 1 | y # _ \<Rightarrow> int y) else sleepq_table k ! h)"
      have "distinct ((pre @ ?mid) @ t # ys)"
        using chain_distinct [OF kernel_atD(5) [OF k hl]] unfolding b' .
      then have notin: "t \<notin> set ys" "t \<notin> set ?mid" "t \<notin> set pre"
        by auto
      have f1: "filter (\<lambda>u. t_sleeps_on (thread_table k' ! u) \<noteq> r) ys = filter ?P ys"
        "filter (\<lambda>u. t_sleeps_on (thread_table k' ! u) = r) ys = filter (\<lambda>u. t_sleeps_on (thread_table k ! u) = r) ys"
        using a notin by (auto intro!: filter_cong)
      have f2: "filter (asleep k') zs = filter (asleep k) zs" if "t \<notin> set zs" for zs
        using a that by (auto simp: asleep_def intro!: filter_cong)
      have f3: "filter ?P xs = ?mid @ filter ?P ys" "filter (\<lambda>u. t_sleeps_on (thread_table k ! u) = r) xs =
          t # filter (\<lambda>u. t_sleeps_on (thread_table k ! u) = r) ys"
        using mid t by (subst xs; simp add: filter_id_conv filter_empty_conv)+
      have "length ys < length xs"
        by (subst xs) simp
      moreover have "kernel_at k' (if t_state (thread_table k ! t) = Thread_Sleeping then qs @ [t] else qs) (B(h := (pre @ ?mid) @ ys))"
        using a by blast
      moreover have "(B(h := (pre @ ?mid) @ ys)) h = (pre @ ?mid) @ ys"
        by simp
      moreover have "\<forall>u\<in>set (pre @ ?mid). t_sleeps_on (thread_table k' ! u) \<noteq> r"
        using a pre mid r by auto
      ultimately
      have "wp (sleepq_wake_loop r prev' (t_next (thread_table k ! t)) k') (\<lambda>k''. \<exists>qs'.
        kernel_at k'' ((if t_state (thread_table k ! t) = Thread_Sleeping then qs @ [t] else qs) @ qs')
          ((B(h := (pre @ ?mid) @ ys))(h := (pre @ ?mid) @ filter (\<lambda>u. t_sleeps_on (thread_table k' ! u) \<noteq> r) ys)) \<and>
        qs' = filter (asleep k') (filter (\<lambda>u. t_sleeps_on (thread_table k' ! u) = r) ys) \<and>
        current_thread k'' = current_thread k' \<and> next_tid k'' = next_tid k' \<and>
        (\<forall>u. t_sleeps_on (thread_table k'' ! u) =
          (if u \<in> set ys \<and> t_sleeps_on (thread_table k' ! u) = r then 0 else t_sleeps_on (thread_table k' ! u))))"
        by (rule less.hyps [OF _ _ _ _ h r nxt prev'_def])
      then show "wp (sleepq_wake_loop r prev' (t_next (thread_table k ! t)) k') (\<lambda>k'. \<exists>qs'.
        kernel_at k' (qs @ qs') (B(h := pre @ filter ?P xs)) \<and>
        qs' = filter (asleep k) (filter (\<lambda>t. t_sleeps_on (thread_table k ! t) = r) xs) \<and>
        current_thread k' = current_thread k \<and> next_tid k' = next_tid k \<and>
        (\<forall>u. t_sleeps_on (thread_table k' ! u) =
          (if u \<in> set xs \<and> t_sleeps_on (thread_table k ! u) = r then 0 else t_sleeps_on (thread_table k ! u))))"
      proof (rule wp_mono)
        fix k''
        assume "\<exists>qs'. kernel_at k'' ((if t_state (thread_table k ! t) = Thread_Sleeping then qs @ [t] else qs) @ qs')
          ((B(h := (pre @ ?mid) @ ys))(h := (pre @ ?mid) @ filter (\<lambda>u. t_sleeps_on (thread_table k' ! u) \<noteq> r) ys)) \<and>
          qs' = filter (asleep k') (filter (\<lambda>u. t_sleeps_on (thread_table k' ! u) = r) ys) \<and>
          current_thread k'' = current_thread k' \<and> next_tid k'' = next_tid k' \<and>
          (\<forall>u. t_sleeps_on (thread_table k'' ! u) =
            (if u \<in> set ys \<and> t_sleeps_on (thread_table k' ! u) = r then 0 else t_sleeps_on (thread_table k' ! u)))"
        note step = this [unfolded f1 fun_upd_upd, folded asleep_def [of k t]]
        have keep: "filter (asleep k') (filter (\<lambda>u. t_sleeps_on (thread_table k ! u) = r) ys) =
            filter (asleep k) (filter (\<lambda>u. t_sleeps_on (thread_table k ! u) = r) ys)"
          by (rule f2) (use notin in simp)
        from step obtain qs' where q: "kernel_at k'' ((if asleep k t then qs @ [t] else qs) @ qs') (B(h := (pre @ ?mid) @ filter ?P ys))"
          "qs' = filter (asleep k) (filter (\<lambda>u. t_sleeps_on (thread_table k ! u) = r) ys)"
          and c: "current_thread k'' = current_thread k'" "next_tid k'' = next_tid k'"
          and sl: "\<forall>u. t_sleeps_on (thread_table k'' ! u) =
            (if u \<in> set ys \<and> t_sleeps_on (thread_table k' ! u) = r then 0 else t_sleeps_on (thread_table k' ! u))"
          unfolding keep by blast
        have "(if asleep k t then qs @ [t] else qs) @ qs' =
            qs @ filter (asleep k) (filter (\<lambda>t. t_sleeps_on (thread_table k ! t) = r) xs)"
          using q(2) f3(2) by simp
        moreover have "(pre @ ?mid) @ filter ?P ys = pre @ filter ?P xs"
          using f3(1) by simp
        moreover have "u \<in> set xs \<and> t_sleeps_on (thread_table k ! u) = r \<longleftrightarrow>
            u = t \<or> u \<in> set ys \<and> t_sleeps_on (thread_table k ! u) = r" for u
          using mid t by (subst xs) auto
        ultimately show "\<exists>qs'. kernel_at k'' (qs @ qs') (B(h := pre @ filter ?P xs)) \<and>
          qs' = filter (asleep k) (filter (\<lambda>t. t_sleeps_on (thread_table k ! t) = r) xs) \<and>
          current_thread k'' = current_thread k \<and> next_tid k'' = next_tid k \<and>
          (\<forall>u. t_sleeps_on (thread_table k'' ! u) =
            (if u \<in> set xs \<and> t_sleeps_on (thread_table k ! u) = r then 0 else t_sleeps_on (thread_table k ! u)))"
          using q(1) c sl a by auto
      qed
    qed
  qed
qed

end
