(* ===== verification/Semaphore_Spec.thy ===== *)
theory Semaphore_Spec
  imports Sleep_Spec
begin

text \<open>
  Semaphores count their waiters; the running system as a step relation with its invariant.
\<close>

section \<open>Semaphores\<close>

definition sleepers :: "kernel \<Rightarrow> u32 \<Rightarrow> nat set" where
  "sleepers k r = {t. t < MAX_THREADS \<and> t_sleeps_on (thread_table k ! t) = r}"

definition sems_ok :: "sems \<Rightarrow> kernel \<Rightarrow> bool" where
  "sems_ok s k \<longleftrightarrow> length (semaphore_table s) = MAX_SEMAPHORES \<and> sem_next s < MAX_SEMAPHORES \<and>
     0 < unat (sem_base s) \<and> unat (sem_base s) + 12 * MAX_SEMAPHORES < 2 ^ 32 \<and>
     (\<forall>i<MAX_SEMAPHORES. card (sleepers k (sem_addr s i)) =
       (if sem_creator (semaphore_table s ! i) = - 1 then 0 else nat (- sem_value (semaphore_table s ! i))))"

lemma finite_sleepers [simp]: "finite (sleepers k r)"
  by (simp add: sleepers_def)

lemma sem_addr_unat:
  "unat (sem_base s) + 12 * MAX_SEMAPHORES < 2 ^ 32 \<Longrightarrow> i < MAX_SEMAPHORES \<Longrightarrow>
    unat (sem_addr s i) = unat (sem_base s) + 12 * i"
  by (simp add: sem_addr_def unat_word_ariths unat_of_nat)

lemma sems_okD:
  assumes "sems_ok s k"
  shows "length (semaphore_table s) = MAX_SEMAPHORES" "sem_next s < MAX_SEMAPHORES"
    "i < MAX_SEMAPHORES \<Longrightarrow> sem_addr s i \<noteq> 0"
    "i < MAX_SEMAPHORES \<Longrightarrow> j < MAX_SEMAPHORES \<Longrightarrow> sem_addr s i = sem_addr s j \<longleftrightarrow> i = j"
    "i < MAX_SEMAPHORES \<Longrightarrow> card (sleepers k (sem_addr s i)) =
       (if sem_creator (semaphore_table s ! i) = - 1 then 0 else nat (- sem_value (semaphore_table s ! i)))"
proof -
  have base: "0 < unat (sem_base s)" "unat (sem_base s) + 12 * MAX_SEMAPHORES < 2 ^ 32"
    using assms by (simp_all add: sems_ok_def)
  show "sem_addr s i \<noteq> 0" if "i < MAX_SEMAPHORES"
  proof
    assume "sem_addr s i = 0"
    then have "unat (sem_addr s i) = 0" by simp
    then show False
      using sem_addr_unat [OF base(2) that] base(1) by linarith
  qed
  show "sem_addr s i = sem_addr s j \<longleftrightarrow> i = j" if "i < MAX_SEMAPHORES" "j < MAX_SEMAPHORES"
  proof
    assume "sem_addr s i = sem_addr s j"
    then have "unat (sem_addr s i) = unat (sem_addr s j)" by simp
    then show "i = j"
      using sem_addr_unat [OF base(2)] that by simp
  qed simp
qed (use assms in \<open>auto simp: sems_ok_def\<close>)

lemma sleepers_cong:
  "(\<And>u. t_sleeps_on (thread_table k' ! u) = t_sleeps_on (thread_table k ! u)) \<Longrightarrow> sleepers k' r = sleepers k r"
  by (simp add: sleepers_def)

lemma sems_ok_cong:
  "(\<And>u. t_sleeps_on (thread_table k' ! u) = t_sleeps_on (thread_table k ! u)) \<Longrightarrow> sems_ok s k \<Longrightarrow> sems_ok s k'"
  using sleepers_cong [of k' k] by (simp add: sems_ok_def)

lemma waiters_sleepers:
  assumes k: "kernel_at k qs B" and r: "r \<noteq> 0"
  shows "set (waiters k B r) = sleepers k r"
proof -
  have "t \<in> set (waiters k B r) \<longleftrightarrow> t \<in> sleepers k r" for t
    using queue_range(2) [OF k hash_less, of t r] thread_okD(2) [OF k _ _ hash_less, of t r]
      kernel_atD(8) [OF k] r
    by (cases "t = 0") (auto simp: waiters_def sleepers_def)
  then show ?thesis by blast
qed

lemma wake_all_at:
  assumes k: "kernel_at k qs B" and r: "r \<noteq> 0"
  shows "wp (sleepq_wake_all r k) (\<lambda>k'.
    kernel_at k' (qs @ filter (asleep k) (waiters k B r))
      (B(SLEEPQ_HASH r := filter (\<lambda>t. t_sleeps_on (thread_table k ! t) \<noteq> r) (B (SLEEPQ_HASH r)))) \<and>
    current_thread k' = current_thread k \<and> next_tid k' = next_tid k \<and>
    (\<forall>u<MAX_THREADS. t_sleeps_on (thread_table k' ! u) =
      (if t_sleeps_on (thread_table k ! u) = r then 0 else t_sleeps_on (thread_table k ! u))))"
proof -
  define h where "h = SLEEPQ_HASH r"
  have h: "h < SLEEPQ_HASHTABLE_SIZE"
    unfolding h_def by (rule hash_less)
  have chain: "chain (thread_table k) (sleepq_table k ! h) (B h)"
    using kernel_atD(5) [OF k h] .
  have slot: "get_slot h k = Some (sleepq_table k ! h)"
    using kernel_atD(3) [OF k] h by (simp add: get_slot_def)
  have first: "sleepq_table k ! h = (case B h of [] \<Rightarrow> - 1 | t # _ \<Rightarrow> int t)"
    using chain by (cases "B h") auto
  have in_B: "u \<in> set (B h)" if "u < MAX_THREADS" "t_sleeps_on (thread_table k ! u) = r" for u
    using that waiters_sleepers [OF k r] unfolding sleepers_def waiters_def h_def by auto
  show ?thesis
    unfolding sleepq_wake_all_def h_def [symmetric] slot Option.bind.simps waiters_def
    by (rule wp_mono [OF wake_loop_at [OF k, where pre = "[]" and xs = "B h", OF _ _ h_def r first]])
      (use in_B in auto)
qed

lemma set_sem_value_creator [simp]:
  "sem_creator (semaphore_table (set_sem_value i v s) ! j) = sem_creator (semaphore_table s ! j)"
  by (cases "i < length (semaphore_table s)") (auto simp: set_sem_value_def nth_list_update list_update_beyond)

lemma set_sem_value_simps [simp]:
  "sem_addr (set_sem_value i v s) j = sem_addr s j" "sem_base (set_sem_value i v s) = sem_base s"
  "sem_next (set_sem_value i v s) = sem_next s"
  "length (semaphore_table (set_sem_value i v s)) = length (semaphore_table s)"
  "i < length (semaphore_table s) \<Longrightarrow> sem_value (semaphore_table (set_sem_value i v s) ! j) =
    (if j = i then v else sem_value (semaphore_table s ! j))"
  by (auto simp: set_sem_value_def sem_addr_def nth_list_update split: if_splits)

lemma find_free_sem_eq:
  assumes "length (semaphore_table s) = MAX_SEMAPHORES" and "sem_next s < MAX_SEMAPHORES"
  shows "case find_free_sem is s of (r, s') \<Rightarrow> semaphore_table s' = semaphore_table s \<and> sem_base s' = sem_base s \<and>
    sem_next s' < MAX_SEMAPHORES \<and>
    (case r of None \<Rightarrow> True | Some i \<Rightarrow> i < MAX_SEMAPHORES \<and> sem_creator (semaphore_table s ! i) = - 1)"
  using assms
proof (induction "is" arbitrary: s)
  case (Cons i "is")
  show ?case
    using Cons.IH [of "s\<lparr>sem_next := (sem_next s + 1) mod MAX_SEMAPHORES\<rparr>"] Cons.prems
    by (auto simp: Let_def split: option.splits)
qed simp

lemma create_sem_ok:
  assumes s: "sems_ok s k" and k: "kernel_at k qs B" and c: "c < MAX_CPUS" and v: "0 \<le> v"
  shows "wp (semaphore_create c v k s) (\<lambda>(r, s'). sems_ok s' k \<and>
    (case r of None \<Rightarrow> semaphore_table s' = semaphore_table s
     | Some i \<Rightarrow> i < MAX_SEMAPHORES \<and> sem_creator (semaphore_table s ! i) = - 1 \<and>
         semaphore_table s' = (semaphore_table s)[i := \<lparr>sem_value = v, sem_creator = current_thread k ! c\<rparr>]))"
proof -
  obtain r s1 where f: "find_free_sem [0..<MAX_SEMAPHORES] s = (r, s1)"
    by fastforce
  have e: "semaphore_table s1 = semaphore_table s" "sem_base s1 = sem_base s" "sem_next s1 < MAX_SEMAPHORES"
    "r = Some i \<Longrightarrow> i < MAX_SEMAPHORES \<and> sem_creator (semaphore_table s ! i) = - 1" for i
    using find_free_sem_eq [OF sems_okD(1,2) [OF s], of "[0..<MAX_SEMAPHORES]"] unfolding f by auto
  have addr: "sem_addr s' i = sem_addr s i" if "sem_base s' = sem_base s" for s' i
    using that by (simp add: sem_addr_def)
  have me: "thread_get_current_thread c k = Some (current_thread k ! c)" "0 \<le> current_thread k ! c"
    using kernel_atD(2) [OF k] kernel_atD(9) [OF k c] c by (simp_all add: thread_get_current_thread_def current_on_def)
  show ?thesis
  proof (cases r)
    case None
    then have "sems_ok s1 k"
      using s e addr [of s1] by (simp add: sems_ok_def)
    then show ?thesis
      using v None e by (simp add: semaphore_create_def guard_def me f del: upt_rec_numeral)
  next
    case (Some i)
    let ?s = "s1\<lparr>semaphore_table := (semaphore_table s)[i := \<lparr>sem_value = v, sem_creator = current_thread k ! c\<rparr>]\<rparr>"
    have i: "i < MAX_SEMAPHORES" "sem_creator (semaphore_table s ! i) = - 1"
      using e(4) [OF Some] by auto
    have "sems_ok ?s k"
      using s e i v addr [of ?s] me(2) sems_okD(1,5) [OF s] unfolding sems_ok_def
      by (auto simp: nth_list_update)
    then show ?thesis
      using v Some e i by (simp add: semaphore_create_def guard_def me f del: upt_rec_numeral)
  qed
qed

text \<open>Changing the value of one semaphore together with the number of its sleepers.\<close>

lemma set_sem_ok:
  assumes s: "sems_ok s k" and i: "i < MAX_SEMAPHORES" "sem_creator (semaphore_table s ! i) \<noteq> - 1"
    and card: "card (sleepers k' (sem_addr s i)) = nat (- v)"
    and others: "\<And>j. j < MAX_SEMAPHORES \<Longrightarrow> j \<noteq> i \<Longrightarrow> sleepers k' (sem_addr s j) = sleepers k (sem_addr s j)"
  shows "sems_ok (set_sem_value i v s) k'"
proof -
  have "card (sleepers k' (sem_addr s j)) = (if sem_creator (semaphore_table s ! j) = - 1 then 0
      else nat (- (if j = i then v else sem_value (semaphore_table s ! j))))" if "j < MAX_SEMAPHORES" for j
    using card i(2) others [OF that] sems_okD(5) [OF s that] by (cases "j = i") simp_all
  then show ?thesis
    using s i(1) unfolding sems_ok_def by simp
qed

definition caller :: "nat \<Rightarrow> kernel \<Rightarrow> nat \<Rightarrow> bool" where
  "caller c k t \<longleftrightarrow> c < MAX_CPUS \<and> current_thread k ! c = int t \<and> 0 < t \<and>
     t_state (thread_table k ! t) = Thread_Running \<and> t_sleeps_on (thread_table k ! t) = 0"

lemma P_at:
  assumes s: "sems_ok s k" and k: "kernel_at k qs B" and t: "caller c k t"
    and i: "i < MAX_SEMAPHORES" "sem_creator (semaphore_table s ! i) \<noteq> - 1"
    and v: "int_ok (sem_value (semaphore_table s ! i) - 1)"
  shows "wp (semaphore_P c i (s, k)) (\<lambda>(b, s', k').
    s' = set_sem_value i (sem_value (semaphore_table s ! i) - 1) s \<and> sems_ok s' k' \<and>
    (if 0 < sem_value (semaphore_table s ! i) then \<not> b \<and> k' = k
     else b \<and> (let h = SLEEPQ_HASH (sem_addr s i) in kernel_at k' qs (B(h := B h @ [t]))) \<and>
       current_thread k' = current_thread k \<and> next_tid k' = next_tid k \<and>
       t_sleeps_on (thread_table k' ! t) = sem_addr s i))"
proof (cases "0 < sem_value (semaphore_table s ! i)")
  case True
  have "sems_ok (set_sem_value i (sem_value (semaphore_table s ! i) - 1) s) k"
    by (rule set_sem_ok [OF s i]) (use True sems_okD(5) [OF s i(1)] i in simp_all)
  then show ?thesis
    using True v by (simp add: semaphore_P_def ck_def Let_def)
next
  case False
  let ?a = "sem_addr s i"
  note t' = t [unfolded caller_def]
  have range: "t < MAX_THREADS"
    using running_state(1) [OF k] t' by blast
  have a: "?a \<noteq> 0"
    using sems_okD(3) [OF s i(1)] .
  have new: "sleepers k' ?a = insert t (sleepers k ?a)" "t \<notin> sleepers k ?a"
    "r \<noteq> ?a \<Longrightarrow> r \<noteq> 0 \<Longrightarrow> sleepers k' r = sleepers k r"
    if "\<forall>u. t_sleeps_on (thread_table k' ! u) = (if u = t then ?a else t_sleeps_on (thread_table k ! u))" for k' r
    using that t' range a by (auto simp: sleepers_def)
  have ok: "sems_ok (set_sem_value i (sem_value (semaphore_table s ! i) - 1) s) k'"
    if upd: "\<forall>u. t_sleeps_on (thread_table k' ! u) = (if u = t then ?a else t_sleeps_on (thread_table k ! u))" for k'
  proof (rule set_sem_ok [OF s i])
    show "card (sleepers k' ?a) = nat (- (sem_value (semaphore_table s ! i) - 1))"
      using new [OF upd] sems_okD(5) [OF s i(1)] i(2) False by (simp add: nat_add_distrib)
    show "sleepers k' (sem_addr s j) = sleepers k (sem_addr s j)" if "j < MAX_SEMAPHORES" "j \<noteq> i" for j
      using new(3) [OF upd] sems_okD(3,4) [OF s] that i(1) by auto
  qed
  show ?thesis
    unfolding semaphore_P_def prod.case
    using False v t' a
    by (auto simp: ck_def Let_def wp_bind intro!: wp_mono [OF add_at [OF k _ _ _ _ _ a, where c = c and t = t]] ok)
qed

lemma V_at:
  assumes s: "sems_ok s k" and k: "kernel_at k qs B"
    and i: "i < MAX_SEMAPHORES" "sem_creator (semaphore_table s ! i) \<noteq> - 1"
    and v: "int_ok (sem_value (semaphore_table s ! i) + 1)"
  shows "wp (semaphore_V i (s, k)) (\<lambda>(s', k').
    s' = set_sem_value i (sem_value (semaphore_table s ! i) + 1) s \<and> sems_ok s' k' \<and>
    current_thread k' = current_thread k \<and> next_tid k' = next_tid k \<and>
    (if 0 \<le> sem_value (semaphore_table s ! i) then k' = k
     else \<exists>t ts. waiters k B (sem_addr s i) = t # ts \<and>
       kernel_at k' (if asleep k t then qs @ [t] else qs)
         (B(SLEEPQ_HASH (sem_addr s i) := removeAll t (B (SLEEPQ_HASH (sem_addr s i))))) \<and>
       t_sleeps_on (thread_table k' ! t) = 0))"
proof (cases "0 \<le> sem_value (semaphore_table s ! i)")
  case True
  have "sems_ok (set_sem_value i (sem_value (semaphore_table s ! i) + 1) s) k"
    by (rule set_sem_ok [OF s i]) (use True sems_okD(5) [OF s i(1)] i in simp_all)
  then show ?thesis
    using True v by (simp add: semaphore_V_def ck_def Let_def)
next
  case False
  let ?a = "sem_addr s i"
  have a: "?a \<noteq> 0"
    using sems_okD(3) [OF s i(1)] .
  have card: "card (sleepers k ?a) = nat (- sem_value (semaphore_table s ! i))"
    using sems_okD(5) [OF s i(1)] i(2) by simp
  then have "sleepers k ?a \<noteq> {}"
    using False by auto
  then obtain t ts where w: "waiters k B ?a = t # ts"
    using waiters_sleepers [OF k a] by (cases "waiters k B ?a") auto
  then have t: "t \<in> sleepers k ?a"
    using waiters_sleepers [OF k a] by auto
  have less: "sleepers k' ?a = sleepers k ?a - {t}" "r \<noteq> ?a \<Longrightarrow> r \<noteq> 0 \<Longrightarrow> sleepers k' r = sleepers k r"
    if "\<forall>u. t_sleeps_on (thread_table k' ! u) = (if u = t then 0 else t_sleeps_on (thread_table k ! u))" for k' r
    using that t a by (auto simp: sleepers_def)
  have ok: "sems_ok (set_sem_value i (sem_value (semaphore_table s ! i) + 1) s) k'"
    if upd: "\<forall>u. t_sleeps_on (thread_table k' ! u) = (if u = t then 0 else t_sleeps_on (thread_table k ! u))" for k'
  proof (rule set_sem_ok [OF s i])
    have "card (sleepers k' ?a) = card (sleepers k ?a) - 1"
      using less(1) [OF upd] t by (simp add: card_Diff_singleton)
    then show "card (sleepers k' ?a) = nat (- (sem_value (semaphore_table s ! i) + 1))"
      using card False by (simp add: nat_diff_distrib')
    show "sleepers k' (sem_addr s j) = sleepers k (sem_addr s j)" if "j < MAX_SEMAPHORES" "j \<noteq> i" for j
      using less(2) [OF upd] sems_okD(3,4) [OF s] that i(1) by auto
  qed
  show ?thesis
    unfolding semaphore_V_def prod.case
    using False v w
    by (auto simp: ck_def Let_def wp_bind intro!: wp_mono [OF wake_at [OF k a]] ok)
qed

section \<open>The running system\<close>

text \<open>
  One step is one operation on one processor: rescheduling, starting a thread, its end, and
  the operations on semaphores, each in the situation in which the kernel calls it.  Any
  interleaving of the processors is a sequence of such steps.
\<close>

inductive kernel_step :: "sems \<times> kernel \<Rightarrow> sems \<times> kernel \<Rightarrow> bool" where
  schedule: "c < MAX_CPUS \<Longrightarrow> scheduler_schedule c rnd k = Some (k', ticks) \<Longrightarrow> kernel_step (s, k) (s, k')"
| spawn: "thread_create stacks fin func arg k = Some (t, k') \<Longrightarrow> kernel_step (s, k) (s, k')"
| run: "0 < t \<Longrightarrow> t < MAX_THREADS \<Longrightarrow> t_state (thread_table k ! t) = Thread_Nonready \<Longrightarrow>
    thread_run (int t) k = Some k' \<Longrightarrow> kernel_step (s, k) (s, k')"
| finish: "caller c k t \<Longrightarrow> thread_finish c k = Some k' \<Longrightarrow> kernel_step (s, k) (s, k')"
| create: "c < MAX_CPUS \<Longrightarrow> semaphore_create c v k s = Some (r, s') \<Longrightarrow> kernel_step (s, k) (s', k)"
| destroy: "i < MAX_SEMAPHORES \<Longrightarrow> 0 \<le> sem_value (semaphore_table s ! i) \<Longrightarrow>
    sem_creator (semaphore_table s ! i) \<noteq> - 1 \<Longrightarrow> kernel_step (s, k) (semaphore_destroy i s, k)"
| P: "caller c k t \<Longrightarrow> i < MAX_SEMAPHORES \<Longrightarrow> sem_creator (semaphore_table s ! i) \<noteq> - 1 \<Longrightarrow>
    semaphore_P c i (s, k) = Some (b, s', k') \<Longrightarrow> kernel_step (s, k) (s', k')"
| V: "i < MAX_SEMAPHORES \<Longrightarrow> sem_creator (semaphore_table s ! i) \<noteq> - 1 \<Longrightarrow>
    semaphore_V i (s, k) = Some (s', k') \<Longrightarrow> kernel_step (s, k) (s', k')"

inductive_cases kernel_stepE: "kernel_step (s, k) st"

text \<open>The variables of the kernel as the loader leaves them, and after the initialisation.\<close>

definition fresh_kernel :: "sems \<Rightarrow> kernel \<Rightarrow> bool" where
  "fresh_kernel s k \<longleftrightarrow> length (current_thread k) = MAX_CPUS \<and> ready_head k = - 1 \<and> ready_tail k = - 1 \<and>
     next_tid k = 0 \<and> length (semaphore_table s) = MAX_SEMAPHORES \<and> sem_next s = 0 \<and>
     0 < unat (sem_base s) \<and> unat (sem_base s) + 12 * MAX_SEMAPHORES < 2 ^ 32"

definition boot :: "u32 \<Rightarrow> u32 \<Rightarrow> sems \<times> kernel \<Rightarrow> sems \<times> kernel" where
  "boot stacks idle_loop = (\<lambda>(s, k). (semaphore_init s,
     sleepq_init (scheduler_init (thread_table_init stacks idle_loop k))))"

definition kernel_inv :: "sems \<times> kernel \<Rightarrow> bool" where
  "kernel_inv = (\<lambda>(s, k). kernel_ok k \<and> sems_ok s k \<and> 0 \<le> next_tid k \<and> next_tid k < int MAX_THREADS)"

lemma boot_inv:
  assumes "fresh_kernel s k"
  shows "kernel_inv (boot stacks idle_loop (s, k))"
proof -
  let ?k = "sleepq_init (scheduler_init (thread_table_init stacks idle_loop k))"
  have tt: "length (thread_table ?k) = MAX_THREADS"
    "u < MAX_THREADS \<Longrightarrow> t_sleeps_on (thread_table ?k ! u) = 0"
    "u < MAX_THREADS \<Longrightarrow> t_state (thread_table ?k ! u) = (if u = 0 then Thread_Ready else Thread_Free)" for u
    by (simp_all add: sleepq_init_def scheduler_init_def thread_table_init_def Let_def del: upt_rec_numeral)
  have rest: "current_thread ?k = map (\<lambda>_. 0) (current_thread k)" "ready_head ?k = - 1" "ready_tail ?k = - 1"
    "sleepq_table ?k = replicate SLEEPQ_HASHTABLE_SIZE (- 1)" "next_tid ?k = 0"
    using assms by (simp_all add: fresh_kernel_def sleepq_init_def scheduler_init_def thread_table_init_def Let_def
        del: upt_rec_numeral)
  have len: "length (current_thread k) = MAX_CPUS"
    using assms by (simp add: fresh_kernel_def)
  have at: "kernel_at ?k [] (\<lambda>_. [])"
    unfolding kernel_at_def
    using tt rest len by (auto simp: ready_queue_def thread_ok_def running_on_def Let_def)
  have none: "sleepers ?k r = {}" if "r \<noteq> 0" for r
    using tt(2) that by (auto simp: sleepers_def)
  have s: "0 < unat (sem_base s)" "unat (sem_base s) + 12 * MAX_SEMAPHORES < 2 ^ 32"
    using assms by (simp_all add: fresh_kernel_def)
  have "sem_addr (semaphore_init s) i \<noteq> 0" if "i < MAX_SEMAPHORES" for i
  proof
    assume "sem_addr (semaphore_init s) i = 0"
    then have "unat (sem_addr (semaphore_init s) i) = 0" by simp
    then show False
      using sem_addr_unat [of "semaphore_init s" i] s that by (simp add: semaphore_init_def)
  qed
  then have "sems_ok (semaphore_init s) ?k"
    using assms none by (simp add: sems_ok_def fresh_kernel_def) (auto simp: semaphore_init_def)
  then show ?thesis
    using at rest by (auto simp: kernel_inv_def boot_def kernel_ok_def)
qed

lemma wp_Some_iff: "wp m Q \<Longrightarrow> m = Some x \<Longrightarrow> Q x"
  by simp

lemma kernel_step_inv:
  assumes "kernel_step st st'" and "kernel_inv st"
  shows "kernel_inv st'"
  using assms
proof (cases rule: kernel_step.cases)
  case (schedule c rnd k k' ticks s)
  then obtain qs B where k: "kernel_at k qs B"
    using assms(2) by (auto simp: kernel_inv_def kernel_ok_def)
  show ?thesis
    using wp_Some_iff [OF schedule_at [OF k schedule(3)] schedule(4)] assms(2)
    by (auto simp: schedule kernel_inv_def kernel_ok_def intro: sems_ok_cong)
next
  case (spawn stacks fin func arg k t k' s)
  then obtain qs B where k: "kernel_at k qs B" "0 \<le> next_tid k" "next_tid k < int MAX_THREADS"
    using assms(2) by (auto simp: kernel_inv_def kernel_ok_def)
  show ?thesis
    using wp_Some_iff [OF create_at [OF k] spawn(3)] assms(2)
    by (auto simp: spawn kernel_inv_def kernel_ok_def intro: sems_ok_cong)
next
  case (run t k k' s)
  then obtain qs B where k: "kernel_at k qs B"
    using assms(2) by (auto simp: kernel_inv_def kernel_ok_def)
  show ?thesis
    using wp_Some_iff [OF add_ready_at [OF k run(3,4,5)] run(6) [unfolded thread_run_def]] assms(2)
    by (auto simp: run kernel_inv_def kernel_ok_def intro: sems_ok_cong)
next
  case (finish c k t k' s)
  then obtain qs B where k: "kernel_at k qs B"
    using assms(2) by (auto simp: kernel_inv_def kernel_ok_def)
  note t = finish(3) [unfolded caller_def]
  have "t_pagetable (thread_table k ! t) = 0"
    using finish(4) t running_state [OF k, of c t] kernel_atD(1) [OF k]
    by (auto simp: thread_finish_def guard_def split: if_splits)
  then show ?thesis
    using wp_Some_iff [OF finish_at [OF k, of c t] finish(4)] assms(2) t
    by (auto simp: finish kernel_inv_def kernel_ok_def intro: sems_ok_cong)
next
  case (create c v k s r s')
  then obtain qs B where k: "kernel_at k qs B" and s: "sems_ok s k"
    using assms(2) by (auto simp: kernel_inv_def kernel_ok_def)
  have "0 \<le> v"
    using create(4) by (auto simp: semaphore_create_def guard_def split: if_splits)
  then show ?thesis
    using wp_Some_iff [OF create_sem_ok [OF s k create(3)] create(4)] assms(2)
    by (auto simp: create kernel_inv_def)
next
  case (destroy i s k)
  have s: "sems_ok s k"
    using assms(2) destroy by (auto simp: kernel_inv_def)
  have "sems_ok (semaphore_destroy i s) k"
    using s destroy(3-5) sems_okD(1,5) [OF s] unfolding sems_ok_def
    by (auto simp: semaphore_destroy_def sem_addr_def nth_list_update)
  then show ?thesis
    using assms(2) by (simp add: destroy kernel_inv_def)
next
  case (P c k t i s b s' k')
  then obtain qs B where k: "kernel_at k qs B" and s: "sems_ok s k"
    using assms(2) by (auto simp: kernel_inv_def kernel_ok_def)
  have "int_ok (sem_value (semaphore_table s ! i) - 1)"
    using P(6) by (auto simp: semaphore_P_def ck_def split: if_splits)
  from wp_Some_iff [OF P_at [OF s k P(3-5) this] P(6)] show ?thesis
    using assms(2) by (auto simp: P kernel_inv_def kernel_ok_def Let_def split: if_splits)
next
  case (V i s k s' k')
  then obtain qs B where k: "kernel_at k qs B" and s: "sems_ok s k"
    using assms(2) by (auto simp: kernel_inv_def kernel_ok_def)
  have "int_ok (sem_value (semaphore_table s ! i) + 1)"
    using V(5) by (auto simp: semaphore_V_def ck_def split: if_splits)
  from wp_Some_iff [OF V_at [OF s k V(3,4) this] V(5)] show ?thesis
    using assms(2) by (auto simp: V kernel_inv_def kernel_ok_def split: if_splits)
qed

lemma kernel_reachable_inv:
  assumes "kernel_step\<^sup>*\<^sup>* (boot stacks idle_loop (s, k)) st" and "fresh_kernel s k"
  shows "kernel_inv st"
  using assms(1) by (induction rule: rtranclp_induct) (auto intro: boot_inv assms(2) kernel_step_inv)

end
