(* ===== verification/Kernel_Properties.thy ===== *)
theory Kernel_Properties
  imports Semaphore_Spec
begin

text \<open>
  The properties of threads, the scheduler, the sleep queue and semaphores.
\<close>

section \<open>Properties\<close>

text \<open>C4. Semaphores count their waiters: in every state that any interleaving of the operations of
  all processors reaches from the boot state, the threads that wait for an allocated
  semaphore are as many as its value is below zero, and none when it is not.\<close>

theorem semaphore_waiters:
  assumes "fresh_kernel s0 k0" and "kernel_step\<^sup>*\<^sup>* (boot stacks idle_loop (s0, k0)) (s, k)"
    and "i < MAX_SEMAPHORES" and "sem_creator (semaphore_table s ! i) \<noteq> - 1"
  shows "card {t. t < MAX_THREADS \<and> t_sleeps_on (thread_table k ! t) = sem_addr s i} =
    nat (- sem_value (semaphore_table s ! i))"
  using kernel_reachable_inv [OF assms(2,1)] sems_okD(5) [OF _ assms(3), of s k] assms(4)
  by (auto simp: kernel_inv_def sleepers_def)

definition demo_sems :: sems where
  "demo_sems = \<lparr>semaphore_table = replicate 128 \<lparr>sem_value = 0, sem_creator = 0\<rparr>, sem_base = 0x80020000, sem_next = 0\<rparr>"

definition demo_kernel :: kernel where
  "demo_kernel = \<lparr>thread_table = [], ready_head = - 1, ready_tail = - 1, current_thread = [0, 0, 0, 0],
     sleepq_table = [], contexts = (\<lambda>_. \<lparr>cpu_regs = replicate 29 0, c_hi = 0, c_lo = 0, c_pc = 0, c_status = 0,
       c_prev_context = 0\<rparr>), next_tid = 0\<rparr>"

lemma demo_fresh: "fresh_kernel demo_sems demo_kernel"
  by (simp add: fresh_kernel_def demo_sems_def demo_kernel_def)

text \<open>The boot state followed by the creation of a semaphore.\<close>

definition demo_boot :: "sems \<times> kernel" where
  "demo_boot = boot 0x80040000 0x80011000 (demo_sems, demo_kernel)"

definition demo_created :: sems where
  "demo_created = (fst demo_boot)\<lparr>sem_next := 1, semaphore_table :=
     (semaphore_table (fst demo_boot))[0 := \<lparr>sem_value = 1, sem_creator = 0\<rparr>]\<rparr>"

lemma demo_step: "kernel_step\<^sup>*\<^sup>* demo_boot (demo_created, snd demo_boot)"
proof -
  have "[0..<MAX_SEMAPHORES] = 0 # [1..<MAX_SEMAPHORES]"
    by (simp add: upt_rec del: upt_rec_numeral)
  then have "semaphore_create 0 1 (snd demo_boot) (fst demo_boot) = Some (Some 0, demo_created)"
    by (simp add: semaphore_create_def guard_def thread_get_current_thread_def current_on_def demo_boot_def boot_def
        demo_sems_def demo_kernel_def sleepq_init_def scheduler_init_def thread_table_init_def semaphore_init_def
        Let_def demo_created_def del: upt_rec_numeral)
  from kernel_step.create [OF _ this] have "kernel_step demo_boot (demo_created, snd demo_boot)"
    by simp
  then show ?thesis by blast
qed

theorem semaphore_waiters_witness:
  "card {t. t < MAX_THREADS \<and> t_sleeps_on (thread_table (snd demo_boot) ! t) = sem_addr demo_created 0} = nat (- 1)"
  using semaphore_waiters [OF demo_fresh demo_step [unfolded demo_boot_def], of 0]
  by (simp add: demo_boot_def demo_created_def boot_def demo_sems_def semaphore_init_def)

lemma wp_total: "wp m Q \<Longrightarrow> m \<noteq> None"
  by (cases m) simp_all

text \<open>C5. No thread is lost: in every reachable state a thread other than the idle thread is
  in the ready queue exactly when it is ready, runs on a processor exactly when its state
  says so, and when it waits for a resource it is in the list of the resource's hash slot,
  from which a wake-up can take it.\<close>

theorem threads_not_lost:
  assumes "fresh_kernel s0 k0" and "kernel_step\<^sup>*\<^sup>* (boot stacks idle_loop (s0, k0)) (s, k)"
  shows "\<exists>qs. ready_queue k qs \<and> (\<forall>t. 0 < t \<and> t < MAX_THREADS \<longrightarrow>
    (t \<in> set qs \<longleftrightarrow> t_state (thread_table k ! t) = Thread_Ready) \<and>
    ((\<exists>c<MAX_CPUS. current_thread k ! c = int t) \<longleftrightarrow>
      t_state (thread_table k ! t) \<in> {Thread_Running, Thread_Dying}) \<and>
    (t_state (thread_table k ! t) = Thread_Sleeping \<longrightarrow> t_sleeps_on (thread_table k ! t) \<noteq> 0) \<and>
    (t_sleeps_on (thread_table k ! t) \<noteq> 0 \<longrightarrow>
      (\<exists>xs. chain (thread_table k) (sleepq_table k ! SLEEPQ_HASH (t_sleeps_on (thread_table k ! t))) xs \<and> t \<in> set xs)))"
proof -
  obtain qs B where k: "kernel_at k qs B"
    using kernel_reachable_inv [OF assms(2,1)] by (auto simp: kernel_inv_def kernel_ok_def)
  have run: "(\<exists>c<MAX_CPUS. current_thread k ! c = int t) \<longleftrightarrow> running_on k t" for t
    using kernel_atD(2) [OF k] by (auto simp: running_on_def in_set_conv_nth)
  show ?thesis
    unfolding run
  proof (rule exI [of _ qs], intro conjI allI impI)
    fix t assume t: "0 < t \<and> t < MAX_THREADS"
    note ok = thread_okD [OF k conjunct1 [OF t] conjunct2 [OF t]]
    show "t \<in> set qs \<longleftrightarrow> t_state (thread_table k ! t) = Thread_Ready"
      "running_on k t \<longleftrightarrow> t_state (thread_table k ! t) \<in> {Thread_Running, Thread_Dying}"
      by (rule ok(1), rule ok(3))
    show "t_sleeps_on (thread_table k ! t) \<noteq> 0" if "t_state (thread_table k ! t) = Thread_Sleeping"
      using that by (rule ok(5))
    show "\<exists>xs. chain (thread_table k) (sleepq_table k ! SLEEPQ_HASH (t_sleeps_on (thread_table k ! t))) xs \<and> t \<in> set xs"
      if "t_sleeps_on (thread_table k ! t) \<noteq> 0"
      using kernel_atD(5) [OF k hash_less] ok(2) [OF hash_less] that by blast
  qed (rule kernel_atD(4) [OF k])
qed

theorem threads_not_lost_witness:
  "\<exists>qs. ready_queue (snd demo_boot) qs \<and> (\<forall>t. 0 < t \<and> t < MAX_THREADS \<longrightarrow>
    (t \<in> set qs \<longleftrightarrow> t_state (thread_table (snd demo_boot) ! t) = Thread_Ready))"
  using threads_not_lost [OF demo_fresh demo_step [unfolded demo_boot_def]]
  unfolding demo_boot_def by blast

text \<open>C8. The kernel does not panic: in every reachable state each processor can reschedule, any
  calling thread can perform \<open>semaphore_P\<close>, and any code \<open>semaphore_V\<close>, on an allocated semaphore
  without an assertion failing or a list running off its table, provided the counter does not
  overflow.\<close>

theorem kernel_no_panic:
  assumes "fresh_kernel s0 k0" and "kernel_step\<^sup>*\<^sup>* (boot stacks idle_loop (s0, k0)) (s, k)"
    and "i < MAX_SEMAPHORES" and "sem_creator (semaphore_table s ! i) \<noteq> - 1"
    and "int_ok (sem_value (semaphore_table s ! i) - 1)" and "int_ok (sem_value (semaphore_table s ! i) + 1)"
  shows "(\<forall>c<MAX_CPUS. \<forall>rnd. scheduler_schedule c rnd k \<noteq> None) \<and>
    (\<forall>c t. caller c k t \<longrightarrow> semaphore_P c i (s, k) \<noteq> None) \<and> semaphore_V i (s, k) \<noteq> None"
proof -
  obtain qs B where k: "kernel_at k qs B" and s: "sems_ok s k"
    using kernel_reachable_inv [OF assms(2,1)] by (auto simp: kernel_inv_def kernel_ok_def)
  show ?thesis
    using wp_total [OF schedule_at [OF k]] wp_total [OF P_at [OF s k _ assms(3-5)]]
      wp_total [OF V_at [OF s k assms(3,4,6)]] by blast
qed

theorem kernel_no_panic_witness:
  "scheduler_schedule 0 7 (snd demo_boot) \<noteq> None \<and> semaphore_V 0 (demo_created, snd demo_boot) \<noteq> None"
proof -
  have "(\<forall>c<MAX_CPUS. \<forall>rnd. scheduler_schedule c rnd (snd demo_boot) \<noteq> None) \<and>
    (\<forall>c t. caller c (snd demo_boot) t \<longrightarrow> semaphore_P c 0 (demo_created, snd demo_boot) \<noteq> None) \<and>
    semaphore_V 0 (demo_created, snd demo_boot) \<noteq> None"
    by (rule kernel_no_panic [OF demo_fresh demo_step [unfolded demo_boot_def], folded demo_boot_def])
      (simp_all add: demo_created_def demo_boot_def boot_def demo_sems_def semaphore_init_def int_ok_def)
  then show ?thesis by simp
qed

text \<open>C21. The ready queue is first in, first out: over any sequence of \<open>scheduler_add_ready\<close> and
  \<open>scheduler_remove_first_ready\<close> the linked list in the thread table gives the results of a
  list, with the idle thread for the empty one.\<close>

theorem scheduler_queue_refines:
  assumes "scheduler_rep k qs" and "\<And>t. Enq t \<in> set ops \<Longrightarrow> 0 < t \<and> t < MAX_THREADS"
    and "list_queue ops qs = Some (rs, qs')"
  shows "wp (run_queue (\<lambda>t. scheduler_add_ready (int t)) scheduler_remove_first_ready ops k)
    (\<lambda>(rs', k'). rs' = rs \<and> scheduler_rep k' qs')"
  using assms by (rule scheduler.run_refines)

lemma demo_rep: "scheduler_rep (snd demo_boot) []"
  by (simp add: scheduler_rep_def ready_queue_def demo_boot_def boot_def demo_kernel_def sleepq_init_def
      scheduler_init_def thread_table_init_def Let_def del: upt_rec_numeral)

theorem scheduler_queue_refines_witness:
  "wp (run_queue (\<lambda>t. scheduler_add_ready (int t)) scheduler_remove_first_ready
      [Enq 3, Enq 5, Deq, Enq 3, Deq, Deq, Deq] (snd demo_boot))
    (\<lambda>(rs', k'). rs' = [3, 5, 3, 0] \<and> scheduler_rep k' [])"
  by (rule scheduler_queue_refines [OF demo_rep]) auto


lemma demo_ready: "\<exists>k. scheduler_rep k [3, 5]"
proof -
  have "wp (run_queue (\<lambda>t. scheduler_add_ready (int t)) scheduler_remove_first_ready [Enq 3, Enq 5] (snd demo_boot))
    (\<lambda>(rs', k'). rs' = [] \<and> scheduler_rep k' [3, 5])"
    by (rule scheduler.run_refines [OF demo_rep]) auto
  then show ?thesis
    by (auto simp: wp_iff)
qed


end
