(* ===== verification/Kmalloc.thy ===== *)
theory Kmalloc
  imports Device
begin

text \<open>
  Permanent kernel memory, \<open>kernel/kmalloc.c\<close>.  The state is the pair of its static variables.
  The array at \<open>IO_DESCRIPTOR_AREA\<close> is the list of the \<open>YAMS_MAX_DEVICES\<close> hardware
  descriptors; \<open>io_word a\<close> is the word the hardware returns for a read of the I/O port at
  address \<open>a\<close>; the linker symbol \<open>KERNEL_ENDS_HERE\<close> is an argument.
\<close>

abbreviation (input) YAMS_MAX_DEVICES :: nat where "YAMS_MAX_DEVICES \<equiv> 128"
abbreviation (input) KERNEL_UNMAPPED :: u32 where "KERNEL_UNMAPPED \<equiv> 0x80000000"

record kmem =
  free_area_start :: u32
  memory_end :: u32

fun find_meminfo :: "(u32 \<Rightarrow> u32) \<Rightarrow> io_descriptor list \<Rightarrow> u32" where
  "find_meminfo io_word [] = 0"
| "find_meminfo io_word (d # ds) =
     (if io_type d = 0x101 then io_word (io_area_base d) else find_meminfo io_word ds)"

definition kmalloc_get_numpages :: "(u32 \<Rightarrow> u32) \<Rightarrow> io_descriptor list \<Rightarrow> int option" where
  "kmalloc_get_numpages io_word io_desc = (
     let num_pages = find_meminfo io_word (take YAMS_MAX_DEVICES io_desc) in
     if num_pages = 0 then None else Some (sint num_pages))"

definition kmalloc_get_reserved_pages :: "kmem \<Rightarrow> int" where
  "kmalloc_get_reserved_pages km = (
     let bytes = free_area_start km - KERNEL_UNMAPPED; num_res_pages = sint (bytes div 4096) in
     if bytes mod 4096 \<noteq> 0 then num_res_pages + 1 else num_res_pages)"

definition kmalloc_disable :: "kmem \<Rightarrow> kmem" where
  "kmalloc_disable km = km\<lparr>free_area_start := 0xffffffff\<rparr>"

text \<open>The rounding of \<open>free_area_start\<close> to a word boundary, in \<open>kmalloc_init\<close> and \<open>kmalloc\<close>.\<close>

definition word_align :: "u32 \<Rightarrow> u32" where
  "word_align a = (if a AND 3 \<noteq> 0 then (a + 4) AND 0xfffffffc else a)"

definition kmalloc_init :: "(u32 \<Rightarrow> u32) \<Rightarrow> io_descriptor list \<Rightarrow> u32 \<Rightarrow> kmem option" where
  "kmalloc_init io_word io_desc KERNEL_ENDS_HERE = do {
     n \<leftarrow> kmalloc_get_numpages io_word io_desc;
     sz \<leftarrow> ck (n * 4096);
     Some \<lparr>free_area_start = word_align KERNEL_ENDS_HERE, memory_end = KERNEL_UNMAPPED + word_of_int sz\<rparr>
   }"

definition kmalloc :: "int \<Rightarrow> kmem \<Rightarrow> (u32 \<times> kmem) option" where
  "kmalloc bytes km =
     (if free_area_start km = 0xffffffff then None
      else if free_area_start km = 0 then None
      else if bytes < 0 then None
      else if free_area_start km + word_of_int bytes > memory_end km then None
      else Some (free_area_start km,
        km\<lparr>free_area_start := word_align (free_area_start km + word_of_int bytes)\<rparr>))"

section \<open>Allocation inside the memory\<close>

text \<open>After initialisation: the free area is word aligned, in the unmapped segment of the kernel
  and below the end of the memory, which is on a page boundary.\<close>

definition kmem_ok :: "kmem \<Rightarrow> bool" where
  "kmem_ok km \<longleftrightarrow> 4 dvd unat (free_area_start km) \<and> 4096 dvd unat (memory_end km) \<and>
     unat KERNEL_UNMAPPED < unat (free_area_start km) \<and> free_area_start km \<le> memory_end km"

lemma unat_and_3: "unat (a AND 3 :: u32) = unat a mod 4"
proof -
  have "a AND 3 = take_bit 2 a"
    by (simp add: take_bit_eq_mask mask_eq_exp_minus_1)
  then show ?thesis
    by (simp add: take_bit_eq_mod unat_mod_distrib)
qed

lemma unat_clear_3: "unat (b AND 0xfffffffc :: u32) = unat b div 4 * 4"
proof -
  have "(0xfffffffc :: u32) = NOT (mask 2)"
    by (simp add: mask_eq_exp_minus_1)
  moreover have "b AND NOT (mask 2) = push_bit 2 (drop_bit 2 b)"
    by (rule bit_word_eqI) (auto simp: bit_simps not_less dest: le_Suc_ex)
  ultimately have "b AND 0xfffffffc = push_bit 2 (drop_bit 2 b)"
    by (simp only:)
  moreover have "unat b div 4 * 4 < 2 ^ 32"
    using unsigned_less [where 'a = nat, of b] div_times_less_eq_dividend [of "unat b" 4] by simp
  ultimately show ?thesis
    by (simp add: push_bit_eq_mult unat_word_ariths unat_drop_bit_eq drop_bit_eq_div)
qed

text \<open>Rounding up stays below a bound that is itself a multiple of 4.\<close>

lemma word_align_unat:
  assumes "unat a \<le> n" and "4 dvd n" and "n < 2 ^ 32"
  shows "unat (word_align a) = (unat a + 3) div 4 * 4" and "unat (word_align a) \<le> n"
proof -
  obtain q r where qr: "unat a = 4 * q + r" "r < 4"
    by (metis mult.commute div_mult_mod_eq mod_less_divisor zero_less_numeral)
  obtain m where m: "n = 4 * m"
    using assms(2) ..
  have r0: "a AND 3 = 0 \<longleftrightarrow> r = 0"
    using unat_and_3 [of a] qr by (metis mod_mult_self4 mod_less unat_eq_zero add.commute)
  show eq: "unat (word_align a) = (unat a + 3) div 4 * 4"
  proof (cases "r = 0")
    case True
    then show ?thesis
      using qr r0 by (simp add: word_align_def)
  next
    case False
    have "q < m"
      using False qr m assms(1) by linarith
    then have "unat a + 4 < 2 ^ 32"
      using qr m assms(3) by simp
    then have "unat (a + 4) = 4 * Suc q + r"
      using qr by (simp add: unat_word_ariths)
    moreover have "(4 * Suc q + r) div 4 = Suc q" "(4 * q + r + 3) div 4 = Suc q"
      using False qr(2) by presburger+
    ultimately show ?thesis
      using False r0 qr(1) by (simp add: word_align_def unat_clear_3 del: mult_Suc_right)
  qed
  show "unat (word_align a) \<le> n"
    unfolding eq using assms(1) m qr by (cases "r = 0") auto
qed

lemma le_round_up: "n \<le> (n + 3) div 4 * (4 :: nat)"
  by presburger

text \<open>One allocation: the area starts where the free area started, and what stays free begins at
  the next word boundary behind it.\<close>

lemma kmalloc_ok:
  assumes "kmalloc bytes km = Some (res, km')" and "kmem_ok km"
    and "unat (free_area_start km) + nat bytes < 2 ^ 32"
  shows "kmem_ok km'" and "memory_end km' = memory_end km" and "res = free_area_start km"
    and "unat res + nat bytes \<le> unat (free_area_start km')" and "0 \<le> bytes"
proof -
  let ?s = "unat (free_area_start km)" and ?e = "unat (memory_end km)"
  have end32: "4 dvd ?e" "?e < 2 ^ 32"
    using assms(2) dvd_trans [of 4 4096 ?e] unsigned_less [where 'a = nat, of "memory_end km"]
    by (simp_all add: kmem_ok_def)
  from assms(1) have b: "0 \<le> bytes" and le: "\<not> memory_end km < free_area_start km + word_of_int bytes"
    and res: "res = free_area_start km"
    and km': "km' = km\<lparr>free_area_start := word_align (free_area_start km + word_of_int bytes)\<rparr>"
    by (auto simp: kmalloc_def split: if_splits)
  have "nat bytes < 2 ^ 32"
    using assms(3) by linarith
  then have "unat (of_nat (nat bytes) :: u32) = nat bytes"
    by (simp add: unat_of_nat take_bit_nat_eq_self)
  then have "unat (word_of_int bytes :: u32) = nat bytes"
    using b by (metis of_int_of_nat_eq int_nat_eq)
  then have sum: "unat (free_area_start km + word_of_int bytes) = ?s + nat bytes"
    using assms(3) by (simp add: unat_word_ariths)
  then have "?s + nat bytes \<le> ?e"
    using le by (simp add: not_less word_le_nat_alt)
  with sum end32 have start: "unat (free_area_start km') = (?s + nat bytes + 3) div 4 * 4"
      "unat (free_area_start km') \<le> ?e"
    using word_align_unat [of "free_area_start km + word_of_int bytes" ?e] by (simp_all add: km')
  then show area: "unat res + nat bytes \<le> unat (free_area_start km')"
    using res le_round_up [of "?s + nat bytes"] by simp
  show same: "memory_end km' = memory_end km" "res = free_area_start km" "0 \<le> bytes"
    using res km' b by simp_all
  have "4 dvd unat (free_area_start km')"
    unfolding start(1) by (rule dvd_triv_right)
  moreover have "free_area_start km' \<le> memory_end km"
    using start(2) by (simp only: word_le_nat_alt)
  moreover have "unat KERNEL_UNMAPPED < unat (free_area_start km')"
    using assms(2) area res unfolding kmem_ok_def by (metis add_leD1 order_less_le_trans)
  ultimately show "kmem_ok km'"
    using assms(2) unfolding kmem_ok_def same(1) by blast
qed

text \<open>The state after \<open>kmalloc_init\<close> on a machine with \<open>n\<close> pages and a kernel image that ends
  within the memory.\<close>

lemma kmalloc_init_ok:
  assumes "kmalloc_init io_word io_desc e = Some km"
    and "kmalloc_get_numpages io_word io_desc = Some (int n)"
    and "unat KERNEL_UNMAPPED < unat e" and "unat e \<le> unat KERNEL_UNMAPPED + 4096 * n"
  shows "kmem_ok km" and "unat (memory_end km) = unat KERNEL_UNMAPPED + 4096 * n" and "n < 524288"
    and "e \<le> free_area_start km"
proof -
  from assms(1,2) have ok: "int_ok (int n * 4096)"
    and km: "km = \<lparr>free_area_start = word_align e, memory_end = KERNEL_UNMAPPED + word_of_int (int n * 4096)\<rparr>"
    by (auto simp: kmalloc_init_def ck_def split: if_splits)
  from ok show n: "n < 524288"
    by (simp add: int_ok_def)
  have "unat (word_of_int (int n * 4096) :: u32) = 4096 * n"
    using ok by (subst unat_of_int) simp_all
  then show mem_end: "unat (memory_end km) = unat KERNEL_UNMAPPED + 4096 * n"
    using n by (simp add: km unat_word_ariths)
  have "4096 dvd unat KERNEL_UNMAPPED + 4096 * n"
    by simp
  then have dvd: "4096 dvd unat (memory_end km)" "4 dvd unat KERNEL_UNMAPPED + 4096 * n"
    by (simp_all add: mem_end)
  have "unat KERNEL_UNMAPPED + 4096 * n < 2 ^ 32"
    using n by simp
  note align = word_align_unat [OF assms(4) dvd(2) this]
  have up: "unat e \<le> unat (free_area_start km)"
    using align(1) le_round_up [of "unat e"] by (simp add: km)
  then show "e \<le> free_area_start km"
    by (simp only: word_le_nat_alt)
  have "4 dvd unat (free_area_start km)"
    using align(1) by (simp add: km)
  moreover have "free_area_start km \<le> memory_end km"
    unfolding word_le_nat_alt mem_end using align(2) by (simp add: km)
  ultimately show "kmem_ok km"
    unfolding kmem_ok_def using dvd(1) up assms(3) by linarith
qed

text \<open>Several allocations in a row.\<close>

fun kmalloc_all :: "int list \<Rightarrow> kmem \<Rightarrow> (u32 list \<times> kmem) option" where
  "kmalloc_all [] km = Some ([], km)"
| "kmalloc_all (b # bs) km = do {
     (a, km) \<leftarrow> kmalloc b km;
     (as, km) \<leftarrow> kmalloc_all bs km;
     Some (a # as, km)
   }"

lemma kmalloc_all_areas:
  assumes "kmalloc_all bs km = Some (as, km')" and "kmem_ok km"
    and "\<forall>b\<in>set bs. unat (memory_end km) + nat b < 2 ^ 32"
  shows "kmem_ok km' \<and> memory_end km' = memory_end km \<and> length as = length bs \<and>
    free_area_start km \<le> free_area_start km' \<and>
    (\<forall>i<length as. 4 dvd unat (as ! i) \<and> free_area_start km \<le> as ! i \<and>
      unat (as ! i) + nat (bs ! i) \<le> unat (free_area_start km')) \<and>
    (\<forall>i j. i < j \<and> j < length as \<longrightarrow> unat (as ! i) + nat (bs ! i) \<le> unat (as ! j))"
  using assms
proof (induction bs arbitrary: km as)
  case Nil
  then show ?case by simp
next
  case (Cons b bs)
  then obtain a km1 as1 where one: "kmalloc b km = Some (a, km1)"
    and all: "kmalloc_all bs km1 = Some (as1, km')" and as: "as = a # as1"
    by (auto split: bind_splits)
  have "unat (free_area_start km) + nat b < 2 ^ 32"
    using Cons.prems(2,3) by (fastforce simp: kmem_ok_def word_le_nat_alt)
  note step = kmalloc_ok [OF one Cons.prems(2) this]
  have IH: "kmem_ok km' \<and> memory_end km' = memory_end km1 \<and> length as1 = length bs \<and>
      free_area_start km1 \<le> free_area_start km' \<and>
      (\<forall>i<length as1. 4 dvd unat (as1 ! i) \<and> free_area_start km1 \<le> as1 ! i \<and>
        unat (as1 ! i) + nat (bs ! i) \<le> unat (free_area_start km')) \<and>
      (\<forall>i j. i < j \<and> j < length as1 \<longrightarrow> unat (as1 ! i) + nat (bs ! i) \<le> unat (as1 ! j))"
    using Cons.prems(3) step(1,2) by (intro Cons.IH [OF all]) auto
  have a: "4 dvd unat a" "free_area_start km \<le> a" "a \<le> free_area_start km1"
    using step Cons.prems(2) by (auto simp: kmem_ok_def word_le_nat_alt)
  have first: "unat a + nat b \<le> unat (as1 ! j)" if "j < length as1" for j
    using IH step(4) that by (meson order_trans word_le_nat_alt)
  show ?case unfolding as
  proof (intro conjI allI impI)
    fix i assume "i < length (a # as1)"
    then show "4 dvd unat ((a # as1) ! i)" "free_area_start km \<le> (a # as1) ! i"
      "unat ((a # as1) ! i) + nat ((b # bs) ! i) \<le> unat (free_area_start km')"
      using IH a step(4) by (cases i; force simp: word_le_nat_alt)+
  next
    fix i j assume "i < j \<and> j < length (a # as1)"
    then show "unat ((a # as1) ! i) + nat ((b # bs) ! i) \<le> unat ((a # as1) ! j)"
      using IH first by (cases i; cases j) auto
  qed (use IH step(2) a in auto)
qed

end
