(* ===== verification/Pagepool.thy ===== *)
theory Pagepool
  imports Bitmap Kmalloc
begin

text \<open>
  The pool of physical pages, \<open>vm/pagepool.c\<close>, a bitmap in memory from \<open>kmalloc\<close>.  Each
  operation runs with interrupts disabled and the spinlock held, so it is one step on the
  state.  \<open>ram a\<close> is the byte at address \<open>a\<close> when the pool is set up.

  The interface \<open>page_allocator\<close> states what the rest of the kernel relies on; its clients
  are proved once against it, and the page pool provides it.
\<close>

record pagepool =
  pp_free_pages :: mem
  pp_num_pages :: int
  pp_num_free_pages :: int
  pp_static_end :: int

text \<open>The object of \<open>n\<close> bytes that starts at address \<open>a\<close>.\<close>

definition ram_area :: "(u32 \<Rightarrow> u8) \<Rightarrow> u32 \<Rightarrow> nat \<Rightarrow> mem" where
  "ram_area ram a n = map (\<lambda>k. ram (a + of_nat k)) [0..<n]"

definition pagepool_init ::
    "(u32 \<Rightarrow> u32) \<Rightarrow> io_descriptor list \<Rightarrow> (u32 \<Rightarrow> u8) \<Rightarrow> kmem \<Rightarrow> (pagepool \<times> kmem) option" where
  "pagepool_init io_word io_desc ram km = do {
     num_pages \<leftarrow> kmalloc_get_numpages io_word io_desc;
     sz \<leftarrow> bitmap_sizeof num_pages;
     (a, km) \<leftarrow> kmalloc sz km;
     free_pages \<leftarrow> bitmap_init (ram_area ram a (nat sz)) num_pages;
     let num_res_pages = kmalloc_get_reserved_pages km in do {
       num_free \<leftarrow> ck (num_pages - num_res_pages);
       free_pages \<leftarrow> for_each [0..<nat num_res_pages] (\<lambda>i m. bitmap_set m (int i) 1) free_pages;
       Some (\<lparr>pp_free_pages = free_pages, pp_num_pages = num_pages, pp_num_free_pages = num_free,
         pp_static_end = num_res_pages\<rparr>, km)
     }
   }"

definition pagepool_get_phys_page :: "pagepool \<Rightarrow> (u32 \<times> pagepool) option" where
  "pagepool_get_phys_page p =
     (if pp_num_free_pages p > 0 then do {
        (i, m) \<leftarrow> bitmap_findnset (pp_free_pages p) (pp_num_pages p);
        let n = pp_num_free_pages p - 1 in do {
          guard (i \<ge> 0 \<and> n \<ge> 0);
          a \<leftarrow> ck (i * 4096);
          Some (word_of_int a, p\<lparr>pp_free_pages := m, pp_num_free_pages := n\<rparr>)
        }
      }
      else Some (0, p))"

definition pagepool_free_phys_page :: "u32 \<Rightarrow> pagepool \<Rightarrow> pagepool option" where
  "pagepool_free_phys_page phys_addr p = (let i = sint (phys_addr div 4096) in do {
     guard (i \<ge> pp_static_end p);
     b \<leftarrow> bitmap_get (pp_free_pages p) i;
     guard (b = 1);
     m \<leftarrow> bitmap_set (pp_free_pages p) i 0;
     n \<leftarrow> ck (pp_num_free_pages p + 1);
     Some (p\<lparr>pp_free_pages := m, pp_num_free_pages := n\<rparr>)
   })"

section \<open>The interface of a page allocator\<close>

definition page_addr :: "nat \<Rightarrow> u32" where
  "page_addr i = of_nat (4096 * i)"

text \<open>Frame numbers of the memory that a positive \<open>int\<close> can address.\<close>

abbreviation (input) MAX_FRAMES :: nat where "MAX_FRAMES \<equiv> 524288"

lemma unat_page_addr: "i < MAX_FRAMES \<Longrightarrow> unat (page_addr i) = 4096 * i"
  by (simp add: page_addr_def unat_of_nat take_bit_nat_eq_self del: of_nat_mult)

lemma page_addr_div: "i < MAX_FRAMES \<Longrightarrow> sint (page_addr i div 4096) = int i"
  by (subst sint_small) (simp_all add: unat_div_distrib unat_page_addr)

lemma page_addr_inj: "i < MAX_FRAMES \<Longrightarrow> j < MAX_FRAMES \<Longrightarrow> page_addr i = page_addr j \<longleftrightarrow> i = j"
  by (metis page_addr_div of_nat_eq_iff)

lemma page_addr_0: "i < MAX_FRAMES \<Longrightarrow> page_addr i = 0 \<longleftrightarrow> i = 0"
  using page_addr_inj [of i 0] by (simp add: page_addr_def)

text \<open>
  \<open>pages\<close> are the page frames the allocator manages and \<open>avail\<close> those it has not handed out.
  A request is answered with one of them, or with address 0 when there is none; a page
  that was handed out can be given back.
\<close>

locale page_allocator =
  fixes get_page :: "'s \<Rightarrow> (u32 \<times> 's) option"
    and free_page :: "u32 \<Rightarrow> 's \<Rightarrow> 's option"
    and pool_inv :: "'s \<Rightarrow> bool"
    and pages :: "'s \<Rightarrow> nat set"
    and avail :: "'s \<Rightarrow> nat set"
  assumes pages_range: "pool_inv s \<Longrightarrow> i \<in> pages s \<Longrightarrow> 0 < i \<and> i < MAX_FRAMES"
    and avail_pages: "pool_inv s \<Longrightarrow> avail s \<subseteq> pages s"
    and get_none: "pool_inv s \<Longrightarrow> avail s = {} \<Longrightarrow> get_page s = Some (0, s)"
    and get_some: "pool_inv s \<Longrightarrow> avail s \<noteq> {} \<Longrightarrow>
      \<exists>i s'. get_page s = Some (page_addr i, s') \<and> i \<in> avail s \<and> pool_inv s' \<and>
        avail s' = avail s - {i} \<and> pages s' = pages s"
    and free_some: "pool_inv s \<Longrightarrow> i \<in> pages s \<Longrightarrow> i \<notin> avail s \<Longrightarrow>
      \<exists>s'. free_page (page_addr i) s = Some s' \<and> pool_inv s' \<and>
        avail s' = insert i (avail s) \<and> pages s' = pages s"

text \<open>
  A session of clients: a list of requests, and returns of the page at some position of the
  list of pages that are held.
\<close>

datatype page_op = Get_page | Free_page nat

fun page_session ::
    "('s \<Rightarrow> (u32 \<times> 's) option) \<Rightarrow> (u32 \<Rightarrow> 's \<Rightarrow> 's option) \<Rightarrow> page_op list \<Rightarrow> u32 list \<Rightarrow> 's \<Rightarrow>
      (u32 list \<times> 's) option" where
  "page_session get free [] held s = Some (held, s)"
| "page_session get free (Get_page # ops) held s = do {
     (a, s) \<leftarrow> get s;
     page_session get free ops (if a = 0 then held else held @ [a]) s
   }"
| "page_session get free (Free_page k # ops) held s =
     (if k < length held then do {
        s \<leftarrow> free (held ! k) s;
        page_session get free ops (take k held @ drop (Suc k) held) s
      }
      else page_session get free ops held s)"

context page_allocator begin

text \<open>The held pages and the free pages always partition the pages.\<close>

definition holds :: "'s \<Rightarrow> u32 list \<Rightarrow> bool" where
  "holds s held \<longleftrightarrow> pool_inv s \<and> distinct held \<and>
     set held = page_addr ` (pages s - avail s)"

lemma holds_get:
  assumes "holds s held"
  shows "\<exists>a s'. get_page s = Some (a, s') \<and> pages s' = pages s \<and> (a = 0 \<longleftrightarrow> avail s = {}) \<and>
    holds s' (if a = 0 then held else held @ [a])"
proof (cases "avail s = {}")
  case True
  then show ?thesis
    using assms get_none by (auto simp: holds_def)
next
  case False
  then obtain i s' where i: "get_page s = Some (page_addr i, s')" "i \<in> avail s" "pool_inv s'"
    "avail s' = avail s - {i}" "pages s' = pages s"
    using assms get_some by (metis holds_def)
  note range = pages_range [of s] avail_pages [of s]
  have nz: "page_addr i \<noteq> 0"
    using page_addr_0 [of i] range i assms by (auto simp: holds_def)
  moreover have "page_addr i \<notin> set held"
    using page_addr_inj [of i] range i assms by (fastforce simp: holds_def)
  moreover have "pages s' - avail s' = insert i (pages s - avail s)"
    using i range assms by (auto simp: holds_def)
  ultimately show ?thesis
    using i assms False by (auto simp: holds_def)
qed

lemma holds_free:
  assumes "holds s held" and "k < length held"
  shows "\<exists>s'. free_page (held ! k) s = Some s' \<and> pages s' = pages s \<and>
    holds s' (take k held @ drop (Suc k) held)"
proof -
  have "held ! k \<in> page_addr ` (pages s - avail s)"
    using assms nth_mem by (metis holds_def)
  then obtain i where i: "held ! k = page_addr i" "i \<in> pages s" "i \<notin> avail s"
    by auto
  then obtain s' where s': "free_page (page_addr i) s = Some s'" "pool_inv s'"
    "avail s' = insert i (avail s)" "pages s' = pages s"
    using assms free_some by (metis holds_def)
  have held: "held = take k held @ page_addr i # drop (Suc k) held"
    using id_take_nth_drop [OF assms(2)] i(1) by simp
  have d: "distinct held" "set held = page_addr ` (pages s - avail s)" "pool_inv s"
    using assms(1) by (simp_all add: holds_def)
  have "distinct (take k held @ drop (Suc k) held) \<and> page_addr i \<notin> set (take k held @ drop (Suc k) held)"
    using d(1) by (subst (asm) held) auto
  moreover have "set (take k held @ drop (Suc k) held) = set held - {page_addr i}"
    using calculation by (subst (3) held) auto
  moreover have "page_addr ` (pages s - avail s) - {page_addr i} = page_addr ` (pages s - insert i (avail s))"
    using page_addr_inj pages_range [OF d(3)] i(2) by (fastforce intro!: imageI)
  ultimately show ?thesis
    using s' i(1) d(2) by (auto simp: holds_def)
qed

lemma session_holds:
  assumes "holds s held"
  shows "\<exists>held' s'. page_session get_page free_page ops held s = Some (held', s') \<and>
    pages s' = pages s \<and> holds s' held'"
  using assms
proof (induction ops arbitrary: held s)
  case Nil
  then show ?case by simp
next
  case (Cons op ops)
  show ?case
  proof (cases op)
    case Get_page
    obtain a s1 where "get_page s = Some (a, s1)" "pages s1 = pages s"
        "holds s1 (if a = 0 then held else held @ [a])"
      using holds_get [OF Cons.prems] by blast
    with Cons.IH [OF this(3)] show ?thesis
      by (auto simp: Get_page)
  next
    case (Free_page k)
    show ?thesis
    proof (cases "k < length held")
      case True
      then obtain s1 where "free_page (held ! k) s = Some s1" "pages s1 = pages s"
          "holds s1 (take k held @ drop (Suc k) held)"
        using holds_free [OF Cons.prems] by blast
      with Cons.IH [OF this(3)] True show ?thesis
        by (auto simp: Free_page)
    qed (use Cons in \<open>simp add: Free_page\<close>)
  qed
qed

end

section \<open>The page pool is a page allocator\<close>

definition pool_pages :: "pagepool \<Rightarrow> nat set" where
  "pool_pages p = {nat (pp_static_end p)..<nat (pp_num_pages p)}"

definition pool_free :: "pagepool \<Rightarrow> nat set" where
  "pool_free p = {i \<in> pool_pages p. \<not> bm_bit (pp_free_pages p) i}"

definition pool_ok :: "pagepool \<Rightarrow> bool" where
  "pool_ok p \<longleftrightarrow> 0 < pp_static_end p \<and> pp_static_end p \<le> pp_num_pages p \<and>
     nat (pp_num_pages p) \<le> MAX_FRAMES \<and> bm_room (pp_free_pages p) (nat (pp_num_pages p)) \<and>
     (\<forall>i<nat (pp_static_end p). bm_bit (pp_free_pages p) i) \<and>
     pp_num_free_pages p = int (card (pool_free p))"

lemma finite_pool_free [simp]: "finite (pool_free p)"
  by (simp add: pool_free_def pool_pages_def)

lemma pool_free_upd:
  "pool_free (p\<lparr>pp_free_pages := m, pp_num_free_pages := n\<rparr>) = {i \<in> pool_pages p. \<not> bm_bit m i}"
  "pool_pages (p\<lparr>pp_free_pages := m, pp_num_free_pages := n\<rparr>) = pool_pages p"
  by (simp_all add: pool_free_def pool_pages_def)

text \<open>The first free page is handed out.\<close>

lemma pagepool_get_some:
  assumes ok: "pool_ok p" and i: "i = Min (pool_free p)" and ne: "pool_free p \<noteq> {}"
  defines "p' \<equiv> p\<lparr>pp_free_pages := bm_set (pp_free_pages p) i True, pp_num_free_pages := pp_num_free_pages p - 1\<rparr>"
  shows "pagepool_get_phys_page p = Some (page_addr i, p')" and "pool_ok p'"
    and "pool_free p' = pool_free p - {i}" and "pool_pages p' = pool_pages p"
proof -
  let ?m = "pp_free_pages p" and ?n = "nat (pp_num_pages p)"
  have inf: "i \<in> pool_free p"
    using Min_in [OF finite_pool_free ne] i by simp
  then have i_n: "i < ?n" "nat (pp_static_end p) \<le> i" "\<not> bm_bit ?m i"
    by (auto simp: pool_free_def pool_pages_def)
  have below: "bm_bit ?m q" if "q < i" for q
  proof (cases "q < nat (pp_static_end p)")
    case True
    then show ?thesis using ok by (simp add: pool_ok_def)
  next
    case False
    have "q \<notin> pool_free p"
      using that i Min_le [OF finite_pool_free] by (metis leD)
    with False that i_n show ?thesis
      by (auto simp: pool_free_def pool_pages_def)
  qed
  have okD: "bm_room ?m ?n" "?n \<le> MAX_FRAMES" "int ?n = pp_num_pages p"
    using ok by (simp_all add: pool_ok_def)
  then have find: "bitmap_findnset ?m (pp_num_pages p) = Some (int i, bm_set ?m i True)"
    using bitmap_findnset_eq_found [OF okD(1) _ i_n(1,3) below] okD(2) by (simp add: int_ok_def split: if_splits)
  have card: "0 < card (pool_free p)"
    using inf by (simp add: card_gt_0_iff ne)
  have "ck (int i * 4096) = Some (int i * 4096)"
    using i_n(1) okD(2) by (simp add: ck_def int_ok_def)
  moreover have "word_of_int (int i * 4096) = page_addr i"
    by (simp add: page_addr_def mult.commute)
  ultimately show "pagepool_get_phys_page p = Some (page_addr i, p')"
    using find card ok by (simp add: pagepool_get_phys_page_def pool_ok_def guard_def p'_def)
  have word: "4 * (i div 32) + 4 \<le> length ?m"
    by (rule bm_room_word [OF okD(1) i_n(1)])
  show pages: "pool_pages p' = pool_pages p"
    by (simp add: p'_def pool_free_upd)
  show free: "pool_free p' = pool_free p - {i}"
    using bm_bit_set [OF word] by (auto simp: p'_def pool_free_upd pool_free_def)
  show "pool_ok p'"
    using ok card free inf bm_bit_set [OF word, of True]
    by (auto simp: pool_ok_def p'_def card_Diff_singleton)
qed

lemma pagepool_get_none: "pool_ok p \<Longrightarrow> pool_free p = {} \<Longrightarrow> pagepool_get_phys_page p = Some (0, p)"
  by (simp add: pagepool_get_phys_page_def pool_ok_def)

lemma pagepool_free_some:
  assumes ok: "pool_ok p" and i: "i \<in> pool_pages p" and used: "i \<notin> pool_free p"
  defines "p' \<equiv> p\<lparr>pp_free_pages := bm_set (pp_free_pages p) i False, pp_num_free_pages := pp_num_free_pages p + 1\<rparr>"
  shows "pagepool_free_phys_page (page_addr i) p = Some p'" and "pool_ok p'"
    and "pool_free p' = insert i (pool_free p)" and "pool_pages p' = pool_pages p"
proof -
  let ?m = "pp_free_pages p" and ?n = "nat (pp_num_pages p)"
  have i_n: "i < ?n" "pp_static_end p \<le> int i" "bm_bit ?m i"
    using i used ok by (auto simp: pool_free_def pool_pages_def pool_ok_def)
  have okD: "bm_room ?m ?n" "?n \<le> MAX_FRAMES"
    using ok by (simp_all add: pool_ok_def)
  have word: "4 * (i div 32) + 4 \<le> length ?m"
    by (rule bm_room_word [OF okD(1) i_n(1)])
  have "card (pool_free p) \<le> ?n"
    using card_mono [of "{..<?n}" "pool_free p"] by (auto simp: pool_free_def pool_pages_def)
  then have "int_ok (pp_num_free_pages p + 1)"
    using ok okD(2) by (simp add: pool_ok_def int_ok_def)
  with i_n okD word show "pagepool_free_phys_page (page_addr i) p = Some p'"
    by (simp add: pagepool_free_phys_page_def page_addr_div guard_def bitmap_eqs ck_def p'_def)
  show "pool_pages p' = pool_pages p"
    by (simp add: p'_def pool_free_upd)
  show free: "pool_free p' = insert i (pool_free p)"
    using bm_bit_set [OF word] i by (auto simp: p'_def pool_free_upd pool_free_def)
  show "pool_ok p'"
    using ok free used i_n(2) bm_bit_set [OF word, of False]
    by (auto simp: pool_ok_def p'_def)
qed

interpretation pool: page_allocator pagepool_get_phys_page pagepool_free_phys_page pool_ok pool_pages pool_free
proof
  show "\<exists>i s'. pagepool_get_phys_page s = Some (page_addr i, s') \<and> i \<in> pool_free s \<and> pool_ok s' \<and>
      pool_free s' = pool_free s - {i} \<and> pool_pages s' = pool_pages s"
    if "pool_ok s" "pool_free s \<noteq> {}" for s
    using pagepool_get_some [OF that(1) refl that(2)] Min_in [OF finite_pool_free that(2)] by blast
  show "\<exists>s'. pagepool_free_phys_page (page_addr i) s = Some s' \<and> pool_ok s' \<and>
      pool_free s' = insert i (pool_free s) \<and> pool_pages s' = pool_pages s"
    if "pool_ok s" "i \<in> pool_pages s" "i \<notin> pool_free s" for s i
    using pagepool_free_some [OF that] by blast
qed (auto simp: pool_ok_def pool_pages_def pool_free_def pagepool_get_none)

section \<open>Initialisation\<close>

text \<open>The pages below the static end are those that \<open>kmalloc\<close> has reached.\<close>

lemma kmalloc_reserved:
  assumes "kmem_ok km" and "unat (memory_end km) = unat KERNEL_UNMAPPED + 4096 * n" and "n < MAX_FRAMES"
  defines "r \<equiv> kmalloc_get_reserved_pages km"
  shows "0 < r" and "r \<le> int n" and "unat (free_area_start km) \<le> unat KERNEL_UNMAPPED + 4096 * nat r"
proof -
  define b where "b = unat (free_area_start km) - unat KERNEL_UNMAPPED"
  have lt: "unat KERNEL_UNMAPPED < unat (free_area_start km)" and le: "free_area_start km \<le> memory_end km"
    using assms(1) by (simp_all add: kmem_ok_def)
  then have ub: "unat (free_area_start km - KERNEL_UNMAPPED) = b"
    by (simp add: b_def unat_sub word_le_nat_alt)
  have b: "0 < b" "b \<le> 4096 * n"
    using lt le assms(2) by (simp_all add: b_def word_le_nat_alt)
  have "b div 4096 \<le> n"
    using b(2) by simp
  then have "sint ((free_area_start km - KERNEL_UNMAPPED) div 4096) = int (b div 4096)"
    using assms(3) by (subst sint_small) (simp_all add: unat_div_distrib ub)
  moreover have "(free_area_start km - KERNEL_UNMAPPED) mod 4096 \<noteq> 0 \<longleftrightarrow> b mod 4096 \<noteq> 0"
    using ub unat_mod_distrib [of "free_area_start km - KERNEL_UNMAPPED" 4096] by (simp add: unat_eq_zero [symmetric])
  ultimately have r: "r = (if b mod 4096 \<noteq> 0 then int (b div 4096) + 1 else int (b div 4096))"
    by (simp add: r_def kmalloc_get_reserved_pages_def Let_def)
  have b2: "b div 4096 * 4096 + b mod 4096 = b"
    by simp
  show "0 < r"
    using b(1) b2 r by (cases "b mod 4096 = 0") auto
  show "r \<le> int n"
  proof (cases "b mod 4096 = 0")
    case False
    then have "b div 4096 < n"
      using b(2) b2 by linarith
    with False r show ?thesis by simp
  qed (use r \<open>b div 4096 \<le> n\<close> in simp)
  have "b \<le> 4096 * nat r"
    using b2 r mod_less_divisor [of 4096 b] by (cases "b mod 4096 = 0") (simp_all add: nat_add_distrib)
  then show "unat (free_area_start km) \<le> unat KERNEL_UNMAPPED + 4096 * nat r"
    by (simp add: b_def)
qed

lemma bitmap_set_prefix:
  assumes "bm_room m n" and "k \<le> n" and "\<forall>i<n. \<not> bm_bit m i"
  shows "wp (for_each [0..<k] (\<lambda>i m. bitmap_set m (int i) 1) m)
    (\<lambda>m'. bm_room m' n \<and> (\<forall>i<n. bm_bit m' i \<longleftrightarrow> i < k))"
proof (rule wp_for_each_upt [where P = "\<lambda>j m'. bm_room m' n \<and> (\<forall>i<n. bm_bit m' i \<longleftrightarrow> i < j)"])
  fix j m' assume "j < k" and m': "bm_room m' n \<and> (\<forall>i<n. bm_bit m' i \<longleftrightarrow> i < j)"
  then have "4 * (j div 32) + 4 \<le> length m'"
    using assms(2) bm_room_word [of m' n j] by simp
  then show "wp (bitmap_set m' (int j) 1) (\<lambda>m'. bm_room m' n \<and> (\<forall>i<n. bm_bit m' i \<longleftrightarrow> i < Suc j))"
    using m' by (auto simp: bitmap_eqs bm_bit_set)
qed (use assms in simp_all)

text \<open>The kernel addresses physical memory through an unmapped segment of 512 MB.\<close>

abbreviation (input) KSEG_FRAMES :: nat where "KSEG_FRAMES \<equiv> 131072"

lemma pagepool_init_ok:
  assumes "kmem_ok km" and "unat (memory_end km) = unat KERNEL_UNMAPPED + 4096 * n" and "n \<le> KSEG_FRAMES"
    and "kmalloc_get_numpages io_word io_desc = Some (int n)"
  shows "wlp (pagepool_init io_word io_desc ram km) (\<lambda>(p, km').
    pool_ok p \<and> pool_free p = pool_pages p \<and> pp_num_pages p = int n \<and> kmem_ok km' \<and>
    free_area_start km \<le> free_area_start km' \<and>
    unat (free_area_start km') \<le> unat KERNEL_UNMAPPED + 4096 * nat (pp_static_end p))"
proof -
  have n: "n < MAX_FRAMES"
    using assms(3) by simp
  have ok31: "int_ok (int n + 31)"
    using assms(3) by (simp add: int_ok_def)
  define sz where "sz = cdiv (int n + 31) 32 * 4"
  have sz: "bitmap_sizeof (int n) = Some sz" "nat sz = 4 * ((n + 31) div 32)"
    using ok31 by (simp_all add: bitmap_sizeof_def sz_def ck_def nat_mult_distrib nat_div_distrib nat_add_distrib)
  show ?thesis
  proof (cases "kmalloc sz km")
    case None
    then show ?thesis
      by (simp add: pagepool_init_def assms(4) sz(1))
  next
    case (Some am)
    obtain a km1 where am: "am = (a, km1)"
      by (cases am)
    have "nat sz \<le> 4 * n"
      using sz(2) by (cases n) auto
    then have "unat (free_area_start km) + nat sz < 2 ^ 32"
      using assms(1-3) unfolding kmem_ok_def word_le_nat_alt by simp
    note km1 = kmalloc_ok [OF Some [unfolded am] assms(1) this]
    note res = kmalloc_reserved [OF km1(1) km1(2) [THEN arg_cong, of unat, unfolded assms(2)] n]
    define r where "r = kmalloc_get_reserved_pages km1"
    have room: "bm_room (ram_area ram a (nat sz)) n"
      by (simp add: bm_room_def ram_area_def sz(2))
    have "wp (bitmap_init (ram_area ram a (nat sz)) (int n)) (\<lambda>m. bm_room m n \<and> (\<forall>p<n. \<not> bm_bit m p))"
      by (rule wp_mono [OF bitmap_init_clears [OF room ok31]]) (use room in \<open>simp add: bm_room_def\<close>)
    then obtain m where m: "bitmap_init (ram_area ram a (nat sz)) (int n) = Some m"
      "bm_room m n" "\<forall>p<n. \<not> bm_bit m p"
      by (auto simp: wp_iff)
    have "nat r \<le> n"
      using res(2) by (simp add: r_def)
    from bitmap_set_prefix [OF m(2) this m(3)] obtain m' where
      m': "for_each [0..<nat r] (\<lambda>i m. bitmap_set m (int i) 1) m = Some m'" "bm_room m' n"
        "\<forall>i<n. bm_bit m' i \<longleftrightarrow> i < nat r"
      by (auto simp: wp_iff)
    have ck: "ck (int n - r) = Some (int n - r)"
      using res(1,2) assms(3) by (simp add: r_def ck_def int_ok_def)
    define p where "p = \<lparr>pp_free_pages = m', pp_num_pages = int n, pp_num_free_pages = int n - r, pp_static_end = r\<rparr>"
    have init: "pagepool_init io_word io_desc ram km = Some (p, km1)"
      by (simp add: pagepool_init_def assms(4) sz(1) Some am m(1) Let_def r_def [symmetric] m'(1) ck p_def)
    have free: "pool_free p = {nat r..<n}" "pool_pages p = {nat r..<n}"
      using m'(3) by (auto simp: pool_free_def pool_pages_def p_def)
    have "pool_ok p"
      unfolding pool_ok_def free using res(1,2) m' assms(3) by (simp add: p_def r_def [symmetric] of_nat_diff)
    with init free km1 res show ?thesis
      by (simp add: p_def r_def word_le_nat_alt)
  qed
qed

end
