(* ===== verification/Vm.thy ===== *)
theory Vm
  imports Pagepool
begin

text \<open>
  Page tables and the handler of TLB misses, \<open>vm/vm.c\<close> and \<open>vm/tlb.c\<close>.  A TLB entry keeps the
  bit fields of the hardware at their widths; C promotes a field to \<open>int\<close> when it is used,
  so a left shift into the sign bit has no defined result.  A page table is the content of
  a page of the kernel's memory: what is in the page before it becomes a page table is an
  argument of \<open>vm_create_pagetable\<close>.
\<close>

abbreviation (input) PAGETABLE_ENTRIES :: nat where "PAGETABLE_ENTRIES \<equiv> 340"

record tlb_entry =
  VPN2 :: "19 word"
  dummy1 :: "5 word"
  ASID :: "8 word"
  dummy2 :: "6 word"
  PFN0 :: "20 word"
  C0 :: "3 word"
  D0 :: "1 word"
  V0 :: "1 word"
  G0 :: "1 word"
  dummy3 :: "6 word"
  PFN1 :: "20 word"
  C1 :: "3 word"
  D1 :: "1 word"
  V1 :: "1 word"
  G1 :: "1 word"

record pagetable =
  pt_ASID :: u32
  valid_count :: u32
  pt_entries :: "tlb_entry list"

record tlb_exception_state =
  badvaddr :: u32
  badvpn2 :: u32
  tes_asid :: u32

definition ADDR_PHYS_TO_KERNEL :: "u32 \<Rightarrow> u32" where
  "ADDR_PHYS_TO_KERNEL a = a OR 0x80000000"

definition ADDR_KERNEL_TO_PHYS :: "u32 \<Rightarrow> u32" where
  "ADDR_KERNEL_TO_PHYS a = a AND 0x7fffffff"

definition ADDR_IS_ON_EVEN_PAGE :: "u32 \<Rightarrow> bool" where
  "ADDR_IS_ON_EVEN_PAGE addr \<longleftrightarrow> addr AND 0x1000 = 0"

section \<open>Page tables\<close>

definition vm_init ::
    "(u32 \<Rightarrow> u32) \<Rightarrow> io_descriptor list \<Rightarrow> (u32 \<Rightarrow> u8) \<Rightarrow> kmem \<Rightarrow> (pagepool \<times> kmem) option" where
  "vm_init io_word io_desc ram km = do {
     (p, km) \<leftarrow> pagepool_init io_word io_desc ram km;
     Some (p, kmalloc_disable km)
   }"

text \<open>The result is the page table with its address, or \<open>None\<close> for \<open>NULL\<close>.\<close>

definition vm_create_pagetable ::
    "u32 \<Rightarrow> (u32 \<Rightarrow> pagetable) \<Rightarrow> pagepool \<Rightarrow> ((u32 \<times> pagetable) option \<times> pagepool) option" where
  "vm_create_pagetable asid content pool = do {
     (addr, pool) \<leftarrow> pagepool_get_phys_page pool;
     if addr = 0 then Some (None, pool)
     else let table = ADDR_PHYS_TO_KERNEL addr in
       Some (Some (table, (content table)\<lparr>pt_ASID := asid, valid_count := 0\<rparr>), pool)
   }"

definition vm_destroy_pagetable :: "u32 \<Rightarrow> pagepool \<Rightarrow> pagepool option" where
  "vm_destroy_pagetable table pool = pagepool_free_phys_page (ADDR_KERNEL_TO_PHYS table) pool"

text \<open>The loop over the valid entries that \<open>vm_map\<close>, \<open>vm_set_dirty\<close> and the TLB miss handler
  share: it ends at the first entry with the virtual page pair.\<close>

fun vm_find :: "tlb_entry list \<Rightarrow> u32 \<Rightarrow> nat list \<Rightarrow> nat option option" where
  "vm_find es vpn2 [] = Some None"
| "vm_find es vpn2 (i # is) =
     (if i < length es then if ucast (VPN2 (es ! i)) = vpn2 then Some (Some i) else vm_find es vpn2 is
      else None)"

definition vm_map :: "pagetable \<Rightarrow> u32 \<Rightarrow> u32 \<Rightarrow> int \<Rightarrow> pagetable option" where
  "vm_map pt physaddr vaddr dirty = do {
     guard (dirty = 0 \<or> dirty = 1);
     r \<leftarrow> vm_find (pt_entries pt) (drop_bit 13 vaddr) [0..<unat (valid_count pt)];
     case r of
       Some i \<Rightarrow> let e = pt_entries pt ! i in
         if ADDR_IS_ON_EVEN_PAGE vaddr then
           if V0 e = 1 then None
           else Some (pt\<lparr>pt_entries := (pt_entries pt)[i := e\<lparr>PFN0 := ucast (drop_bit 12 physaddr),
             V0 := 1, G0 := 0, D0 := of_int dirty\<rparr>]\<rparr>)
         else if V1 e = 1 then None
           else Some (pt\<lparr>pt_entries := (pt_entries pt)[i := e\<lparr>PFN1 := ucast (drop_bit 12 physaddr),
             V1 := 1, G1 := 0, D1 := of_int dirty\<rparr>]\<rparr>)
     | None \<Rightarrow>
         if valid_count pt \<ge> of_nat PAGETABLE_ENTRIES then None
         else let i = unat (valid_count pt) in do {
           guard (i < length (pt_entries pt));
           let e = (pt_entries pt ! i)\<lparr>VPN2 := ucast (drop_bit 13 vaddr), ASID := ucast (pt_ASID pt)\<rparr>;
               e = (if ADDR_IS_ON_EVEN_PAGE vaddr
                 then e\<lparr>PFN0 := ucast (drop_bit 12 physaddr), D0 := of_int dirty, V0 := 1, G0 := 0, V1 := 0\<rparr>
                 else e\<lparr>PFN1 := ucast (drop_bit 12 physaddr), D1 := of_int dirty, V1 := 1, G1 := 0, V0 := 0\<rparr>) in
             Some (pt\<lparr>pt_entries := (pt_entries pt)[i := e], valid_count := valid_count pt + 1\<rparr>)
         }
   }"

definition vm_unmap :: "pagetable \<Rightarrow> u32 \<Rightarrow> pagetable option" where
  "vm_unmap pt vaddr = Some pt"

definition vm_set_dirty :: "pagetable \<Rightarrow> u32 \<Rightarrow> int \<Rightarrow> pagetable option" where
  "vm_set_dirty pt vaddr dirty = do {
     guard (dirty = 0 \<or> dirty = 1);
     r \<leftarrow> vm_find (pt_entries pt) (drop_bit 13 vaddr) [0..<unat (valid_count pt)];
     case r of
       Some i \<Rightarrow> let e = pt_entries pt ! i in
         if ADDR_IS_ON_EVEN_PAGE vaddr then
           if V0 e = 0 then None
           else Some (pt\<lparr>pt_entries := (pt_entries pt)[i := e\<lparr>D0 := of_int dirty\<rparr>]\<rparr>)
         else if V1 e = 0 then None
           else Some (pt\<lparr>pt_entries := (pt_entries pt)[i := e\<lparr>D1 := of_int dirty\<rparr>]\<rparr>)
     | None \<Rightarrow> None
   }"

section \<open>The TLB\<close>

definition tlb_entry_get_vaddr :: "tlb_entry \<Rightarrow> u32 option" where
  "tlb_entry_get_vaddr e = (if unat (VPN2 e) < 2 ^ 18 then Some (push_bit 13 (ucast (VPN2 e))) else None)"

definition tlb_entry_get_paddr :: "tlb_entry \<Rightarrow> u32 \<Rightarrow> u32 option" where
  "tlb_entry_get_paddr e vaddr = do {
     guard (ucast (VPN2 e) = drop_bit 13 vaddr);
     let f = (if ADDR_IS_ON_EVEN_PAGE vaddr then PFN0 e else PFN1 e) in
       if unat f < 2 ^ 19 then Some (push_bit 12 (ucast f)) else None
   }"

definition tlb_entry_is_valid :: "tlb_entry \<Rightarrow> u32 \<Rightarrow> int option" where
  "tlb_entry_is_valid e vaddr = do {
     guard (ucast (VPN2 e) = drop_bit 13 vaddr);
     Some (uint (if ADDR_IS_ON_EVEN_PAGE vaddr then V0 e else V1 e))
   }"

definition tlb_entry_set_valid :: "tlb_entry \<Rightarrow> u32 \<Rightarrow> int \<Rightarrow> tlb_entry option" where
  "tlb_entry_set_valid e vaddr valid = do {
     guard (ucast (VPN2 e) = drop_bit 13 vaddr);
     Some (if ADDR_IS_ON_EVEN_PAGE vaddr then e\<lparr>V0 := of_int valid\<rparr> else e\<lparr>V1 := of_int valid\<rparr>)
   }"

text \<open>The handlers get the exception state that \<open>_tlb_get_exception_state\<close> reads and the page
  table of the current thread, if it has one; the result is the entry that is given to
  \<open>_tlb_write_random\<close>.\<close>

definition tlb_store_exception :: "tlb_exception_state \<Rightarrow> pagetable option \<Rightarrow> tlb_entry option" where
  "tlb_store_exception tes ptable = do {
     pt \<leftarrow> ptable;
     r \<leftarrow> vm_find (pt_entries pt) (badvpn2 tes) [0..<unat (valid_count pt)];
     case r of
       Some i \<Rightarrow> do {
         v \<leftarrow> tlb_entry_is_valid (pt_entries pt ! i) (badvaddr tes);
         guard (v \<noteq> 0);
         Some (pt_entries pt ! i)
       }
     | None \<Rightarrow> None
   }"

definition tlb_load_exception :: "tlb_exception_state \<Rightarrow> pagetable option \<Rightarrow> tlb_entry option" where
  "tlb_load_exception tes ptable = tlb_store_exception tes ptable"

definition tlb_modified_exception :: "tlb_entry option" where
  "tlb_modified_exception = None"

end
