(* ===== verification/Vm_Properties.thy ===== *)
theory Vm_Properties
  imports Vm
begin

text \<open>
  A page table refines a partial map from virtual page numbers to frames; memory set up at
  boot is handed out once; a TLB miss is served with the mapping of the page table.
\<close>

section \<open>The mapping of a page table\<close>

type_synonym page_map = "nat \<rightharpoonup> 20 word \<times> bool"

definition entry_pages :: "tlb_entry \<Rightarrow> (nat \<times> 20 word \<times> bool) list" where
  "entry_pages e =
     (if V0 e = 1 then [(2 * unat (VPN2 e), PFN0 e, D0 e = 1)] else []) @
     (if V1 e = 1 then [(2 * unat (VPN2 e) + 1, PFN1 e, D1 e = 1)] else [])"

definition pt_valid :: "pagetable \<Rightarrow> tlb_entry list" where
  "pt_valid pt = take (unat (valid_count pt)) (pt_entries pt)"

definition pt_map :: "pagetable \<Rightarrow> page_map" where
  "pt_map pt = map_of (concat (map entry_pages (pt_valid pt)))"

text \<open>The type invariant of a page table.\<close>

definition pt_entry_ok :: "u32 \<Rightarrow> tlb_entry \<Rightarrow> bool" where
  "pt_entry_ok asid e \<longleftrightarrow> ASID e = ucast asid \<and> (V0 e = 1 \<or> V1 e = 1) \<and>
     (V0 e = 1 \<longrightarrow> G0 e = 0) \<and> (V1 e = 1 \<longrightarrow> G1 e = 0)"

definition pt_ok :: "pagetable \<Rightarrow> bool" where
  "pt_ok pt \<longleftrightarrow> length (pt_entries pt) = PAGETABLE_ENTRIES \<and> unat (valid_count pt) \<le> PAGETABLE_ENTRIES \<and>
     distinct (map VPN2 (pt_valid pt)) \<and> (\<forall>e\<in>set (pt_valid pt). pt_entry_ok (pt_ASID pt) e)"

definition half :: "nat \<Rightarrow> tlb_entry \<Rightarrow> (20 word \<times> bool) option" where
  "half k e = (if even k then if V0 e = 1 then Some (PFN0 e, D0 e = 1) else None
     else if V1 e = 1 then Some (PFN1 e, D1 e = 1) else None)"

lemma map_of_entry_pages:
  "map_of (entry_pages e) k = (if k div 2 = unat (VPN2 e) then half k e else None)"
  by (auto simp: entry_pages_def half_def elim!: evenE oddE)

lemma concat_pages_at:
  "distinct (map VPN2 es) \<Longrightarrow> i < length es \<Longrightarrow> k div 2 = unat (VPN2 (es ! i)) \<Longrightarrow>
    map_of (concat (map entry_pages es)) k = half k (es ! i)"
proof (induction es arbitrary: i)
  case (Cons e es)
  show ?case
  proof (cases i)
    case 0
    have "map_of (concat (map entry_pages es)) k = None"
    proof -
      have "VPN2 e \<notin> VPN2 ` set es"
        using Cons.prems(1) by simp
      then have "\<forall>e'\<in>set es. map_of (entry_pages e') k = None"
        using Cons.prems(3) 0 by (auto simp: map_of_entry_pages image_iff word_unat_eq_iff)
      then show ?thesis
        by (auto simp: map_of_eq_None_iff image_iff)
    qed
    with Cons.prems 0 show ?thesis
      by (auto simp: map_of_entry_pages map_add_def split: option.splits)
  next
    case (Suc j)
    then have "k div 2 \<noteq> unat (VPN2 e)"
      using Cons.prems by (metis Suc distinct.simps(2) length_Cons length_map list.simps(9) not_less_eq nth_Cons_Suc nth_map nth_mem word_unat_eq_iff)
    with Cons.IH [of j] Cons.prems Suc show ?thesis
      by (auto simp: map_of_entry_pages map_add_def split: option.splits)
  qed
qed simp

lemma concat_pages_none:
  "(\<forall>e\<in>set es. k div 2 \<noteq> unat (VPN2 e)) \<Longrightarrow> map_of (concat (map entry_pages es)) k = None"
  by (induction es) (auto simp: map_of_entry_pages map_add_def)

text \<open>The virtual page number of an address, the number of its pair of pages, and its parity.\<close>

definition vpn :: "u32 \<Rightarrow> nat" where
  "vpn vaddr = unat (drop_bit 12 vaddr)"

lemma vpn_pair: "unat (drop_bit 13 vaddr) = vpn vaddr div 2"
proof -
  have "unat vaddr div 8192 = unat vaddr div 4096 div 2"
    by (simp add: div_mult2_eq [symmetric])
  then show ?thesis
    by (simp add: vpn_def drop_bit_eq_div unat_div_distrib)
qed

lemma vpn_even: "ADDR_IS_ON_EVEN_PAGE vaddr \<longleftrightarrow> even (vpn vaddr)"
proof -
  have "ADDR_IS_ON_EVEN_PAGE vaddr \<longleftrightarrow> \<not> bit vaddr 12"
    using and_exp_eq_0_iff_not_bit [of vaddr 12] by (simp add: ADDR_IS_ON_EVEN_PAGE_def)
  moreover have "bit vaddr 12 \<longleftrightarrow> bit (vpn vaddr) 0"
    by (simp add: vpn_def bit_unsigned_iff bit_drop_bit_eq del: bit_0)
  ultimately show ?thesis
    by (simp add: bit_0)
qed

lemma vpn2_eq: "ucast (w :: 19 word) = drop_bit 13 vaddr \<longleftrightarrow> unat w = vpn vaddr div 2"
proof -
  have "unat w < 2 ^ 32"
    using unsigned_less [where 'a = nat, of w] by simp
  then have "unat (ucast w :: u32) = unat w"
    by (simp add: unsigned_ucast_eq take_bit_nat_eq_self)
  then show ?thesis
    by (metis vpn_pair word_unat_eq_iff)
qed

lemma vpn_less: "vpn vaddr < 2 ^ 20"
proof -
  have "unat vaddr < 2 ^ 20 * 4096"
    using unsigned_less [where 'a = nat, of vaddr] by simp
  then show ?thesis
    unfolding vpn_def drop_bit_eq_div by (simp add: unat_div_distrib less_mult_imp_div_less)
qed

lemma unat_pair: "unat (ucast (drop_bit 13 vaddr) :: 19 word) = vpn vaddr div 2"
proof -
  have "vpn vaddr div 2 < 2 ^ 19"
    using vpn_less [of vaddr] by simp
  then show ?thesis
    by (simp add: unsigned_ucast_eq vpn_pair take_bit_nat_eq_self)
qed

text \<open>The loop finds the entry of the pair.\<close>

lemma vm_find_cases:
  assumes "n \<le> length es" and "m \<le> n"
  shows "\<exists>r. vm_find es (drop_bit 13 vaddr) [m..<n] = Some r \<and> (case r of
      Some i \<Rightarrow> i < n \<and> unat (VPN2 (es ! i)) = vpn vaddr div 2
    | None \<Rightarrow> \<forall>i. m \<le> i \<and> i < n \<longrightarrow> unat (VPN2 (es ! i)) \<noteq> vpn vaddr div 2)"
  using assms(2)
proof (induction "n - m" arbitrary: m)
  case (Suc d)
  then have "[m..<n] = m # [Suc m..<n]" "m < length es"
    using assms(1) by (simp_all add: upt_rec)
  then have step: "vm_find es (drop_bit 13 vaddr) [m..<n] =
      (if unat (VPN2 (es ! m)) = vpn vaddr div 2 then Some (Some m) else vm_find es (drop_bit 13 vaddr) [Suc m..<n])"
    by (simp add: vpn2_eq)
  show ?case
  proof (cases "unat (VPN2 (es ! m)) = vpn vaddr div 2")
    case True
    then show ?thesis
      using step Suc.hyps(2) by simp
  next
    case False
    have "d = n - Suc m" "Suc m \<le> n"
      using Suc.hyps(2) by simp_all
    from Suc.hyps(1) [OF this] obtain r where r: "vm_find es (drop_bit 13 vaddr) [Suc m..<n] = Some r"
      "case r of Some i \<Rightarrow> i < n \<and> unat (VPN2 (es ! i)) = vpn vaddr div 2
        | None \<Rightarrow> \<forall>i. Suc m \<le> i \<and> i < n \<longrightarrow> unat (VPN2 (es ! i)) \<noteq> vpn vaddr div 2"
      by blast
    have "i = m \<or> Suc m \<le> i" if "m \<le> i" for i
      using that by auto
    with False r step show ?thesis
      by (cases r) auto
  qed
qed simp

lemma pt_find:
  assumes "pt_ok pt"
  obtains (found) i where "vm_find (pt_entries pt) (drop_bit 13 vaddr) [0..<unat (valid_count pt)] = Some (Some i)"
      "i < unat (valid_count pt)" "unat (VPN2 (pt_entries pt ! i)) = vpn vaddr div 2"
      "pt_map pt (vpn vaddr) = half (vpn vaddr) (pt_entries pt ! i)"
  | (missing) "vm_find (pt_entries pt) (drop_bit 13 vaddr) [0..<unat (valid_count pt)] = Some None"
      "\<And>e. e \<in> set (pt_valid pt) \<Longrightarrow> unat (VPN2 e) \<noteq> vpn vaddr div 2" "pt_map pt (vpn vaddr) = None"
proof -
  let ?n = "unat (valid_count pt)"
  have len: "?n \<le> length (pt_entries pt)"
    using assms by (simp add: pt_ok_def)
  obtain r where r: "vm_find (pt_entries pt) (drop_bit 13 vaddr) [0..<?n] = Some r" "case r of
      Some i \<Rightarrow> i < ?n \<and> unat (VPN2 (pt_entries pt ! i)) = vpn vaddr div 2
    | None \<Rightarrow> \<forall>i. 0 \<le> i \<and> i < ?n \<longrightarrow> unat (VPN2 (pt_entries pt ! i)) \<noteq> vpn vaddr div 2"
    using vm_find_cases [OF len le0, of vaddr] by blast
  then consider
      (a) i where "vm_find (pt_entries pt) (drop_bit 13 vaddr) [0..<?n] = Some (Some i)" "i < ?n"
        "unat (VPN2 (pt_entries pt ! i)) = vpn vaddr div 2"
    | (b) "vm_find (pt_entries pt) (drop_bit 13 vaddr) [0..<?n] = Some None"
        "\<forall>i<?n. unat (VPN2 (pt_entries pt ! i)) \<noteq> vpn vaddr div 2"
    by (cases r) auto
  then show thesis
  proof cases
    case a
    then have "pt_map pt (vpn vaddr) = half (vpn vaddr) (pt_entries pt ! i)"
      using concat_pages_at [of "pt_valid pt" i] assms len by (simp add: pt_map_def pt_ok_def pt_valid_def)
    with a show thesis by (rule found)
  next
    case b
    then have "unat (VPN2 e) \<noteq> vpn vaddr div 2" if "e \<in> set (pt_valid pt)" for e
      using that len by (auto simp: pt_valid_def in_set_conv_nth)
    with b(1) show thesis
      using concat_pages_none [of "pt_valid pt" "vpn vaddr"] missing unfolding pt_map_def by metis
  qed
qed

lemma concat_pages_update:
  assumes "distinct (map VPN2 es)" and "i < length es" and "VPN2 e = VPN2 (es ! i)"
  shows "map_of (concat (map entry_pages (es[i := e]))) k =
    (if k div 2 = unat (VPN2 e) then half k e else map_of (concat (map entry_pages es)) k)"
proof -
  have same: "map VPN2 (es[i := e]) = map VPN2 es"
    using assms(3) by (metis list_update_id map_update)
  show ?thesis
  proof (cases "\<exists>j<length es. k div 2 = unat (VPN2 (es ! j))")
    case True
    then obtain j where j: "j < length es" "k div 2 = unat (VPN2 (es ! j))"
      by blast
    have key: "VPN2 (es[i := e] ! j) = VPN2 (es ! j)"
      using same j(1) by (metis length_list_update nth_map)
    have "j = i" if "k div 2 = unat (VPN2 e)"
      using that j assms by (metis length_map nth_eq_iff_index_eq nth_map word_unat_eq_iff)
    then show ?thesis
      using concat_pages_at [OF assms(1) j] concat_pages_at [of "es[i := e]" j k] same key j assms
      by (cases "j = i") auto
  next
    case False
    then have "\<forall>e\<in>set es. k div 2 \<noteq> unat (VPN2 e)"
      by (auto simp: in_set_conv_nth)
    moreover from this have "\<forall>e'\<in>set (es[i := e]). k div 2 \<noteq> unat (VPN2 e')"
      using assms(2,3) set_update_subset_insert [of es i e] nth_mem [OF assms(2)] by (metis insert_iff subsetD)
    ultimately show ?thesis
      using concat_pages_none [of es k] concat_pages_none [of "es[i := e]" k] assms(2,3)
      by (metis nth_mem)
  qed
qed

text \<open>An update of a valid entry that keeps its pair.\<close>

lemma pt_update:
  assumes "pt_ok pt" and "i < unat (valid_count pt)" and "VPN2 e = VPN2 (pt_entries pt ! i)"
    and "pt_entry_ok (pt_ASID pt) e"
  defines "pt' \<equiv> pt\<lparr>pt_entries := (pt_entries pt)[i := e]\<rparr>"
  shows "pt_ok pt'"
    and "pt_map pt' = (\<lambda>k. if k div 2 = unat (VPN2 e) then half k e else pt_map pt k)"
proof -
  let ?es = "pt_valid pt"
  have i: "i < length ?es" "?es ! i = pt_entries pt ! i"
    using assms(1,2) by (simp_all add: pt_ok_def pt_valid_def)
  have val: "pt_valid pt' = ?es[i := e]"
    by (simp add: pt'_def pt_valid_def take_update_swap)
  have d: "distinct (map VPN2 ?es)"
    using assms(1) by (simp add: pt_ok_def)
  have "map VPN2 (?es[i := e]) = map VPN2 ?es"
    using assms(3) i by (metis list_update_id map_update)
  moreover have "\<forall>e'\<in>set (?es[i := e]). pt_entry_ok (pt_ASID pt) e'"
    using assms(1,4) set_update_subset_insert [of ?es i e] by (auto simp: pt_ok_def)
  ultimately show "pt_ok pt'"
    using assms(1) d unfolding pt_ok_def val by (simp add: pt'_def)
  show "pt_map pt' = (\<lambda>k. if k div 2 = unat (VPN2 e) then half k e else pt_map pt k)"
    unfolding pt_map_def val by (rule ext) (rule concat_pages_update [OF d i(1)], simp add: assms(3) i(2))
qed

text \<open>A new entry behind the valid ones.\<close>

lemma pt_append:
  assumes "pt_ok pt" and "unat (valid_count pt) < PAGETABLE_ENTRIES" and "VPN2 e \<notin> VPN2 ` set (pt_valid pt)"
    and "pt_entry_ok (pt_ASID pt) e"
  defines "pt' \<equiv> pt\<lparr>pt_entries := (pt_entries pt)[unat (valid_count pt) := e], valid_count := valid_count pt + 1\<rparr>"
  shows "pt_ok pt'" and "pt_map pt' = (\<lambda>k. if k div 2 = unat (VPN2 e) then half k e else pt_map pt k)"
proof -
  let ?n = "unat (valid_count pt)" and ?es = "pt_valid pt"
  have n: "unat (valid_count pt + 1) = Suc ?n"
    using assms(2) by (simp add: unat_word_ariths)
  have len: "?n < length (pt_entries pt)"
    using assms(1,2) by (simp add: pt_ok_def)
  then have val: "pt_valid pt' = ?es @ [e]"
    unfolding pt'_def pt_valid_def by (simp add: n take_Suc_conv_app_nth)
  show "pt_ok pt'"
    using assms(1-4) unfolding pt_ok_def val by (simp add: pt'_def n)
  have none: "map_of (concat (map entry_pages ?es)) k = None" if "k div 2 = unat (VPN2 e)" for k
    using concat_pages_none [of ?es k] that assms(3) by (metis image_eqI word_unat_eq_iff)
  show "pt_map pt' = (\<lambda>k. if k div 2 = unat (VPN2 e) then half k e else pt_map pt k)"
    unfolding pt_map_def val using none
    by (auto simp: map_of_entry_pages map_add_def fun_eq_iff split: option.splits)
qed

section \<open>The operations on the mapping\<close>

lemma word1_cases [simp]: "(w :: 1 word) \<noteq> 1 \<longleftrightarrow> w = 0"
proof -
  have "w = 0 \<or> w = 1"
  proof -
    have "unat w < 2"
      using unsigned_less [where 'a = nat, of w] by simp
    then have "unat w = unat (0 :: 1 word) \<or> unat w = unat (1 :: 1 word)"
      by auto
    then show ?thesis
      unfolding word_unat_eq_iff [symmetric] .
  qed
  then show ?thesis by auto
qed

lemma half_div2: "k div 2 = n div 2 \<Longrightarrow> even k = even n \<Longrightarrow> k = (n :: nat)"
  by presburger

lemma vm_map_cases:
  assumes "pt_ok pt"
  shows "case vm_map pt physaddr vaddr dirty of
    None \<Rightarrow> dirty \<notin> {0, 1} \<or> vpn vaddr \<in> dom (pt_map pt) \<or>
      (unat (valid_count pt) = PAGETABLE_ENTRIES \<and> (\<forall>k. k div 2 = vpn vaddr div 2 \<longrightarrow> pt_map pt k = None))
  | Some pt' \<Rightarrow> dirty \<in> {0, 1} \<and> vpn vaddr \<notin> dom (pt_map pt) \<and> pt_ok pt' \<and> pt_ASID pt' = pt_ASID pt \<and>
      pt_map pt' = (pt_map pt)(vpn vaddr \<mapsto> (ucast (drop_bit 12 physaddr), dirty = 1))"
proof (cases "dirty = 0 \<or> dirty = 1")
  case False
  then show ?thesis by (simp add: vm_map_def guard_def)
next
  case True
  then have d1: "(of_int dirty = (1 :: 1 word)) = (dirty = 1)" and g: "guard (dirty = 0 \<or> dirty = 1) = Some ()"
    by (auto simp: guard_def)
  let ?f = "ucast (drop_bit 12 physaddr) :: 20 word"
  show ?thesis
  proof (cases rule: pt_find [OF assms, of vaddr, case_names found missing])
    case (found i)
    let ?e = "pt_entries pt ! i"
    define e where "e = (if even (vpn vaddr) then ?e\<lparr>PFN0 := ?f, V0 := 1, G0 := 0, D0 := of_int dirty\<rparr>
      else ?e\<lparr>PFN1 := ?f, V1 := 1, G1 := 0, D1 := of_int dirty\<rparr>)"
    define pt' where "pt' = pt\<lparr>pt_entries := (pt_entries pt)[i := e]\<rparr>"
    have run: "vm_map pt physaddr vaddr dirty = (if pt_map pt (vpn vaddr) = None then Some pt' else None)"
      by (auto simp: vm_map_def g found Let_def vpn_even half_def e_def pt'_def)
    have vp: "VPN2 e = VPN2 ?e"
      by (simp add: e_def)
    have "?e \<in> set (pt_valid pt)"
      using assms found(2) by (auto simp: pt_valid_def pt_ok_def in_set_conv_nth intro!: exI [of _ i])
    then have old: "pt_entry_ok (pt_ASID pt) ?e"
      using assms by (simp add: pt_ok_def)
    then have "pt_entry_ok (pt_ASID pt) e"
      by (simp add: pt_entry_ok_def e_def)
    note upd = pt_update [OF assms found(2) vp this, folded pt'_def]
    have at: "pt_map pt k = half k ?e" if "k div 2 = vpn vaddr div 2" for k
      using concat_pages_at [of "pt_valid pt" i k] that assms found by (simp add: pt_map_def pt_ok_def pt_valid_def)
    have "pt_map pt' k = ((pt_map pt)(vpn vaddr \<mapsto> (?f, dirty = 1))) k" for k
      using at [of k] half_div2 [of k "vpn vaddr"] found(3) by (auto simp: upd(2) half_def vp e_def d1)
    then show ?thesis
      using True upd(1) by (auto simp: run pt'_def)
  next
    case missing
    define e0 where "e0 = (pt_entries pt ! unat (valid_count pt))\<lparr>VPN2 := ucast (drop_bit 13 vaddr), ASID := ucast (pt_ASID pt)\<rparr>"
    define e where "e = (if even (vpn vaddr) then e0\<lparr>PFN0 := ?f, D0 := of_int dirty, V0 := 1, G0 := 0, V1 := 0\<rparr>
      else e0\<lparr>PFN1 := ?f, D1 := of_int dirty, V1 := 1, G1 := 0, V0 := 0\<rparr>)"
    define pt' where "pt' = pt\<lparr>pt_entries := (pt_entries pt)[unat (valid_count pt) := e], valid_count := valid_count pt + 1\<rparr>"
    have none: "pt_map pt k = None" if "k div 2 = vpn vaddr div 2" for k
      using concat_pages_none [of "pt_valid pt" k] missing(2) that by (metis pt_map_def)
    have lim: "valid_count pt \<ge> of_nat PAGETABLE_ENTRIES \<longleftrightarrow> unat (valid_count pt) = PAGETABLE_ENTRIES"
      using assms by (auto simp: pt_ok_def word_le_nat_alt)
    show ?thesis
    proof (cases "unat (valid_count pt) = PAGETABLE_ENTRIES")
      case True
      then have "vm_map pt physaddr vaddr dirty = None"
        unfolding vm_map_def g missing(1) using lim by simp
      then show ?thesis
        using none True by auto
    next
      case False
      then have lt: "unat (valid_count pt) < PAGETABLE_ENTRIES"
        using assms by (simp add: pt_ok_def)
      then have run: "vm_map pt physaddr vaddr dirty = Some pt'"
        using assms lim unfolding vm_map_def g missing(1)
        by (auto simp: pt_ok_def guard_def Let_def vpn_even pt'_def e_def e0_def)
      have "VPN2 e = ucast (drop_bit 13 vaddr)"
        by (simp add: e_def e0_def)
      then have vp: "unat (VPN2 e) = vpn vaddr div 2"
        by (simp only: unat_pair)
      have "pt_entry_ok (pt_ASID pt) e"
        by (simp add: pt_entry_ok_def e_def e0_def)
      moreover have "VPN2 e \<notin> VPN2 ` set (pt_valid pt)"
        using missing(2) vp by auto
      ultimately have upd: "pt_ok pt'" "pt_map pt' = (\<lambda>k. if k div 2 = unat (VPN2 e) then half k e else pt_map pt k)"
        using pt_append [OF assms lt] by (simp_all add: pt'_def)
      have "pt_map pt' k = ((pt_map pt)(vpn vaddr \<mapsto> (?f, dirty = 1))) k" for k
        using none [of k] half_div2 [of k "vpn vaddr"] by (auto simp: upd(2) [unfolded vp] half_def e_def d1)
      then show ?thesis
        using True upd(1) missing(3) by (auto simp: run pt'_def)
    qed
  qed
qed

text \<open>C20. \<open>vm_map\<close> on a page table: it adds exactly the mapping of the page to the frame, with the
  write permission that is asked for, and keeps every other mapping; it panics only for a
  page that is mapped already or when all entries are taken by other pairs of pages.\<close>

theorem vm_map_refines:
  assumes "pt_ok pt"
  shows "case vm_map pt physaddr vaddr dirty of
    None \<Rightarrow> dirty \<notin> {0, 1} \<or> vpn vaddr \<in> dom (pt_map pt) \<or>
      (unat (valid_count pt) = PAGETABLE_ENTRIES \<and> (\<forall>k. k div 2 = vpn vaddr div 2 \<longrightarrow> pt_map pt k = None))
  | Some pt' \<Rightarrow> dirty \<in> {0, 1} \<and> vpn vaddr \<notin> dom (pt_map pt) \<and> pt_ok pt' \<and> pt_ASID pt' = pt_ASID pt \<and>
      pt_map pt' = (pt_map pt)(vpn vaddr \<mapsto> (ucast (drop_bit 12 physaddr), dirty = 1))"
  using assms by (rule vm_map_cases)

definition demo_entry :: tlb_entry where
  "demo_entry = \<lparr>VPN2 = 5, dummy1 = 0, ASID = 9, dummy2 = 0, PFN0 = 1, C0 = 0, D0 = 1, V0 = 1, G0 = 1,
     dummy3 = 0, PFN1 = 0, C1 = 0, D1 = 0, V1 = 1, G1 = 1\<rparr>"

definition demo_pagetable :: pagetable where
  "demo_pagetable = \<lparr>pt_ASID = 3, valid_count = 0, pt_entries = replicate 340 demo_entry\<rparr>"

lemma demo_pagetable_ok: "pt_ok demo_pagetable" "pt_map demo_pagetable = Map.empty"
  by (simp_all add: pt_ok_def pt_map_def pt_valid_def demo_pagetable_def)

theorem vm_map_refines_witness:
  "\<exists>pt'. vm_map demo_pagetable 0x5000 0x401000 1 = Some pt' \<and> pt_map pt' = [0x401 \<mapsto> (5, True)]"
proof -
  have "vpn 0x401000 = 0x401"
    by (simp add: vpn_def drop_bit_eq_div unat_div_distrib)
  moreover have "unat (valid_count demo_pagetable) = 0"
    by (simp add: demo_pagetable_def)
  ultimately show ?thesis
    using vm_map_refines [OF demo_pagetable_ok(1), where physaddr = "0x5000" and vaddr = "0x401000" and dirty = 1]
    by (auto simp: demo_pagetable_ok(2) drop_bit_eq_div split: option.splits)
qed

lemma vm_set_dirty_cases:
  assumes "pt_ok pt"
  shows "case vm_set_dirty pt vaddr dirty of
    None \<Rightarrow> dirty \<notin> {0, 1} \<or> vpn vaddr \<notin> dom (pt_map pt)
  | Some pt' \<Rightarrow> dirty \<in> {0, 1} \<and> pt_ok pt' \<and> pt_ASID pt' = pt_ASID pt \<and>
      (\<exists>f w. pt_map pt (vpn vaddr) = Some (f, w) \<and> pt_map pt' = (pt_map pt)(vpn vaddr \<mapsto> (f, dirty = 1)))"
proof (cases "dirty = 0 \<or> dirty = 1")
  case False
  then show ?thesis by (simp add: vm_set_dirty_def guard_def)
next
  case True
  then have d1: "(of_int dirty = (1 :: 1 word)) = (dirty = 1)" and g: "guard (dirty = 0 \<or> dirty = 1) = Some ()"
    by (auto simp: guard_def)
  show ?thesis
  proof (cases rule: pt_find [OF assms, of vaddr, case_names found missing])
    case (found i)
    let ?e = "pt_entries pt ! i"
    define e where "e = (if even (vpn vaddr) then ?e\<lparr>D0 := of_int dirty\<rparr> else ?e\<lparr>D1 := of_int dirty\<rparr>)"
    define pt' where "pt' = pt\<lparr>pt_entries := (pt_entries pt)[i := e]\<rparr>"
    have run: "vm_set_dirty pt vaddr dirty = (if pt_map pt (vpn vaddr) = None then None else Some pt')"
      unfolding vm_set_dirty_def g found(1)
      by (auto simp: found(4) Let_def vpn_even half_def e_def pt'_def simp flip: word1_cases)
    have vp: "VPN2 e = VPN2 ?e"
      by (simp add: e_def)
    have "?e \<in> set (pt_valid pt)"
      using assms found(2) by (auto simp: pt_valid_def pt_ok_def in_set_conv_nth intro!: exI [of _ i])
    then have "pt_entry_ok (pt_ASID pt) ?e"
      using assms by (simp add: pt_ok_def)
    then have "pt_entry_ok (pt_ASID pt) e"
      by (simp add: pt_entry_ok_def e_def)
    note upd = pt_update [OF assms found(2) vp this, folded pt'_def]
    have at: "pt_map pt k = half k ?e" if "k div 2 = vpn vaddr div 2" for k
      using concat_pages_at [of "pt_valid pt" i k] that assms found by (simp add: pt_map_def pt_ok_def pt_valid_def)
    show ?thesis
    proof (cases "pt_map pt (vpn vaddr)")
      case None
      then show ?thesis by (auto simp: run)
    next
      case (Some fw)
      have "pt_map pt' k = ((pt_map pt)(vpn vaddr \<mapsto> (fst fw, dirty = 1))) k" for k
        using at [of k] half_div2 [of k "vpn vaddr"] found(3) Some
        by (auto simp: upd(2) half_def vp e_def d1 split: if_splits)
      then show ?thesis
        using True upd(1) Some by (cases fw) (auto simp: run pt'_def)
    qed
  next
    case missing
    then show ?thesis
      by (auto simp: vm_set_dirty_def g)
  qed
qed

text \<open>\<open>vm_set_dirty\<close> changes the write permission of one mapping and nothing else, and panics
  exactly for a page that is not mapped or a value that is not 0 or 1.\<close>

theorem vm_set_dirty_refines:
  assumes "pt_ok pt"
  shows "case vm_set_dirty pt vaddr dirty of
    None \<Rightarrow> dirty \<notin> {0, 1} \<or> vpn vaddr \<notin> dom (pt_map pt)
  | Some pt' \<Rightarrow> dirty \<in> {0, 1} \<and> pt_ok pt' \<and> pt_ASID pt' = pt_ASID pt \<and>
      (\<exists>f w. pt_map pt (vpn vaddr) = Some (f, w) \<and> pt_map pt' = (pt_map pt)(vpn vaddr \<mapsto> (f, dirty = 1)))"
  using assms by (rule vm_set_dirty_cases)

definition demo_mapped :: pagetable where
  "demo_mapped = \<lparr>pt_ASID = 3, valid_count = 1, pt_entries =
     demo_entry\<lparr>ASID := 3, G0 := 0, G1 := 0\<rparr> # replicate 339 demo_entry\<rparr>"

lemma demo_mapped_ok: "pt_ok demo_mapped" "pt_map demo_mapped = [10 \<mapsto> (1, True), 11 \<mapsto> (0, False)]"
  by (auto simp: pt_ok_def pt_map_def pt_valid_def demo_mapped_def demo_entry_def pt_entry_ok_def entry_pages_def)

lemma vpn_demo: "vpn 0xb123 = 11"
  by (simp add: vpn_def drop_bit_eq_div unat_div_distrib)

theorem vm_set_dirty_refines_witness:
  "\<exists>pt'. vm_set_dirty demo_mapped 0xb123 1 = Some pt' \<and> pt_map pt' = [10 \<mapsto> (1, True), 11 \<mapsto> (0, True)]"
  using vm_set_dirty_refines [OF demo_mapped_ok(1), where vaddr = "0xb123" and dirty = 1]
  by (auto simp: demo_mapped_ok(2) vpn_demo split: option.splits)

section \<open>TLB misses\<close>

text \<open>How the hardware uses an entry: it serves the addresses of its pair in its own address
  space, or in every address space when both halves are global.\<close>

definition tlb_lookup :: "8 word \<Rightarrow> tlb_entry \<Rightarrow> u32 \<Rightarrow> (20 word \<times> bool) option" where
  "tlb_lookup asid e vaddr =
     (if unat (VPN2 e) = vpn vaddr div 2 \<and> (ASID e = asid \<or> (G0 e = 1 \<and> G1 e = 1)) then half (vpn vaddr) e else None)"

lemma tlb_store_cases:
  assumes "pt_ok pt" and "badvpn2 tes = drop_bit 13 (badvaddr tes)"
  shows "case tlb_store_exception tes (Some pt) of
    None \<Rightarrow> pt_map pt (vpn (badvaddr tes)) = None
  | Some e \<Rightarrow> pt_map pt (vpn (badvaddr tes)) \<noteq> None \<and>
      (\<forall>vaddr asid. tlb_lookup asid e vaddr =
        (if asid = ucast (pt_ASID pt) \<and> vpn vaddr div 2 = vpn (badvaddr tes) div 2
         then pt_map pt (vpn vaddr) else None))"
proof (cases rule: pt_find [OF assms(1), of "badvaddr tes", case_names found missing])
  case (found i)
  let ?e = "pt_entries pt ! i"
  have "?e \<in> set (pt_valid pt)"
    using assms(1) found(2) by (auto simp: pt_valid_def pt_ok_def in_set_conv_nth intro!: exI [of _ i])
  then have ok: "pt_entry_ok (pt_ASID pt) ?e"
    using assms(1) by (simp add: pt_ok_def)
  have at: "pt_map pt k = half k ?e" if "k div 2 = vpn (badvaddr tes) div 2" for k
    using concat_pages_at [of "pt_valid pt" i k] that assms(1) found by (simp add: pt_map_def pt_ok_def pt_valid_def)
  have asid: "ASID ?e = ucast (pt_ASID pt)" "\<not> (G0 ?e = 1 \<and> G1 ?e = 1)"
    using ok by (auto simp: pt_entry_ok_def)
  have valid: "tlb_entry_is_valid ?e (badvaddr tes) =
      Some (uint (if even (vpn (badvaddr tes)) then V0 ?e else V1 ?e))"
    using found(3) by (simp add: tlb_entry_is_valid_def vpn2_eq guard_def vpn_even)
  have "tlb_store_exception tes (Some pt) = (if pt_map pt (vpn (badvaddr tes)) = None then None else Some ?e)"
    unfolding tlb_store_exception_def assms(2)
    by (auto simp: found(1,4) valid guard_def half_def uint_0_iff simp flip: word1_cases split: bind_splits)
  moreover have "tlb_lookup a ?e vaddr =
      (if a = ucast (pt_ASID pt) \<and> vpn vaddr div 2 = vpn (badvaddr tes) div 2 then pt_map pt (vpn vaddr) else None)" for a vaddr
    using found(3) asid at [of "vpn vaddr"] by (auto simp: tlb_lookup_def)
  ultimately show ?thesis by simp
next
  case missing
  then show ?thesis
    by (simp add: tlb_store_exception_def assms(2))
qed

text \<open>C29. A TLB miss on a mapped page writes an entry to the TLB that translates the bad address,
  and its neighbour in the pair, exactly as the page table does, and that is of no use in any
  other address space.  On a page that is not mapped the handler panics.\<close>

theorem tlb_refill:
  assumes "pt_ok pt" and "badvpn2 tes = drop_bit 13 (badvaddr tes)"
  shows "case tlb_store_exception tes (Some pt) of
    None \<Rightarrow> pt_map pt (vpn (badvaddr tes)) = None
  | Some e \<Rightarrow> pt_map pt (vpn (badvaddr tes)) \<noteq> None \<and>
      (\<forall>vaddr asid. tlb_lookup asid e vaddr =
        (if asid = ucast (pt_ASID pt) \<and> vpn vaddr div 2 = vpn (badvaddr tes) div 2
         then pt_map pt (vpn vaddr) else None))"
  using assms by (rule tlb_store_cases)

theorem tlb_refill_witness:
  "\<exists>e. tlb_store_exception \<lparr>badvaddr = 0xb123, badvpn2 = drop_bit 13 0xb123, tes_asid = 3\<rparr> (Some demo_mapped) = Some e \<and>
     tlb_lookup 3 e 0xb123 = Some (0, False) \<and> tlb_lookup 4 e 0xb123 = None"
  using tlb_refill [OF demo_mapped_ok(1), where tes = "\<lparr>badvaddr = 0xb123, badvpn2 = drop_bit 13 0xb123, tes_asid = 3\<rparr>"]
  by (auto simp: demo_mapped_ok(2) vpn_demo split: option.splits) (simp_all add: demo_mapped_def)

section \<open>The type of page tables\<close>

datatype pagetable_op = Vm_map u32 u32 int | Vm_unmap u32 | Vm_set_dirty u32 int

fun pt_run :: "pagetable_op list \<Rightarrow> pagetable \<Rightarrow> pagetable option" where
  "pt_run [] pt = Some pt"
| "pt_run (Vm_map p v d # ops) pt = do { pt \<leftarrow> vm_map pt p v d; pt_run ops pt }"
| "pt_run (Vm_unmap v # ops) pt = do { pt \<leftarrow> vm_unmap pt v; pt_run ops pt }"
| "pt_run (Vm_set_dirty v d # ops) pt = do { pt \<leftarrow> vm_set_dirty pt v d; pt_run ops pt }"

lemma pt_run_ok: "pt_ok pt \<Longrightarrow> wlp (pt_run ops pt) (\<lambda>pt'. pt_ok pt' \<and> pt_ASID pt' = pt_ASID pt)"
proof (induction ops pt rule: pt_run.induct)
  case (2 p v d ops pt)
  then show ?case
    using vm_map_cases [OF "2.prems", where physaddr = p and vaddr = v and dirty = d] by (cases "vm_map pt p v d") (auto elim: wlp_mono)
next
  case (4 v d ops pt)
  then show ?case
    using vm_set_dirty_cases [OF "4.prems", where vaddr = v and dirty = d] by (cases "vm_set_dirty pt v d") (auto elim: wlp_mono)
qed (simp_all add: vm_unmap_def)

text \<open>C30. A page table stays one: whatever page \<open>vm_create_pagetable\<close> is given, every sequence of
  operations on the new page table leaves at most 340 entries, no pair of pages with two
  entries, every entry in the address space of the table and with a mapped half, and no
  mapped half global.\<close>

theorem pagetable_type:
  assumes "\<And>a. length (pt_entries (content a)) = PAGETABLE_ENTRIES"
  shows "wlp (vm_create_pagetable asid content pool) (\<lambda>(r, pool').
    \<forall>t pt. r = Some (t, pt) \<longrightarrow> pt_ASID pt = asid \<and> pt_map pt = Map.empty \<and>
      wlp (pt_run ops pt) (\<lambda>pt'. pt_ok pt' \<and> pt_ASID pt' = asid))"
proof (rule wlpI, clarify)
  fix t pt pool' assume run: "vm_create_pagetable asid content pool = Some (Some (t, pt), pool')"
  then have pt: "pt = (content t)\<lparr>pt_ASID := asid, valid_count := 0\<rparr>"
    by (auto simp: vm_create_pagetable_def Let_def split: bind_splits if_splits)
  then have "pt_ok pt"
    using assms by (simp add: pt_ok_def pt_valid_def)
  from pt_run_ok [OF this] pt show "pt_ASID pt = asid \<and> pt_map pt = Map.empty \<and>
      wlp (pt_run ops pt) (\<lambda>pt'. pt_ok pt' \<and> pt_ASID pt' = asid)"
    by (simp add: pt_map_def pt_valid_def)
qed

section \<open>Memory from boot to page allocation\<close>

definition demo_pool :: pagepool where
  "demo_pool = \<lparr>pp_free_pages = [0, 0, 0, 7], pp_num_pages = 5, pp_num_free_pages = 2, pp_static_end = 3\<rparr>"

lemma demo_pool_bits: "bm_bit (pp_free_pages demo_pool) i = (i < 3)" if "i < 5"
proof -
  have "i \<in> {0, 1, 2, 3, 4}"
    using that by auto
  then show ?thesis
    by (auto simp: demo_pool_def bm_bit_def get32_def be_word_def bit_simps)
qed

lemma demo_pool_ok: "pool_ok demo_pool" "pool_free demo_pool = {3, 4}" "pool_pages demo_pool = {3, 4}"
proof -
  show pages: "pool_pages demo_pool = {3, 4}"
    by (auto simp: pool_pages_def demo_pool_def)
  then show free: "pool_free demo_pool = {3, 4}"
    using demo_pool_bits by (auto simp: pool_free_def)
  have "bm_bit (pp_free_pages demo_pool) i" if "i < 3" for i
    using demo_pool_bits [of i] that by simp
  then show "pool_ok demo_pool"
    unfolding pool_ok_def free by (simp add: demo_pool_def bm_room_def)
qed

theorem pagetable_type_witness:
  "wlp (vm_create_pagetable 7 (\<lambda>_. demo_pagetable) demo_pool) (\<lambda>(r, pool').
    \<forall>t pt. r = Some (t, pt) \<longrightarrow> pt_ASID pt = 7 \<and> pt_map pt = Map.empty \<and>
      wlp (pt_run [Vm_map 0x3000 0x400000 1, Vm_set_dirty 0x400000 0] pt) (\<lambda>pt'. pt_ok pt' \<and> pt_ASID pt' = 7))"
  by (rule pagetable_type) (simp add: demo_pagetable_def)

text \<open>The areas that \<open>kmalloc\<close> hands out at boot end before the first page of the pool.\<close>

lemma unat_phys_to_kernel: "i < MAX_FRAMES \<Longrightarrow> unat (ADDR_PHYS_TO_KERNEL (page_addr i)) = 2147483648 + 4096 * i"
proof -
  assume i: "i < MAX_FRAMES"
  have "\<not> bit (unat (page_addr i)) 31"
    using i by (simp add: bit_iff_odd unat_page_addr)
  then have "\<not> bit (page_addr i) 31"
    by (simp add: bit_unsigned_iff)
  then have "page_addr i AND 2 ^ 31 = 0"
    by (simp only: and_exp_eq_0_iff_not_bit not_False_eq_True)
  then have "page_addr i AND 0x80000000 = 0"
    by simp
  then have "ADDR_PHYS_TO_KERNEL (page_addr i) = page_addr i + 0x80000000"
    unfolding ADDR_PHYS_TO_KERNEL_def by (rule disjunctive_add_eq_or [symmetric])
  then show ?thesis
    using i by (simp add: unat_word_ariths unat_page_addr)
qed

lemma vm_init_ok:
  assumes "kmem_ok km" and "unat (memory_end km) = unat KERNEL_UNMAPPED + 4096 * n" and "n \<le> KSEG_FRAMES"
    and "kmalloc_get_numpages io_word io_desc = Some (int n)" and "vm_init io_word io_desc ram km = Some (p, km')"
  shows "pool_ok p" and "pool_free p = pool_pages p" and "pp_num_pages p = int n" and "free_area_start km' = 0xffffffff"
    and "i \<in> pool_pages p \<Longrightarrow> free_area_start km \<le> ADDR_PHYS_TO_KERNEL (page_addr i) \<and> i < n"
proof -
  obtain km1 where init: "pagepool_init io_word io_desc ram km = Some (p, km1)" "km' = kmalloc_disable km1"
    using assms(5) by (auto simp: vm_init_def split: bind_splits)
  note ok = pagepool_init_ok [OF assms(1-4), of ram, unfolded init(1) wlp_Some split_conv]
  show "pool_ok p" "pool_free p = pool_pages p" "pp_num_pages p = int n"
    using ok by simp_all
  show "free_area_start km' = 0xffffffff"
    by (simp add: init(2) kmalloc_disable_def)
  assume i: "i \<in> pool_pages p"
  then have range: "nat (pp_static_end p) \<le> i" "i < n"
    using ok by (auto simp: pool_pages_def)
  then have "unat (free_area_start km1) \<le> unat KERNEL_UNMAPPED + 4096 * i"
    using ok by (meson mult_le_mono2 nat_add_left_cancel_le order_trans)
  moreover have "unat (ADDR_PHYS_TO_KERNEL (page_addr i)) = unat KERNEL_UNMAPPED + 4096 * i"
    using unat_phys_to_kernel [of i] range(2) assms(3) by simp
  ultimately show "free_area_start km \<le> ADDR_PHYS_TO_KERNEL (page_addr i) \<and> i < n"
    using ok range(2) unfolding word_le_nat_alt by linarith
qed


text \<open>A machine with four pages.\<close>

definition demo_descriptors :: "io_descriptor list" where
  "demo_descriptors = [\<lparr>io_type = 0x101, io_area_base = 0xb0000000, io_area_len = 4, io_irq = 0xffffffff,
     io_vendor_string = [], io_resv = []\<rparr>]"

definition demo_kmem :: "u32 \<Rightarrow> kmem" where
  "demo_kmem a = \<lparr>free_area_start = a, memory_end = 0x80004000\<rparr>"

lemma demo_meminfo: "kmalloc_get_numpages (\<lambda>_. 4) demo_descriptors = Some (int 4)"
  by (simp add: kmalloc_get_numpages_def demo_descriptors_def Let_def)

lemma demo_kmalloc_init: "kmalloc_init (\<lambda>_. 4) demo_descriptors 0x80001001 = Some (demo_kmem 0x80001004)"
  unfolding kmalloc_init_def demo_meminfo by (simp add: ck_def int_ok_def word_align_def demo_kmem_def)

lemma demo_kmalloc: "kmalloc_all [10, 3] (demo_kmem 0x80001004) = Some ([0x80001004, 0x80001010], demo_kmem 0x80001014)"
  by (simp add: kmalloc_def word_align_def demo_kmem_def)

lemma demo_vm_init: "\<exists>pool km. vm_init (\<lambda>_. 4) demo_descriptors (\<lambda>_. 7) (demo_kmem 0x80001014) = Some (pool, km)"
  unfolding vm_init_def pagepool_init_def demo_meminfo
  by (simp add: bitmap_sizeof_def ck_def int_ok_def kmalloc_def word_align_def demo_kmem_def bitmap_init_def
      guard_def ram_area_def wr32_def kmalloc_get_reserved_pages_def Let_def bitmap_set_def rd32_def upt_rec)


end
