(* ===== verification/Interrupt.thy ===== *)
theory Interrupt
  imports Kmalloc Thread
begin

text \<open>
  Interrupts, \<open>kernel/interrupt.c\<close>.  \<open>'d\<close> is the state of the drivers; a handler gets the device
  it was registered with and changes the state of the drivers and the threads.  The vector
  code is assembly; its words are an argument.
\<close>

abbreviation (input) CONFIG_MAX_DEVICES :: nat where "CONFIG_MAX_DEVICES \<equiv> 128"
abbreviation (input) INTERRUPT_CAUSE_SOFTWARE_0 :: u32 where "INTERRUPT_CAUSE_SOFTWARE_0 \<equiv> 0x100"
abbreviation (input) INTERRUPT_CAUSE_HARDWARE_5 :: u32 where "INTERRUPT_CAUSE_HARDWARE_5 \<equiv> 0x8000"
abbreviation (input) INTERRUPT_VECTOR_LENGTH :: nat where "INTERRUPT_VECTOR_LENGTH \<equiv> 8"

type_synonym 's handler = "u32 \<Rightarrow> 's \<Rightarrow> 's option"

record 's interrupt_entry =
  ie_device :: u32
  ie_irq :: u32
  ie_handler :: "'s handler option"

record 's interrupts =
  interrupt_stacks :: "u32 list"
  interrupt_handlers :: "'s interrupt_entry list"
  iv_areas :: "u32 list list"

definition interrupt_init :: "u32 list \<Rightarrow> int \<Rightarrow> 's interrupts \<Rightarrow> kmem \<Rightarrow> ('s interrupts \<times> kmem) option" where
  "interrupt_init vector_code num_cpus s km = do {
     guard (1 \<le> num_cpus \<and> num_cpus \<le> int MAX_CPUS);
     (s, km) \<leftarrow> for_each [0..<nat num_cpus] (\<lambda>i (s, km). do {
         (ret, km) \<leftarrow> kmalloc 4096 km;
         guard (ret \<noteq> 0);
         Some (s\<lparr>interrupt_stacks := (interrupt_stacks s)[i := ret + 4096 - 4]\<rparr>, km)
       }) (s, km);
     Some (s\<lparr>interrupt_handlers := map (\<lambda>_. \<lparr>ie_device = 0, ie_irq = 0, ie_handler = None\<rparr>) (interrupt_handlers s),
       iv_areas := map (\<lambda>a. take INTERRUPT_VECTOR_LENGTH vector_code @ drop INTERRUPT_VECTOR_LENGTH a) (iv_areas s)\<rparr>, km)
   }"

text \<open>The loop of \<open>interrupt_register\<close>, over the values of \<open>i\<close>; it reads an entry before it looks at
  the bound.\<close>

fun find_free_entry :: "'s interrupt_entry list \<Rightarrow> nat \<Rightarrow> nat option" where
  "find_free_entry [] i = None"
| "find_free_entry (e # es) i = (if ie_device e \<noteq> 0 then find_free_entry es (i + 1) else Some i)"

definition interrupt_register :: "u32 \<Rightarrow> 's handler \<Rightarrow> u32 \<Rightarrow> 's interrupts \<Rightarrow> 's interrupts option" where
  "interrupt_register irq handler device s = do {
     guard (irq AND NOT 0xff00 = 0);
     i \<leftarrow> find_free_entry (interrupt_handlers s) 0;
     Some (s\<lparr>interrupt_handlers := (interrupt_handlers s)[i :=
       \<lparr>ie_device = device, ie_irq = irq, ie_handler = Some handler\<rparr>]\<rparr>)
   }"

fun call_handlers :: "u32 \<Rightarrow> 's interrupt_entry list \<Rightarrow> 's \<Rightarrow> 's option" where
  "call_handlers cause [] s = Some s"
| "call_handlers cause (e # es) s =
     (if ie_device e = 0 then Some s
      else if cause AND ie_irq e \<noteq> 0 then do {
        h \<leftarrow> ie_handler e;
        s \<leftarrow> h (ie_device e) s;
        call_handlers cause es s
      }
      else call_handlers cause es s)"

text \<open>The result has the argument of \<open>_tlb_set_asid\<close>, when it is called.\<close>

definition interrupt_handle ::
    "nat \<Rightarrow> u32 \<Rightarrow> u32 \<Rightarrow> ('d \<times> kernel) interrupts \<Rightarrow> 'd \<times> kernel \<Rightarrow> (('d \<times> kernel) \<times> u32 option) option" where
  "interrupt_handle this_cpu rnd cause s st = do {
     guard (cause AND 0x7c = 0);
     (d, k) \<leftarrow> call_handlers cause (interrupt_handlers s) st;
     cur \<leftarrow> current_on this_cpu k;
     if cause AND (INTERRUPT_CAUSE_SOFTWARE_0 OR INTERRUPT_CAUSE_HARDWARE_5) \<noteq> 0 \<or> cur = IDLE_THREAD_TID then do {
       (k, ticks) \<leftarrow> scheduler_schedule this_cpu rnd k;
       e \<leftarrow> thread_get_current_thread_entry this_cpu k;
       tid \<leftarrow> thread_get_current_thread this_cpu k;
       let asid = (if t_process_id e = - 1 then (word_of_int tid OR 8) AND 0xff else word_of_int (t_process_id e)) in
         Some ((d, k), Some asid)
     }
     else Some ((d, k), None)
   }"

section \<open>Dispatch\<close>

text \<open>The entries in use, and a table of registered handlers.\<close>

definition registered :: "'s interrupts \<Rightarrow> 's interrupt_entry list \<Rightarrow> bool" where
  "registered s rs \<longleftrightarrow> (\<forall>r\<in>set rs. ie_device r \<noteq> 0) \<and>
     (\<exists>n. interrupt_handlers s = rs @ replicate n \<lparr>ie_device = 0, ie_irq = 0, ie_handler = None\<rparr> \<and>
       length rs + n = CONFIG_MAX_DEVICES)"

fun register_all :: "(u32 \<times> 's handler \<times> u32) list \<Rightarrow> 's interrupts \<Rightarrow> 's interrupts option" where
  "register_all [] s = Some s"
| "register_all ((irq, h, d) # rs) s = do { s \<leftarrow> interrupt_register irq h d s; register_all rs s }"

lemma find_free_entry_append:
  "\<forall>r\<in>set rs. ie_device r \<noteq> 0 \<Longrightarrow> find_free_entry (rs @ es) i = find_free_entry es (i + length rs)"
  by (induction rs arbitrary: i) auto

lemma interrupt_register_registered:
  assumes "registered s rs" and "irq AND NOT 0xff00 = 0" and "d \<noteq> 0"
  shows "if length rs < CONFIG_MAX_DEVICES
    then \<exists>s'. interrupt_register irq h d s = Some s' \<and>
      registered s' (rs @ [\<lparr>ie_device = d, ie_irq = irq, ie_handler = Some h\<rparr>])
    else interrupt_register irq h d s = None"
proof -
  obtain n where n: "interrupt_handlers s = rs @ replicate n \<lparr>ie_device = 0, ie_irq = 0, ie_handler = None\<rparr>"
      "length rs + n = CONFIG_MAX_DEVICES" and rs: "\<forall>r\<in>set rs. ie_device r \<noteq> 0"
    using assms(1) by (auto simp: registered_def)
  show ?thesis
  proof (cases n)
    case 0
    then show ?thesis
      using n find_free_entry_append [OF rs, of "[]" 0] by (simp add: interrupt_register_def guard_def)
  next
    case (Suc m)
    then have "find_free_entry (interrupt_handlers s) 0 = Some (length rs)"
      by (simp add: n(1) find_free_entry_append [OF rs])
    then show ?thesis
      using n rs assms(3) Suc
      by (auto simp: interrupt_register_def assms(2) [simplified] guard_def registered_def list_update_append)
  qed
qed

lemma call_handlers_filter:
  assumes "\<forall>r\<in>set rs. ie_device r \<noteq> 0" and "\<forall>e\<in>set es. ie_device e = 0"
  shows "call_handlers cause (rs @ es) s =
    for_each (filter (\<lambda>r. cause AND ie_irq r \<noteq> 0) rs) (\<lambda>r s. do { h \<leftarrow> ie_handler r; h (ie_device r) s }) s"
  using assms(1)
proof (induction rs arbitrary: s)
  case Nil
  then show ?case using assms(2) by (cases es) simp_all
qed (auto split: bind_split)

lemma registered_all:
  assumes "registered s rs0" and "\<forall>(irq, h, d)\<in>set rs. irq AND NOT 0xff00 = 0 \<and> d \<noteq> 0"
    and "length rs0 + length rs \<le> CONFIG_MAX_DEVICES"
  shows "\<exists>s'. register_all rs s = Some s' \<and> registered s'
    (rs0 @ map (\<lambda>(irq, h, d). \<lparr>ie_device = d, ie_irq = irq, ie_handler = Some h\<rparr>) rs)"
  using assms
proof (induction rs arbitrary: s rs0)
  case (Cons r rs)
  obtain irq h d where r: "r = (irq, h, d)"
    by (cases r)
  have "irq AND NOT 0xff00 = 0" "d \<noteq> 0" "length rs0 < CONFIG_MAX_DEVICES"
    using Cons.prems(2,3) by (simp_all add: r)
  from interrupt_register_registered [OF Cons.prems(1) this(1,2), of h] this(3) obtain s1 where s1:
      "interrupt_register irq h d s = Some s1"
      "registered s1 (rs0 @ [\<lparr>ie_device = d, ie_irq = irq, ie_handler = Some h\<rparr>])"
    by auto
  have "\<forall>(irq, h, d)\<in>set rs. irq AND NOT 0xff00 = 0 \<and> d \<noteq> 0"
    "length (rs0 @ [\<lparr>ie_device = d, ie_irq = irq, ie_handler = Some h\<rparr>]) + length rs \<le> CONFIG_MAX_DEVICES"
    using Cons.prems(2,3) by simp_all
  from Cons.IH [OF s1(2) this] s1(1) show ?case
    by (simp add: r)
qed simp

text \<open>C26. Dispatch: after any registrations with sane masks that fit into the table, an interrupt
  calls exactly the handlers whose mask meets its cause, each with its device, in the order of
  registration; the scheduler then runs exactly when the timer or a switch request interrupted
  or the idle thread was running.\<close>

theorem interrupt_dispatch:
  assumes "registered s0 []" and "\<forall>(irq, h, d)\<in>set rs. irq AND NOT 0xff00 = 0 \<and> d \<noteq> 0"
    and "length rs \<le> CONFIG_MAX_DEVICES"
  shows "\<exists>s. register_all rs s0 = Some s \<and>
    (\<forall>cpu rnd cause st. wlp (interrupt_handle cpu rnd cause s st) (\<lambda>((d, k), asid).
      \<exists>k'. for_each (filter (\<lambda>(irq, h, d). cause AND irq \<noteq> 0) rs) (\<lambda>(irq, h, d). h d) st = Some (d, k') \<and>
        (let switch = (cause AND 0x8100 \<noteq> 0 \<or> current_thread k' ! cpu = IDLE_THREAD_TID) in
           (asid \<noteq> None \<longleftrightarrow> switch) \<and>
           (if switch then \<exists>ticks. scheduler_schedule cpu rnd k' = Some (k, ticks) else k = k'))))"
proof -
  let ?e = "\<lambda>(irq, h, d). \<lparr>ie_device = d, ie_irq = irq, ie_handler = Some h\<rparr>"
  obtain s where s: "register_all rs s0 = Some s" "registered s (map ?e rs)"
    using registered_all [OF assms(1,2)] assms(3) by auto
  then obtain n where n: "interrupt_handlers s = map ?e rs @ replicate n \<lparr>ie_device = 0, ie_irq = 0, ie_handler = None\<rparr>"
      and dev: "\<forall>r\<in>set (map ?e rs). ie_device r \<noteq> 0"
    by (auto simp: registered_def)
  have filter: "for_each (filter (\<lambda>r. c AND ie_irq r \<noteq> 0) (map ?e rs)) (\<lambda>r s. do { h \<leftarrow> ie_handler r; h (ie_device r) s }) st =
      for_each (filter (\<lambda>(irq, h, d). c AND irq \<noteq> 0) rs) (\<lambda>(irq, h, d). h d) st" for c st
  proof (induction rs arbitrary: st)
    case (Cons r rs)
    then show ?case by (cases r) (auto split: bind_split)
  qed simp
  have "call_handlers c (interrupt_handlers s) st =
      for_each (filter (\<lambda>(irq, h, d). c AND irq \<noteq> 0) rs) (\<lambda>(irq, h, d). h d) st" for c st
    unfolding n filter [symmetric] by (rule call_handlers_filter [OF dev]) simp
  then have "wlp (interrupt_handle cpu rnd c s st) (\<lambda>((d, k), asid).
      \<exists>k'. for_each (filter (\<lambda>(irq, h, d). c AND irq \<noteq> 0) rs) (\<lambda>(irq, h, d). h d) st = Some (d, k') \<and>
        (let switch = (c AND 0x8100 \<noteq> 0 \<or> current_thread k' ! cpu = IDLE_THREAD_TID) in
           (asid \<noteq> None \<longleftrightarrow> switch) \<and>
           (if switch then \<exists>ticks. scheduler_schedule cpu rnd k' = Some (k, ticks) else k = k')))" for cpu rnd c st
    by (auto simp: wlp_iff interrupt_handle_def guard_def current_on_def Let_def split: bind_splits if_splits)
  with s(1) show ?thesis by blast
qed

end
