(* ===== verification/Tty.thy ===== *)
theory Tty
  imports Interrupt Sleepq
begin

text \<open>
  The interrupt-driven terminal driver, \<open>drivers/tty.c\<close>, and the polling one,
  \<open>drivers/polltty.c\<close>.

  The ports of a device are volatile: what a read returns is up to the hardware.  The state
  of the ports holds the values that the hardware will answer the reads with, one after the
  other, and a log of all accesses; every behaviour of the hardware is one such list.  A
  read with no answer left does not return.
\<close>

section \<open>Device ports\<close>

datatype io_event = Io_read u32 u32 | Io_write u32 u32

record io_ports =
  io_answers :: "u32 list"
  io_log :: "io_event list"

definition io_rd :: "u32 \<Rightarrow> io_ports \<Rightarrow> (u32 \<times> io_ports) option" where
  "io_rd a p = (case io_answers p of [] \<Rightarrow> None
     | v # vs \<Rightarrow> Some (v, p\<lparr>io_answers := vs, io_log := io_log p @ [Io_read a v]\<rparr>))"

definition io_wr :: "u32 \<Rightarrow> u32 \<Rightarrow> io_ports \<Rightarrow> io_ports" where
  "io_wr a v p = p\<lparr>io_log := io_log p @ [Io_write a v]\<rparr>"

section \<open>The interrupt-driven driver\<close>

abbreviation (input) TTY_BUF_SIZE :: int where "TTY_BUF_SIZE \<equiv> 2048"
abbreviation (input) TTY_COMMAND_RIRQ :: u32 where "TTY_COMMAND_RIRQ \<equiv> 1"
abbreviation (input) TTY_COMMAND_WIRQ :: u32 where "TTY_COMMAND_WIRQ \<equiv> 2"
abbreviation (input) TTY_COMMAND_WIRQE :: u32 where "TTY_COMMAND_WIRQE \<equiv> 3"
abbreviation (input) TTY_COMMAND_WIRQD :: u32 where "TTY_COMMAND_WIRQD \<equiv> 4"

text \<open>The ports of the I/O area at \<open>io\<close>, and the buffers of the structure at \<open>rd\<close>, whose
  addresses are the resources threads sleep on.\<close>

abbreviation (input) tty_status :: "u32 \<Rightarrow> u32" where "tty_status io \<equiv> io"
abbreviation (input) tty_command :: "u32 \<Rightarrow> u32" where "tty_command io \<equiv> io + 4"
abbreviation (input) tty_data :: "u32 \<Rightarrow> u32" where "tty_data io \<equiv> io + 8"
abbreviation (input) read_buf_at :: "u32 \<Rightarrow> u32" where "read_buf_at rd \<equiv> rd + 4"
abbreviation (input) write_buf_at :: "u32 \<Rightarrow> u32" where "write_buf_at rd \<equiv> rd + 2060"

definition TTY_STATUS_RAVAIL :: "u32 \<Rightarrow> u32" where "TTY_STATUS_RAVAIL status = status AND 1"
definition TTY_STATUS_WBUSY :: "u32 \<Rightarrow> u32" where "TTY_STATUS_WBUSY status = drop_bit 1 (status AND 2)"
definition TTY_STATUS_RIRQ :: "u32 \<Rightarrow> u32" where "TTY_STATUS_RIRQ status = drop_bit 2 (status AND 4)"
definition TTY_STATUS_WIRQ :: "u32 \<Rightarrow> u32" where "TTY_STATUS_WIRQ status = drop_bit 3 (status AND 8)"
definition TTY_STATUS_ERROR :: "u32 \<Rightarrow> u32" where "TTY_STATUS_ERROR status = drop_bit 31 (status AND 0x80000000)"

record tty_real_device =
  tty_slock :: u32
  read_buf :: mem
  read_head :: int
  read_count :: int
  write_buf :: mem
  write_head :: int
  write_count :: int

text \<open>A byte is sent to the data port sign extended: \<open>char\<close> is signed.\<close>

definition char_to_u32 :: "u8 \<Rightarrow> u32" where
  "char_to_u32 c = scast c"

text \<open>\<open>device\<close> and \<open>content\<close> give what is in the memory of the structures before: the initialisation
  does not set every field.\<close>

definition tty_init ::
    "u32 \<Rightarrow> (u32 \<Rightarrow> 's handler) \<Rightarrow> io_descriptor \<Rightarrow> (u32 \<Rightarrow> u32 device) \<Rightarrow> (u32 \<Rightarrow> tty_real_device) \<Rightarrow> 's interrupts \<Rightarrow> kmem \<Rightarrow> int \<Rightarrow>
      ((u32 \<times> u32 device \<times> tty_real_device) \<times> 's interrupts \<times> kmem \<times> int) option" where
  "tty_init kprintf_slock tty_interrupt_handle desc device content ints km num_of_inits = do {
     (dev, km) \<leftarrow> kmalloc 20 km;
     guard (dev \<noteq> 0);
     (gcd, km) \<leftarrow> kmalloc 12 km;
     guard (gcd \<noteq> 0);
     (rd, km) \<leftarrow> kmalloc 4116 km;
     guard (rd \<noteq> 0);
     (slock, km) \<leftarrow> (if num_of_inits = 0 then Some (kprintf_slock, km)
       else do { (l, km) \<leftarrow> kmalloc 4 km; guard (l \<noteq> 0); Some (l, km) });
     n \<leftarrow> ck (num_of_inits + 1);
     guard (unat (io_irq desc + 10) < 31);
     ints \<leftarrow> interrupt_register (push_bit (unat (io_irq desc + 10)) 1) (tty_interrupt_handle rd) dev ints;
     Some ((dev, (device dev)\<lparr>dev_real := Some rd, dev_generic := Some gcd,
         dev_io_address := io_area_base desc, dev_type := io_type desc\<rparr>,
       (content rd)\<lparr>tty_slock := slock, write_head := 0, write_count := 0, read_head := 0, read_count := 0\<rparr>),
       ints, km, n)
   }"

text \<open>Sending the character at the head of the write buffer.\<close>

definition tty_send :: "u32 \<Rightarrow> tty_real_device \<Rightarrow> io_ports \<Rightarrow> (tty_real_device \<times> io_ports) option" where
  "tty_send io t p = do {
     guard (write_head t \<ge> 0);
     c \<leftarrow> rd8 (write_buf t) (nat (write_head t));
     Some (t\<lparr>write_head := cmod (write_head t + 1) TTY_BUF_SIZE, write_count := write_count t - 1\<rparr>,
       io_wr (tty_data io) (char_to_u32 c) p)
   }"

partial_function (option) tty_flush ::
    "u32 \<Rightarrow> tty_real_device \<Rightarrow> io_ports \<Rightarrow> (tty_real_device \<times> io_ports) option" where
  "tty_flush io t p = Option.bind (io_rd (tty_status io) p) (\<lambda>(status, p).
     if TTY_STATUS_WBUSY status = 0 \<and> write_count t > 0
     then Option.bind (tty_send io t (io_wr (tty_command io) TTY_COMMAND_WIRQ p)) (\<lambda>(t, p). tty_flush io t p)
     else Some (t, p))"

definition tty_store :: "u8 \<Rightarrow> tty_real_device \<Rightarrow> tty_real_device option" where
  "tty_store data t =
     (if read_count t > TTY_BUF_SIZE then Some t
      else let index = cmod (read_head t + read_count t) TTY_BUF_SIZE in do {
        guard (index \<ge> 0);
        buf \<leftarrow> wr8 (read_buf t) (nat index) data;
        Some (t\<lparr>read_buf := buf, read_count := read_count t + 1\<rparr>)
      })"

partial_function (option) tty_receive ::
    "u32 \<Rightarrow> tty_real_device \<Rightarrow> io_ports \<Rightarrow> (tty_real_device \<times> io_ports) option" where
  "tty_receive io t p = Option.bind (io_rd (tty_status io) p) (\<lambda>(status, p).
     if TTY_STATUS_RAVAIL status \<noteq> 0
     then Option.bind (io_rd (tty_data io) p) (\<lambda>(data, p).
       Option.bind (tty_store (ucast data) t) (\<lambda>t. tty_receive io t p))
     else Some (t, p))"

text \<open>The two parts of the interrupt handler, for the status it reads first in each.\<close>

definition tty_write_irq ::
    "u32 \<Rightarrow> u32 \<Rightarrow> tty_real_device \<Rightarrow> io_ports \<Rightarrow> kernel \<Rightarrow> (tty_real_device \<times> io_ports \<times> kernel) option" where
  "tty_write_irq io rd t p k = do {
     (t, p) \<leftarrow> tty_flush io t (io_wr (tty_command io) TTY_COMMAND_WIRQ (io_wr (tty_command io) TTY_COMMAND_WIRQD p));
     k \<leftarrow> (if write_count t = 0 then sleepq_wake_all (write_buf_at rd) k else Some k);
     Some (t, io_wr (tty_command io) TTY_COMMAND_WIRQE p, k)
   }"

definition tty_read_irq ::
    "u32 \<Rightarrow> u32 \<Rightarrow> tty_real_device \<Rightarrow> io_ports \<Rightarrow> kernel \<Rightarrow> (tty_real_device \<times> io_ports \<times> kernel) option" where
  "tty_read_irq io rd t p k = do {
     (status, p) \<leftarrow> io_rd (tty_status io) (io_wr (tty_command io) TTY_COMMAND_RIRQ p);
     guard (TTY_STATUS_ERROR status = 0);
     (t, p) \<leftarrow> tty_receive io t p;
     k \<leftarrow> sleepq_wake_all (read_buf_at rd) k;
     Some (t, p, k)
   }"

definition tty_interrupt_handle ::
    "u32 \<Rightarrow> u32 \<Rightarrow> tty_real_device \<times> io_ports \<times> kernel \<Rightarrow> (tty_real_device \<times> io_ports \<times> kernel) option" where
  "tty_interrupt_handle io rd = (\<lambda>(t, p, k). do {
     (status, p) \<leftarrow> io_rd (tty_status io) p;
     (t, p, k) \<leftarrow> (if TTY_STATUS_WIRQ status \<noteq> 0 then tty_write_irq io rd t p k else Some (t, p, k));
     (status, p) \<leftarrow> io_rd (tty_status io) p;
     if TTY_STATUS_RIRQ status \<noteq> 0 then tty_read_irq io rd t p k else Some (t, p, k)
   })"

text \<open>Filling the write buffer from \<open>buf\<close>, from position \<open>i\<close> on.\<close>

partial_function (option) tty_fill :: "mem \<Rightarrow> int \<Rightarrow> int \<Rightarrow> tty_real_device \<Rightarrow> (int \<times> tty_real_device) option" where
  "tty_fill buf len i t =
     (if write_count t < TTY_BUF_SIZE \<and> i < len
      then Option.bind (guard (cmod (write_head t + write_count t) TTY_BUF_SIZE \<ge> 0 \<and> i \<ge> 0)) (\<lambda>_.
        Option.bind (rd8 buf (nat i)) (\<lambda>c.
        Option.bind (wr8 (write_buf t) (nat (cmod (write_head t + write_count t) TTY_BUF_SIZE)) c) (\<lambda>wb.
          tty_fill buf len (i + 1) (t\<lparr>write_buf := wb, write_count := write_count t + 1\<rparr>))))
      else Some (i, t))"

text \<open>
  \<open>tty_write\<close> from a point where it looks at the write buffer up to where it sleeps, or to the
  end: it sleeps when the buffer is not empty and \<open>i < len\<close>.
\<close>

partial_function (option) tty_write_loop ::
    "u32 \<Rightarrow> mem \<Rightarrow> int \<Rightarrow> int \<Rightarrow> tty_real_device \<Rightarrow> io_ports \<Rightarrow> (int \<times> tty_real_device \<times> io_ports) option" where
  "tty_write_loop io buf len i t p =
     (if i < len \<and> write_count t \<le> 0
      then Option.bind (tty_fill buf len i t) (\<lambda>(i, t).
        Option.bind (io_rd (tty_status io) p) (\<lambda>(status, p).
        if TTY_STATUS_WBUSY status = 0
        then Option.bind (tty_send io t p) (\<lambda>(t, p). tty_write_loop io buf len i t p)
        else tty_write_loop io buf len i t p))
      else Some (i, t, p))"

definition tty_write ::
    "u32 \<Rightarrow> u32 \<Rightarrow> nat \<Rightarrow> mem \<Rightarrow> int \<Rightarrow> int \<Rightarrow> tty_real_device \<times> io_ports \<times> kernel \<Rightarrow>
      (int \<times> tty_real_device \<times> io_ports \<times> kernel) option" where
  "tty_write io rd cpu buf len i = (\<lambda>(t, p, k). do {
     (i, t, p) \<leftarrow> tty_write_loop io buf len i t p;
     k \<leftarrow> (if i < len then sleepq_add cpu (write_buf_at rd) k else Some k);
     Some (i, t, p, k)
   })"

partial_function (option) tty_copy ::
    "int \<Rightarrow> int \<Rightarrow> mem \<Rightarrow> tty_real_device \<Rightarrow> (int \<times> mem \<times> tty_real_device) option" where
  "tty_copy len i buf t =
     (if read_count t > 0 \<and> i < len
      then Option.bind (guard (read_head t \<ge> 0 \<and> i \<ge> 0)) (\<lambda>_.
        Option.bind (rd8 (read_buf t) (nat (read_head t))) (\<lambda>c.
        Option.bind (wr8 buf (nat i) c) (\<lambda>buf.
          tty_copy len (i + 1) buf (t\<lparr>read_head := cmod (read_head t + 1) TTY_BUF_SIZE, read_count := read_count t - 1\<rparr>))))
      else Some (i, buf, t))"

text \<open>\<open>tty_read\<close>: the result has \<open>None\<close> when it sleeps because the read buffer is empty.\<close>

definition tty_read ::
    "u32 \<Rightarrow> nat \<Rightarrow> mem \<Rightarrow> int \<Rightarrow> tty_real_device \<times> kernel \<Rightarrow> ((int \<times> mem) option \<times> tty_real_device \<times> kernel) option" where
  "tty_read rd cpu buf len = (\<lambda>(t, k).
     if read_count t = 0 then do { k \<leftarrow> sleepq_add cpu (read_buf_at rd) k; Some (None, t, k) }
     else do { (i, buf, t) \<leftarrow> tty_copy len 0 buf t; Some (Some (i, buf), t, k) })"

section \<open>The polling driver\<close>

text \<open>The base of the I/O area of the first terminal, or 0.\<close>

fun polltty_init :: "io_descriptor list \<Rightarrow> u32 option" where
  "polltty_init [] = None"
| "polltty_init (d # ds) =
     (if io_type d = 0 then Some 0 else if io_type d = 0x201 then Some (io_area_base d) else polltty_init ds)"

text \<open>Waiting until the masked status is as wanted.\<close>

partial_function (option) poll_until :: "(u32 \<Rightarrow> bool) \<Rightarrow> u32 \<Rightarrow> io_ports \<Rightarrow> io_ports option" where
  "poll_until ready a p = Option.bind (io_rd a p) (\<lambda>(status, p). if ready status then Some p else poll_until ready a p)"

definition polltty_getchar :: "u32 \<Rightarrow> io_ports \<Rightarrow> (int \<times> io_ports) option" where
  "polltty_getchar iobase p =
     (if iobase = 0 then Some (0, p)
      else do {
        p \<leftarrow> poll_until (\<lambda>s. TTY_STATUS_RAVAIL s \<noteq> 0) (tty_status iobase) p;
        (data, p) \<leftarrow> io_rd (tty_data iobase) (io_wr (tty_command iobase) TTY_COMMAND_RIRQ p);
        Some (sint data, p)
      })"

definition polltty_putchar :: "u32 \<Rightarrow> u8 \<Rightarrow> io_ports \<Rightarrow> io_ports option" where
  "polltty_putchar iobase c p =
     (if iobase \<noteq> 0 then do {
        p \<leftarrow> poll_until (\<lambda>s. TTY_STATUS_WBUSY s = 0) (tty_status iobase) p;
        poll_until (\<lambda>s. TTY_STATUS_WBUSY s = 0) (tty_status iobase) (io_wr (tty_data iobase) (char_to_u32 c) p)
      }
      else Some p)"

end
