(* ===== verification/Tty_Spec.thy ===== *)
theory Tty_Spec
  imports Tty Semaphore_Spec
begin

text \<open>
  The terminal driver's buffers are queues: what the device gets is what was written, in the
  order of writing; what \<open>tty_read\<close> returns is what the device delivered, as long as the read
  buffer does not overrun; and no thread sleeps on a buffer that is ready for it.
\<close>

section \<open>Ring buffers\<close>

definition ring :: "mem \<Rightarrow> int \<Rightarrow> int \<Rightarrow> mem" where
  "ring b h c = map (\<lambda>k. b ! ((nat h + k) mod 2048)) [0..<nat c]"

definition ring_ok :: "mem \<Rightarrow> int \<Rightarrow> int \<Rightarrow> bool" where
  "ring_ok b h c \<longleftrightarrow> length b = 2048 \<and> 0 \<le> h \<and> h < 2048 \<and> 0 \<le> c"

lemma length_ring [simp]: "length (ring b h c) = nat c"
  by (simp add: ring_def)

lemma ring_empty [simp]: "ring b h 0 = []"
  by (simp add: ring_def)

lemma nat_ring_index:
  assumes "0 \<le> h" and "0 \<le> c"
  shows "nat ((h + c) mod 2048) = (nat h + nat c) mod 2048"
  using assms by (simp add: nat_mod_distrib nat_add_distrib)

lemma ring_push:
  assumes "ring_ok b h c" and "c < 2048"
  shows "ring (b[nat ((h + c) mod 2048) := x]) h (c + 1) = ring b h c @ [x]"
proof -
  have "(nat h + nat c) mod 2048 \<noteq> (nat h + k) mod 2048" if "k < nat c" for k
  proof
    assume "(nat h + nat c) mod 2048 = (nat h + k) mod 2048"
    then have "2048 dvd (nat h + nat c) - (nat h + k)"
      by (metis mod_eq_dvd_iff_nat add_le_cancel_left less_imp_le_nat that)
    then have "2048 dvd nat c - k"
      by simp
    then show False
      using that assms(2) by (auto dest: dvd_imp_le)
  qed
  moreover have "nat (c + 1) = Suc (nat c)"
    using assms(1) by (simp add: ring_ok_def nat_add_distrib)
  ultimately show ?thesis
    using assms(1) by (auto simp: ring_def ring_ok_def nat_ring_index intro!: nth_list_update_neq)
qed

lemma ring_pop:
  assumes "ring_ok b h c" and "0 < c"
  shows "ring b h c = b ! nat h # ring b ((h + 1) mod 2048) (c - 1)"
proof -
  have "nat c = Suc (nat (c - 1))"
    using assms(2) by simp
  then have "[0..<nat c] = 0 # map Suc [0..<nat (c - 1)]"
    by (metis map_Suc_upt upt_conv_Cons zero_less_Suc)
  moreover have "nat ((h + 1) mod 2048) = (nat h + 1) mod 2048"
    using assms(1) nat_ring_index [of h 1] by (simp add: ring_ok_def)
  moreover have "(nat h + Suc k) mod 2048 = ((nat h + 1) mod 2048 + k) mod 2048" for k
    by (simp add: mod_simps)
  ultimately show ?thesis
    using assms(1) by (simp add: ring_def ring_ok_def o_def nat_less_iff)
qed

lemma ring_ok_pop: "ring_ok b h c \<Longrightarrow> 0 < c \<Longrightarrow> ring_ok b ((h + 1) mod 2048) (c - 1)"
  by (simp add: ring_ok_def)

lemma ring_ok_push: "ring_ok b h c \<Longrightarrow> ring_ok (b[i := x]) h (c + 1)"
  by (simp add: ring_ok_def)

section \<open>The state of a terminal\<close>

definition wring :: "tty_real_device \<Rightarrow> mem" where
  "wring t = ring (write_buf t) (write_head t) (write_count t)"

definition rring :: "tty_real_device \<Rightarrow> mem" where
  "rring t = ring (read_buf t) (read_head t) (read_count t)"

definition tty_ok :: "tty_real_device \<Rightarrow> bool" where
  "tty_ok t \<longleftrightarrow> ring_ok (write_buf t) (write_head t) (write_count t) \<and> write_count t \<le> 2048 \<and>
     ring_ok (read_buf t) (read_head t) (read_count t) \<and> read_count t \<le> 2049"

text \<open>What the device got from and delivered through its data port.\<close>

fun data_writes :: "u32 \<Rightarrow> io_event list \<Rightarrow> u32 list" where
  "data_writes a [] = []"
| "data_writes a (Io_write b v # es) = (if b = a then v # data_writes a es else data_writes a es)"
| "data_writes a (Io_read b v # es) = data_writes a es"

fun data_reads :: "u32 \<Rightarrow> io_event list \<Rightarrow> u32 list" where
  "data_reads a [] = []"
| "data_reads a (Io_read b v # es) = (if b = a then v # data_reads a es else data_reads a es)"
| "data_reads a (Io_write b v # es) = data_reads a es"

lemma data_writes_append [simp]: "data_writes a (es @ fs) = data_writes a es @ data_writes a fs"
  by (induction a es rule: data_writes.induct) auto

lemma data_reads_append [simp]: "data_reads a (es @ fs) = data_reads a es @ data_reads a fs"
  by (induction a es rule: data_reads.induct) auto

definition sent :: "u32 \<Rightarrow> io_ports \<Rightarrow> u32 list" where
  "sent io p = data_writes (io + 8) (io_log p)"

definition received :: "u32 \<Rightarrow> io_ports \<Rightarrow> mem" where
  "received io p = map ucast (data_reads (io + 8) (io_log p))"

lemma port_neq [simp]: "(io :: u32) \<noteq> io + 8" "(io :: u32) + 4 \<noteq> io + 8" "(io :: u32) \<noteq> io + 4"
  by simp_all

lemma sent_simps [simp]:
  "sent io (io_wr (io + 4) v p) = sent io p" "received io (io_wr a v p) = received io p"
  "sent io (io_wr (io + 8) v p) = sent io p @ [v]"
  "io_answers (io_wr a v p) = io_answers p"
  by (simp_all add: sent_def received_def io_wr_def)

lemma io_rd_status: "io_rd io p = Some (v, p') \<Longrightarrow> sent io p' = sent io p \<and> received io p' = received io p \<and>
    io_answers p = v # io_answers p'"
  by (auto simp: io_rd_def sent_def received_def split: list.splits)

lemma io_rd_data: "io_rd (io + 8) p = Some (v, p') \<Longrightarrow> sent io p' = sent io p \<and> received io p' = received io p @ [ucast v] \<and>
    io_answers p = v # io_answers p'"
  by (auto simp: io_rd_def sent_def received_def split: list.splits)

text \<open>Sending takes the first character out of the write buffer.\<close>

lemma tty_send_ok:
  assumes "tty_ok t" and "write_count t > 0"
  obtains t' c where "tty_send io t p = Some (t', io_wr (io + 8) (char_to_u32 c) p)" "tty_ok t'"
    "wring t = c # wring t'" "rring t' = rring t" "read_count t' = read_count t" "write_count t' = write_count t - 1"
proof -
  let ?t = "t\<lparr>write_head := (write_head t + 1) mod 2048, write_count := write_count t - 1\<rparr>"
  have ok: "ring_ok (write_buf t) (write_head t) (write_count t)"
    using assms(1) by (simp add: tty_ok_def)
  then have run: "tty_send io t p = Some (?t, io_wr (io + 8) (char_to_u32 (write_buf t ! nat (write_head t))) p)"
    by (simp add: tty_send_def guard_def rd8_def ring_ok_def nat_less_iff)
  show thesis
    by (rule that [OF run])
      (use assms ring_ok_pop [OF ok] ring_pop [OF ok] in \<open>auto simp: tty_ok_def wring_def rring_def\<close>)
qed

section \<open>The loops\<close>

text \<open>Emptying the write buffer moves characters from its front to the device.\<close>

lemma tty_flush_moves:
  "tty_flush io t p = Some (t', p') \<Longrightarrow> tty_ok t \<Longrightarrow>
    tty_ok t' \<and> sent io p' @ map char_to_u32 (wring t') = sent io p @ map char_to_u32 (wring t) \<and>
    received io p' = received io p \<and> rring t' = rring t \<and> read_count t' = read_count t"
proof (induction "nat (write_count t)" arbitrary: t p rule: less_induct)
  case less
  from less.prems(1) obtain v p1 where rd: "io_rd io p = Some (v, p1)"
    by (subst (asm) tty_flush.simps) (auto split: bind_splits)
  note p1 = io_rd_status [OF rd]
  show ?case
  proof (cases "TTY_STATUS_WBUSY v = 0 \<and> write_count t > 0")
    case False
    then show ?thesis
      using less.prems rd p1 by (subst (asm) tty_flush.simps) auto
  next
    case True
    let ?p = "io_wr (io + 4) 2 p1"
    obtain t1 c where send: "tty_send io t ?p = Some (t1, io_wr (io + 8) (char_to_u32 c) ?p)" "tty_ok t1"
        "wring t = c # wring t1" "rring t1 = rring t" "read_count t1 = read_count t" "write_count t1 = write_count t - 1"
      using tty_send_ok [OF less.prems(2), of io ?p] True by blast
    have "tty_flush io t1 (io_wr (io + 8) (char_to_u32 c) ?p) = Some (t', p')"
      using less.prems(1) rd True send(1) by (subst (asm) tty_flush.simps) simp
    from less.hyps [OF _ this send(2)] send True p1 show ?thesis
      by simp
  qed
qed

lemma tty_flush_returns:
  "tty_ok t \<Longrightarrow> nat (write_count t) < length (io_answers p) \<Longrightarrow> tty_flush io t p \<noteq> None"
proof (induction "nat (write_count t)" arbitrary: t p rule: less_induct)
  case less
  then obtain v p1 where rd: "io_rd io p = Some (v, p1)"
    by (cases "io_answers p") (auto simp: io_rd_def)
  note p1 = io_rd_status [OF rd]
  show ?case
  proof (cases "TTY_STATUS_WBUSY v = 0 \<and> write_count t > 0")
    case False
    then show ?thesis
      using rd by (subst tty_flush.simps) auto
  next
    case True
    let ?p = "io_wr (io + 4) 2 p1"
    obtain t1 c where send: "tty_send io t ?p = Some (t1, io_wr (io + 8) (char_to_u32 c) ?p)" "tty_ok t1"
        "write_count t1 = write_count t - 1"
      using tty_send_ok [OF less.prems(1), of io ?p] True by metis
    then have "tty_flush io t1 (io_wr (io + 8) (char_to_u32 c) ?p) \<noteq> None"
      using less.prems(2) p1 True by (intro less.hyps) auto
    then show ?thesis
      using rd True send(1) by (subst tty_flush.simps) simp
  qed
qed

text \<open>Receiving appends to the read buffer until it overruns.\<close>

lemma tty_store_cases:
  assumes "tty_ok t" and "tty_store c t = Some t'"
  shows "tty_ok t'" and "wring t' = wring t" and "read_count t \<le> read_count t'" and "write_count t' = write_count t"
    and "read_count t' \<le> 2048 \<Longrightarrow> rring t' = rring t @ [c]"
proof -
  have r: "ring_ok (read_buf t) (read_head t) (read_count t)" "read_count t \<le> 2049"
    using assms(1) by (simp_all add: tty_ok_def)
  show "tty_ok t'" "wring t' = wring t" "read_count t \<le> read_count t'" "write_count t' = write_count t"
    using assms r ring_ok_push [OF r(1)]
    by (auto simp: tty_store_def tty_ok_def wring_def Let_def guard_def wr8_def split: if_splits bind_splits)
  show "rring t' = rring t @ [c]" if "read_count t' \<le> 2048"
    using assms(2) that r ring_push [OF r(1), of c]
    by (auto simp: tty_store_def rring_def Let_def guard_def wr8_def ring_ok_def split: if_splits bind_splits)
qed

lemma tty_receive_appends:
  "tty_receive io t p = Some (t', p') \<Longrightarrow> tty_ok t \<Longrightarrow>
    tty_ok t' \<and> sent io p' = sent io p \<and> wring t' = wring t \<and> write_count t' = write_count t \<and> read_count t \<le> read_count t' \<and>
    (read_count t' \<le> 2048 \<longrightarrow> (\<exists>new. received io p' = received io p @ new \<and> rring t' = rring t @ new))"
proof (induction "length (io_answers p)" arbitrary: t p rule: less_induct)
  case less
  from less.prems(1) obtain v p1 where rd: "io_rd io p = Some (v, p1)"
    by (subst (asm) tty_receive.simps) (auto split: bind_splits)
  note p1 = io_rd_status [OF rd]
  show ?case
  proof (cases "TTY_STATUS_RAVAIL v = 0")
    case True
    then show ?thesis
      using less.prems rd p1 by (subst (asm) tty_receive.simps) auto
  next
    case False
    with less.prems(1) rd obtain d p2 t1 where step: "io_rd (io + 8) p1 = Some (d, p2)"
        "tty_store (ucast d) t = Some t1" "tty_receive io t1 p2 = Some (t', p')"
      by (subst (asm) tty_receive.simps) (auto split: bind_splits)
    note p2 = io_rd_data [OF step(1)] and t1 = tty_store_cases [OF less.prems(2) step(2)]
    have IH: "tty_ok t' \<and> sent io p' = sent io p2 \<and> wring t' = wring t1 \<and> write_count t' = write_count t1 \<and>
        read_count t1 \<le> read_count t' \<and>
        (read_count t' \<le> 2048 \<longrightarrow> (\<exists>new. received io p' = received io p2 @ new \<and> rring t' = rring t1 @ new))"
      using p1 p2 t1(1) step(3) by (intro less.hyps) auto
    then show ?thesis
      using p1 p2 t1 by auto
  qed
qed

text \<open>The characters \<open>i\<close> up to \<open>j\<close> of a buffer.\<close>

definition slice :: "mem \<Rightarrow> int \<Rightarrow> int \<Rightarrow> mem" where
  "slice buf i j = take (nat (j - i)) (drop (nat i) buf)"

lemma slice_refl [simp]: "slice buf i i = []"
  by (simp add: slice_def)

lemma slice_step: "0 \<le> i \<Longrightarrow> i < j \<Longrightarrow> j \<le> int (length buf) \<Longrightarrow> slice buf i j = buf ! nat i # slice buf (i + 1) j"
proof -
  assume a: "0 \<le> i" "i < j" "j \<le> int (length buf)"
  then have "nat (j - i) = Suc (nat (j - (i + 1)))" "nat (i + 1) = Suc (nat i)" "nat i < length buf"
    by simp_all
  then show ?thesis
    unfolding slice_def by (simp add: Cons_nth_drop_Suc [symmetric])
qed

lemma slice_append:
  assumes "0 \<le> i" and "i \<le> j" and "j \<le> k"
  shows "slice buf i j @ slice buf j k = slice buf i k"
proof -
  have "nat (k - i) = nat (j - i) + nat (k - j)" "nat j = nat (j - i) + nat i"
    using assms by simp_all
  then show ?thesis
    by (simp only: slice_def take_add drop_drop)
qed

text \<open>Filling the write buffer.\<close>

lemma tty_fill_appends:
  "tty_ok t \<Longrightarrow> 0 \<le> i \<Longrightarrow> i \<le> len \<Longrightarrow> len \<le> int (length buf) \<Longrightarrow>
    wp (tty_fill buf len i t) (\<lambda>(i', t'). tty_ok t' \<and> i \<le> i' \<and> i' \<le> len \<and> wring t' = wring t @ slice buf i i' \<and>
      rring t' = rring t \<and> read_count t' = read_count t \<and> write_count t' = write_count t + (i' - i) \<and>
      (i < len \<and> write_count t < 2048 \<longrightarrow> i < i'))"
proof (induction "nat (len - i)" arbitrary: i t rule: less_induct)
  case less
  show ?case
  proof (cases "write_count t < 2048 \<and> i < len")
    case False
    then show ?thesis
      using less.prems by (subst tty_fill.simps) auto
  next
    case True
    have w: "ring_ok (write_buf t) (write_head t) (write_count t)"
      using less.prems(1) by (simp add: tty_ok_def)
    let ?i = "(write_head t + write_count t) mod 2048" and ?c = "buf ! nat i"
    define t1 where "t1 = t\<lparr>write_buf := (write_buf t)[nat ?i := ?c], write_count := write_count t + 1\<rparr>"
    have run: "tty_fill buf len i t = tty_fill buf len (i + 1) t1"
      using True less.prems w
      by (subst tty_fill.simps) (simp add: guard_def rd8_def wr8_def ring_ok_def t1_def nat_less_iff)
    have t1: "tty_ok t1" "wring t1 = wring t @ [?c]" "rring t1 = rring t" "read_count t1 = read_count t"
        "write_count t1 = write_count t + 1"
      using less.prems(1) True ring_ok_push [OF w] ring_push [OF w, of ?c]
      by (auto simp: t1_def tty_ok_def wring_def rring_def)
    have "wp (tty_fill buf len (i + 1) t1) (\<lambda>(i', t'). tty_ok t' \<and> i + 1 \<le> i' \<and> i' \<le> len \<and>
        wring t' = wring t1 @ slice buf (i + 1) i' \<and> rring t' = rring t1 \<and> read_count t' = read_count t1 \<and>
        write_count t' = write_count t1 + (i' - (i + 1)) \<and> (i + 1 < len \<and> write_count t1 < 2048 \<longrightarrow> i + 1 < i'))"
      using less.prems True t1(1) by (intro less.hyps) auto
    then show ?thesis
      unfolding run by (rule wp_mono) (use less.prems t1 slice_step [of i _ buf] in auto)
  qed
qed

text \<open>The loop of \<open>tty_write\<close>: what it accepts goes through the write buffer to the device.\<close>

lemma tty_write_loop_moves:
  "tty_write_loop io buf len i t p = Some (i', t', p') \<Longrightarrow> tty_ok t \<Longrightarrow> 0 \<le> i \<Longrightarrow> len \<le> int (length buf) \<Longrightarrow>
    tty_ok t' \<and> i \<le> i' \<and> i' \<le> max i len \<and> (i' < len \<longrightarrow> 0 < write_count t') \<and>
    sent io p' @ map char_to_u32 (wring t') = sent io p @ map char_to_u32 (wring t @ slice buf i i') \<and>
    received io p' = received io p \<and> rring t' = rring t \<and> read_count t' = read_count t \<and>
    (write_count t > 0 \<longrightarrow> i' = i \<and> t' = t)"
proof (induction "nat (len - i)" arbitrary: i t p rule: less_induct)
  case less
  show ?case
  proof (cases "i < len \<and> write_count t \<le> 0")
    case False
    then show ?thesis
      using less.prems by (subst (asm) tty_write_loop.simps) auto
  next
    case True
    then obtain i1 t1 where fill: "tty_fill buf len i t = Some (i1, t1)" "tty_ok t1" "i < i1" "i1 \<le> len"
        "wring t1 = wring t @ slice buf i i1" "rring t1 = rring t" "read_count t1 = read_count t"
        "write_count t1 = write_count t + (i1 - i)"
      using tty_fill_appends [OF less.prems(2,3) _ less.prems(4)] by (auto simp: wp_iff)
    have w0: "write_count t = 0"
      using True less.prems(2) by (simp add: tty_ok_def ring_ok_def)
    obtain v p1 where rd: "io_rd io p = Some (v, p1)"
      using less.prems(1) True fill(1) by (subst (asm) tty_write_loop.simps) (auto split: bind_splits)
    note p1 = io_rd_status [OF rd]
    show ?thesis
    proof (cases "TTY_STATUS_WBUSY v = 0")
      case busy: False
      then have loop: "tty_write_loop io buf len i1 t1 p1 = Some (i', t', p')"
        using less.prems(1) True fill(1) rd by (subst (asm) tty_write_loop.simps) simp
      have "tty_ok t' \<and> i1 \<le> i' \<and> i' \<le> max i1 len \<and> (i' < len \<longrightarrow> 0 < write_count t') \<and>
          sent io p' @ map char_to_u32 (wring t') = sent io p1 @ map char_to_u32 (wring t1 @ slice buf i1 i') \<and>
          received io p' = received io p1 \<and> rring t' = rring t1 \<and> read_count t' = read_count t1 \<and>
          (write_count t1 > 0 \<longrightarrow> i' = i1 \<and> t' = t1)"
        using fill less.prems True by (intro less.hyps [OF _ loop]) auto
      then show ?thesis
        using fill p1 w0 less.prems(3) slice_append [of i i1 i' buf] by auto
    next
      case idle: True
      obtain t2 c where send: "tty_send io t1 p1 = Some (t2, io_wr (io + 8) (char_to_u32 c) p1)" "tty_ok t2"
          "wring t1 = c # wring t2" "rring t2 = rring t1" "read_count t2 = read_count t1"
          "write_count t2 = write_count t1 - 1"
        using tty_send_ok [OF fill(2), of io p1] fill(3,8) w0 by auto
      have loop: "tty_write_loop io buf len i1 t2 (io_wr (io + 8) (char_to_u32 c) p1) = Some (i', t', p')"
        using less.prems(1) True fill(1) rd idle send(1) by (subst (asm) tty_write_loop.simps) simp
      have "tty_ok t' \<and> i1 \<le> i' \<and> i' \<le> max i1 len \<and> (i' < len \<longrightarrow> 0 < write_count t') \<and>
          sent io p' @ map char_to_u32 (wring t') =
            sent io (io_wr (io + 8) (char_to_u32 c) p1) @ map char_to_u32 (wring t2 @ slice buf i1 i') \<and>
          received io p' = received io (io_wr (io + 8) (char_to_u32 c) p1) \<and> rring t' = rring t2 \<and>
          read_count t' = read_count t2 \<and> (write_count t2 > 0 \<longrightarrow> i' = i1 \<and> t' = t2)"
        using fill less.prems True send(2) by (intro less.hyps [OF _ loop]) auto
      moreover have "char_to_u32 c # map char_to_u32 (wring t2) = map char_to_u32 (wring t) @ map char_to_u32 (slice buf i i1)"
        using send(3) fill(5) by (metis list.simps(9) map_append)
      moreover have "i1 \<le> i' \<Longrightarrow> slice buf i i' = slice buf i i1 @ slice buf i1 i'"
        using slice_append [of i i1 i' buf] less.prems(3) fill(3) by simp
      ultimately show ?thesis
        using fill(3,4,6,7) p1 w0 send(4,5) True by auto
    qed
  qed
qed

text \<open>\<open>tty_write\<close> does not loop for ever: the device is asked once for each round, and a round
  accepts at least one character.\<close>

lemma tty_write_loop_returns:
  "tty_ok t \<Longrightarrow> 0 \<le> i \<Longrightarrow> len \<le> int (length buf) \<Longrightarrow> nat (len - i) \<le> length (io_answers p) \<Longrightarrow>
    tty_write_loop io buf len i t p \<noteq> None"
proof (induction "nat (len - i)" arbitrary: i t p rule: less_induct)
  case less
  show ?case
  proof (cases "i < len \<and> write_count t \<le> 0")
    case False
    then show ?thesis
      by (subst tty_write_loop.simps) auto
  next
    case True
    then obtain i1 t1 where fill: "tty_fill buf len i t = Some (i1, t1)" "tty_ok t1" "i < i1" "i1 \<le> len"
        "write_count t1 = write_count t + (i1 - i)"
      using tty_fill_appends [OF less.prems(1,2) _ less.prems(3)] by (auto simp: wp_iff)
    obtain v p1 where rd: "io_rd io p = Some (v, p1)"
      using less.prems(4) True by (cases "io_answers p") (auto simp: io_rd_def)
    note p1 = io_rd_status [OF rd]
    show ?thesis
    proof (cases "TTY_STATUS_WBUSY v = 0")
      case False
      have "tty_write_loop io buf len i1 t1 p1 \<noteq> None"
        using fill less.prems True p1 by (intro less.hyps) auto
      then show ?thesis
        using True fill(1) rd False by (subst tty_write_loop.simps) simp
    next
      case idle: True
      have "write_count t = 0"
        using True less.prems(1) by (simp add: tty_ok_def ring_ok_def)
      then obtain t2 c where send: "tty_send io t1 p1 = Some (t2, io_wr (io + 8) (char_to_u32 c) p1)" "tty_ok t2"
        using tty_send_ok [OF fill(2), of io p1] fill(3,5) by (metis diff_gt_0_iff_gt add_0)
      have "tty_write_loop io buf len i1 t2 (io_wr (io + 8) (char_to_u32 c) p1) \<noteq> None"
        using fill less.prems True p1 send(2) by (intro less.hyps) auto
      then show ?thesis
        using True fill(1) rd idle send(1) by (subst tty_write_loop.simps) simp
    qed
  qed
qed

text \<open>\<open>tty_read\<close> takes characters from the front of the read buffer.\<close>

lemma tty_copy_takes:
  "tty_ok t \<Longrightarrow> 0 \<le> i \<Longrightarrow> i \<le> len \<Longrightarrow> len \<le> int (length buf) \<Longrightarrow>
    wp (tty_copy len i buf t) (\<lambda>(i', buf', t'). tty_ok t' \<and> i \<le> i' \<and> i' \<le> len \<and> length buf' = length buf \<and>
      rring t = slice buf' i i' @ rring t' \<and> wring t' = wring t \<and> write_count t' = write_count t \<and>
      read_count t' \<le> read_count t \<and> (i' = len \<or> read_count t' = 0) \<and> take (nat i) buf' = take (nat i) buf)"
proof (induction "nat (len - i)" arbitrary: i buf t rule: less_induct)
  case less
  show ?case
  proof (cases "read_count t > 0 \<and> i < len")
    case False
    then have "i = len \<or> read_count t = 0"
      using less.prems by (auto simp: tty_ok_def ring_ok_def)
    with False less.prems show ?thesis
      by (subst tty_copy.simps) auto
  next
    case True
    have r: "ring_ok (read_buf t) (read_head t) (read_count t)"
      using less.prems(1) by (simp add: tty_ok_def)
    let ?c = "read_buf t ! nat (read_head t)"
    define t1 where "t1 = t\<lparr>read_head := (read_head t + 1) mod 2048, read_count := read_count t - 1\<rparr>"
    have run: "tty_copy len i buf t = tty_copy len (i + 1) (buf[nat i := ?c]) t1"
      using True less.prems r
      by (subst tty_copy.simps) (simp add: guard_def rd8_def wr8_def ring_ok_def t1_def nat_less_iff)
    have t1: "tty_ok t1" "rring t = ?c # rring t1" "wring t1 = wring t" "read_count t1 = read_count t - 1"
        "write_count t1 = write_count t"
      using less.prems(1) True ring_ok_pop [OF r] ring_pop [OF r]
      by (auto simp: t1_def tty_ok_def wring_def rring_def)
    have "wp (tty_copy len (i + 1) (buf[nat i := ?c]) t1) (\<lambda>(i', buf', t'). tty_ok t' \<and> i + 1 \<le> i' \<and> i' \<le> len \<and>
        length buf' = length (buf[nat i := ?c]) \<and> rring t1 = slice buf' (i + 1) i' @ rring t' \<and> wring t' = wring t1 \<and>
        write_count t' = write_count t1 \<and> read_count t' \<le> read_count t1 \<and> (i' = len \<or> read_count t' = 0) \<and>
        take (nat (i + 1)) buf' = take (nat (i + 1)) (buf[nat i := ?c]))"
      using less.prems True t1(1) by (intro less.hyps) auto
    then show ?thesis
      unfolding run
    proof (rule wp_mono, goal_cases)
      case (1 x)
      obtain i' buf' t' where x: "x = (i', buf', t')"
        by (cases x) auto
      note 1 = 1 [unfolded x split_conv]
      have i: "nat (i + 1) = Suc (nat i)" "nat i < length buf"
        using less.prems True by (simp_all add: nat_add_distrib nat_less_iff)
      have "take (Suc (nat i)) buf' = take (Suc (nat i)) (buf[nat i := ?c])"
        using 1 i(1) by metis
      then have "buf' ! nat i = ?c" "take (nat i) buf' = take (nat i) buf"
        using 1 i(2) by (metis length_list_update lessI nth_list_update_eq nth_take,
            metis (no_types) lessI less_imp_le min.absorb1 order_refl take_take take_update_cancel)
      then show ?case
        using 1 t1 slice_step [of i i' buf'] less.prems True by (auto simp: x)
    qed
  qed
qed

section \<open>First in, first out\<close>

text \<open>
  What happens at a terminal: an interrupt, a part of a \<open>tty_write\<close> between two sleeps, a
  \<open>tty_read\<close>, or anything the rest of the kernel does to the threads.  A run returns the
  characters that the writers handed over, those that the readers got, and whether the read
  buffer never had more characters than it has room for.
\<close>

datatype tty_event = Tty_irq | Tty_write nat mem int int | Tty_read nat mem int | Tty_other "kernel \<Rightarrow> kernel option"

fun tty_do ::
    "u32 \<Rightarrow> u32 \<Rightarrow> tty_event \<Rightarrow> tty_real_device \<times> io_ports \<times> kernel \<Rightarrow>
      (mem \<times> mem \<times> tty_real_device \<times> io_ports \<times> kernel) option" where
  "tty_do io rd Tty_irq s = do { s \<leftarrow> tty_interrupt_handle io rd s; Some ([], [], s) }"
| "tty_do io rd (Tty_write cpu buf len i) s = do {
     guard (0 \<le> i \<and> len \<le> int (length buf));
     (i', s) \<leftarrow> tty_write io rd cpu buf len i s;
     Some (slice buf i i', [], s)
   }"
| "tty_do io rd (Tty_read cpu buf len) (t, p, k) = do {
     guard (0 \<le> len \<and> len \<le> int (length buf));
     (r, t, k) \<leftarrow> tty_read rd cpu buf len (t, k);
     Some ([], (case r of None \<Rightarrow> [] | Some (i, buf) \<Rightarrow> slice buf 0 i), t, p, k)
   }"
| "tty_do io rd (Tty_other f) (t, p, k) = do { k \<leftarrow> f k; Some ([], [], t, p, k) }"

fun tty_run ::
    "u32 \<Rightarrow> u32 \<Rightarrow> tty_event list \<Rightarrow> tty_real_device \<times> io_ports \<times> kernel \<Rightarrow>
      (mem \<times> mem \<times> bool \<times> tty_real_device \<times> io_ports \<times> kernel) option" where
  "tty_run io rd [] s = Some ([], [], True, s)"
| "tty_run io rd (e # es) s = do {
     (w, r, s) \<leftarrow> tty_do io rd e s;
     (ws, rs, fits, s') \<leftarrow> tty_run io rd es s;
     Some (w @ ws, r @ rs, read_count (fst s) \<le> TTY_BUF_SIZE \<and> fits, s')
   }"

lemma tty_interrupt_moves:
  assumes "tty_interrupt_handle io rd (t, p, k) = Some (t', p', k')" and "tty_ok t"
  shows "tty_ok t' \<and> sent io p' @ map char_to_u32 (wring t') = sent io p @ map char_to_u32 (wring t) \<and>
    (read_count t' \<le> TTY_BUF_SIZE \<longrightarrow> (\<exists>new. received io p' = received io p @ new \<and> rring t' = rring t @ new))"
proof -
  obtain v p0 t1 p1 k1 v2 p2 where a: "io_rd io p = Some (v, p0)"
      "(if TTY_STATUS_WIRQ v \<noteq> 0 then tty_write_irq io rd t p0 k else Some (t, p0, k)) = Some (t1, p1, k1)"
    and b: "io_rd io p1 = Some (v2, p2)"
      "(if TTY_STATUS_RIRQ v2 \<noteq> 0 then tty_read_irq io rd t1 p2 k1 else Some (t1, p2, k1)) = Some (t', p', k')"
    using assms(1) by (auto simp: tty_interrupt_handle_def split: bind_splits)
  have "tty_ok t1 \<and> sent io p1 @ map char_to_u32 (wring t1) = sent io p @ map char_to_u32 (wring t) \<and>
      received io p1 = received io p \<and> rring t1 = rring t"
    using a(2) io_rd_status [OF a(1)] assms(2)
    by (auto simp: tty_write_irq_def split: if_splits bind_splits dest!: tty_flush_moves)
  then show ?thesis
    using b(2) io_rd_status [OF b(1)]
    by (auto simp: tty_read_irq_def split: if_splits bind_splits dest!: tty_receive_appends io_rd_status)
qed

lemma tty_run_fifo:
  assumes "tty_run io rd es (t, p, k) = Some (ws, rs, fits, t', p', k')" and "tty_ok t"
  shows "tty_ok t' \<and> sent io p' @ map char_to_u32 (wring t') = sent io p @ map char_to_u32 (wring t @ ws) \<and>
    (fits \<longrightarrow> (\<exists>new. received io p' = received io p @ new \<and> rring t @ new = rs @ rring t'))"
  using assms
proof (induction es arbitrary: t p k ws rs fits)
  case Nil
  then show ?case by simp
next
  case (Cons e es)
  from Cons.prems(1) obtain w r t1 p1 k1 where e: "tty_do io rd e (t, p, k) = Some (w, r, t1, p1, k1)"
    by (auto split: bind_splits)
  with Cons.prems(1) obtain ws1 rs1 fits1 where es: "tty_run io rd es (t1, p1, k1) = Some (ws1, rs1, fits1, t', p', k')"
    by (auto split: bind_splits)
  have res: "ws = w @ ws1" "rs = r @ rs1" "fits = (read_count t1 \<le> TTY_BUF_SIZE \<and> fits1)"
    using Cons.prems(1) by (simp_all add: e es)
  have one: "tty_ok t1 \<and> sent io p1 @ map char_to_u32 (wring t1) = sent io p @ map char_to_u32 (wring t @ w) \<and>
    (read_count t1 \<le> TTY_BUF_SIZE \<longrightarrow> (\<exists>new. received io p1 = received io p @ new \<and> rring t @ new = r @ rring t1))"
  proof (cases e)
    case Tty_irq
    then show ?thesis
      using e Cons.prems(2) tty_interrupt_moves [of io rd t p k t1 p1 k1] by (auto split: bind_splits)
  next
    case (Tty_write cpu buf len i)
    then obtain i' where loop: "tty_write_loop io buf len i t p = Some (i', t1, p1)" "w = slice buf i i'" "r = []"
        "0 \<le> i" "len \<le> int (length buf)"
      using e by (auto simp: tty_write_def guard_def split: bind_splits if_splits)
    from tty_write_loop_moves [OF loop(1) Cons.prems(2) loop(4,5)] loop(2,3) show ?thesis
      by auto
  next
    case (Tty_read cpu buf len)
    then have len: "0 \<le> len" "len \<le> int (length buf)" and w: "w = []" and p1: "p1 = p"
      using e by (auto simp: guard_def split: bind_splits if_splits)
    show ?thesis
    proof (cases "read_count t = 0")
      case True
      then show ?thesis
        using e Cons.prems(2) by (auto simp: Tty_read tty_read_def guard_def split: bind_splits if_splits)
    next
      case False
      then obtain i' buf' where c: "tty_copy len 0 buf t = Some (i', buf', t1)" "r = slice buf' 0 i'"
        using e by (auto simp: Tty_read tty_read_def guard_def split: bind_splits if_splits)
      then show ?thesis
        using tty_copy_takes [OF Cons.prems(2) order_refl len] by (auto simp: w p1)
    qed
  next
    case (Tty_other f)
    then show ?thesis
      using e Cons.prems(2) by (auto split: bind_splits)
  qed
  from Cons.IH [OF es] one show ?case
    by (auto simp: res) (metis append.assoc)
qed

end
