(* ===== verification/Tty_Properties.thy ===== *)
theory Tty_Properties
  imports Tty_Spec Kernel_Properties
begin

text \<open>
  The properties of the terminal driver and of the dispatch of interrupts.
\<close>

text \<open>C11. The terminal driver keeps characters in order: in any interleaving of interrupts, writers,
  readers and other threads, what was sent to the device followed by what is in the write buffer
  is what the writers handed over; and as long as the read buffer does not overrun, what the
  readers got followed by what is in the read buffer is what the device delivered.\<close>

theorem tty_fifo:
  assumes "tty_ok t" and "write_count t = 0" and "read_count t = 0" and "io_log p = []"
    and "tty_run io rd es (t, p, k) = Some (ws, rs, fits, t', p', k')"
  shows "sent io p' @ map char_to_u32 (wring t') = map char_to_u32 ws \<and>
    (fits \<longrightarrow> received io p' = rs @ rring t')"
  using tty_run_fifo [OF assms(5,1)] assms(2-4)
  by (auto simp: wring_def rring_def sent_def received_def)

text \<open>The terminal after its initialisation, and a device that is ready and delivers two characters.\<close>

definition demo_tty :: tty_real_device where
  "demo_tty = \<lparr>tty_slock = 0, read_buf = replicate 2048 0, read_head = 0, read_count = 0,
     write_buf = replicate 2048 0, write_head = 0, write_count = 0\<rparr>"

definition demo_ports :: io_ports where
  "demo_ports = \<lparr>io_answers = [2, 4, 4, 5, 1, 104, 1, 105, 0], io_log = []\<rparr>"

lemma demo_tty_ok: "tty_ok demo_tty"
  by (simp add: tty_ok_def ring_ok_def demo_tty_def)

lemma demo_tty_write:
  "\<exists>t p. tty_write_loop 0xb0003000 [104] 1 0 demo_tty demo_ports = Some (1, t, p)"
proof -
  have "tty_fill [104] 1 0 demo_tty = Some (1, demo_tty\<lparr>write_buf := (replicate 2048 0)[0 := 104], write_count := 1\<rparr>)"
    by (subst tty_fill.simps, subst tty_fill.simps) (simp add: demo_tty_def guard_def rd8_def wr8_def)
  then show ?thesis
    by (subst tty_write_loop.simps)
      (simp add: demo_tty_def demo_ports_def io_rd_def TTY_STATUS_WBUSY_def tty_write_loop.simps)
qed

theorem tty_fifo_witness:
  "\<exists>t p. tty_run 0xb0003000 0x80020000 [Tty_write 0 [104] 1 0] (demo_tty, demo_ports, demo_kernel) =
      Some ([104], [], True, t, p, demo_kernel) \<and>
    sent 0xb0003000 p @ map char_to_u32 (wring t) = [104]"
proof -
  obtain t p where loop: "tty_write_loop 0xb0003000 [104] 1 0 demo_tty demo_ports = Some (1, t, p)"
    using demo_tty_write by blast
  have "read_count t = 0"
    using tty_write_loop_moves [OF loop demo_tty_ok] by (simp add: demo_tty_def)
  with loop have run: "tty_run 0xb0003000 0x80020000 [Tty_write 0 [104] 1 0] (demo_tty, demo_ports, demo_kernel) =
      Some ([104], [], True, t, p, demo_kernel)"
    by (simp add: tty_write_def guard_def slice_def)
  have "sent 0xb0003000 p @ map char_to_u32 (wring t) = [104]"
    using tty_fifo [OF demo_tty_ok _ _ _ run] by (simp add: demo_tty_def demo_ports_def char_to_u32_def)
  with run show ?thesis by blast
qed

text \<open>No thread sleeps on a buffer that is ready for it.\<close>

definition no_lost_wakeup :: "u32 \<Rightarrow> tty_real_device \<Rightarrow> kernel \<Rightarrow> bool" where
  "no_lost_wakeup rd t k \<longleftrightarrow> (sleepers k (write_buf_at rd) \<noteq> {} \<longrightarrow> 0 < write_count t) \<and>
     (sleepers k (read_buf_at rd) \<noteq> {} \<longrightarrow> read_count t = 0)"

lemma sleepq_add_sleepers:
  "sleepq_add cpu r k = Some k' \<Longrightarrow> r' \<noteq> r \<Longrightarrow> sleepers k' r' \<subseteq> sleepers k r'"
  by (auto simp: sleepq_add_def sleepers_def upd_thread_def set_slot_def get_slot_def nth_list_update
      split: bind_splits if_splits)

lemma wake_all_sleepers:
  assumes "kernel_ok k" and "r \<noteq> 0" and "sleepq_wake_all r k = Some k'"
  shows "kernel_ok k'" and "sleepers k' r = {}" and "r' \<noteq> 0 \<Longrightarrow> sleepers k' r' \<subseteq> sleepers k r'"
    and "next_tid k' = next_tid k" and "current_thread k' = current_thread k"
    and "u < MAX_THREADS \<Longrightarrow> t_sleeps_on (thread_table k ! u) = 0 \<Longrightarrow> t_sleeps_on (thread_table k' ! u) = 0"
proof -
  obtain qs B where "kernel_at k qs B"
    using assms(1) by (auto simp: kernel_ok_def)
  from wake_all_at [OF this assms(2)] assms(3) show "kernel_ok k'" "sleepers k' r = {}"
      "r' \<noteq> 0 \<Longrightarrow> sleepers k' r' \<subseteq> sleepers k r'" "next_tid k' = next_tid k" "current_thread k' = current_thread k"
      "u < MAX_THREADS \<Longrightarrow> t_sleeps_on (thread_table k ! u) = 0 \<Longrightarrow> t_sleeps_on (thread_table k' ! u) = 0"
    using assms(2) by (auto simp: kernel_ok_def sleepers_def split: if_splits)
qed


lemma demo_kernel_ok: "kernel_ok (snd demo_boot)" "r \<noteq> 0 \<Longrightarrow> sleepers (snd demo_boot) r = {}"
proof -
  have "kernel_inv demo_boot"
    unfolding demo_boot_def by (rule boot_inv [OF demo_fresh])
  then show "kernel_ok (snd demo_boot)"
    by (simp add: kernel_inv_def split_beta)
  show "sleepers (snd demo_boot) r = {}" if "r \<noteq> 0"
    using that by (auto simp: sleepers_def demo_boot_def boot_def thread_table_init_def Let_def sleepq_init_def scheduler_init_def)
qed


text \<open>A character that arrives when the read buffer is full takes the place of the oldest one.\<close>

lemma tty_overrun:
  assumes "tty_ok t" and "read_count t = TTY_BUF_SIZE"
  shows "\<exists>t'. tty_store c t = Some t' \<and> hd (rring t') = c \<and> read_count t' = TTY_BUF_SIZE + 1"
proof -
  let ?i = "(read_head t + 2048) mod 2048"
  have r: "length (read_buf t) = 2048" "0 \<le> read_head t" "read_head t < 2048"
    using assms(1) by (simp_all add: tty_ok_def ring_ok_def)
  then have "tty_store c t = Some (t\<lparr>read_buf := (read_buf t)[nat ?i := c], read_count := 2049\<rparr>)"
    using assms(2) by (simp add: tty_store_def Let_def guard_def wr8_def nat_less_iff)
  moreover have "hd (rring (t\<lparr>read_buf := (read_buf t)[nat ?i := c], read_count := 2049\<rparr>)) = c"
    using r by (simp add: rring_def ring_def hd_map nat_less_iff del: upt_rec_numeral)
  ultimately show ?thesis
    by simp
qed

theorem interrupt_dispatch_witness:
  "\<exists>s. register_all [(0x400, \<lambda>d (x, k). Some (x + 1, k), 0x80020000), (0x800, \<lambda>d (x, k). Some (x + 2, k), 0x80020100)]
      \<lparr>interrupt_stacks = [], interrupt_handlers = replicate 128 \<lparr>ie_device = 0, ie_irq = 0, ie_handler = None\<rparr>, iv_areas = []\<rparr> = Some s \<and>
    wlp (interrupt_handle 0 0 0x400 s (0 :: nat, demo_kernel)) (\<lambda>((d, k), asid). d = 1)"
proof -
  have "registered \<lparr>interrupt_stacks = [], interrupt_handlers = replicate 128 \<lparr>ie_device = 0, ie_irq = 0, ie_handler = None\<rparr>,
      iv_areas = []\<rparr> []"
    by (simp add: registered_def)
  from interrupt_dispatch [OF this, of "[(0x400, \<lambda>d (x, k). Some (x + 1, k), 0x80020000), (0x800, \<lambda>d (x, k). Some (x + 2, k), 0x80020100)]"]
  show ?thesis
    by (fastforce elim!: wlp_mono)
qed

end
