(* ===== verification/Bootargs.thy ===== *)
theory Bootargs
  imports Libc Pagepool
begin

text \<open>
  Boot arguments, \<open>drivers/bootargs.c\<close>.  The strings are in one object in memory from
  \<open>kmalloc\<close>; a pointer into it is a position.  A value is \<open>None\<close> for the constant \<open>""\<close>.
\<close>

abbreviation (input) CONFIG_BOOTARGS_MAX :: nat where "CONFIG_BOOTARGS_MAX \<equiv> 32"

record bootarg =
  ba_key :: "nat option"
  ba_value :: "nat option"

text \<open>The inner loop: the end of the value, the position behind it, and the new value of \<open>last\<close>.\<close>

partial_function (option) bootargs_value ::
    "nat \<Rightarrow> nat \<Rightarrow> nat \<Rightarrow> nat \<Rightarrow> mem \<Rightarrow> bootarg list \<Rightarrow> (nat \<times> nat \<times> mem \<times> bootarg list) option" where
  "bootargs_value l i pos start area tab =
     (if pos \<le> l
      then Option.bind (rd8 area pos) (\<lambda>c.
        if c = 32 \<or> c = 0
        then Option.bind (wr8 area pos 0) (\<lambda>area.
          Some (pos + 1, pos + 1, area, tab[i := (tab ! i)\<lparr>ba_value := Some start\<rparr>]))
        else bootargs_value l i (pos + 1) start area tab)
      else Some (pos, start, area, tab))"

partial_function (option) bootargs_loop ::
    "nat \<Rightarrow> nat \<Rightarrow> nat \<Rightarrow> nat \<Rightarrow> mem \<Rightarrow> bootarg list \<Rightarrow> (mem \<times> bootarg list) option" where
  "bootargs_loop l i pos start area tab =
     (if pos \<le> l
      then Option.bind (rd8 area pos) (\<lambda>c.
        if c = 32 \<or> c = 0 \<or> c = 61
        then Option.bind (guard (i < length tab)) (\<lambda>_.
          if c = 61
          then Option.bind (wr8 area pos 0) (\<lambda>area.
            Option.bind (bootargs_value l i (pos + 1) (pos + 1) area (tab[i := \<lparr>ba_key = Some start, ba_value = None\<rparr>]))
              (\<lambda>(pos, start, area, tab). bootargs_loop l (i + 1) pos start area tab))
          else Option.bind (wr8 area pos 0) (\<lambda>area.
            bootargs_loop l (i + 1) (pos + 1) (pos + 1) area (tab[i := \<lparr>ba_key = Some start, ba_value = None\<rparr>])))
        else bootargs_loop l i (pos + 1) start area tab)
      else Some (area, tab))"

definition bootargs_init ::
    "(u32 \<Rightarrow> u8) \<Rightarrow> mem \<Rightarrow> bootarg list \<Rightarrow> kmem \<Rightarrow> (mem \<times> bootarg list \<times> kmem) option" where
  "bootargs_init ram bootarg_area tab km =
     (let tab = map (ba_key_update (\<lambda>_. None)) tab in do {
        l \<leftarrow> strlen bootarg_area;
        (a, km) \<leftarrow> kmalloc (l + 1) km;
        value_area \<leftarrow> blit (nat (l + 1)) (ram_area ram a (nat (l + 1))) 0 bootarg_area 0;
        (value_area, tab) \<leftarrow> bootargs_loop (nat l) 0 0 0 value_area tab;
        Some (value_area, tab, km)
      })"

text \<open>The comparison of a key of the table with the key that is looked for.\<close>

fun bootargs_match :: "mem \<Rightarrow> mem \<Rightarrow> bool option" where
  "bootargs_match (a # as) (b # bs) =
     (if a = b then if b = 0 then Some True else bootargs_match as bs else Some False)"
| "bootargs_match _ _ = None"

text \<open>\<open>Some None\<close> is \<open>NULL\<close>, otherwise the value.\<close>

fun bootargs_get_loop :: "bootarg list \<Rightarrow> mem \<Rightarrow> mem \<Rightarrow> nat option option option" where
  "bootargs_get_loop [] area key = Some None"
| "bootargs_get_loop (e # es) area key = (case ba_key e of None \<Rightarrow> Some None
     | Some k \<Rightarrow> do {
         m \<leftarrow> bootargs_match (drop k area) key;
         if m then Some (Some (ba_value e)) else bootargs_get_loop es area key
       })"

definition bootargs_get :: "bootarg list \<Rightarrow> mem \<Rightarrow> mem \<Rightarrow> nat option option option" where
  "bootargs_get tab area key = bootargs_get_loop (take CONFIG_BOOTARGS_MAX tab) area key"

section \<open>Written and read back\<close>

type_synonym argument = "mem \<times> mem option"

definition arg_text :: "argument \<Rightarrow> mem" where
  "arg_text = (\<lambda>(k, v). case v of None \<Rightarrow> k | Some s \<Rightarrow> k @ 61 # s)"

fun render :: "argument list \<Rightarrow> mem" where
  "render [] = [0]"
| "render [a] = arg_text a @ [0]"
| "render (a # as) = arg_text a @ 32 # render as"

definition arg_ok :: "argument \<Rightarrow> bool" where
  "arg_ok = (\<lambda>(k, v). (\<forall>c\<in>set k. c \<noteq> 0 \<and> c \<noteq> 32 \<and> c \<noteq> 61) \<and> (\<forall>s. v = Some s \<longrightarrow> (\<forall>c\<in>set s. c \<noteq> 0 \<and> c \<noteq> 32)))"

text \<open>Text with its separators, and what the parser leaves of it.\<close>

definition sep_text :: "(argument \<times> u8) list \<Rightarrow> mem" where
  "sep_text xs = concat (map (\<lambda>(a, c). arg_text a @ [c]) xs)"

definition arg_area :: "argument \<Rightarrow> mem" where
  "arg_area = (\<lambda>(k, v). k @ 0 # (case v of None \<Rightarrow> [] | Some s \<Rightarrow> s @ [0]))"

fun arg_entries :: "nat \<Rightarrow> argument list \<Rightarrow> bootarg list" where
  "arg_entries n [] = []"
| "arg_entries n ((k, v) # as) =
     \<lparr>ba_key = Some n, ba_value = (case v of None \<Rightarrow> None | Some s \<Rightarrow> Some (n + length k + 1))\<rparr> #
     arg_entries (n + length (arg_area (k, v))) as"

text \<open>The loops on the part of the area that is still text.\<close>

lemma bootargs_value_scan:
  assumes "\<forall>c\<in>set s. c \<noteq> 0 \<and> c \<noteq> 32" and "c = 0 \<or> c = 32" and "length pre + length s \<le> l"
  shows "bootargs_value l i (length pre) start (pre @ s @ c # post) tab =
    Some (length pre + length s + 1, length pre + length s + 1, pre @ s @ 0 # post,
      tab[i := (tab ! i)\<lparr>ba_value := Some start\<rparr>])"
  using assms
proof (induction s arbitrary: pre)
  case Nil
  then show ?case
    by (subst bootargs_value.simps) (auto simp: rd8_def wr8_def nth_append list_update_append)
next
  case (Cons x s)
  have "bootargs_value l i (length pre) start (pre @ (x # s) @ c # post) tab =
      bootargs_value l i (length (pre @ [x])) start ((pre @ [x]) @ s @ c # post) tab"
    using Cons.prems by (subst bootargs_value.simps) (auto simp: rd8_def nth_append)
  then show ?case
    using Cons.IH [of "pre @ [x]"] Cons.prems by simp
qed

lemma bootargs_key_scan:
  assumes "\<forall>c\<in>set s. c \<noteq> 0 \<and> c \<noteq> 32 \<and> c \<noteq> 61" and "length pre + length s \<le> l"
  shows "bootargs_loop l i (length pre) start (pre @ s @ post) tab =
    bootargs_loop l i (length (pre @ s)) start ((pre @ s) @ post) tab"
  using assms
proof (induction s arbitrary: pre)
  case Nil
  then show ?case by simp
next
  case (Cons x s)
  have "bootargs_loop l i (length pre) start (pre @ (x # s) @ post) tab =
      bootargs_loop l i (length (pre @ [x])) start ((pre @ [x]) @ s @ post) tab"
    using Cons.prems by (subst bootargs_loop.simps) (auto simp: rd8_def nth_append)
  then show ?case
    using Cons.IH [of "pre @ [x]"] Cons.prems by simp
qed

lemma length_arg_area: "length (arg_area a) = length (arg_text a) + 1"
  by (cases a) (auto simp: arg_area_def arg_text_def split: option.splits)

lemma bootargs_loop_one:
  assumes "arg_ok a" and "c = 0 \<or> c = 32" and "i < length tab" and "length pre + length (arg_text a) \<le> l"
  shows "bootargs_loop l i (length pre) (length pre) (pre @ arg_text a @ c # post) tab =
    bootargs_loop l (i + 1) (length (pre @ arg_area a)) (length (pre @ arg_area a)) ((pre @ arg_area a) @ post)
      (tab[i := hd (arg_entries (length pre) [a])])"
proof (cases a)
  case (Pair k v)
  have k: "\<forall>c\<in>set k. c \<noteq> 0 \<and> c \<noteq> 32 \<and> c \<noteq> 61"
    using assms(1) by (simp add: arg_ok_def Pair)
  show ?thesis
  proof (cases v)
    case None
    have "bootargs_loop l i (length pre) (length pre) (pre @ k @ c # post) tab =
        bootargs_loop l i (length (pre @ k)) (length pre) ((pre @ k) @ c # post) tab"
      using assms(4) by (intro bootargs_key_scan [OF k]) (simp add: arg_text_def Pair None)
    then show ?thesis
      using assms by (subst (asm) (2) bootargs_loop.simps)
        (auto simp: arg_text_def arg_area_def Pair None rd8_def wr8_def nth_append list_update_append guard_def)
  next
    case (Some s)
    have s: "\<forall>c\<in>set s. c \<noteq> 0 \<and> c \<noteq> 32"
      using assms(1) by (simp add: arg_ok_def Pair Some)
    have len: "length pre + length k + 1 + length s \<le> l"
      using assms(4) by (simp add: arg_text_def Pair Some)
    let ?tab = "tab[i := \<lparr>ba_key = Some (length pre), ba_value = None\<rparr>]" and ?pre = "pre @ k @ [0]"
    have "bootargs_loop l i (length pre) (length pre) (pre @ k @ 61 # s @ c # post) tab =
        bootargs_loop l i (length (pre @ k)) (length pre) ((pre @ k) @ 61 # s @ c # post) tab"
      using len by (intro bootargs_key_scan [OF k]) simp
    also have "\<dots> = Option.bind (bootargs_value l i (length ?pre) (length ?pre) (?pre @ s @ c # post) ?tab)
        (\<lambda>(pos, start, area, tab). bootargs_loop l (i + 1) pos start area tab)"
      using assms(3) len by (subst bootargs_loop.simps)
        (simp add: rd8_def wr8_def nth_append list_update_append guard_def)
    also have "bootargs_value l i (length ?pre) (length ?pre) (?pre @ s @ c # post) ?tab =
        Some (length ?pre + length s + 1, length ?pre + length s + 1, ?pre @ s @ 0 # post,
          ?tab[i := (?tab ! i)\<lparr>ba_value := Some (length ?pre)\<rparr>])"
      using len by (intro bootargs_value_scan [OF s assms(2)]) simp
    finally show ?thesis
      using assms(3) by (simp add: arg_text_def arg_area_def Pair Some add.assoc)
  qed
qed

lemma bootargs_loop_all:
  assumes "\<forall>(a, c)\<in>set xs. arg_ok a \<and> (c = 0 \<or> c = 32)" and "length fin + length xs \<le> length tab"
    and "take (length fin) tab = fin" and "length pre + length (sep_text xs) = l + 1"
  shows "bootargs_loop l (length fin) (length pre) (length pre) (pre @ sep_text xs) tab =
    Some (pre @ concat (map (arg_area \<circ> fst) xs), fin @ arg_entries (length pre) (map fst xs) @ drop (length fin + length xs) tab)"
  using assms
proof (induction xs arbitrary: fin pre tab)
  case Nil
  then have "\<not> length pre \<le> l" "tab = fin @ drop (length fin) tab"
    by (auto simp: sep_text_def) (metis append_take_drop_id)
  then show ?case
    by (subst bootargs_loop.simps) (simp add: sep_text_def)
next
  case (Cons x xs)
  obtain a c where x: "x = (a, c)"
    by (cases x)
  let ?e = "hd (arg_entries (length pre) [a])"
  have a: "arg_ok a" "c = 0 \<or> c = 32" "length fin < length tab"
    using Cons.prems(1,2) by (simp_all add: x)
  have txt_eq: "sep_text (x # xs) = arg_text a @ c # sep_text xs"
    by (simp add: sep_text_def x)
  have len: "length pre + length (arg_text a) \<le> l"
    using Cons.prems(4) by (simp add: txt_eq)
  have entries: "arg_entries n (a # ys) = hd (arg_entries n [a]) # arg_entries (n + length (arg_area a)) ys" for n ys
    by (cases a) simp
  have "bootargs_loop l (length fin) (length pre) (length pre) (pre @ sep_text (x # xs)) tab =
      bootargs_loop l (length (fin @ [?e])) (length (pre @ arg_area a)) (length (pre @ arg_area a))
        ((pre @ arg_area a) @ sep_text xs) (tab[length fin := ?e])"
    unfolding txt_eq using bootargs_loop_one [OF a len] by simp
  also have "\<dots> = Some ((pre @ arg_area a) @ concat (map (arg_area \<circ> fst) xs),
      (fin @ [?e]) @ arg_entries (length (pre @ arg_area a)) (map fst xs) @
        drop (length (fin @ [?e]) + length xs) (tab[length fin := ?e]))"
  proof (rule Cons.IH)
    show "take (length (fin @ [?e])) (tab[length fin := ?e]) = fin @ [?e]"
      using Cons.prems(3) a(3) by (simp add: take_Suc_conv_app_nth)
    show "length (pre @ arg_area a) + length (sep_text xs) = l + 1"
      using Cons.prems(4) by (simp add: txt_eq length_arg_area)
  qed (use Cons.prems(1,2) in auto)
  finally show ?case
    by (simp add: x entries [of _ "map fst xs"] comp_def)
qed

text \<open>The rendered arguments are such a text.\<close>

lemma render_sep_text:
  assumes "args \<noteq> []"
  shows "\<exists>xs. render args = sep_text xs \<and> map fst xs = args \<and> (\<forall>(a, c)\<in>set xs. c = 0 \<or> c = 32)"
  using assms
proof (induction args rule: render.induct)
  case (2 a)
  then show ?case
    by (intro exI [of _ "[(a, 0)]"]) (simp add: sep_text_def)
next
  case (3 a b args)
  then obtain xs where "render (b # args) = sep_text xs" "map fst xs = b # args" "\<forall>(a, c)\<in>set xs. c = 0 \<or> c = 32"
    by auto
  then show ?case
    by (intro exI [of _ "(a, 32) # xs"]) (simp add: sep_text_def)
qed simp

lemma strlen_append: "0 \<notin> set s \<Longrightarrow> strlen (s @ 0 # rest) = Some (int (length s))"
  by (induction s) auto

lemma arg_text_no_nul: "arg_ok a \<Longrightarrow> 0 \<notin> set (arg_text a)"
  by (cases a) (auto simp: arg_ok_def arg_text_def split: option.splits)

lemma render_last: "\<forall>a\<in>set args. arg_ok a \<Longrightarrow> \<exists>s. render args = s @ [0] \<and> 0 \<notin> set s"
proof (induction args rule: render.induct)
  case (3 a b args)
  then obtain s where "render (b # args) = s @ [0]" "0 \<notin> set s"
    by auto
  then show ?case
    using arg_text_no_nul [of a] 3(2) by (intro exI [of _ "arg_text a @ 32 # s"]) auto
qed (use arg_text_no_nul in auto)

lemma bootargs_match_eq: "0 \<notin> set k \<Longrightarrow> 0 \<notin> set key \<Longrightarrow> bootargs_match (k @ 0 # rest) (key @ [0]) = Some (k = key)"
proof (induction k arbitrary: key)
  case Nil
  then show ?case by (cases key) auto
next
  case (Cons c k)
  then show ?case by (cases key) auto
qed

definition value_string :: "mem \<Rightarrow> nat option \<Rightarrow> mem" where
  "value_string area v = (case v of None \<Rightarrow> [] | Some p \<Rightarrow> cstr (drop p area))"

lemma cstr_up_to_zero: "0 \<notin> set s \<Longrightarrow> cstr (s @ 0 # rest) = s"
  by (induction s) auto

lemma bootargs_get_loop_finds:
  assumes "\<forall>a\<in>set args. arg_ok a" and "0 \<notin> set key" and "\<forall>e\<in>set rest. ba_key e = None"
  shows "case map_of args key of
    None \<Rightarrow> bootargs_get_loop (arg_entries (length pre) args @ rest) (pre @ concat (map arg_area args)) (key @ [0]) = Some None
  | Some v \<Rightarrow> \<exists>p. bootargs_get_loop (arg_entries (length pre) args @ rest) (pre @ concat (map arg_area args)) (key @ [0]) =
      Some (Some p) \<and> value_string (pre @ concat (map arg_area args)) p = (case v of None \<Rightarrow> [] | Some s \<Rightarrow> s)"
  using assms(1)
proof (induction args arbitrary: pre)
  case Nil
  then show ?case
    using assms(3) by (cases rest) auto
next
  case (Cons a args)
  obtain k v where a: "a = (k, v)"
    by (cases a)
  have nul: "0 \<notin> set k" "\<And>s. v = Some s \<Longrightarrow> 0 \<notin> set s"
    using Cons.prems by (auto simp: a arg_ok_def)
  have key: "bootargs_match (k @ 0 # r) (key @ [0]) = Some (k = key)" for r
    by (rule bootargs_match_eq [OF nul(1) assms(2)])
  show ?case
  proof (cases "k = key")
    case True
    have "value_string (pre @ concat (map arg_area (a # args)))
        (case v of None \<Rightarrow> None | Some s \<Rightarrow> Some (length pre + length k + 1)) = (case v of None \<Rightarrow> [] | Some s \<Rightarrow> s)"
      using nul(2) by (cases v) (auto simp: value_string_def a arg_area_def cstr_up_to_zero)
    with True key show ?thesis
      by (auto simp: a arg_area_def)
  next
    case False
    have "pre @ concat (map arg_area (a # args)) = (pre @ arg_area a) @ concat (map arg_area args)"
      by simp
    moreover have "bootargs_match (drop (length pre) (pre @ concat (map arg_area (a # args)))) (key @ [0]) = Some False"
      using key False by (simp add: a arg_area_def)
    ultimately show ?thesis
      using False Cons.IH [of "pre @ arg_area a"] Cons.prems by (cases "map_of args key") (auto simp: a)
  qed
qed

text \<open>C31. Boot arguments are read back: after \<open>bootargs_init\<close> on the line \<open>k1=v1 k2 k3=v3\<close> of any at
  most 32 arguments, \<open>bootargs_get\<close> of a key returns the value of the first argument with that
  key, the empty string for an argument without value, and \<open>NULL\<close> for a key that is not there.\<close>

theorem bootargs_roundtrip:
  assumes "args \<noteq> []" and "\<forall>a\<in>set args. arg_ok a" and "length args \<le> CONFIG_BOOTARGS_MAX"
    and "length tab = CONFIG_BOOTARGS_MAX" and "kmalloc (int (length (render args))) km = Some (a, km')"
  shows "\<exists>area tab'. bootargs_init ram (render args @ rest) tab km = Some (area, tab', km') \<and>
    (\<forall>key. 0 \<notin> set key \<longrightarrow> (case map_of args key of
      None \<Rightarrow> bootargs_get tab' area (key @ [0]) = Some None
    | Some v \<Rightarrow> \<exists>p. bootargs_get tab' area (key @ [0]) = Some (Some p) \<and>
        value_string area p = (case v of None \<Rightarrow> [] | Some s \<Rightarrow> s)))"
proof -
  obtain xs where xs: "render args = sep_text xs" "map fst xs = args" "\<forall>(a, c)\<in>set xs. c = 0 \<or> c = 32"
    using render_sep_text [OF assms(1)] by blast
  obtain s where s: "render args = s @ [0]" "0 \<notin> set s"
    using render_last [OF assms(2)] by blast
  let ?tab = "map (ba_key_update (\<lambda>_. None)) tab"
  have "strlen (render args @ rest) = Some (int (length s))"
    using strlen_append [OF s(2), of rest] by (simp add: s(1))
  moreover have "kmalloc (int (length s) + 1) km = Some (a, km')"
    using assms(5) by (simp add: s(1) add.commute)
  moreover have "blit (nat (int (length s) + 1)) (ram_area ram a (nat (int (length s) + 1))) 0 (render args @ rest) 0 =
      Some (render args)"
    by (simp add: blit_def ram_area_def s(1) nat_add_distrib)
  moreover have "bootargs_loop (length s) 0 0 0 (render args) ?tab =
      Some (concat (map arg_area args), arg_entries 0 args @ drop (length args) ?tab)"
  proof -
    have "length xs = length args"
      using xs(2) by (metis length_map)
    moreover have "\<forall>(a, c)\<in>set xs. arg_ok a \<and> (c = 0 \<or> c = 32)"
      using xs(2,3) assms(2) by force
    moreover have "length (sep_text xs) = length s + 1"
      using s(1) xs(1) by simp
    moreover have "map (arg_area \<circ> fst) xs = map arg_area args"
      using xs(2) by auto
    ultimately show ?thesis
      using bootargs_loop_all [of xs "[]" ?tab "[]" "length s"] assms(3,4) xs(1,2) by simp
  qed
  ultimately have init: "bootargs_init ram (render args @ rest) tab km =
      Some (concat (map arg_area args), arg_entries 0 args @ drop (length args) ?tab, km')"
    by (simp add: bootargs_init_def)
  have len: "length (arg_entries n as) = length as" for n as
    by (induction n as rule: arg_entries.induct) auto
  have rest: "\<forall>e\<in>set (drop (length args) ?tab). ba_key e = None"
    by (auto dest!: in_set_dropD)
  define T where "T = arg_entries 0 args @ drop (length args) ?tab"
  have "take CONFIG_BOOTARGS_MAX T = T"
    using assms(3,4) by (simp add: T_def len)
  then have get: "bootargs_get T area key = bootargs_get_loop T area key" for area key
    by (simp add: bootargs_get_def)
  note finds = bootargs_get_loop_finds [OF assms(2) _ rest, where pre = "[]", unfolded list.size append_Nil, folded T_def, folded get]
  show ?thesis
    by (rule exI [of _ "concat (map arg_area args)"], rule exI [of _ T], intro conjI allI impI finds)
      (simp_all add: init T_def)
qed

definition demo_arguments :: "argument list" where
  "demo_arguments = [([105], Some [47, 61]), ([120], None)]"

theorem bootargs_roundtrip_witness:
  "\<exists>area tab km. bootargs_init (\<lambda>_. 1) [105, 61, 47, 61, 32, 120, 0, 9] (replicate 32 \<lparr>ba_key = None, ba_value = None\<rparr>)
      \<lparr>free_area_start = 0x80020000, memory_end = 0x80400000\<rparr> = Some (area, tab, km) \<and>
    (\<exists>p. bootargs_get tab area [105, 0] = Some (Some p) \<and> value_string area p = [47, 61]) \<and>
    bootargs_get tab area [121, 0] = Some None"
proof -
  let ?km = "\<lparr>free_area_start = 0x80020000, memory_end = 0x80400000\<rparr>"
  have ok: "\<forall>a\<in>set demo_arguments. arg_ok a" and ne: "demo_arguments \<noteq> []" and len: "length demo_arguments \<le> CONFIG_BOOTARGS_MAX"
    and rend: "render demo_arguments = [105, 61, 47, 61, 32, 120, 0]"
    by (simp_all add: demo_arguments_def arg_ok_def arg_text_def)
  have mem: "kmalloc (int (length (render demo_arguments))) ?km =
      Some (0x80020000, \<lparr>free_area_start = 0x80020008, memory_end = 0x80400000\<rparr>)"
    by (simp add: rend kmalloc_def word_align_def)
  have "map_of demo_arguments [105] = Some (Some [47, 61])" "map_of demo_arguments [121] = None"
    by (simp_all add: demo_arguments_def)
  with bootargs_roundtrip [OF ne ok len _ mem, of "replicate 32 \<lparr>ba_key = None, ba_value = None\<rparr>" "\<lambda>_. 1" "[9]"]
  show ?thesis
    unfolding rend by (force dest: spec [of _ "[105]"] spec [of _ "[121]"])
qed

end
