(* ===== verification/Metadev.thy ===== *)
theory Metadev
  imports Tty
begin

text \<open>
  The non-peripheral devices, \<open>drivers/metadev.c\<close>: the clock, the memory size, the status of the
  processors and the shutdown device; shutting down; and the table of drivers of \<open>drivers/drivers.c\<close>.  A
  variable \<open>init_done\<close> and the device it guards are a field each.
\<close>

abbreviation (input) CPU_COMMAND_RAISE_IRQ :: u32 where "CPU_COMMAND_RAISE_IRQ \<equiv> 0"
abbreviation (input) CPU_COMMAND_CLEAR_IRQ :: u32 where "CPU_COMMAND_CLEAR_IRQ \<equiv> 1"
abbreviation (input) YAMS_TYPECODE_TTY :: u32 where "YAMS_TYPECODE_TTY \<equiv> 0x201"
abbreviation (input) YAMS_TYPECODE_RTC :: u32 where "YAMS_TYPECODE_RTC \<equiv> 0x102"
abbreviation (input) YAMS_TYPECODE_DISK :: u32 where "YAMS_TYPECODE_DISK \<equiv> 0x301"
abbreviation (input) YAMS_TYPECODE_MEMINFO :: u32 where "YAMS_TYPECODE_MEMINFO \<equiv> 0x101"
abbreviation (input) YAMS_TYPECODE_SHUTDOWN :: u32 where "YAMS_TYPECODE_SHUTDOWN \<equiv> 0x103"
abbreviation (input) YAMS_TYPECODE_CPUSTATUS :: u32 where "YAMS_TYPECODE_CPUSTATUS \<equiv> 0xc00"

definition CPU_STATUS_IRQ :: "u32 \<Rightarrow> u32" where
  "CPU_STATUS_IRQ status = status AND 2"

record metadev =
  rtc_init_done :: bool
  system_rtc :: "u32 device"
  meminfo_init_done :: bool
  system_meminfo :: "u32 device"
  shutdown_init_done :: bool
  system_shutdown :: "u32 device"

text \<open>The device structure is at \<open>dev\<close>, or in new memory when that is \<open>NULL\<close>.\<close>

definition fill_device_t :: "io_descriptor \<Rightarrow> u32 \<Rightarrow> kmem \<Rightarrow> (u32 \<times> u32 device \<times> kmem) option" where
  "fill_device_t desc dev km = do {
     (dev, km) \<leftarrow> (if dev = 0 then kmalloc 20 km else Some (dev, km));
     guard (dev \<noteq> 0);
     Some (dev, \<lparr>dev_real = None, dev_generic = None, dev_descriptor = desc,
       dev_io_address = io_area_base desc, dev_type = io_type desc\<rparr>, km)
   }"

text \<open>\<open>at\<close> is the address of the static variable with the device.\<close>

definition rtc_init :: "u32 \<Rightarrow> io_descriptor \<Rightarrow> metadev \<Rightarrow> kmem \<Rightarrow> (u32 \<times> metadev \<times> kmem) option" where
  "rtc_init at desc m km = do {
     guard (\<not> rtc_init_done m);
     (a, d, km) \<leftarrow> fill_device_t desc at km;
     Some (at, m\<lparr>rtc_init_done := True, system_rtc := d\<rparr>, km)
   }"

definition rtc_get_msec :: "metadev \<Rightarrow> io_ports \<Rightarrow> (u32 \<times> io_ports) option" where
  "rtc_get_msec m = io_rd (dev_io_address (system_rtc m))"

definition rtc_get_clockspeed :: "metadev \<Rightarrow> io_ports \<Rightarrow> (u32 \<times> io_ports) option" where
  "rtc_get_clockspeed m = io_rd (dev_io_address (system_rtc m) + 4)"

definition meminfo_init :: "u32 \<Rightarrow> io_descriptor \<Rightarrow> metadev \<Rightarrow> kmem \<Rightarrow> (u32 \<times> metadev \<times> kmem) option" where
  "meminfo_init at desc m km = do {
     guard (\<not> meminfo_init_done m);
     (a, d, km) \<leftarrow> fill_device_t desc at km;
     Some (at, m\<lparr>meminfo_init_done := True, system_meminfo := d\<rparr>, km)
   }"

definition meminfo_get_pages :: "metadev \<Rightarrow> io_ports \<Rightarrow> (u32 \<times> io_ports) option" where
  "meminfo_get_pages m = io_rd (dev_io_address (system_meminfo m))"

definition cpustatus_init ::
    "'s handler \<Rightarrow> io_descriptor \<Rightarrow> 's interrupts \<Rightarrow> kmem \<Rightarrow> (u32 \<times> u32 device \<times> 's interrupts \<times> kmem) option" where
  "cpustatus_init cpustatus_interrupt_handle desc ints km = do {
     (dev, d, km) \<leftarrow> fill_device_t desc 0 km;
     (cpu, km) \<leftarrow> kmalloc 4 km;
     guard (cpu \<noteq> 0);
     guard (unat (io_irq desc + 10) < 31);
     ints \<leftarrow> interrupt_register (push_bit (unat (io_irq desc + 10)) 1) cpustatus_interrupt_handle dev ints;
     Some (dev, d\<lparr>dev_real := Some cpu\<rparr>, ints, km)
   }"

fun count_cpus :: "io_descriptor list \<Rightarrow> int \<Rightarrow> int" where
  "count_cpus [] numcpu = numcpu"
| "count_cpus (d # ds) numcpu =
     count_cpus ds (if io_type d AND 0xFFFFFF00 = YAMS_TYPECODE_CPUSTATUS then numcpu + 1 else numcpu)"

definition cpustatus_count :: "io_descriptor list \<Rightarrow> int" where
  "cpustatus_count ds = count_cpus (take 128 ds) 0"

definition cpustatus_generate_irq :: "u32 device \<Rightarrow> io_ports \<Rightarrow> io_ports option" where
  "cpustatus_generate_irq dev p = do {
     guard (dev_real dev \<noteq> None);
     Some (io_wr (dev_io_address dev + 4) CPU_COMMAND_RAISE_IRQ p)
   }"

definition cpustatus_interrupt_handle :: "nat \<Rightarrow> u32 device \<Rightarrow> io_ports \<Rightarrow> io_ports option" where
  "cpustatus_interrupt_handle this_cpu dev p =
     (if of_nat this_cpu \<noteq> dev_type dev AND 0xFF then Some p
      else do {
        (status, p) \<leftarrow> io_rd (dev_io_address dev) p;
        if CPU_STATUS_IRQ status = 0 then Some p
        else Some (io_wr (dev_io_address dev + 4) CPU_COMMAND_CLEAR_IRQ p)
      })"

definition shutdown_init :: "u32 \<Rightarrow> io_descriptor \<Rightarrow> metadev \<Rightarrow> kmem \<Rightarrow> (u32 \<times> metadev \<times> kmem) option" where
  "shutdown_init at desc m km = do {
     guard (\<not> shutdown_init_done m);
     (a, d, km) \<leftarrow> fill_device_t desc at km;
     Some (at, m\<lparr>shutdown_init_done := True, system_shutdown := d\<rparr>, km)
   }"

text \<open>The accesses of \<open>shutdown\<close>, which go on if the machine does.\<close>

definition shutdown :: "u32 \<Rightarrow> io_descriptor list \<Rightarrow> metadev \<Rightarrow> io_ports \<Rightarrow> io_ports" where
  "shutdown magic ds m p =
     fold (\<lambda>d p. if io_type d = YAMS_TYPECODE_SHUTDOWN then io_wr (io_area_base d) magic p else p)
       (take YAMS_MAX_DEVICES ds)
       (if shutdown_init_done m then io_wr (dev_io_address (system_shutdown m)) magic p else p)"

definition halt_kernel :: "'v option \<Rightarrow> io_descriptor list \<Rightarrow> metadev \<Rightarrow> io_ports \<Rightarrow> ('v \<times> io_ports) option" where
  "halt_kernel deinit ds m p = do { v \<leftarrow> deinit; Some (v, shutdown 0x0badf00d ds m p) }"

definition kernel_panic :: "io_descriptor list \<Rightarrow> metadev \<Rightarrow> io_ports \<Rightarrow> io_ports" where
  "kernel_panic ds m p = shutdown 0xdeadc0de ds m p"

text \<open>The part of \<open>disk_init\<close> that allocates and registers; the disk itself is modelled with its
  driver.\<close>

definition disk_init_device ::
    "'s handler \<Rightarrow> io_descriptor \<Rightarrow> 's interrupts \<Rightarrow> kmem \<Rightarrow> (u32 \<times> u32 device \<times> 's interrupts \<times> kmem) option" where
  "disk_init_device disk_interrupt_handle desc ints km = do {
     (dev, km) \<leftarrow> kmalloc 20 km;
     (gbd, km) \<leftarrow> kmalloc 20 km;
     (real_dev, km) \<leftarrow> kmalloc 12 km;
     guard (dev \<noteq> 0 \<and> gbd \<noteq> 0 \<and> real_dev \<noteq> 0);
     guard (unat (io_irq desc + 10) < 31);
     ints \<leftarrow> interrupt_register (push_bit (unat (io_irq desc + 10)) 1) disk_interrupt_handle dev ints;
     Some (dev, \<lparr>dev_real = Some real_dev, dev_generic = Some gbd, dev_descriptor = desc,
       dev_io_address = io_area_base desc, dev_type = io_type desc\<rparr>, ints, km)
   }"

text \<open>The table of drivers, over the initialisation functions.\<close>

definition drivers_available :: "'f \<Rightarrow> 'f \<Rightarrow> 'f \<Rightarrow> 'f \<Rightarrow> 'f \<Rightarrow> 'f \<Rightarrow> 'f \<Rightarrow> (u32 \<times> 'f) list" where
  "drivers_available tty rtc meminfo shutdn cpustatus disk null =
     [(YAMS_TYPECODE_TTY, tty), (YAMS_TYPECODE_RTC, rtc), (YAMS_TYPECODE_MEMINFO, meminfo),
      (YAMS_TYPECODE_SHUTDOWN, shutdn), (YAMS_TYPECODE_CPUSTATUS, cpustatus),
      (YAMS_TYPECODE_DISK, disk), (0, null)]"

lemma find_driver_available:
  "find_driver (drivers_available tty rtc meminfo shutdn cpustatus disk null) typecode =
    (if typecode AND TYPECODE_CPUMASK = TYPECODE_CPUSTATUS then Some cpustatus
     else if typecode = YAMS_TYPECODE_TTY then Some tty
     else if typecode = YAMS_TYPECODE_RTC then Some rtc
     else if typecode = YAMS_TYPECODE_MEMINFO then Some meminfo
     else if typecode = YAMS_TYPECODE_SHUTDOWN then Some shutdn
     else if typecode = YAMS_TYPECODE_DISK then Some disk else None)"
  by (auto simp: find_driver_def drivers_available_def)

end
