(* ===== verification/Elf.thy ===== *)
theory Elf
  imports Vfs_Properties
begin

text \<open>
  The loader's parser of ELF files, \<open>proc/elf.c\<close>.  The headers are packed structs read from the
  file: here they are the bytes, with the fields at their offsets.  \<open>hdr\<close> and \<open>phdr\<close> are what
  is on the stack in the place of the two headers before they are read.
\<close>

record elf_info =
  entry_point :: u32
  ro_location :: u32
  ro_size :: u32
  ro_pages :: u32
  ro_vaddr :: u32
  rw_location :: u32
  rw_size :: u32
  rw_pages :: u32
  rw_vaddr :: u32

abbreviation (input) ELF_MAGIC :: u32 where "ELF_MAGIC \<equiv> 0x7f454c46"
abbreviation (input) PT_NULL :: u32 where "PT_NULL \<equiv> 0"
abbreviation (input) PT_LOAD :: u32 where "PT_LOAD \<equiv> 1"
abbreviation (input) PT_NOTE :: u32 where "PT_NOTE \<equiv> 4"
abbreviation (input) PT_PHDR :: u32 where "PT_PHDR \<equiv> 6"
abbreviation (input) PF_W :: u32 where "PF_W \<equiv> 2"
abbreviation (input) SIZEOF_EHDR :: int where "SIZEOF_EHDR \<equiv> 52"
abbreviation (input) SIZEOF_PHDR :: int where "SIZEOF_PHDR \<equiv> 32"

definition get16 :: "mem \<Rightarrow> nat \<Rightarrow> u16" where
  "get16 m a = push_bit 8 (ucast (m ! a)) OR ucast (m ! (a + 1))"

text \<open>Fields of the file header and of a program header.\<close>

definition e_type :: "mem \<Rightarrow> u16" where "e_type h = get16 h 16"
definition e_machine :: "mem \<Rightarrow> u16" where "e_machine h = get16 h 18"
definition e_version :: "mem \<Rightarrow> u32" where "e_version h = get32 h 20"
definition e_entry :: "mem \<Rightarrow> u32" where "e_entry h = get32 h 24"
definition e_phoff :: "mem \<Rightarrow> u32" where "e_phoff h = get32 h 28"
definition e_phnum :: "mem \<Rightarrow> u16" where "e_phnum h = get16 h 44"
definition p_type :: "mem \<Rightarrow> u32" where "p_type h = get32 h 0"
definition p_offset :: "mem \<Rightarrow> u32" where "p_offset h = get32 h 4"
definition p_vaddr :: "mem \<Rightarrow> u32" where "p_vaddr h = get32 h 8"
definition p_filesz :: "mem \<Rightarrow> u32" where "p_filesz h = get32 h 16"
definition p_memsz :: "mem \<Rightarrow> u32" where "p_memsz h = get32 h 20"
definition p_flags :: "mem \<Rightarrow> u32" where "p_flags h = get32 h 24"

text \<open>Memory size rounded up to the page boundary, in pages.\<close>

definition seg_pages :: "mem \<Rightarrow> u32" where
  "seg_pages h = (p_memsz h + 4096 - 1) div 4096"

text \<open>What a \<open>PT_LOAD\<close> header adds; \<open>ro\<close> and \<open>rw\<close> are the bits of \<open>segs\<close>.\<close>

definition elf_load :: "mem \<Rightarrow> bool \<times> bool \<times> elf_info \<Rightarrow> (bool \<times> bool \<times> elf_info) option" where
  "elf_load h = (\<lambda>(ro, rw, elf).
     if p_flags h AND PF_W \<noteq> 0 then
       if rw then None
       else Some (ro, True, elf\<lparr>rw_location := p_offset h, rw_size := p_filesz h, rw_pages := seg_pages h,
         rw_vaddr := p_vaddr h\<rparr>)
     else if ro then None
       else Some (True, rw, elf\<lparr>ro_location := p_offset h, ro_size := p_filesz h, ro_pages := seg_pages h,
         ro_vaddr := p_vaddr h\<rparr>))"

text \<open>The loop over the program headers; the first component says whether it was left by
  \<open>return 0\<close>.\<close>

fun elf_segments ::
    "(fs_ptr \<Rightarrow> 'w fs_t) \<Rightarrow> int \<Rightarrow> mem \<Rightarrow> nat \<Rightarrow> u32 \<Rightarrow> bool \<times> bool \<times> elf_info \<Rightarrow> 'w vfs \<Rightarrow>
      ((bool \<times> bool \<times> elf_info) option \<times> 'w vfs) option" where
  "elf_segments F file phdr 0 current_position st s = Some (Some st, s)"
| "elf_segments F file phdr (Suc n) current_position st s = do {
     (r, h, s) \<leftarrow> vfs_read F file phdr SIZEOF_PHDR s;
     if r \<noteq> SIZEOF_PHDR then Some (None, s)
     else case (if p_type h = PT_NULL \<or> p_type h = PT_NOTE \<or> p_type h = PT_PHDR then Some st
         else if p_type h = PT_LOAD then elf_load h st else None) of
       None \<Rightarrow> Some (None, s)
     | Some st \<Rightarrow> do {
         (_, s) \<leftarrow> vfs_seek file (sint (current_position + 32)) s;
         elf_segments F file h n (current_position + 32) st s
       }
   }"

definition elf_parse_header ::
    "(fs_ptr \<Rightarrow> 'w fs_t) \<Rightarrow> mem \<Rightarrow> mem \<Rightarrow> int \<Rightarrow> 'w vfs \<Rightarrow> (elf_info option \<times> 'w vfs) option" where
  "elf_parse_header F hdr phdr file s = do {
     (r, h, s) \<leftarrow> vfs_read F file hdr SIZEOF_EHDR s;
     if r \<noteq> SIZEOF_EHDR then Some (None, s)
     else if get32 h 0 \<noteq> ELF_MAGIC then Some (None, s)
     else if h ! 4 \<noteq> 1 \<or> h ! 5 \<noteq> 2 \<or> e_machine h \<noteq> 8 then Some (None, s)
     else if e_version h \<noteq> 1 \<or> h ! 6 \<noteq> 1 then Some (None, s)
     else if e_type h \<noteq> 2 then Some (None, s)
     else if e_phnum h = 0 then Some (None, s)
     else do {
       (_, s) \<leftarrow> vfs_seek file (sint (e_phoff h)) s;
       (r, s) \<leftarrow> elf_segments F file phdr (unat (e_phnum h)) (e_phoff h)
         (False, False, \<lparr>entry_point = e_entry h, ro_location = 0, ro_size = 0, ro_pages = 0, ro_vaddr = 0,
           rw_location = 0, rw_size = 0, rw_pages = 0, rw_vaddr = 0\<rparr>) s;
       Some (case r of None \<Rightarrow> None | Some (ro, rw, elf) \<Rightarrow> if ro \<or> rw then Some elf else None, s)
     }
   }"

section \<open>The meaning of an executable file\<close>

text \<open>The program headers of a file, those that are loaded, writable or not.\<close>

definition elf_phdrs :: "mem \<Rightarrow> mem list" where
  "elf_phdrs c = map (\<lambda>i. take 32 (drop (unat (e_phoff c) + 32 * i) c)) [0..<unat (e_phnum c)]"

definition elf_loads :: "bool \<Rightarrow> mem list \<Rightarrow> mem list" where
  "elf_loads w hs = filter (\<lambda>h. p_type h = PT_LOAD \<and> (p_flags h AND PF_W \<noteq> 0) = w) hs"

definition elf_valid :: "mem \<Rightarrow> bool" where
  "elf_valid c \<longleftrightarrow> 52 \<le> length c \<and> get32 c 0 = ELF_MAGIC \<and> c ! 4 = 1 \<and> c ! 5 = 2 \<and> e_machine c = 8 \<and>
     e_version c = 1 \<and> c ! 6 = 1 \<and> e_type c = 2 \<and>
     unat (e_phoff c) + 32 * unat (e_phnum c) \<le> length c \<and>
     (\<forall>h\<in>set (elf_phdrs c). p_type h \<in> {PT_NULL, PT_LOAD, PT_NOTE, PT_PHDR}) \<and>
     length (elf_loads True (elf_phdrs c)) \<le> 1 \<and> length (elf_loads False (elf_phdrs c)) \<le> 1 \<and>
     elf_loads True (elf_phdrs c) @ elf_loads False (elf_phdrs c) \<noteq> []"

text \<open>The value of a field of the only header of a list, or 0.\<close>

definition the_field :: "(mem \<Rightarrow> u32) \<Rightarrow> mem list \<Rightarrow> u32" where
  "the_field f hs = (case hs of [] \<Rightarrow> 0 | h # _ \<Rightarrow> f h)"

definition elf_info_of :: "u32 \<Rightarrow> mem list \<Rightarrow> elf_info" where
  "elf_info_of e hs = (let ro = elf_loads False hs; rw = elf_loads True hs in
     \<lparr>entry_point = e, ro_location = the_field p_offset ro, ro_size = the_field p_filesz ro,
      ro_pages = the_field seg_pages ro, ro_vaddr = the_field p_vaddr ro,
      rw_location = the_field p_offset rw, rw_size = the_field p_filesz rw,
      rw_pages = the_field seg_pages rw, rw_vaddr = the_field p_vaddr rw\<rparr>)"


section \<open>The parser finds that meaning\<close>

fun elf_scan :: "mem list \<Rightarrow> bool \<times> bool \<times> elf_info \<Rightarrow> (bool \<times> bool \<times> elf_info) option" where
  "elf_scan [] st = Some st"
| "elf_scan (h # hs) st =
     (case (if p_type h = PT_NULL \<or> p_type h = PT_NOTE \<or> p_type h = PT_PHDR then Some st
        else if p_type h = PT_LOAD then elf_load h st else None) of
      None \<Rightarrow> None | Some st \<Rightarrow> elf_scan hs st)"

definition with_ro :: "mem list \<Rightarrow> elf_info \<Rightarrow> elf_info" where
  "with_ro hs e = (case hs of [] \<Rightarrow> e | h # _ \<Rightarrow>
     e\<lparr>ro_location := p_offset h, ro_size := p_filesz h, ro_pages := seg_pages h, ro_vaddr := p_vaddr h\<rparr>)"

definition with_rw :: "mem list \<Rightarrow> elf_info \<Rightarrow> elf_info" where
  "with_rw hs e = (case hs of [] \<Rightarrow> e | h # _ \<Rightarrow>
     e\<lparr>rw_location := p_offset h, rw_size := p_filesz h, rw_pages := seg_pages h, rw_vaddr := p_vaddr h\<rparr>)"

lemma elf_scan_loads:
  "elf_scan hs (ro, rw, e) =
    (if (\<forall>h\<in>set hs. p_type h \<in> {PT_NULL, PT_LOAD, PT_NOTE, PT_PHDR}) \<and>
        length (elf_loads True hs) + of_bool rw \<le> 1 \<and> length (elf_loads False hs) + of_bool ro \<le> 1
     then Some (ro \<or> elf_loads False hs \<noteq> [], rw \<or> elf_loads True hs \<noteq> [],
       with_ro (elf_loads False hs) (with_rw (elf_loads True hs) e))
     else None)"
proof (induction hs arbitrary: ro rw e)
  case Nil
  then show ?case
    by (simp add: elf_loads_def with_ro_def with_rw_def)
next
  case (Cons h hs)
  have swap: "with_ro xs (e\<lparr>rw_location := a, rw_size := b, rw_pages := c, rw_vaddr := d\<rparr>) =
      (with_ro xs e)\<lparr>rw_location := a, rw_size := b, rw_pages := c, rw_vaddr := d\<rparr>" for xs a b c d and e :: elf_info
    by (cases xs) (simp_all add: with_ro_def)
  have loads: "elf_loads w (h # hs) =
      (if p_type h = PT_LOAD \<and> (p_flags h AND PF_W \<noteq> 0) = w then h # elf_loads w hs else elf_loads w hs)" for w
    by (cases w) (simp_all add: elf_loads_def)
  consider (skip) "p_type h = PT_NULL \<or> p_type h = PT_NOTE \<or> p_type h = PT_PHDR"
    | (rw) "p_type h = PT_LOAD" "p_flags h AND PF_W \<noteq> 0"
    | (ro) "p_type h = PT_LOAD" "p_flags h AND PF_W = 0"
    | (bad) "p_type h \<notin> {PT_NULL, PT_LOAD, PT_NOTE, PT_PHDR}"
    by auto
  then show ?case
  proof cases
    case skip
    then show ?thesis
      by (auto simp: Cons.IH loads)
  next
    case rw': rw
    show ?thesis
    proof (cases rw)
      case True
      then show ?thesis
        using rw' by (simp add: elf_load_def loads)
    next
      case False
      then show ?thesis
        using rw' by (auto simp: elf_load_def loads Cons.IH with_rw_def [of "h # _"] with_rw_def [of "[]"])
    qed
  next
    case ro': ro
    show ?thesis
    proof (cases ro)
      case True
      then show ?thesis
        using ro' by (simp add: elf_load_def loads)
    next
      case False
      have "with_rw xs (with_ro [h] e) = with_ro [h] (with_rw xs e)" for xs
        by (cases xs) (simp_all add: with_ro_def with_rw_def)
      then show ?thesis
        using ro' False by (auto simp: elf_load_def loads Cons.IH with_ro_def [of "h # _"] with_ro_def [of "[]"])
    qed
  next
    case bad
    then show ?thesis
      by simp
  qed
qed

lemma elf_scan_info:
  assumes "elf_scan hs (False, False, \<lparr>entry_point = a, ro_location = 0, ro_size = 0, ro_pages = 0, ro_vaddr = 0,
      rw_location = 0, rw_size = 0, rw_pages = 0, rw_vaddr = 0\<rparr>) = Some (ro, rw, e)"
  shows "e = elf_info_of a hs"
  using assms
  by (auto simp: elf_scan_loads elf_info_of_def with_ro_def with_rw_def the_field_def Let_def split: if_splits list.splits)

lemma elf_scan_valid:
  assumes "52 \<le> length c" and "get32 c 0 = ELF_MAGIC" "c ! 4 = 1" "c ! 5 = 2" "e_machine c = 8"
    "e_version c = 1" "c ! 6 = 1" "e_type c = 2" and "e_phnum c \<noteq> 0"
  shows "(case (if unat (e_phoff c) + 32 * unat (e_phnum c) \<le> length c \<or> unat (e_phnum c) = 0
      then elf_scan (elf_phdrs c) (False, False, \<lparr>entry_point = e_entry c, ro_location = 0, ro_size = 0, ro_pages = 0,
        ro_vaddr = 0, rw_location = 0, rw_size = 0, rw_pages = 0, rw_vaddr = 0\<rparr>) else None) of
      None \<Rightarrow> None | Some (ro, rw, elf) \<Rightarrow> if ro \<or> rw then Some elf else None) =
    (if elf_valid c then Some (elf_info_of (e_entry c) (elf_phdrs c)) else None)"
proof (cases "unat (e_phoff c) + 32 * unat (e_phnum c) \<le> length c")
  case False
  moreover have "unat (e_phnum c) \<noteq> 0"
    using assms(9) by (simp add: unat_eq_0)
  ultimately show ?thesis
    by (simp add: elf_valid_def)
next
  case True
  let ?e = "\<lparr>entry_point = e_entry c, ro_location = 0, ro_size = 0, ro_pages = 0,
        ro_vaddr = 0, rw_location = 0, rw_size = 0, rw_pages = 0, rw_vaddr = 0\<rparr>"
  show ?thesis
  proof (cases "elf_scan (elf_phdrs c) (False, False, ?e)")
    case None
    then have "\<not> elf_valid c"
      by (auto simp: elf_scan_loads elf_valid_def split: if_splits)
    then show ?thesis
      using None by simp
  next
    case (Some x)
    obtain ro rw e where x: "x = (ro, rw, e)" by (cases x)
    have e: "e = elf_info_of (e_entry c) (elf_phdrs c)"
      by (rule elf_scan_info) (use Some x in simp)
    have "elf_valid c \<longleftrightarrow> ro \<or> rw"
      using Some True assms unfolding x elf_scan_loads elf_valid_def by (auto split: if_splits)
    then show ?thesis
      using Some True by (simp add: x e)
  qed
qed

lemma elf_valid_ident:
  assumes "elf_valid c"
  shows "get32 c 0 = ELF_MAGIC \<and> c ! 4 = 1 \<and> c ! 5 = 2 \<and> e_machine c = 8 \<and>
    e_version c = 1 \<and> c ! 6 = 1 \<and> e_type c = 2 \<and> e_phnum c \<noteq> 0"
proof -
  have "elf_phdrs c = []" if "e_phnum c = 0"
    using that by (simp add: elf_phdrs_def)
  then have "e_phnum c \<noteq> 0"
    using assms by (auto simp: elf_valid_def elf_loads_def)
  with assms show ?thesis
    unfolding elf_valid_def by blast
qed

lemma if_chain:
  "(if \<not> a then X else if \<not> b \<or> \<not> c \<or> \<not> d then X else if \<not> e \<or> \<not> f then X else if \<not> g then X
    else if h then X else Y) = (if a \<and> b \<and> c \<and> d \<and> e \<and> f \<and> g \<and> \<not> h then Y else X)"
  by auto

definition elf_entry :: "fs_ptr \<Rightarrow> int \<Rightarrow> nat \<Rightarrow> openfile_entry" where
  "elf_entry p i pos = \<lparr>of_filesystem = Some p, of_fileid = i, of_seek_position = int pos\<rparr>"

context file_driver
begin

text \<open>State \<open>s'\<close> is \<open>s\<close> with the file \<open>fd\<close> at position \<open>pos\<close>.\<close>

definition positioned :: "'w vfs \<Rightarrow> fs_ptr \<Rightarrow> int \<Rightarrow> int \<Rightarrow> nat \<Rightarrow> 'w vfs \<Rightarrow> bool" where
  "positioned s p fd i pos s' \<longleftrightarrow>
     (\<exists>w. good w \<and> vol w = vol (vfs_world s) \<and> s' = vfs_then s fd (elf_entry p i pos) w)"

lemma positioned_refl:
  assumes "good (vfs_world s)" and "open_at s fd p i (int pos)"
  shows "positioned s p fd i pos s"
proof -
  have "s = vfs_then s fd (elf_entry p i pos) (vfs_world s)"
    using assms(2) unfolding vfs_then_def elf_entry_def open_at_def
    by (metis (no_types, lifting) list_update_id vfs.surjective vfs.update_convs(4) vfs.update_convs(9))
  with assms(1) show ?thesis
    unfolding positioned_def by blast
qed

lemma vfs_then_twice: "vfs_then (vfs_then s fd e w) fd e' w' = vfs_then s fd e' w'"
  by (simp add: vfs_then_def)

lemma read_exact:
  assumes s: "vfs_idle s" "F p = drv" "0 \<le> fd" "fd < int MAX_OPEN_FILES" and f: "vol (vfs_world s) f = Some (i, c)"
    and s': "positioned s p fd i pos s'" and buf: "length buf = n" "0 < n"
  shows "wp (vfs_read F fd buf (int n) s') (\<lambda>(r, b, s'').
    if pos + n \<le> length c then r = int n \<and> b = take n (drop pos c) \<and> positioned s p fd i (pos + n) s''
    else r \<noteq> int n \<and> (\<exists>q. positioned s p fd i q s''))"
proof -
  obtain w where w: "good w" "vol w = vol (vfs_world s)" "s' = vfs_then s fd (elf_entry p i pos) w"
    using s' by (auto simp: positioned_def)
  have at: "open_at s' fd p i (int pos)"
    using s by (simp add: open_at_def w(3) vfs_then_def elf_entry_def vfs_idle_def nat_less_iff)
  have idle: "vfs_idle s'" "good (vfs_world s')" "vol (vfs_world s') f = Some (i, c)"
    using s(1) w f by simp_all
  show ?thesis
  proof (rule wp_mono [OF vfs_read_file [where F = F and p = p, OF idle(1,2) s(2) at _ idle(3), of "int n" buf]], goal_cases)
    case (4 x)
    obtain r b s'' where x: "x = (r, b, s'')" by (cases x)
    from 4 obtain w' where w': "good w'" "vol w' = vol (vfs_world s)"
        "s'' = vfs_then s' fd \<lparr>of_filesystem = Some p, of_fileid = i, of_seek_position = int pos + max r 0\<rparr> w'"
      and r: "if length c < pos then r = VFS_ERROR \<and> b = buf
        else let d = take n (drop pos c) in r = int (length d) \<and> b = d @ drop (length d) buf"
      unfolding x using w(2,3) by (simp only: split_conv of_nat_less_iff nat_int vfs_then_world) blast
    have pos: "positioned s p fd i (pos + nat (max r 0)) s''"
      unfolding positioned_def
      by (rule exI [of _ w']) (simp add: w' w(3) vfs_then_twice elf_entry_def)
    show ?case
    proof (cases "pos + n \<le> length c")
      case True
      then have "r = int n" "b = take n (drop pos c)"
        using r buf by (auto simp: Let_def split: if_splits)
      then show ?thesis
        using True pos unfolding x by simp
    next
      case False
      then have "r \<noteq> int n"
        using r buf by (auto simp: Let_def split: if_splits)
      then show ?thesis
        using False pos unfolding x by auto
    qed
  qed (use buf in simp_all)
qed

lemma seek_exact:
  assumes s: "vfs_idle s" "0 \<le> fd" "fd < int MAX_OPEN_FILES" and s': "positioned s p fd i pos s'"
  shows "\<exists>s''. vfs_seek fd (int q) s' = Some (VFS_OK, s'') \<and> positioned s p fd i q s''"
proof -
  obtain w where w: "good w" "vol w = vol (vfs_world s)" "s' = vfs_then s fd (elf_entry p i pos) w"
    using s' by (auto simp: positioned_def)
  have at: "open_at s' fd p i (int pos)"
    using s by (simp add: open_at_def w(3) vfs_then_def elf_entry_def vfs_idle_def nat_less_iff)
  have "positioned s p fd i q (vfs_then s' fd \<lparr>of_filesystem = Some p, of_fileid = i, of_seek_position = int q\<rparr> (vfs_world s'))"
    unfolding positioned_def
    by (rule exI [of _ w]) (simp add: w vfs_then_twice elf_entry_def)
  with vfs_seek_file [OF _ at, of "int q"] s(1) w(3) show ?thesis
    by simp
qed

lemma elf_segments_scan:
  assumes s: "vfs_idle s" "F p = drv" "0 \<le> fd" "fd < int MAX_OPEN_FILES" and f: "vol (vfs_world s) f = Some (i, c)"
    and "positioned s p fd i (unat cp) s'" and "unat cp + 32 * n < 2147483648" and "length phdr = 32"
  shows "wp (elf_segments F fd phdr n cp st s') (\<lambda>(r, s''). (\<exists>q. positioned s p fd i q s'') \<and>
    r = (if unat cp + 32 * n \<le> length c \<or> n = 0
      then elf_scan (map (\<lambda>k. take 32 (drop (unat cp + 32 * k) c)) [0..<n]) st else None))"
  using assms(6-)
proof (induction n arbitrary: cp s' phdr st)
  case 0
  then show ?case
    by auto
next
  case (Suc n)
  have cp: "unat (cp + 32) = unat cp + 32" "sint (cp + 32) = int (unat cp + 32)"
  proof -
    show *: "unat (cp + 32) = unat cp + 32"
      using Suc.prems(2) by (subst unat_add_lem [THEN iffD1]) simp_all
    show "sint (cp + 32) = int (unat cp + 32)"
      using Suc.prems(2) by (subst sint_small) (simp_all only: *, simp)
  qed
  let ?hs = "\<lambda>m cp. map (\<lambda>k. take 32 (drop (cp + 32 * k) c)) [0..<m]"
  have hs: "?hs (Suc n) (unat cp) = take 32 (drop (unat cp) c) # ?hs n (unat cp + 32)"
    by (simp add: upt_conv_Cons map_Suc_upt [symmetric] comp_def algebra_simps del: upt_Suc)
  show ?case
    unfolding elf_segments.simps wp_bind
  proof (rule wp_mono [OF read_exact [where F = F and p = p, OF s f Suc.prems(1,3), unfolded of_nat_numeral]], goal_cases)
    case (2 x)
    obtain r h s'' where x: "x = (r, h, s'')" by (cases x)
    show ?case
    proof (cases "unat cp + 32 \<le> length c")
      case False
      then show ?thesis
        using 2 unfolding x by auto
    next
      case True
      then have h: "r = 32" "h = take 32 (drop (unat cp) c)" "positioned s p fd i (unat cp + 32) s''"
        using 2 unfolding x by auto
      let ?o = "if p_type h = PT_NULL \<or> p_type h = PT_NOTE \<or> p_type h = PT_PHDR then Some st
         else if p_type h = PT_LOAD then elf_load h st else None"
      show ?thesis
      proof (cases ?o)
        case None
        then show ?thesis
          using h unfolding x hs by (auto simp: hs simp del: upt_Suc)
      next
        case (Some st')
        obtain s3 where s3: "vfs_seek fd (int (unat cp + 32)) s'' = Some (VFS_OK, s3)"
            "positioned s p fd i (unat cp + 32) s3"
          using seek_exact [OF s(1,3,4) h(3)] by blast
        have IH: "wp (elf_segments F fd h n (cp + 32) st' s3) (\<lambda>(r, s''). (\<exists>q. positioned s p fd i q s'') \<and>
          r = (if unat cp + 32 + 32 * n \<le> length c \<or> n = 0 then elf_scan (?hs n (unat cp + 32)) st' else None))"
          using Suc.IH [of "cp + 32" s3 h st', unfolded cp] s3(2) Suc.prems(2) True h(2) by simp
        show ?thesis
          unfolding x split_conv using IH True
          by (simp only: h(1) Some option.case cp s3(1) hs elf_scan.simps h(2) [symmetric] wp_simps if_False simp_thms split_conv Option.bind.simps)
            (auto elim!: wp_mono)
      qed
    qed
  qed simp
qed

lemma get_take: "a + 4 \<le> n \<Longrightarrow> get32 (take n c) a = get32 c a" "a + 2 \<le> n \<Longrightarrow> get16 (take n c) a = get16 c a"
  by (simp_all add: get32_def get16_def)

lemma elf_parse_wp:
  assumes s: "vfs_idle s" "F p = drv" "good (vfs_world s)" and at: "open_at s fd p i 0"
    and f: "vol (vfs_world s) f = Some (i, c)"
    and "unat (e_phoff c) + 32 * unat (e_phnum c) < 2147483648" and "length hdr = 52" "length phdr = 32"
  shows "wp (elf_parse_header F hdr phdr fd s) (\<lambda>(r, s'). (\<exists>q. positioned s p fd i q s') \<and>
    r = (if elf_valid c then Some (elf_info_of (e_entry c) (elf_phdrs c)) else None))"
proof -
  have fd: "0 \<le> fd" "fd < int MAX_OPEN_FILES"
    using at by (simp_all add: open_at_def)
  have pos: "positioned s p fd i 0 s"
    by (rule positioned_refl [OF s(3)]) (simp add: at)
  show ?thesis
    unfolding elf_parse_header_def wp_bind
  proof (rule wp_mono [OF read_exact [where F = F and p = p, OF s(1,2) fd f pos assms(7), unfolded of_nat_numeral]], goal_cases)
    case (2 x)
    obtain r h s1 where x: "x = (r, h, s1)" by (cases x)
    show ?case
    proof (cases "52 \<le> length c")
      case False
      then show ?thesis
        using 2 unfolding x by (auto simp: elf_valid_def)
    next
      case True
      then have h: "r = 52" "h = take 52 c" and s1: "positioned s p fd i 52 s1"
        using 2 unfolding x by auto
      have flds: "get32 h 0 = get32 c 0" "h ! 4 = c ! 4" "h ! 5 = c ! 5" "h ! 6 = c ! 6" "e_machine h = e_machine c"
        "e_version h = e_version c" "e_type h = e_type c" "e_phnum h = e_phnum c" "e_phoff h = e_phoff c"
        "e_entry h = e_entry c"
        by (simp_all add: h(2) get_take e_machine_def e_version_def e_type_def e_phnum_def e_phoff_def e_entry_def)
      let ?ok = "get32 c 0 = ELF_MAGIC \<and> c ! 4 = 1 \<and> c ! 5 = 2 \<and> e_machine c = 8 \<and>
        e_version c = 1 \<and> c ! 6 = 1 \<and> e_type c = 2 \<and> e_phnum c \<noteq> 0"
      have chain: "(if (52 :: int) \<noteq> 52 then X else if get32 c 0 \<noteq> ELF_MAGIC then X else if c ! 4 \<noteq> 1 \<or> c ! 5 \<noteq> 2 \<or> e_machine c \<noteq> 8 then X
          else if e_version c \<noteq> 1 \<or> c ! 6 \<noteq> 1 then X else if e_type c \<noteq> 2 then X
          else if e_phnum c = 0 then X else Y) = (if ?ok then Y else X)" for X Y :: 'z
        unfolding simp_thms if_False by (rule if_chain)
      show ?thesis
      proof (cases ?ok)
        case False
        moreover have "\<not> elf_valid c"
          using False elf_valid_ident [of c] by argo
        ultimately show ?thesis
          using s1 unfolding x split_conv flds h(1) chain if_not_P [OF False] wp_Some by auto
      next
        case True
        have off: "sint (e_phoff c) = int (unat (e_phoff c))"
          using assms(6) by (intro sint_small) simp
        obtain s2 where s2: "vfs_seek fd (sint (e_phoff c)) s1 = Some (VFS_OK, s2)" "positioned s p fd i (unat (e_phoff c)) s2"
          using seek_exact [OF s(1) fd s1, of "unat (e_phoff c)"] unfolding off by blast
        have n: "unat (e_phnum c) \<noteq> 0"
          using True by (simp add: unat_eq_0)
        let ?e = "\<lparr>entry_point = e_entry c, ro_location = 0, ro_size = 0, ro_pages = 0, ro_vaddr = 0,
           rw_location = 0, rw_size = 0, rw_pages = 0, rw_vaddr = 0\<rparr>"
        note scan = elf_segments_scan [where F = F and p = p and phdr = phdr and st = "(False, False, ?e)",
          OF s(1,2) fd f s2(2) assms(6,8), folded elf_phdrs_def]
        show ?thesis
          unfolding x split_conv flds h(1) chain if_P [OF True] s2(1)
          apply (simp only: wp_simps split_conv)
          apply (rule wp_mono [OF scan])
          apply (clarify, intro conjI)
          subgoal by blast
          subgoal by (rule elf_scan_valid) (use \<open>52 \<le> length c\<close> True in simp_all)
          done
      qed
    qed
  qed simp
qed

lemma elf_parse_file:
  assumes s: "vfs_idle s" "good (vfs_world s)" "F p = drv" and at: "open_at s fd p i 0"
    and f: "vol (vfs_world s) f = Some (i, c)"
    and c: "unat (e_phoff c) + 32 * unat (e_phnum c) < 2147483648" and len: "length hdr = 52" "length phdr = 32"
  shows "wp (elf_parse_header F hdr phdr fd s) (\<lambda>(r, s').
    r = (if elf_valid c then Some (elf_info_of (e_entry c) (elf_phdrs c)) else None) \<and>
    vfs_idle s' \<and> good (vfs_world s') \<and> vol (vfs_world s') = vol (vfs_world s) \<and> (\<exists>q\<ge>0. open_at s' fd p i q))"
proof (rule wp_mono [OF elf_parse_wp [where F = F and p = p, OF s(1,3,2) at f c len]], clarify, goal_cases)
  case (1 r s' q)
  obtain w where w: "good w" "vol w = vol (vfs_world s)" "s' = vfs_then s fd (elf_entry p i q) w"
    using 1 by (auto simp: positioned_def)
  have "open_at s' fd p i (int q)"
    unfolding w(3) elf_entry_def by (rule vfs_then_open [OF s(1) at])
  then have "\<exists>q\<ge>0. open_at s' fd p i q"
    unfolding w(3) by (intro exI [of _ "int q"]) simp
  then show ?case
    using w s(1) by simp
qed

end

section \<open>Properties\<close>


text \<open>A program of one read-only segment of four bytes.\<close>

definition demo_elf :: mem where
  "demo_elf = [0x7f, 0x45, 0x4c, 0x46, 1, 2, 1, 0, 0, 0, 0, 0, 0, 0, 0, 0,
     0, 2, 0, 8, 0, 0, 0, 1, 0, 0, 0x10, 0, 0, 0, 0, 52, 0, 0, 0, 0, 0, 0, 0, 0,
     0, 52, 0, 32, 0, 1, 0, 0, 0, 0, 0, 0,
     0, 0, 0, 1, 0, 0, 0, 84, 0, 0, 0x10, 0, 0, 0, 0x10, 0, 0, 0, 0, 4, 0, 0, 0, 4, 0, 0, 0, 5, 0, 0, 0x10, 0,
     0x24, 2, 0, 7]"

lemma demo_elf_fields:
  "length demo_elf = 88" "e_phoff demo_elf = 52" "e_phnum demo_elf = 1" "e_entry demo_elf = 0x1000"
  by (simp_all add: demo_elf_def e_phoff_def e_phnum_def e_entry_def get32_def get16_def be_word_def)

lemma demo_elf_phdr:
  "elf_phdrs demo_elf = [take 32 (drop 52 demo_elf)]"
  "p_type (take 32 (drop 52 demo_elf)) = 1" "p_flags (take 32 (drop 52 demo_elf)) = 5"
  "p_offset (take 32 (drop 52 demo_elf)) = 84" "p_vaddr (take 32 (drop 52 demo_elf)) = 0x1000"
  "p_filesz (take 32 (drop 52 demo_elf)) = 4" "seg_pages (take 32 (drop 52 demo_elf)) = 1"
  by (simp_all add: elf_phdrs_def demo_elf_fields)
    (simp_all add: demo_elf_def p_type_def p_flags_def p_offset_def p_vaddr_def p_filesz_def p_memsz_def seg_pages_def
      get32_def be_word_def)

lemma demo_elf_valid: "elf_valid demo_elf"
  and demo_elf_info: "elf_info_of (e_entry demo_elf) (elf_phdrs demo_elf) =
    \<lparr>entry_point = 0x1000, ro_location = 84, ro_size = 4, ro_pages = 1, ro_vaddr = 0x1000,
     rw_location = 0, rw_size = 0, rw_pages = 0, rw_vaddr = 0\<rparr>"
proof -
  have loads: "elf_loads True (elf_phdrs demo_elf) = []" "elf_loads False (elf_phdrs demo_elf) = [take 32 (drop 52 demo_elf)]"
    unfolding demo_elf_phdr(1) elf_loads_def by (simp_all add: demo_elf_phdr)
  show "elf_valid demo_elf"
    unfolding elf_valid_def loads
    by (simp add: demo_elf_phdr demo_elf_fields)
      (simp add: demo_elf_def e_machine_def e_version_def e_type_def get32_def get16_def be_word_def)
  show "elf_info_of (e_entry demo_elf) (elf_phdrs demo_elf) =
    \<lparr>entry_point = 0x1000, ro_location = 84, ro_size = 4, ro_pages = 1, ro_vaddr = 0x1000,
     rw_location = 0, rw_size = 0, rw_pages = 0, rw_vaddr = 0\<rparr>"
    unfolding elf_info_of_def loads Let_def the_field_def by (simp add: demo_elf_phdr demo_elf_fields)
qed

text \<open>The program as an open file of the mounted one-file disk.\<close>

definition demo_open :: "(ram disk tfs \<times> kres) vfs" where
  "demo_open = vfs_then (one_file_mount demo_elf) 0
     \<lparr>of_filesystem = Some 1, of_fileid = 3, of_seek_position = 0\<rparr> (vfs_world (one_file_mount demo_elf))"


end
