(* ===== verification/Process.thy ===== *)
theory Process
  imports Elf Vm_Properties Sleepq
begin

text \<open>
  Userland processes, \<open>proc/process.c\<close>: the process table, starting a program, waiting for its
  end, and the list of open files of a process.

  The state puts the parts together that processes use: the threads, the page pool, the page
  tables (by the kernel address of their page), the physical memory of the other pages, and the
  virtual file system.  The process table is the memory from \<open>process_table\<close> on: its 128 rows and
  what the linker put behind them, which the loops up to \<open>i <= PROCESS_MAX_PROCESSES\<close> reach.
\<close>

abbreviation (input) PROCESS_MAX_PROCESSES :: nat where "PROCESS_MAX_PROCESSES \<equiv> 128"
abbreviation (input) PROCESS_MAX_FILELENGTH :: int where "PROCESS_MAX_FILELENGTH \<equiv> 256"
abbreviation (input) PROCESS_MAX_FILES :: u32 where "PROCESS_MAX_FILES \<equiv> 10"
abbreviation (input) PROCESS_PTABLE_FULL :: int where "PROCESS_PTABLE_FULL \<equiv> - 1"
abbreviation (input) PROCESS_ILLEGAL_JOIN :: int where "PROCESS_ILLEGAL_JOIN \<equiv> - 2"
abbreviation (input) USERLAND_STACK_TOP :: u32 where "USERLAND_STACK_TOP \<equiv> 0x7fffeffc"
abbreviation (input) CONFIG_USERLAND_STACK_SIZE :: nat where "CONFIG_USERLAND_STACK_SIZE \<equiv> 1"
abbreviation (input) PAGE_SIZE_MASK :: u32 where "PAGE_SIZE_MASK \<equiv> 0xfffff000"

datatype process_state = Process_Free | Process_Running | Process_Zombie

record process =
  pe_executable :: mem
  pe_state :: process_state
  pe_retval :: int
  pe_parent :: int
  pe_cFiles :: u32
  pe_files :: "int list"

record 'w machine =
  mc_kernel :: kernel
  mc_procs :: "process list"
  mc_pool :: pagepool
  mc_tables :: "u32 \<Rightarrow> pagetable"
  mc_ram :: "u32 \<Rightarrow> u8"
  mc_vfs :: "'w vfs"

section \<open>User memory\<close>

text \<open>
  The kernel reaches the memory of the running process through its virtual addresses: a miss in
  the TLB runs the handler, which writes the entry that translates the address, and a store to
  a page without the dirty bit ends in \<open>tlb_modified_exception\<close>.  Translations that are left in
  the TLB from before are not part of the model.  Addresses from \<open>0x80000000\<close> on belong
  to the kernel; an access to them through a user pointer has no result here.
\<close>

definition user_translate :: "pagetable option \<Rightarrow> u32 \<Rightarrow> (20 word \<times> bool) option" where
  "user_translate pt vaddr = do {
     guard (vaddr < 0x80000000);
     e \<leftarrow> tlb_load_exception \<lparr>badvaddr = vaddr, badvpn2 = drop_bit 13 vaddr, tes_asid = 0\<rparr> pt;
     tlb_lookup (ASID e) e vaddr
   }"

definition frame_addr :: "20 word \<Rightarrow> u32 \<Rightarrow> u32" where
  "frame_addr f vaddr = push_bit 12 (ucast f) OR (vaddr AND 0xfff)"

definition user_load :: "pagetable option \<Rightarrow> (u32 \<Rightarrow> u8) \<Rightarrow> u32 \<Rightarrow> u8 option" where
  "user_load pt ram vaddr = do { (f, _) \<leftarrow> user_translate pt vaddr; Some (ram (frame_addr f vaddr)) }"

definition user_store :: "pagetable option \<Rightarrow> u32 \<Rightarrow> u8 \<Rightarrow> (u32 \<Rightarrow> u8) \<Rightarrow> (u32 \<Rightarrow> u8) option" where
  "user_store pt vaddr b ram = do {
     (f, dirty) \<leftarrow> user_translate pt vaddr;
     guard dirty;
     Some (ram(frame_addr f vaddr := b))
   }"

text \<open>\<open>memoryset\<close> on user memory, and the part of a user buffer before its first byte that is not
  mapped: an access behind it stops the kernel.\<close>

definition user_memoryset :: "pagetable option \<Rightarrow> u32 \<Rightarrow> u8 \<Rightarrow> int \<Rightarrow> (u32 \<Rightarrow> u8) \<Rightarrow> (u32 \<Rightarrow> u8) option" where
  "user_memoryset pt target value sz =
     for_each [0..<nat sz] (\<lambda>i. user_store pt (target + of_nat i) value)"

fun user_bytes :: "pagetable option \<Rightarrow> (u32 \<Rightarrow> u8) \<Rightarrow> u32 \<Rightarrow> nat \<Rightarrow> mem" where
  "user_bytes pt ram vaddr 0 = []"
| "user_bytes pt ram vaddr (Suc n) =
     (case user_load pt ram vaddr of None \<Rightarrow> [] | Some b \<Rightarrow> b # user_bytes pt ram (vaddr + 1) n)"

text \<open>The stores into a user buffer by a routine that returned \<open>r\<close> and turned the bytes \<open>old\<close> into
  \<open>new\<close>.\<close>

definition user_put :: "pagetable option \<Rightarrow> u32 \<Rightarrow> int \<Rightarrow> mem \<Rightarrow> mem \<Rightarrow> (u32 \<Rightarrow> u8) \<Rightarrow> (u32 \<Rightarrow> u8) option" where
  "user_put pt vaddr r old new = for_each [0..<length new]
     (\<lambda>i ram. if int i < r \<or> new ! i \<noteq> old ! i then user_store pt (vaddr + of_nat i) (new ! i) ram else Some ram)"

definition user_vfs_read ::
    "(fs_ptr \<Rightarrow> 'w fs_t) \<Rightarrow> pagetable option \<Rightarrow> int \<Rightarrow> u32 \<Rightarrow> int \<Rightarrow> (u32 \<Rightarrow> u8) \<Rightarrow> 'w vfs \<Rightarrow>
      (int \<times> (u32 \<Rightarrow> u8) \<times> 'w vfs) option" where
  "user_vfs_read F pt file buffer bufsize ram s = (let old = user_bytes pt ram buffer (nat bufsize) in do {
     (r, new, s) \<leftarrow> vfs_read F file old bufsize s;
     ram \<leftarrow> user_put pt buffer r old new ram;
     Some (r, ram, s)
   })"

section \<open>The process table\<close>

definition get_proc :: "int \<Rightarrow> 'w machine \<Rightarrow> process option" where
  "get_proc pid m = (if 0 \<le> pid \<and> nat pid < length (mc_procs m) then Some (mc_procs m ! nat pid) else None)"

definition upd_proc :: "int \<Rightarrow> (process \<Rightarrow> process) \<Rightarrow> 'w machine \<Rightarrow> 'w machine option" where
  "upd_proc pid f m =
     (if 0 \<le> pid \<and> nat pid < length (mc_procs m)
      then Some (m\<lparr>mc_procs := (mc_procs m)[nat pid := f (mc_procs m ! nat pid)]\<rparr>) else None)"

definition process_reset :: "int \<Rightarrow> 'w machine \<Rightarrow> 'w machine option" where
  "process_reset pid = upd_proc pid (\<lambda>p. p\<lparr>pe_state := Process_Free, pe_executable := (pe_executable p)[0 := 0],
     pe_retval := 0, pe_cFiles := 0\<rparr>)"

definition process_init :: "'w machine \<Rightarrow> 'w machine option" where
  "process_init = for_each [0..<PROCESS_MAX_PROCESSES + 1] (\<lambda>i. process_reset (int i))"

text \<open>The value of \<open>i\<close> when the loop is left, by \<open>break\<close> or at its end.\<close>

fun alloc_find :: "nat list \<Rightarrow> 'w machine \<Rightarrow> (int \<times> 'w machine) option" where
  "alloc_find [] m = Some (int PROCESS_MAX_PROCESSES + 1, m)"
| "alloc_find (i # is) m = do {
     p \<leftarrow> get_proc (int i) m;
     if pe_state p = Process_Free then do {
       m \<leftarrow> upd_proc (int i) (pe_state_update (\<lambda>_. Process_Running)) m;
       Some (int i, m)
     }
     else alloc_find is m
   }"

definition alloc_process_id :: "'w machine \<Rightarrow> (int \<times> 'w machine) option" where
  "alloc_process_id m = alloc_find [0..<PROCESS_MAX_PROCESSES + 1] m"

definition process_get_current_process :: "nat \<Rightarrow> 'w machine \<Rightarrow> int option" where
  "process_get_current_process cpu m =
     do { e \<leftarrow> thread_get_current_thread_entry cpu (mc_kernel m); Some (t_process_id e) }"

definition process_get_current_process_entry :: "nat \<Rightarrow> 'w machine \<Rightarrow> process option" where
  "process_get_current_process_entry cpu m = do { pid \<leftarrow> process_get_current_process cpu m; get_proc pid m }"

text \<open>The page table of the running thread, \<open>None\<close> for \<open>NULL\<close>.\<close>

definition current_pagetable :: "nat \<Rightarrow> 'w machine \<Rightarrow> pagetable option" where
  "current_pagetable cpu m = do {
     e \<leftarrow> thread_get_current_thread_entry cpu (mc_kernel m);
     if t_pagetable e = 0 then None else Some (mc_tables m (t_pagetable e))
   }"

section \<open>Starting a program\<close>

text \<open>Taking a page for each of the virtual addresses and mapping it.\<close>

fun map_pages :: "u32 list \<Rightarrow> pagepool \<times> pagetable \<Rightarrow> (pagepool \<times> pagetable) option" where
  "map_pages [] s = Some s"
| "map_pages (vaddr # vaddrs) (pool, pt) = do {
     (phys_page, pool) \<leftarrow> pagepool_get_phys_page pool;
     guard (phys_page \<noteq> 0);
     pt \<leftarrow> vm_map pt phys_page vaddr 1;
     map_pages vaddrs (pool, pt)
   }"

definition page_list :: "u32 \<Rightarrow> u32 \<Rightarrow> u32 list" where
  "page_list vaddr pages = map (\<lambda>i. vaddr + of_nat i * 4096) [0..<nat (sint pages)]"

definition stack_list :: "u32 list" where
  "stack_list = map (\<lambda>i. (USERLAND_STACK_TOP AND PAGE_SIZE_MASK) - of_nat i * 4096) [0..<CONFIG_USERLAND_STACK_SIZE]"

definition stack_bottom :: u32 where
  "stack_bottom = (USERLAND_STACK_TOP AND PAGE_SIZE_MASK) - (of_nat CONFIG_USERLAND_STACK_SIZE - 1) * 4096"

text \<open>Copying a segment from the file, when it has a size.\<close>

definition load_segment ::
    "(fs_ptr \<Rightarrow> 'w fs_t) \<Rightarrow> pagetable option \<Rightarrow> int \<Rightarrow> u32 \<Rightarrow> u32 \<Rightarrow> u32 \<Rightarrow> (u32 \<Rightarrow> u8) \<times> 'w vfs \<Rightarrow>
      ((u32 \<Rightarrow> u8) \<times> 'w vfs) option" where
  "load_segment F pt file vaddr location sz = (\<lambda>(ram, s).
     if sz > 0 then do {
       guard (vaddr \<ge> 4096);
       (r, s) \<leftarrow> vfs_seek file (sint location) s;
       guard (r = VFS_OK);
       (r, ram, s) \<leftarrow> user_vfs_read F pt file vaddr (sint sz) ram s;
       guard (r = sint sz);
       Some (ram, s)
     }
     else Some (ram, s))"

text \<open>Mapping, clearing and loading the image of a program: the middle part of \<open>process_start\<close>.\<close>

definition process_load ::
    "(fs_ptr \<Rightarrow> 'w fs_t) \<Rightarrow> int \<Rightarrow> elf_info \<Rightarrow> pagepool \<times> pagetable \<Rightarrow> (u32 \<Rightarrow> u8) \<times> 'w vfs \<Rightarrow>
      ((pagepool \<times> pagetable) \<times> (u32 \<Rightarrow> u8) \<times> 'w vfs) option" where
  "process_load F file elf = (\<lambda>s (ram, vfs). do {
     s \<leftarrow> map_pages stack_list s;
     s \<leftarrow> map_pages (page_list (ro_vaddr elf) (ro_pages elf)) s;
     (pool, pt) \<leftarrow> map_pages (page_list (rw_vaddr elf) (rw_pages elf)) s;
     ram \<leftarrow> user_memoryset (Some pt) (ro_vaddr elf) 0 (sint (ro_pages elf * 4096)) ram;
     ram \<leftarrow> user_memoryset (Some pt) (rw_vaddr elf) 0 (sint (rw_pages elf * 4096)) ram;
     ram \<leftarrow> user_memoryset (Some pt) stack_bottom 0 (int CONFIG_USERLAND_STACK_SIZE * 4096) ram;
     (ram, vfs) \<leftarrow> load_segment F (Some pt) file (ro_vaddr elf) (ro_location elf) (ro_size elf) (ram, vfs);
     (ram, vfs) \<leftarrow> load_segment F (Some pt) file (rw_vaddr elf) (rw_location elf) (rw_size elf) (ram, vfs);
     pt \<leftarrow> for_each (page_list (ro_vaddr elf) (ro_pages elf)) (\<lambda>vaddr pt. vm_set_dirty pt vaddr 0) pt;
     Some ((pool, pt), ram, vfs)
   })"

text \<open>
  \<open>hdr\<close> and \<open>phdr\<close> are the bytes on the stack in the place of the headers that \<open>elf_parse_header\<close>
  reads, \<open>maxindex\<close> the value of \<open>_tlb_get_maxindex\<close>.  The result is the context that the thread
  goes to userland with.
\<close>

definition process_start ::
    "(fs_ptr \<Rightarrow> 'w fs_t) \<Rightarrow> mem \<Rightarrow> mem \<Rightarrow> u32 \<Rightarrow> nat \<Rightarrow> int \<Rightarrow> 'w machine \<Rightarrow> (cpu_context \<times> 'w machine) option" where
  "process_start F hdr phdr maxindex cpu pid m = do {
     me \<leftarrow> thread_get_current_thread cpu (mc_kernel m);
     k \<leftarrow> upd_thread me (t_process_id_update (\<lambda>_. pid)) (mc_kernel m);
     p \<leftarrow> get_proc pid m;
     my_entry \<leftarrow> get_thread me k;
     guard (t_pagetable my_entry = 0);
     (r, pool) \<leftarrow> vm_create_pagetable (word_of_int me) (mc_tables m) (mc_pool m);
     (table, pt) \<leftarrow> r;
     k \<leftarrow> upd_thread me (t_pagetable_update (\<lambda>_. table)) k;
     (file, vfs) \<leftarrow> vfs_open F (pe_executable p) (mc_vfs m);
     guard (file \<ge> 0);
     (r, vfs) \<leftarrow> elf_parse_header F hdr phdr file vfs;
     elf \<leftarrow> r;
     guard (entry_point elf \<ge> 4096);
     guard (ro_pages elf + rw_pages elf + of_nat CONFIG_USERLAND_STACK_SIZE \<le> maxindex + 1);
     ((pool, pt), ram, vfs) \<leftarrow> process_load F file elf (pool, pt) (mc_ram m, vfs);
     Some (thread_goto_userland \<lparr>cpu_regs = (replicate 29 0)[REGISTER_SP := USERLAND_STACK_TOP], c_hi = 0, c_lo = 0,
         c_pc = entry_point elf, c_status = 0, c_prev_context = 0\<rparr>,
       m\<lparr>mc_kernel := k, mc_pool := pool, mc_tables := (mc_tables m)(table := pt), mc_ram := ram, mc_vfs := vfs\<rparr>)
   }"

text \<open>\<open>stacks\<close>, \<open>finish\<close> and \<open>start\<close> are the addresses that \<open>thread_create\<close> and \<open>process_spawn\<close> use.\<close>

definition process_spawn ::
    "u32 \<Rightarrow> u32 \<Rightarrow> u32 \<Rightarrow> nat \<Rightarrow> mem \<Rightarrow> 'w machine \<Rightarrow> (int \<times> 'w machine) option" where
  "process_spawn stacks finish start cpu executable m = do {
     (pid, m) \<leftarrow> alloc_process_id m;
     if pid = int PROCESS_MAX_PROCESSES then Some (PROCESS_PTABLE_FULL, m)
     else do {
       p \<leftarrow> get_proc pid m;
       name \<leftarrow> stringcopy (pe_executable p) executable PROCESS_MAX_FILELENGTH;
       parent \<leftarrow> process_get_current_process cpu m;
       m \<leftarrow> upd_proc pid (\<lambda>p. p\<lparr>pe_executable := name, pe_parent := parent\<rparr>) m;
       (thread, k) \<leftarrow> thread_create stacks finish start (word_of_int pid) (mc_kernel m);
       k \<leftarrow> thread_run thread k;
       Some (pid, m\<lparr>mc_kernel := k\<rparr>)
     }
   }"

section \<open>The end of a process\<close>

text \<open>\<open>base\<close> is the address of \<open>process_table\<close>; the address of a row is what threads sleep on.\<close>

definition proc_addr :: "u32 \<Rightarrow> int \<Rightarrow> u32" where
  "proc_addr base pid = base + 312 * word_of_int pid"

text \<open>
  \<open>process_join\<close> up to its return or to \<open>thread_switch\<close> (no value yet), and the loop behind
  the switch.  The lock of the table and disabled interrupts make each one step.
\<close>

definition process_join_loop :: "u32 \<Rightarrow> nat \<Rightarrow> int \<Rightarrow> 'w machine \<Rightarrow> (int option \<times> 'w machine) option" where
  "process_join_loop base cpu pid m = do {
     p \<leftarrow> get_proc pid m;
     if pe_state p \<noteq> Process_Zombie then do {
       k \<leftarrow> sleepq_add cpu (proc_addr base pid) (mc_kernel m);
       Some (None, m\<lparr>mc_kernel := k\<rparr>)
     }
     else do { m \<leftarrow> process_reset pid m; Some (Some (pe_retval p), m) }
   }"

definition process_join :: "u32 \<Rightarrow> nat \<Rightarrow> int \<Rightarrow> 'w machine \<Rightarrow> (int option \<times> 'w machine) option" where
  "process_join base cpu pid m =
     (if pid < 0 \<or> pid \<ge> int PROCESS_MAX_PROCESSES then Some (Some PROCESS_ILLEGAL_JOIN, m)
      else do {
        p \<leftarrow> get_proc pid m;
        cur \<leftarrow> process_get_current_process cpu m;
        if pe_parent p \<noteq> cur then Some (Some PROCESS_ILLEGAL_JOIN, m)
        else process_join_loop base cpu pid m
      })"

text \<open>Up to the last switch of the thread.\<close>

definition process_finish :: "u32 \<Rightarrow> nat \<Rightarrow> int \<Rightarrow> 'w machine \<Rightarrow> 'w machine option" where
  "process_finish base cpu retval m = do {
     cur \<leftarrow> process_get_current_process cpu m;
     me \<leftarrow> thread_get_current_thread cpu (mc_kernel m);
     thread \<leftarrow> get_thread me (mc_kernel m);
     m \<leftarrow> upd_proc cur (\<lambda>p. p\<lparr>pe_state := Process_Zombie, pe_retval := retval\<rparr>) m;
     pool \<leftarrow> vm_destroy_pagetable (t_pagetable thread) (mc_pool m);
     k \<leftarrow> upd_thread me (t_pagetable_update (\<lambda>_. 0)) (mc_kernel m);
     k \<leftarrow> sleepq_wake_all (proc_addr base cur) k;
     k \<leftarrow> thread_finish cpu k;
     Some (m\<lparr>mc_kernel := k, mc_pool := pool\<rparr>)
   }"

section \<open>Open files\<close>

definition process_add_file :: "nat \<Rightarrow> int \<Rightarrow> 'w machine \<Rightarrow> (int \<times> 'w machine) option" where
  "process_add_file cpu fd m = do {
     pid \<leftarrow> process_get_current_process cpu m;
     if pid < 0 \<or> pid > int PROCESS_MAX_PROCESSES then Some (- 1, m)
     else do {
       p \<leftarrow> get_proc pid m;
       if pe_state p \<noteq> Process_Running \<or> pe_cFiles p \<ge> PROCESS_MAX_FILES then Some (- 1, m)
       else do {
         guard (unat (pe_cFiles p) < length (pe_files p));
         m \<leftarrow> upd_proc pid (\<lambda>p. p\<lparr>pe_files := (pe_files p)[unat (pe_cFiles p) := fd], pe_cFiles := pe_cFiles p + 1\<rparr>) m;
         Some (0, m)
       }
     }
   }"

text \<open>The loop of \<open>process_rem_file\<close>, over \<open>i\<close> and the count of files, and that of
  \<open>process_check_file\<close>.\<close>

function rem_loop :: "int \<Rightarrow> nat \<Rightarrow> nat \<Rightarrow> int list \<Rightarrow> (nat \<times> int list) option" where
  "rem_loop fd i n fs =
     (if i < n then
        if i < length fs then
          if fs ! i = fd then
            if n - 1 < length fs then rem_loop fd (i + 1) (n - 1) (fs[i := fs ! (n - 1)]) else None
          else rem_loop fd (i + 1) n fs
        else None
      else Some (n, fs))"
  by auto
termination
  by (relation "measure (\<lambda>(fd, i, n, fs). n - i)") auto

fun check_loop :: "int \<Rightarrow> int list \<Rightarrow> nat list \<Rightarrow> int \<Rightarrow> int option" where
  "check_loop fd fs [] found = Some found"
| "check_loop fd fs (i # is) found =
     (if i < length fs then check_loop fd fs is (if fs ! i = fd then 0 else found) else None)"

definition process_rem_file :: "nat \<Rightarrow> int \<Rightarrow> 'w machine \<Rightarrow> (int \<times> 'w machine) option" where
  "process_rem_file cpu fd m = do {
     pid \<leftarrow> process_get_current_process cpu m;
     if pid < 0 \<or> pid > int PROCESS_MAX_PROCESSES then Some (- 1, m)
     else do {
       p \<leftarrow> get_proc pid m;
       if pe_state p \<noteq> Process_Running then Some (- 1, m)
       else do {
         (n, fs) \<leftarrow> rem_loop fd 0 (unat (pe_cFiles p)) (pe_files p);
         m \<leftarrow> upd_proc pid (\<lambda>p. p\<lparr>pe_cFiles := of_nat n, pe_files := fs\<rparr>) m;
         Some (0, m)
       }
     }
   }"

definition process_check_file :: "nat \<Rightarrow> int \<Rightarrow> 'w machine \<Rightarrow> int option" where
  "process_check_file cpu fd m = do {
     pid \<leftarrow> process_get_current_process cpu m;
     if pid < 0 \<or> pid > int PROCESS_MAX_PROCESSES then Some (- 1)
     else do {
       p \<leftarrow> get_proc pid m;
       if pe_state p \<noteq> Process_Running then Some (- 1)
       else check_loop fd (pe_files p) [0..<unat (pe_cFiles p)] (- 1)
     }
   }"

end
