(* ===== verification/Syscall.thy ===== *)
theory Syscall
  imports Process Device
begin

text \<open>
  System calls and exceptions, \<open>proc/syscall.c\<close>, \<open>proc/exception.c\<close> and \<open>kernel/exception.c\<close>.  The
  user's registers are in the context that \<open>user_context\<close> of the thread points at.  A user
  pointer is an address that the kernel reads and writes through the page table of the thread; a string
  is the memory from the pointer on, as far as it is mapped.
\<close>

abbreviation (input) SYSCALL_HALT :: u32 where "SYSCALL_HALT \<equiv> 0x001"
abbreviation (input) SYSCALL_EXEC :: u32 where "SYSCALL_EXEC \<equiv> 0x101"
abbreviation (input) SYSCALL_EXIT :: u32 where "SYSCALL_EXIT \<equiv> 0x102"
abbreviation (input) SYSCALL_JOIN :: u32 where "SYSCALL_JOIN \<equiv> 0x103"
abbreviation (input) SYSCALL_OPEN :: u32 where "SYSCALL_OPEN \<equiv> 0x201"
abbreviation (input) SYSCALL_CLOSE :: u32 where "SYSCALL_CLOSE \<equiv> 0x202"
abbreviation (input) SYSCALL_SEEK :: u32 where "SYSCALL_SEEK \<equiv> 0x203"
abbreviation (input) SYSCALL_READ :: u32 where "SYSCALL_READ \<equiv> 0x204"
abbreviation (input) SYSCALL_WRITE :: u32 where "SYSCALL_WRITE \<equiv> 0x205"
abbreviation (input) SYSCALL_CREATE :: u32 where "SYSCALL_CREATE \<equiv> 0x206"
abbreviation (input) SYSCALL_DELETE :: u32 where "SYSCALL_DELETE \<equiv> 0x207"
abbreviation (input) SYSCALL_FILECOUNT :: u32 where "SYSCALL_FILECOUNT \<equiv> 0x20A"
abbreviation (input) SYSCALL_FILE :: u32 where "SYSCALL_FILE \<equiv> 0x20B"
abbreviation (input) FILEHANDLE_STDIN :: u32 where "FILEHANDLE_STDIN \<equiv> 0"
abbreviation (input) FILEHANDLE_STDOUT :: u32 where "FILEHANDLE_STDOUT \<equiv> 1"
abbreviation (input) FILEHANDLE_STDERR :: u32 where "FILEHANDLE_STDERR \<equiv> 2"
abbreviation (input) TYPECODE_TTY :: u32 where "TYPECODE_TTY \<equiv> 0x201"
abbreviation (input) MIPS_REGISTER_V0 :: nat where "MIPS_REGISTER_V0 \<equiv> 1"
abbreviation (input) MIPS_REGISTER_A0 :: nat where "MIPS_REGISTER_A0 \<equiv> 3"
abbreviation (input) MIPS_REGISTER_A1 :: nat where "MIPS_REGISTER_A1 \<equiv> 4"
abbreviation (input) MIPS_REGISTER_A2 :: nat where "MIPS_REGISTER_A2 \<equiv> 5"
abbreviation (input) MIPS_REGISTER_A3 :: nat where "MIPS_REGISTER_A3 \<equiv> 6"

text \<open>
  A character device, the struct of function pointers of \<open>drivers/gcd.h\<close>, over the state \<open>'m\<close> of
  the machine, which other threads may change while a reader or writer waits.  A read gets the
  buffer and returns it with what it put there.
\<close>

record 'm gcd =
  gcd_read :: "mem \<Rightarrow> int \<Rightarrow> 'm \<Rightarrow> (int \<times> mem \<times> 'm) option"
  gcd_write :: "mem \<Rightarrow> int \<Rightarrow> 'm \<Rightarrow> (int \<times> 'm) option"

text \<open>
  What the kernel is linked with and has found at start-up: the function pointers of the file
  systems, the addresses of the thread stacks, of \<open>thread_finish\<close>, of \<open>process_start\<close> and of
  the process table, the device table, and the character device behind a pointer.
\<close>

record ('w, 'v) system =
  sys_fs :: "fs_ptr \<Rightarrow> 'w fs_t"
  sys_stacks :: u32
  sys_thread_finish :: u32
  sys_process_start :: u32
  sys_process_table :: u32
  sys_devices :: "'v device list"
  sys_gcd :: "'v \<Rightarrow> 'w machine gcd"

definition console :: "('w, 'v) system \<Rightarrow> 'w machine gcd option" where
  "console S = do {
     dev \<leftarrow> device_get (sys_devices S) TYPECODE_TTY 0;
     g \<leftarrow> dev_generic dev;
     Some (sys_gcd S g)
   }"

definition user_buffer :: "nat \<Rightarrow> u32 \<Rightarrow> nat \<Rightarrow> 'w machine \<Rightarrow> mem" where
  "user_buffer cpu p n m = user_bytes (current_pagetable cpu m) (mc_ram m) p n"

text \<open>A user string is read up to its terminator; the routines that take one read at most 512 bytes.\<close>

definition user_string :: "nat \<Rightarrow> u32 \<Rightarrow> 'w machine \<Rightarrow> mem" where
  "user_string cpu p m = user_buffer cpu p 512 m"

text \<open>Runs an operation of the virtual file system on the machine.\<close>

definition on_vfs :: "('w vfs \<Rightarrow> (int \<times> 'w vfs) option) \<Rightarrow> 'w machine \<Rightarrow> (int \<times> 'w machine) option" where
  "on_vfs f m = do { (r, s) \<leftarrow> f (mc_vfs m); Some (r, m\<lparr>mc_vfs := s\<rparr>) }"

section \<open>The system calls\<close>

definition syscall_exit :: "('w, 'v) system \<Rightarrow> nat \<Rightarrow> int \<Rightarrow> 'w machine \<Rightarrow> 'w machine option" where
  "syscall_exit S cpu retval m = process_finish (sys_process_table S) cpu retval m"

definition syscall_write :: "('w, 'v) system \<Rightarrow> nat \<Rightarrow> u32 \<Rightarrow> u32 \<Rightarrow> int \<Rightarrow> 'w machine \<Rightarrow> (int \<times> 'w machine) option" where
  "syscall_write S cpu fd s len m =
     (if fd = FILEHANDLE_STDOUT \<or> fd = FILEHANDLE_STDERR then do {
        gcd \<leftarrow> console S;
        gcd_write gcd (user_buffer cpu s (nat len) m) len m
      }
      else do {
        own \<leftarrow> (if fd > 2 then process_check_file cpu (sint fd) m else Some (- 1));
        if own = 0 then on_vfs (vfs_write (sys_fs S) (sint (fd - 3)) (user_buffer cpu s (nat len) m) len) m
        else Some (VFS_NOT_OPEN, m)
      })"

definition syscall_read :: "('w, 'v) system \<Rightarrow> nat \<Rightarrow> u32 \<Rightarrow> u32 \<Rightarrow> int \<Rightarrow> 'w machine \<Rightarrow> (int \<times> 'w machine) option" where
  "syscall_read S cpu fd s len m =
     (if fd = FILEHANDLE_STDIN then do {
        gcd \<leftarrow> console S;
        (r, new, m') \<leftarrow> gcd_read gcd (user_buffer cpu s (nat len) m) len m;
        ram \<leftarrow> user_put (current_pagetable cpu m) s r (user_buffer cpu s (nat len) m) new (mc_ram m');
        Some (r, m'\<lparr>mc_ram := ram\<rparr>)
      }
      else do {
        own \<leftarrow> (if fd > 2 then process_check_file cpu (sint fd) m else Some (- 1));
        if own = 0 then do {
          (r, ram, v) \<leftarrow> user_vfs_read (sys_fs S) (current_pagetable cpu m) (sint (fd - 3)) s len (mc_ram m) (mc_vfs m);
          Some (r, m\<lparr>mc_ram := ram, mc_vfs := v\<rparr>)
        }
        else Some (VFS_NOT_OPEN, m)
      })"

definition syscall_join :: "('w, 'v) system \<Rightarrow> nat \<Rightarrow> int \<Rightarrow> 'w machine \<Rightarrow> (int option \<times> 'w machine) option" where
  "syscall_join S cpu pid m = process_join (sys_process_table S) cpu pid m"

definition syscall_exec :: "('w, 'v) system \<Rightarrow> nat \<Rightarrow> u32 \<Rightarrow> 'w machine \<Rightarrow> (int \<times> 'w machine) option" where
  "syscall_exec S cpu filename m =
     process_spawn (sys_stacks S) (sys_thread_finish S) (sys_process_start S) cpu (user_string cpu filename m) m"

definition syscall_open :: "('w, 'v) system \<Rightarrow> nat \<Rightarrow> u32 \<Rightarrow> 'w machine \<Rightarrow> (int \<times> 'w machine) option" where
  "syscall_open S cpu filename m = do {
     (fd, m) \<leftarrow> on_vfs (vfs_open (sys_fs S) (user_string cpu filename m)) m;
     if fd \<ge> 0 then do {
       (r, m) \<leftarrow> process_add_file cpu (fd + 3) m;
       if r < 0 then do {
         (_, m) \<leftarrow> on_vfs (vfs_close (sys_fs S) (fd - 3)) m;
         Some (- 1, m)
       }
       else Some (fd + 3, m)
     }
     else Some (fd, m)
   }"

definition syscall_close :: "('w, 'v) system \<Rightarrow> nat \<Rightarrow> int \<Rightarrow> 'w machine \<Rightarrow> (int \<times> 'w machine) option" where
  "syscall_close S cpu fd m =
     (if fd > 2 then do {
        (r, m) \<leftarrow> process_rem_file cpu fd m;
        if r < 0 then Some (- 1, m) else on_vfs (vfs_close (sys_fs S) (fd - 3)) m
      }
      else Some (- 10, m))"

definition syscall_create :: "('w, 'v) system \<Rightarrow> nat \<Rightarrow> u32 \<Rightarrow> int \<Rightarrow> 'w machine \<Rightarrow> (int \<times> 'w machine) option" where
  "syscall_create S cpu filename sz m =
     (if sz < 0 then Some (- 1, m) else on_vfs (vfs_create (sys_fs S) (user_string cpu filename m) sz) m)"

definition syscall_delete :: "('w, 'v) system \<Rightarrow> nat \<Rightarrow> u32 \<Rightarrow> 'w machine \<Rightarrow> (int \<times> 'w machine) option" where
  "syscall_delete S cpu filename m = on_vfs (vfs_remove (sys_fs S) (user_string cpu filename m)) m"

definition syscall_seek :: "int \<Rightarrow> int \<Rightarrow> 'w machine \<Rightarrow> (int \<times> 'w machine) option" where
  "syscall_seek fd offset m = (if fd > 2 then on_vfs (vfs_seek (fd - 3) offset) m else Some (- 11, m))"

definition syscall_filecount :: "('w, 'v) system \<Rightarrow> nat \<Rightarrow> u32 \<Rightarrow> 'w machine \<Rightarrow> (int \<times> 'w machine) option" where
  "syscall_filecount S cpu path m = on_vfs (vfs_filecount (sys_fs S) (user_string cpu path m)) m"

text \<open>The drivers copy a name of at most \<open>VFS_NAME_LENGTH\<close> bytes into the buffer.\<close>

definition syscall_file :: "('w, 'v) system \<Rightarrow> nat \<Rightarrow> u32 \<Rightarrow> int \<Rightarrow> u32 \<Rightarrow> 'w machine \<Rightarrow> (int \<times> 'w machine) option" where
  "syscall_file S cpu path idx buffer m = (let old = user_buffer cpu buffer 16 m in do {
     (r, new, v) \<leftarrow> vfs_file (sys_fs S) (user_string cpu path m) idx old (mc_vfs m);
     ram \<leftarrow> user_put (current_pagetable cpu m) buffer 0 old new (mc_ram m);
     Some (r, m\<lparr>mc_ram := ram, mc_vfs := v\<rparr>)
   })"

section \<open>Dispatch\<close>

text \<open>
  How a system call ends: back to the user, not at all (\<open>exit\<close>), asleep in \<open>process_join\<close> (which goes on with
  \<open>process_join_loop\<close> when it is woken), or in \<open>halt_kernel\<close>.
\<close>

datatype syscall_end = To_User | Gone | Waiting | Halting

text \<open>The return value into register v0, and the step behind the system call instruction.\<close>

definition upd_context :: "u32 \<Rightarrow> (cpu_context \<Rightarrow> cpu_context) \<Rightarrow> 'w machine \<Rightarrow> 'w machine" where
  "upd_context p f m = m\<lparr>mc_kernel := (mc_kernel m)\<lparr>contexts := (contexts (mc_kernel m))(p := f (contexts (mc_kernel m) p))\<rparr>\<rparr>"

definition next_instruction :: "u32 \<Rightarrow> 'w machine \<Rightarrow> 'w machine" where
  "next_instruction user_context = upd_context user_context (c_pc_update (\<lambda>pc. pc + 4))"

definition syscall_return :: "u32 \<Rightarrow> int \<times> 'w machine \<Rightarrow> syscall_end \<times> 'w machine" where
  "syscall_return user_context = (\<lambda>(v, m). (To_User, next_instruction user_context
     (upd_context user_context (cpu_regs_update (\<lambda>rs. rs[MIPS_REGISTER_V0 := word_of_int v])) m)))"

definition syscall_handle :: "('w, 'v) system \<Rightarrow> nat \<Rightarrow> u32 \<Rightarrow> 'w machine \<Rightarrow> (syscall_end \<times> 'w machine) option" where
  "syscall_handle S cpu user_context m = (let
       regs = cpu_regs (contexts (mc_kernel m) user_context);
       A0 = regs ! MIPS_REGISTER_A0; A1 = regs ! MIPS_REGISTER_A1;
       A2 = regs ! MIPS_REGISTER_A2; A3 = regs ! MIPS_REGISTER_A3;
       ret = map_option (syscall_return user_context)
     in
     if A0 = SYSCALL_HALT then Some (Halting, m)
     else if A0 = SYSCALL_EXIT then map_option (Pair Gone) (syscall_exit S cpu (sint A1) m)
     else if A0 = SYSCALL_WRITE then ret (syscall_write S cpu A1 A2 (sint A3) m)
     else if A0 = SYSCALL_READ then ret (syscall_read S cpu A1 A2 (sint A3) m)
     else if A0 = SYSCALL_JOIN then do {
       (v, m) \<leftarrow> syscall_join S cpu (sint A1) m;
       Some (case v of None \<Rightarrow> (Waiting, m) | Some v \<Rightarrow> syscall_return user_context (v, m))
     }
     else if A0 = SYSCALL_EXEC then ret (syscall_exec S cpu A1 m)
     else if A0 = SYSCALL_OPEN then ret (syscall_open S cpu A1 m)
     else if A0 = SYSCALL_CLOSE then ret (syscall_close S cpu (sint A1) m)
     else if A0 = SYSCALL_CREATE then ret (syscall_create S cpu A1 (sint A2) m)
     else if A0 = SYSCALL_DELETE then ret (syscall_delete S cpu A1 m)
     else if A0 = SYSCALL_SEEK then ret (syscall_seek (sint A1) (sint A2) m)
     else if A0 = SYSCALL_FILECOUNT then ret (syscall_filecount S cpu A1 m)
     else if A0 = SYSCALL_FILE then ret (syscall_file S cpu A1 (sint A2) A3 m)
     else None)"

section \<open>Exceptions\<close>

abbreviation (input) EXCEPTION_TLBM :: int where "EXCEPTION_TLBM \<equiv> 1"
abbreviation (input) EXCEPTION_TLBL :: int where "EXCEPTION_TLBL \<equiv> 2"
abbreviation (input) EXCEPTION_TLBS :: int where "EXCEPTION_TLBS \<equiv> 3"
abbreviation (input) EXCEPTION_ADDRL :: int where "EXCEPTION_ADDRL \<equiv> 4"
abbreviation (input) EXCEPTION_SYSCALL :: int where "EXCEPTION_SYSCALL \<equiv> 8"

text \<open>
  What an exception does: an entry for the TLB, nothing, or a system call.  \<open>tes\<close> is what
  \<open>_tlb_get_exception_state\<close> reads.  Every exception that is not listed panics.
\<close>

datatype handled = Tlb_Entry tlb_entry | Ignored | Called syscall_end

definition user_exception_handle ::
    "('w, 'v) system \<Rightarrow> nat \<Rightarrow> tlb_exception_state \<Rightarrow> int \<Rightarrow> 'w machine \<Rightarrow> (handled \<times> 'w machine) option" where
  "user_exception_handle S cpu tes exception m = do {
     me \<leftarrow> thread_get_current_thread cpu (mc_kernel m);
     k \<leftarrow> upd_thread me (\<lambda>e. e\<lparr>t_user_context := t_context e\<rparr>) (mc_kernel m);
     let m = m\<lparr>mc_kernel := k\<rparr> in do {
       my_entry \<leftarrow> get_thread me k;
       if exception = EXCEPTION_TLBM then do { e \<leftarrow> tlb_modified_exception; Some (Tlb_Entry e, m) }
       else if exception = EXCEPTION_TLBL then do {
         e \<leftarrow> tlb_load_exception tes (current_pagetable cpu m);
         Some (Tlb_Entry e, m)
       }
       else if exception = EXCEPTION_TLBS then do {
         e \<leftarrow> tlb_store_exception tes (current_pagetable cpu m);
         Some (Tlb_Entry e, m)
       }
       else if exception = EXCEPTION_SYSCALL then do {
         (r, m) \<leftarrow> syscall_handle S cpu (t_user_context my_entry) m;
         Some (Called r, m)
       }
       else None
     }
   }"

definition kernel_exception_handle :: "nat \<Rightarrow> tlb_exception_state \<Rightarrow> int \<Rightarrow> 'w machine \<Rightarrow> handled option" where
  "kernel_exception_handle cpu tes exception m =
     (if exception = EXCEPTION_TLBM then do { e \<leftarrow> tlb_modified_exception; Some (Tlb_Entry e) }
      else if exception = EXCEPTION_TLBL then map_option Tlb_Entry (tlb_load_exception tes (current_pagetable cpu m))
      else if exception = EXCEPTION_TLBS then map_option Tlb_Entry (tlb_store_exception tes (current_pagetable cpu m))
      else if exception = EXCEPTION_ADDRL then Some Ignored
      else None)"

end
