(* ===== verification/Process_Image.thy ===== *)
theory Process_Image
  imports Process Kernel_Properties
begin

text \<open>
  What \<open>process_start\<close> builds: the memory of a program, seen through its page table, is the image
  that its file describes.  User memory is a partial map from addresses to bytes (\<open>um\<close>); the
  pages come from the page pool and no frame is shared.
\<close>

section \<open>User memory through a page table\<close>

lemma user_translate_eq:
  assumes "pt_ok pt"
  shows "user_translate (Some pt) v = (if v < 0x80000000 then pt_map pt (vpn v) else None)"
proof -
  let ?tes = "\<lparr>badvaddr = v, badvpn2 = drop_bit 13 v, tes_asid = 0\<rparr>"
  have e: "case tlb_load_exception ?tes (Some pt) of
      None \<Rightarrow> pt_map pt (vpn v) = None
    | Some e \<Rightarrow> \<forall>vaddr asid. tlb_lookup asid e vaddr =
        (if asid = ucast (pt_ASID pt) \<and> vpn vaddr div 2 = vpn v div 2 then pt_map pt (vpn vaddr) else None)"
    using tlb_store_cases [OF assms, of ?tes] by (auto simp: tlb_load_exception_def split: option.splits)
  show ?thesis
  proof (cases "tlb_load_exception ?tes (Some pt)")
    case None
    then show ?thesis
      using e by (simp add: user_translate_def guard_def)
  next
    case (Some en)
    have "tlb_lookup (ASID en) en v = pt_map pt (vpn v)"
    proof (cases "pt_map pt (vpn v)")
      case None
      then show ?thesis
        using e Some by simp
    next
      case (Some x)
      have "tlb_lookup (ucast (pt_ASID pt)) en v = Some x"
        using e \<open>tlb_load_exception _ _ = _\<close> Some by simp
      then have "tlb_lookup (ASID en) en v = Some x"
        by (auto simp: tlb_lookup_def split: if_splits)
      with Some show ?thesis by simp
    qed
    then show ?thesis
      by (simp add: user_translate_def guard_def Some)
  qed
qed

lemma frame_addr_take: "frame_addr f v = push_bit 12 (ucast f) OR take_bit 12 v"
proof -
  have "(0xfff :: u32) = mask 12"
    by (simp add: mask_eq_exp_minus_1)
  then show ?thesis
    by (simp only: frame_addr_def take_bit_eq_mask)
qed

lemma unat_ucast_frame [simp]: "unat (ucast (f :: 20 word) :: u32) = unat f"
proof -
  have "unat f < 2 ^ 32"
    using unsigned_less [where 'a = nat, of f] by simp
  then show ?thesis
    by (simp add: unsigned_ucast_eq take_bit_nat_eq_self)
qed

lemma frame_addr_parts:
  "drop_bit 12 (frame_addr f v) = ucast f" "take_bit 12 (frame_addr f v) = take_bit 12 v"
proof -
  have high: "\<not> bit f n" if "20 \<le> n" for n
    using bit_imp_le_length [of f n] that by auto
  show "drop_bit 12 (frame_addr f v) = ucast f"
    by (rule bit_word_eqI) (auto simp: frame_addr_take bit_simps dest: bit_imp_le_length intro: high)
  show "take_bit 12 (frame_addr f v) = take_bit 12 v"
    by (rule bit_word_eqI) (auto simp: frame_addr_take bit_simps)
qed

lemma frame_addr_eq_iff: "frame_addr f v = frame_addr g w \<longleftrightarrow> f = g \<and> take_bit 12 v = take_bit 12 w"
proof
  assume eq: "frame_addr f v = frame_addr g w"
  have "(ucast f :: u32) = ucast g"
    using frame_addr_parts(1) [of f v] frame_addr_parts(1) [of g w] eq by simp
  then have "unat f = unat g"
    by (metis unat_ucast_frame)
  then show "f = g \<and> take_bit 12 v = take_bit 12 w"
    using frame_addr_parts(2) [of f v] frame_addr_parts(2) [of g w] eq by (simp add: word_unat_eq_iff)
qed (simp add: frame_addr_take)

text \<open>An address is its page and its offset.\<close>

lemma vpn_offset: "unat v = 4096 * vpn v + unat (take_bit 12 v)"
  by (simp add: vpn_def drop_bit_eq_div unat_div_distrib take_bit_eq_mod unat_mod_distrib)

lemma addr_eq_iff: "v = w \<longleftrightarrow> vpn v = vpn w \<and> take_bit 12 v = take_bit 12 w"
proof
  assume "vpn v = vpn w \<and> take_bit 12 v = take_bit 12 w"
  then have "unat v = unat w"
    using vpn_offset [of v] vpn_offset [of w] by simp
  then show "v = w"
    by (simp add: word_unat_eq_iff)
qed simp

text \<open>A map from pages to frames that shares no frame.\<close>

definition frames_inj :: "page_map \<Rightarrow> bool" where
  "frames_inj pm \<longleftrightarrow> (\<forall>k l f d e. pm k = Some (f, d) \<longrightarrow> pm l = Some (f, e) \<longrightarrow> k = l)"

definition pm_frames :: "page_map \<Rightarrow> nat set" where
  "pm_frames pm = {unat f | f k d. pm k = Some (f, d)}"

text \<open>The user memory: its content and what of it can be written.\<close>

definition um :: "pagetable \<Rightarrow> (u32 \<Rightarrow> u8) \<Rightarrow> u32 \<Rightarrow> u8 option" where
  "um pt ram v = user_load (Some pt) ram v"

definition writable :: "pagetable \<Rightarrow> u32 \<Rightarrow> bool" where
  "writable pt v \<longleftrightarrow> v < 0x80000000 \<and> (\<exists>f. pt_map pt (vpn v) = Some (f, True))"

lemma um_eq: "pt_ok pt \<Longrightarrow> um pt ram v =
    (if v < 0x80000000 then map_option (\<lambda>(f, d). ram (frame_addr f v)) (pt_map pt (vpn v)) else None)"
  by (cases "pt_map pt (vpn v)") (auto simp: um_def user_load_def user_translate_eq)

lemma store_um:
  assumes pt: "pt_ok pt" "frames_inj (pt_map pt)" and v: "writable pt v"
  shows "\<exists>ram'. user_store (Some pt) v b ram = Some ram' \<and> um pt ram' = (um pt ram)(v \<mapsto> b) \<and>
    (\<forall>a. unat (drop_bit 12 a) \<notin> pm_frames (pt_map pt) \<longrightarrow> ram' a = ram a)"
proof -
  obtain f where f: "v < 0x80000000" "pt_map pt (vpn v) = Some (f, True)"
    using v by (auto simp: writable_def)
  let ?ram = "ram(frame_addr f v := b)"
  have run: "user_store (Some pt) v b ram = Some ?ram"
    by (simp add: user_store_def user_translate_eq [OF pt(1)] f guard_def)
  have "um pt ?ram w = ((um pt ram)(v \<mapsto> b)) w" for w
  proof (cases "w < 0x80000000 \<and> pt_map pt (vpn w) \<noteq> None")
    case False
    then have "um pt r w = None" for r
      unfolding um_eq [OF pt(1)] by (cases "pt_map pt (vpn w)") auto
    moreover have "w \<noteq> v"
      using False f by auto
    ultimately show ?thesis
      by simp
  next
    case True
    then obtain g d where g: "pt_map pt (vpn w) = Some (g, d)" by auto
    have "frame_addr g w = frame_addr f v \<longleftrightarrow> w = v"
      using pt(2) f(2) g unfolding frame_addr_eq_iff addr_eq_iff [of w v] frames_inj_def by auto
    then show ?thesis
      using True g f by (auto simp: um_eq [OF pt(1)])
  qed
  moreover have "?ram a = ram a" if "unat (drop_bit 12 a) \<notin> pm_frames (pt_map pt)" for a
    using that f(2) frame_addr_parts(1) [of f v] by (auto simp: pm_frames_def)
  ultimately show ?thesis
    using run by blast
qed

text \<open>Storing some of the bytes of a stretch of memory.\<close>

lemma unat_add_small: "unat (v :: u32) + n \<le> 2147483648 \<Longrightarrow> i < n \<Longrightarrow> unat (v + of_nat i) = unat v + i"
  by (simp add: unat_word_ariths unat_of_nat)

lemma store_loop:
  assumes pt: "pt_ok pt" "frames_inj (pt_map pt)" and n: "unat v + n \<le> 2147483648"
    and w: "\<And>i. i < n \<Longrightarrow> sel i \<Longrightarrow> writable pt (v + of_nat i)"
  shows "wp (for_each [0..<n] (\<lambda>i ram. if sel i then user_store (Some pt) (v + of_nat i) (g i) ram else Some ram) ram)
    (\<lambda>ram'. um pt ram' = (\<lambda>a. if unat v \<le> unat a \<and> unat a < unat v + n \<and> sel (unat a - unat v)
        then Some (g (unat a - unat v)) else um pt ram a) \<and>
      (\<forall>a. unat (drop_bit 12 a) \<notin> pm_frames (pt_map pt) \<longrightarrow> ram' a = ram a))"
proof -
  let ?P = "\<lambda>k ram'. um pt ram' = (\<lambda>a. if unat v \<le> unat a \<and> unat a < unat v + k \<and> sel (unat a - unat v)
        then Some (g (unat a - unat v)) else um pt ram a) \<and>
      (\<forall>a. unat (drop_bit 12 a) \<notin> pm_frames (pt_map pt) \<longrightarrow> ram' a = ram a)"
  show ?thesis
  proof (rule wp_for_each_upt [where P = ?P])
    fix k ram1 assume k: "k < n" and P: "?P k ram1"
    have a: "unat (v + of_nat k) = unat v + k"
      by (rule unat_add_small [OF n k])
    have last: "a = v + of_nat k \<longleftrightarrow> unat a = unat v + k" for a
      by (simp add: word_unat_eq_iff a)
    show "wp (if sel k then user_store (Some pt) (v + of_nat k) (g k) ram1 else Some ram1) (?P (Suc k))"
    proof (cases "sel k")
      case False
      then have "unat a < unat v + Suc k \<and> sel (unat a - unat v) \<longleftrightarrow> unat a < unat v + k \<and> sel (unat a - unat v)"
        if "unat v \<le> unat a" for a :: u32
        using that less_Suc_eq by (metis add_Suc_right add_diff_cancel_left')
      then have "?P (Suc k) ram1"
        using P by (simp add: fun_eq_iff cong: conj_cong)
      then show ?thesis
        using False by simp
    next
      case True
      obtain ram2 where r: "user_store (Some pt) (v + of_nat k) (g k) ram1 = Some ram2"
          "um pt ram2 = (um pt ram1)(v + of_nat k \<mapsto> g k)"
          "\<forall>a. unat (drop_bit 12 a) \<notin> pm_frames (pt_map pt) \<longrightarrow> ram2 a = ram1 a"
        using store_um [OF pt w [OF k True]] by blast
      have "?P (Suc k) ram2"
        using P r(2,3) True by (auto simp: fun_eq_iff last)
      then show ?thesis
        using True r(1) by simp
    qed
  qed (auto simp: fun_eq_iff)
qed

lemma memoryset_um:
  assumes pt: "pt_ok pt" "frames_inj (pt_map pt)" and n: "unat v + nat sz \<le> 2147483648"
    and w: "\<And>i. i < nat sz \<Longrightarrow> writable pt (v + of_nat i)"
  shows "wp (user_memoryset (Some pt) v b sz ram) (\<lambda>ram'.
    um pt ram' = (\<lambda>a. if unat v \<le> unat a \<and> unat a < unat v + nat sz then Some b else um pt ram a) \<and>
    (\<forall>a. unat (drop_bit 12 a) \<notin> pm_frames (pt_map pt) \<longrightarrow> ram' a = ram a))"
  using store_loop [where sel = "\<lambda>_. True" and g = "\<lambda>_. b", OF pt n w] by (simp add: user_memoryset_def)

lemma user_bytes_length:
  assumes "\<And>i. i < n \<Longrightarrow> um pt ram (v + of_nat i) \<noteq> None"
  shows "length (user_bytes (Some pt) ram v n) = n"
  using assms
proof (induction n arbitrary: v)
  case (Suc n)
  obtain b where b: "user_load (Some pt) ram v = Some b"
    using Suc.prems [of 0] by (auto simp: um_def)
  have "um pt ram (v + 1 + of_nat i) \<noteq> None" if "i < n" for i
    using Suc.prems [of "Suc i"] that by (simp add: add.assoc)
  from Suc.IH [OF this] b show ?case
    by simp
qed simp

lemma put_um:
  assumes pt: "pt_ok pt" "frames_inj (pt_map pt)" and n: "unat v + length new \<le> 2147483648"
    and w: "\<And>i. i < length new \<Longrightarrow> writable pt (v + of_nat i)" and r: "r = int (length new)"
  shows "wp (user_put (Some pt) v r old new ram) (\<lambda>ram'.
    um pt ram' = (\<lambda>a. if unat v \<le> unat a \<and> unat a < unat v + length new then Some (new ! (unat a - unat v)) else um pt ram a) \<and>
    (\<forall>a. unat (drop_bit 12 a) \<notin> pm_frames (pt_map pt) \<longrightarrow> ram' a = ram a))"
proof -
  let ?sel = "\<lambda>i. int i < r \<or> new ! i \<noteq> old ! i"
  have sel: "?sel (unat a - unat v)" if "unat v \<le> unat a \<and> unat a < unat v + length new" for a :: u32
  proof -
    have "unat a - unat v < length new"
      using that by linarith
    then show ?thesis
      by (simp only: r of_nat_less_iff simp_thms)
  qed
  have eq: "(\<lambda>a. if unat v \<le> unat a \<and> unat a < unat v + length new \<and> ?sel (unat a - unat v)
        then Some (new ! (unat a - unat v)) else um pt ram a) =
      (\<lambda>a. if unat v \<le> unat a \<and> unat a < unat v + length new then Some (new ! (unat a - unat v)) else um pt ram a)"
      for ram
    using sel by (intro ext) (metis (lifting))
  show ?thesis
    unfolding user_put_def eq [symmetric] by (rule store_loop [where sel = ?sel, OF pt n w])
qed

section \<open>Mapping fresh pages\<close>

definition loader_ok :: "pagepool \<Rightarrow> pagetable \<Rightarrow> bool" where
  "loader_ok pool pt \<longleftrightarrow> pool_ok pool \<and> pt_ok pt \<and> frames_inj (pt_map pt) \<and>
     pm_frames (pt_map pt) \<inter> pool_free pool = {}"

lemma finite_dom_pt_map [simp]: "finite (dom (pt_map pt))"
  unfolding pt_map_def by (rule finite_dom_map_of)

text \<open>Every entry in use has a mapped page.\<close>

lemma entries_le_pages:
  assumes "pt_ok pt"
  shows "unat (valid_count pt) \<le> card (dom (pt_map pt))"
proof -
  have d: "distinct (map VPN2 (pt_valid pt))"
    using assms by (simp add: pt_ok_def)
  have "distinct (map (unat \<circ> VPN2) (pt_valid pt))"
    using d by (auto simp: distinct_map comp_inj_on_iff [symmetric] intro!: comp_inj_on inj_onI simp: word_unat_eq_iff)
  then have "unat (valid_count pt) = card ((unat \<circ> VPN2) ` set (pt_valid pt))"
    using assms distinct_card [of "map (unat \<circ> VPN2) (pt_valid pt)"] by (simp add: pt_valid_def pt_ok_def)
  also have "(unat \<circ> VPN2) ` set (pt_valid pt) \<subseteq> (\<lambda>k. k div 2) ` dom (pt_map pt)"
  proof
    fix x assume "x \<in> (unat \<circ> VPN2) ` set (pt_valid pt)"
    then obtain i where i: "i < length (pt_valid pt)" "x = unat (VPN2 (pt_valid pt ! i))"
      by (auto simp: in_set_conv_nth)
    let ?e = "pt_valid pt ! i"
    have "pt_entry_ok (pt_ASID pt) ?e"
      using assms i(1) by (simp add: pt_ok_def)
    then have "half (2 * x) ?e \<noteq> None \<or> half (2 * x + 1) ?e \<noteq> None"
      by (auto simp: pt_entry_ok_def half_def)
    then obtain k where "k div 2 = x" "half k ?e \<noteq> None"
      by (metis Suc_eq_plus1 div2_Suc_Suc div_mult_self1_is_m even_Suc_div_two even_mult_iff even_two_times_div_two mult.commute zero_less_numeral dvd_triv_left)
    then have "k \<in> dom (pt_map pt)"
      using concat_pages_at [OF d i(1), of k] i(2) by (auto simp: pt_map_def)
    then show "x \<in> (\<lambda>k. k div 2) ` dom (pt_map pt)"
      using \<open>k div 2 = x\<close> by blast
  qed
  then have "card ((unat \<circ> VPN2) ` set (pt_valid pt)) \<le> card ((\<lambda>k. k div 2) ` dom (pt_map pt))"
    by (intro card_mono) simp_all
  also have "\<dots> \<le> card (dom (pt_map pt))"
    by (rule card_image_le) simp
  finally show ?thesis .
qed

lemma page_frame: "i < MAX_FRAMES \<Longrightarrow> unat (ucast (drop_bit 12 (page_addr i)) :: 20 word) = i"
proof -
  assume i: "i < MAX_FRAMES"
  have "unat (drop_bit 12 (page_addr i)) = i"
    using i by (simp add: drop_bit_eq_div unat_div_distrib unat_page_addr)
  then show ?thesis
    using i by (simp add: unsigned_ucast_eq take_bit_nat_eq_self)
qed

lemma map_page_ok:
  assumes ok: "loader_ok pool pt" and v: "vpn v \<notin> dom (pt_map pt)"
    and room: "card (dom (pt_map pt)) < PAGETABLE_ENTRIES" and free: "pool_free pool \<noteq> {}"
  shows "\<exists>i pool' pt'. pagepool_get_phys_page pool = Some (page_addr i, pool') \<and> page_addr i \<noteq> 0 \<and> i \<in> pool_free pool \<and>
    vm_map pt (page_addr i) v 1 = Some pt' \<and> loader_ok pool' pt' \<and> pool_free pool' = pool_free pool - {i} \<and>
    pool_pages pool' = pool_pages pool \<and> pt_ASID pt' = pt_ASID pt \<and>
    (\<exists>f. unat f = i \<and> pt_map pt' = (pt_map pt)(vpn v \<mapsto> (f, True)))"
proof -
  have okD: "pool_ok pool" "pt_ok pt" "frames_inj (pt_map pt)" "pm_frames (pt_map pt) \<inter> pool_free pool = {}"
    using ok by (simp_all add: loader_ok_def)
  obtain i pool' where i: "pagepool_get_phys_page pool = Some (page_addr i, pool')" "i \<in> pool_free pool" "pool_ok pool'"
      "pool_free pool' = pool_free pool - {i}" "pool_pages pool' = pool_pages pool"
    using pool.get_some [OF okD(1) free] by blast
  have range: "0 < i" "i < MAX_FRAMES"
    using pool.pages_range [OF okD(1)] pool.avail_pages [OF okD(1)] i(2) by blast+
  let ?f = "ucast (drop_bit 12 (page_addr i)) :: 20 word"
  have f: "unat ?f = i"
    by (rule page_frame [OF range(2)])
  have "vm_map pt (page_addr i) v 1 \<noteq> None"
    using vm_map_cases [OF okD(2), where physaddr = "page_addr i" and vaddr = v and dirty = 1] v room entries_le_pages [OF okD(2)]
    by (auto split: option.splits)
  then obtain pt' where pt': "vm_map pt (page_addr i) v 1 = Some pt'" "pt_ok pt'" "pt_ASID pt' = pt_ASID pt"
      "pt_map pt' = (pt_map pt)(vpn v \<mapsto> (?f, True))"
    using vm_map_cases [OF okD(2), where physaddr = "page_addr i" and vaddr = v and dirty = 1] by (auto split: option.splits)
  have fresh: "unat g \<noteq> i" if "pt_map pt k = Some (g, d)" for k g d
    using okD(4) i(2) that by (auto simp: pm_frames_def)
  have "frames_inj (pt_map pt')"
    using okD(3) fresh f unfolding frames_inj_def pt'(4) by (auto split: if_splits)
  moreover have "pm_frames (pt_map pt') \<inter> pool_free pool' = {}"
    using okD(4) f unfolding pm_frames_def pt'(4) i(4) by (auto split: if_splits)
  ultimately have "loader_ok pool' pt'"
    using i(3) pt'(2) by (simp add: loader_ok_def)
  moreover have "page_addr i \<noteq> 0"
    using page_addr_0 range by simp
  ultimately show ?thesis
    using i pt' f by blast
qed

text \<open>What mapping the pages \<open>vs\<close> does.\<close>

definition pages_mapped :: "u32 list \<Rightarrow> pagepool \<times> pagetable \<Rightarrow> pagepool \<times> pagetable \<Rightarrow> bool" where
  "pages_mapped vs = (\<lambda>(pool, pt) (pool', pt').
     loader_ok pool' pt' \<and> pool_free pool' \<subseteq> pool_free pool \<and> pool_pages pool' = pool_pages pool \<and>
     card (pool_free pool') = card (pool_free pool) - length vs \<and> pt_ASID pt' = pt_ASID pt \<and>
     dom (pt_map pt') = dom (pt_map pt) \<union> vpn ` set vs \<and> (\<forall>k\<in>dom (pt_map pt). pt_map pt' k = pt_map pt k) \<and>
     (\<forall>v\<in>set vs. \<exists>f. pt_map pt' (vpn v) = Some (f, True)) \<and>
     pm_frames (pt_map pt') = pm_frames (pt_map pt) \<union> (pool_free pool - pool_free pool'))"

lemma map_pages_wp:
  assumes "loader_ok pool pt" and "distinct (map vpn vs)" and "vpn ` set vs \<inter> dom (pt_map pt) = {}"
    and "length vs \<le> card (pool_free pool)" and "card (dom (pt_map pt)) + length vs \<le> PAGETABLE_ENTRIES"
  shows "wp (map_pages vs (pool, pt)) (pages_mapped vs (pool, pt))"
  using assms
proof (induction vs arbitrary: pool pt)
  case Nil
  then show ?case
    by (simp add: pages_mapped_def)
next
  case (Cons v vs)
  have free: "pool_free pool \<noteq> {}"
    using Cons.prems(4) by auto
  obtain i pool1 pt1 f where p: "pagepool_get_phys_page pool = Some (page_addr i, pool1)" "page_addr i \<noteq> 0"
      "i \<in> pool_free pool" "vm_map pt (page_addr i) v 1 = Some pt1" "loader_ok pool1 pt1" "pool_free pool1 = pool_free pool - {i}"
      "pool_pages pool1 = pool_pages pool" "pt_ASID pt1 = pt_ASID pt" "unat f = i" "pt_map pt1 = (pt_map pt)(vpn v \<mapsto> (f, True))"
  proof -
    have "vpn v \<notin> dom (pt_map pt)" "card (dom (pt_map pt)) < PAGETABLE_ENTRIES"
      using Cons.prems(3,5) by auto
    from map_page_ok [OF Cons.prems(1) this free] that show thesis
      by blast
  qed
  have new: "vpn v \<notin> dom (pt_map pt)" "vpn v \<notin> vpn ` set vs"
    using Cons.prems(2,3) by auto
  have frames: "pm_frames (pt_map pt1) = insert i (pm_frames (pt_map pt))"
    using new(1) p(9) unfolding pm_frames_def p(10) by (auto simp: domIff) metis
  have cd: "card (dom (pt_map pt1)) = Suc (card (dom (pt_map pt)))"
    using new(1) by (simp add: p(10))
  have cf: "card (pool_free pool1) = card (pool_free pool) - 1"
    using p(3,6) by simp
  have IH: "wp (map_pages vs (pool1, pt1)) (pages_mapped vs (pool1, pt1))"
  proof (rule Cons.IH [OF p(5)])
    show "vpn ` set vs \<inter> dom (pt_map pt1) = {}"
      using Cons.prems(3) new(2) by (auto simp: p(10))
  qed (use Cons.prems cd cf in auto)
  have "pages_mapped (v # vs) (pool, pt) (pool', pt')" if m: "pages_mapped vs (pool1, pt1) (pool', pt')" for pool' pt'
  proof -
    from m have m: "loader_ok pool' pt'" "pool_free pool' \<subseteq> pool_free pool1" "pool_pages pool' = pool_pages pool1"
        "card (pool_free pool') = card (pool_free pool1) - length vs" "pt_ASID pt' = pt_ASID pt1"
        "dom (pt_map pt') = dom (pt_map pt1) \<union> vpn ` set vs" "\<forall>k\<in>dom (pt_map pt1). pt_map pt' k = pt_map pt1 k"
        "\<forall>v\<in>set vs. \<exists>f. pt_map pt' (vpn v) = Some (f, True)"
        "pm_frames (pt_map pt') = pm_frames (pt_map pt1) \<union> (pool_free pool1 - pool_free pool')"
      by (simp_all add: pages_mapped_def)
    have "pt_map pt' (vpn v) = Some (f, True)"
      using m(7) by (simp add: p(10))
    moreover have "\<forall>k\<in>dom (pt_map pt). pt_map pt' k = pt_map pt k"
      using m(7) new(1) by (auto simp: p(10))
    moreover have "pm_frames (pt_map pt') = pm_frames (pt_map pt) \<union> (pool_free pool - pool_free pool')"
      using m(2,9) p(3) unfolding frames p(6) by auto
    ultimately show ?thesis
      using m(1-6,8) p(5-8) cf unfolding pages_mapped_def by (auto simp: p(10))
  qed
  with IH show ?case
    using p(1,2,4) by (auto simp: guard_def elim!: wp_mono)
qed

section \<open>Write protection and segments\<close>

lemma set_dirty_loop:
  assumes "pt_ok pt" and "vpn ` set vs \<subseteq> dom (pt_map pt)"
  shows "wp (for_each vs (\<lambda>v pt. vm_set_dirty pt v 0) pt) (\<lambda>pt'. pt_ok pt' \<and> pt_ASID pt' = pt_ASID pt \<and>
    pt_map pt' = (\<lambda>k. if k \<in> vpn ` set vs then map_option (\<lambda>(f, d). (f, False)) (pt_map pt k) else pt_map pt k))"
  using assms
proof (induction vs arbitrary: pt)
  case Nil
  then show ?case by simp
next
  case (Cons v vs)
  obtain f d where fd: "pt_map pt (vpn v) = Some (f, d)"
    using Cons.prems(2) by auto
  then obtain pt1 where p: "vm_set_dirty pt v 0 = Some pt1" "pt_ok pt1" "pt_ASID pt1 = pt_ASID pt"
      "pt_map pt1 = (pt_map pt)(vpn v \<mapsto> (f, False))"
    using vm_set_dirty_cases [OF Cons.prems(1), where vaddr = v and dirty = 0] by (auto split: option.splits)
  have "vpn ` set vs \<subseteq> dom (pt_map pt1)"
    using Cons.prems(2) by (auto simp: p(4))
  from Cons.IH [OF p(2) this] show ?case
    using p(1,3) fd by (auto simp: p(4) fun_eq_iff elim!: wp_mono)
qed

text \<open>What is to be found at an address of a segment: the bytes of the file, then zeros.\<close>

definition seg_byte :: "mem \<Rightarrow> u32 \<Rightarrow> u32 \<Rightarrow> u32 \<Rightarrow> u32 \<Rightarrow> u8" where
  "seg_byte c vaddr location sz a =
     (let k = unat a - unat vaddr in if k < unat sz then c ! (unat location + k) else 0)"

definition in_range :: "u32 \<Rightarrow> nat \<Rightarrow> u32 \<Rightarrow> bool" where
  "in_range v n a \<longleftrightarrow> unat v \<le> unat a \<and> unat a < unat v + n"

text \<open>The image of a program: its stack page, its read-only and its writable segment.\<close>

definition image_ok :: "elf_info \<Rightarrow> mem \<Rightarrow> bool" where
  "image_ok elf c \<longleftrightarrow>
     (let ro = unat (ro_vaddr elf); ro_end = ro + 4096 * unat (ro_pages elf);
          rw = unat (rw_vaddr elf); rw_end = rw + 4096 * unat (rw_pages elf) in
      unat (ro_pages elf) + unat (rw_pages elf) < PAGETABLE_ENTRIES \<and>
      4096 dvd ro \<and> 4096 dvd rw \<and> ro_end \<le> unat stack_bottom \<and> rw_end \<le> unat stack_bottom \<and>
      (ro_end \<le> rw \<or> rw_end \<le> ro) \<and>
      (unat (ro_size elf) = 0 \<or> 4096 \<le> ro \<and> unat (ro_location elf) + unat (ro_size elf) \<le> length c) \<and>
      (unat (rw_size elf) = 0 \<or> 4096 \<le> rw \<and> unat (rw_location elf) + unat (rw_size elf) \<le> length c) \<and>
      unat (ro_size elf) \<le> 4096 * unat (ro_pages elf) \<and> unat (rw_size elf) \<le> 4096 * unat (rw_pages elf))"

abbreviation (input) in_stack :: "u32 \<Rightarrow> bool" where "in_stack \<equiv> in_range stack_bottom 4096"
abbreviation (input) in_ro :: "elf_info \<Rightarrow> u32 \<Rightarrow> bool" where
  "in_ro elf \<equiv> in_range (ro_vaddr elf) (4096 * unat (ro_pages elf))"
abbreviation (input) in_rw :: "elf_info \<Rightarrow> u32 \<Rightarrow> bool" where
  "in_rw elf \<equiv> in_range (rw_vaddr elf) (4096 * unat (rw_pages elf))"

definition image_byte :: "elf_info \<Rightarrow> mem \<Rightarrow> u32 \<Rightarrow> u8 option" where
  "image_byte elf c a =
     (if in_stack a then Some 0
      else if in_ro elf a then Some (seg_byte c (ro_vaddr elf) (ro_location elf) (ro_size elf) a)
      else if in_rw elf a then Some (seg_byte c (rw_vaddr elf) (rw_location elf) (rw_size elf) a)
      else None)"

lemma stack_bottom_eq: "stack_bottom = 0x7fffe000"
  by (simp add: stack_bottom_def)

lemma stack_list_eq: "stack_list = [0x7fffe000]"
  by (simp add: stack_list_def)

lemma vpn_div: "vpn v = unat v div 4096"
  by (simp add: vpn_def drop_bit_eq_div unat_div_distrib)

lemma page_list_vpns:
  assumes "4096 dvd unat v" and "unat v + 4096 * unat n \<le> 2147483648"
  shows "map vpn (page_list v n) = [vpn v..<vpn v + unat n]"
proof -
  have n: "sint n = int (unat n)"
    using assms(2) by (intro sint_small) simp
  have "vpn (v + of_nat i * 4096) = vpn v + i" if "i < unat n" for i
  proof -
    have "unat (v + of_nat i * 4096) = unat v + 4096 * i"
      using assms(2) that by (simp add: unat_word_ariths unat_of_nat mult.commute)
    then show ?thesis
      by (simp add: vpn_div div_add1_eq)
  qed
  then have "map vpn (page_list v n) = map (\<lambda>i. i + vpn v) [0..<unat n]"
    unfolding page_list_def n nat_int by (simp add: add.commute)
  then show ?thesis
    by (simp add: map_add_upt add.commute)
qed

lemma in_range_vpn:
  assumes "4096 dvd unat v"
  shows "in_range v (4096 * n) a \<longleftrightarrow> vpn v \<le> vpn a \<and> vpn a < vpn v + n"
proof -
  obtain q where q: "unat v = 4096 * q"
    using assms by (auto elim: dvdE)
  have d: "unat a = 4096 * (unat a div 4096) + unat a mod 4096" "unat a mod 4096 < 4096"
    by simp_all
  show ?thesis
    unfolding in_range_def vpn_div q using d by auto
qed

lemma pm_frames_dirty:
  "pm_frames (\<lambda>k. if k \<in> S then map_option (\<lambda>(f, d). (f, False)) (pm k) else pm k) = pm_frames pm"
proof -
  have sets: "pm_frames pm = (\<Union>k. unat ` {f. \<exists>d. pm k = Some (f, d)})" for pm :: page_map
    by (auto simp: pm_frames_def)
  have "{f. \<exists>d. (if k \<in> S then map_option (\<lambda>(f, d). (f, False)) (pm k) else pm k) = Some (f, d)} =
      {f. \<exists>d. pm k = Some (f, d)}" for k
    by (cases "pm k") auto
  then show ?thesis
    unfolding sets by simp
qed

lemma frames_inj_dirty:
  "frames_inj pm \<Longrightarrow> frames_inj (\<lambda>k. if k \<in> S then map_option (\<lambda>(f, d). (f, False)) (pm k) else pm k)"
  unfolding frames_inj_def by (auto split: if_splits)

lemma in_range_low: "in_range v n a \<Longrightarrow> unat v + n \<le> 2147483648 \<Longrightarrow> a < 0x80000000"
  by (simp add: in_range_def word_less_nat_alt)

lemma in_range_add: "k < n \<Longrightarrow> unat v + n \<le> 2147483648 \<Longrightarrow> in_range v n (v + of_nat k)"
  using unat_add_small [of v n k] by (simp add: in_range_def)

text \<open>The pages of the image, and the facts about its layout.\<close>

definition image_pages :: "elf_info \<Rightarrow> u32 list" where
  "image_pages elf = stack_list @ page_list (ro_vaddr elf) (ro_pages elf) @ page_list (rw_vaddr elf) (rw_pages elf)"

lemma image_layout:
  assumes "image_ok elf c"
  shows "unat (ro_vaddr elf) + 4096 * unat (ro_pages elf) \<le> 2147483648"
    and "unat (rw_vaddr elf) + 4096 * unat (rw_pages elf) \<le> 2147483648"
    and "distinct (map vpn (image_pages elf))"
    and "length (image_pages elf) = unat (ro_pages elf) + unat (rw_pages elf) + 1"
    and "vpn a \<in> vpn ` set (image_pages elf) \<longleftrightarrow> in_stack a \<or> in_ro elf a \<or> in_rw elf a"
    and "vpn a \<in> vpn ` set (page_list (ro_vaddr elf) (ro_pages elf)) \<longleftrightarrow> in_ro elf a"
    and "in_ro elf a \<Longrightarrow> \<not> in_stack a \<and> \<not> in_rw elf a" and "in_rw elf a \<Longrightarrow> \<not> in_stack a"
proof -
  let ?nro = "unat (ro_pages elf)" and ?nrw = "unat (rw_pages elf)"
  have sb: "unat stack_bottom = 4096 * 0x7fffe"
    by (simp add: stack_bottom_eq)
  note I = assms [unfolded image_ok_def Let_def]
  have al: "4096 dvd unat (ro_vaddr elf)" "4096 dvd unat (rw_vaddr elf)"
    using I by auto
  obtain qr qw where q: "unat (ro_vaddr elf) = 4096 * qr" "unat (rw_vaddr elf) = 4096 * qw"
    using al by (auto elim!: dvdE)
  have v: "vpn (ro_vaddr elf) = qr" "vpn (rw_vaddr elf) = qw" "vpn stack_bottom = 0x7fffe"
    by (simp_all add: vpn_div q sb)
  have apart: "qr + ?nro \<le> qw \<or> qw + ?nrw \<le> qr" "qr + ?nro \<le> 0x7fffe" "qw + ?nrw \<le> 0x7fffe"
    using I unfolding q sb by auto
  show fit: "unat (ro_vaddr elf) + 4096 * ?nro \<le> 2147483648" "unat (rw_vaddr elf) + 4096 * ?nrw \<le> 2147483648"
    using I sb by auto
  have vs: "map vpn (page_list (ro_vaddr elf) (ro_pages elf)) = [qr..<qr + ?nro]"
      "map vpn (page_list (rw_vaddr elf) (rw_pages elf)) = [qw..<qw + ?nrw]" "map vpn stack_list = [0x7fffe]"
    using page_list_vpns [OF al(1) fit(1)] page_list_vpns [OF al(2) fit(2)] v by (simp_all add: stack_list_eq stack_bottom_eq)
  have all: "map vpn (image_pages elf) = 0x7fffe # [qr..<qr + ?nro] @ [qw..<qw + ?nrw]"
    by (simp add: image_pages_def vs)
  show "distinct (map vpn (image_pages elf))"
    unfolding all using apart by auto
  show "length (image_pages elf) = ?nro + ?nrw + 1"
    using arg_cong [OF all, of length] by simp
  have rg: "in_stack a \<longleftrightarrow> vpn a = 0x7fffe" "in_ro elf a \<longleftrightarrow> vpn a \<in> {qr..<qr + ?nro}"
      "in_rw elf a \<longleftrightarrow> vpn a \<in> {qw..<qw + ?nrw}"
    using in_range_vpn [OF al(1), of ?nro a] in_range_vpn [OF al(2), of ?nrw a]
      in_range_vpn [of stack_bottom 1 a] sb v by auto
  show "vpn a \<in> vpn ` set (image_pages elf) \<longleftrightarrow> in_stack a \<or> in_ro elf a \<or> in_rw elf a"
    unfolding rg list.set_map [symmetric] all by auto
  show "vpn a \<in> vpn ` set (page_list (ro_vaddr elf) (ro_pages elf)) \<longleftrightarrow> in_ro elf a"
    unfolding rg list.set_map [symmetric] vs by auto
  show "in_ro elf a \<Longrightarrow> \<not> in_stack a \<and> \<not> in_rw elf a" "in_rw elf a \<Longrightarrow> \<not> in_stack a"
    unfolding rg using apart by auto
qed

text \<open>A page table that maps the image, all of it writable, and nothing else.\<close>

definition maps_image :: "elf_info \<Rightarrow> pagetable \<Rightarrow> bool" where
  "maps_image elf pt \<longleftrightarrow> pt_ok pt \<and> frames_inj (pt_map pt) \<and> dom (pt_map pt) = vpn ` set (image_pages elf) \<and>
     (\<forall>k\<in>dom (pt_map pt). \<exists>f. pt_map pt k = Some (f, True))"

lemma maps_image_writable:
  assumes "image_ok elf c" and "maps_image elf pt"
  shows "writable pt a \<longleftrightarrow> in_stack a \<or> in_ro elf a \<or> in_rw elf a" and "um pt ram a = None \<longleftrightarrow> \<not> writable pt a"
proof -
  note L = image_layout [OF assms(1)]
  have pt: "pt_ok pt" "dom (pt_map pt) = vpn ` set (image_pages elf)"
      "\<forall>k\<in>dom (pt_map pt). \<exists>f. pt_map pt k = Some (f, True)"
    using assms(2) by (simp_all add: maps_image_def)
  have low: "a < 0x80000000" if "in_stack a \<or> in_ro elf a \<or> in_rw elf a"
    using that in_range_low L(1,2) by (auto simp: stack_bottom_eq)
  have m: "vpn a \<in> dom (pt_map pt) \<longleftrightarrow> in_stack a \<or> in_ro elf a \<or> in_rw elf a"
    unfolding pt(2) by (rule L(5))
  then show "writable pt a \<longleftrightarrow> in_stack a \<or> in_ro elf a \<or> in_rw elf a"
    using pt(3) low unfolding writable_def by fastforce
  then show "um pt ram a = None \<longleftrightarrow> \<not> writable pt a"
    using m low unfolding um_eq [OF pt(1)] by (cases "pt_map pt (vpn a)") auto
qed

lemma map_pages_append: "map_pages (xs @ ys) s = Option.bind (map_pages xs s) (map_pages ys)"
  by (induction xs s rule: map_pages.induct) (auto split: bind_split)

lemma map_image:
  assumes ok: "loader_ok pool pt" "pt_map pt = Map.empty" and img: "image_ok elf c"
    and room: "unat (ro_pages elf) + unat (rw_pages elf) + 1 \<le> card (pool_free pool)"
  shows "\<exists>pool' pt'. map_pages (image_pages elf) (pool, pt) = Some (pool', pt') \<and> maps_image elf pt' \<and>
    loader_ok pool' pt' \<and> pt_ASID pt' = pt_ASID pt \<and> pool_pages pool' = pool_pages pool \<and>
    pool_free pool' \<subseteq> pool_free pool \<and> pm_frames (pt_map pt') = pool_free pool - pool_free pool'"
proof -
  note L = image_layout [OF img]
  have "unat (ro_pages elf) + unat (rw_pages elf) < PAGETABLE_ENTRIES"
    using img by (auto simp: image_ok_def Let_def)
  then have "wp (map_pages (image_pages elf) (pool, pt)) (pages_mapped (image_pages elf) (pool, pt))"
    by (intro map_pages_wp [OF ok(1) L(3)]) (use room in \<open>simp_all add: L(4) ok(2)\<close>)
  then obtain pool' pt' where run: "map_pages (image_pages elf) (pool, pt) = Some (pool', pt')"
      "pages_mapped (image_pages elf) (pool, pt) (pool', pt')"
    by (auto dest!: wpD)
  then have m: "loader_ok pool' pt'" "dom (pt_map pt') = vpn ` set (image_pages elf)"
      "\<forall>v\<in>set (image_pages elf). \<exists>f. pt_map pt' (vpn v) = Some (f, True)"
      "pm_frames (pt_map pt') = pm_frames Map.empty \<union> (pool_free pool - pool_free pool')"
      "pool_free pool' \<subseteq> pool_free pool" "pool_pages pool' = pool_pages pool" "pt_ASID pt' = pt_ASID pt"
    by (simp_all add: pages_mapped_def ok(2))
  have "pm_frames Map.empty = {}"
    by (simp add: pm_frames_def)
  moreover have "maps_image elf pt'"
    using m(1,3) unfolding maps_image_def m(2) loader_ok_def by auto
  ultimately show ?thesis
    using run(1) m by auto
qed

lemma sint_pages: "4096 * unat w \<le> 2147483647 \<Longrightarrow> nat (sint (w * 4096 :: u32)) = 4096 * unat w"
proof -
  assume w: "4096 * unat w \<le> 2147483647"
  then have "unat (w * 4096) = 4096 * unat w"
    by (simp add: unat_word_ariths mult.commute)
  with w have "sint (w * 4096) = int (4096 * unat w)"
    by (subst sint_small) simp_all
  then show ?thesis
    by (simp only: nat_int)
qed

text \<open>Clearing the image.\<close>

lemma clear_image:
  assumes img: "image_ok elf c" and pt: "maps_image elf pt"
  shows "\<exists>ram1 ram2 ram3. user_memoryset (Some pt) (ro_vaddr elf) 0 (sint (ro_pages elf * 4096)) ram = Some ram1 \<and>
    user_memoryset (Some pt) (rw_vaddr elf) 0 (sint (rw_pages elf * 4096)) ram1 = Some ram2 \<and>
    user_memoryset (Some pt) stack_bottom 0 4096 ram2 = Some ram3 \<and>
    um pt ram3 = (\<lambda>a. if in_stack a \<or> in_ro elf a \<or> in_rw elf a then Some 0 else None) \<and>
    (\<forall>a. unat (drop_bit 12 a) \<notin> pm_frames (pt_map pt) \<longrightarrow> ram3 a = ram a)"
proof -
  note L = image_layout [OF img] and W = maps_image_writable [OF img pt]
  have pt': "pt_ok pt" "frames_inj (pt_map pt)"
    using pt by (simp_all add: maps_image_def)
  have "4096 * unat (ro_pages elf) \<le> 2147483647" "4096 * unat (rw_pages elf) \<le> 2147483647"
    using img by (auto simp: image_ok_def Let_def stack_bottom_eq)
  note n = sint_pages [OF this(1)] sint_pages [OF this(2)]
  have clear: "\<exists>ram'. user_memoryset (Some pt) v 0 sz ram = Some ram' \<and>
      um pt ram' = (\<lambda>a. if in_range v (nat sz) a then Some 0 else um pt ram a) \<and>
      (\<forall>a. unat (drop_bit 12 a) \<notin> pm_frames (pt_map pt) \<longrightarrow> ram' a = ram a)"
    if "unat v + nat sz \<le> 2147483648" "\<And>a. in_range v (nat sz) a \<Longrightarrow> writable pt a" for v sz ram
    using wpD [OF memoryset_um [OF pt' that(1) that(2) [OF in_range_add [OF _ that(1)]]]]
    unfolding in_range_def [symmetric] by blast
  obtain ram1 where r1: "user_memoryset (Some pt) (ro_vaddr elf) 0 (sint (ro_pages elf * 4096)) ram = Some ram1"
      "um pt ram1 = (\<lambda>a. if in_ro elf a then Some 0 else um pt ram a)"
      "\<forall>a. unat (drop_bit 12 a) \<notin> pm_frames (pt_map pt) \<longrightarrow> ram1 a = ram a"
    using clear [of "ro_vaddr elf" "sint (ro_pages elf * 4096)" ram] L(1) W(1) unfolding n by blast
  obtain ram2 where r2: "user_memoryset (Some pt) (rw_vaddr elf) 0 (sint (rw_pages elf * 4096)) ram1 = Some ram2"
      "um pt ram2 = (\<lambda>a. if in_rw elf a then Some 0 else um pt ram1 a)"
      "\<forall>a. unat (drop_bit 12 a) \<notin> pm_frames (pt_map pt) \<longrightarrow> ram2 a = ram1 a"
    using clear [of "rw_vaddr elf" "sint (rw_pages elf * 4096)" ram1] L(2) W(1) unfolding n by blast
  obtain ram3 where r3: "user_memoryset (Some pt) stack_bottom 0 4096 ram2 = Some ram3"
      "um pt ram3 = (\<lambda>a. if in_stack a then Some 0 else um pt ram2 a)"
      "\<forall>a. unat (drop_bit 12 a) \<notin> pm_frames (pt_map pt) \<longrightarrow> ram3 a = ram2 a"
    using clear [of stack_bottom 4096 ram2] W(1) by (auto simp: stack_bottom_eq)
  have "um pt ram3 = (\<lambda>a. if in_stack a \<or> in_ro elf a \<or> in_rw elf a then Some 0 else None)"
    using W unfolding r1(2) r2(2) r3(2) by (auto simp: fun_eq_iff)
  then show ?thesis
    using r1(1,3) r2(1,3) r3(1,3) by auto
qed

context file_driver
begin

lemma load_segment_wp:
  assumes s: "vfs_idle s" "F p = drv" "0 \<le> fd" "fd < int MAX_OPEN_FILES" and f: "vol (vfs_world s) f = Some (i, c)"
    and s': "positioned s p fd i pos s'" "good (vfs_world s)"
    and pt: "pt_ok pt" "frames_inj (pt_map pt)"
    and sz: "unat sz = 0 \<or> 4096 \<le> unat v \<and> unat v + unat sz \<le> 2147483648 \<and> unat loc + unat sz \<le> length c"
    and w: "\<And>k. k < unat sz \<Longrightarrow> writable pt (v + of_nat k)"
  shows "wp (load_segment F (Some pt) fd v loc sz (ram, s')) (\<lambda>(ram', s'').
    (\<exists>q. positioned s p fd i q s'') \<and>
    um pt ram' = (\<lambda>a. if in_range v (unat sz) a then Some (c ! (unat loc + (unat a - unat v))) else um pt ram a) \<and>
    (\<forall>a. unat (drop_bit 12 a) \<notin> pm_frames (pt_map pt) \<longrightarrow> ram' a = ram a))"
proof (cases "unat sz = 0")
  case True
  then have "\<not> sz > 0"
    by (simp add: unat_eq_0)
  then show ?thesis
    using True s' by (auto simp: load_segment_def in_range_def fun_eq_iff)
next
  case False
  let ?n = "unat sz"
  have pos: "sz > 0" "4096 \<le> unat v" "unat v + ?n \<le> 2147483648" "unat loc + ?n \<le> length c"
    using False sz by (auto simp: word_greater_zero_iff unat_eq_0)
  have "length c < 2147483648"
    using size_ok [OF s'(2) f] by (simp add: int_ok_def)
  then have small: "sint loc = int (unat loc)" "sint sz = int ?n"
    using pos by (auto intro!: sint_small)
  obtain s2 where s2: "vfs_seek fd (sint loc) s' = Some (VFS_OK, s2)" "positioned s p fd i (unat loc) s2"
    using seek_exact [OF s(1,3,4) s'(1), of "unat loc"] unfolding small by blast
  let ?old = "user_bytes (Some pt) ram v ?n"
  have mapped: "um pt ram (v + of_nat k) \<noteq> None" if "k < ?n" for k
    using w [OF that] by (auto simp: um_eq [OF pt(1)] writable_def)
  have len: "length ?old = ?n"
    by (rule user_bytes_length [OF mapped])
  have new: "length (take ?n (drop (unat loc) c)) = ?n"
    using pos(4) by simp
  note put = put_um [where new = "take ?n (drop (unat loc) c)" and v = v and r = "int ?n" and ram = ram and old = ?old,
      OF pt, unfolded new, OF pos(3) w refl]
  have eq: "(\<lambda>a. if unat v \<le> unat a \<and> unat a < unat v + ?n then Some (take ?n (drop (unat loc) c) ! (unat a - unat v)) else um pt ram a) =
      (\<lambda>a. if in_range v ?n a then Some (c ! (unat loc + (unat a - unat v))) else um pt ram a)"
    using pos(4) by (auto simp: fun_eq_iff in_range_def nth_drop)
  have "4096 \<le> v"
    using pos(2) by (simp add: word_le_nat_alt)
  then have run: "load_segment F (Some pt) fd v loc sz (ram, s') = do {
      (r, ram, s) \<leftarrow> user_vfs_read F (Some pt) fd v (int ?n) ram s2;
      guard (r = int ?n);
      Some (ram, s) }"
    using pos(1) s2(1) unfolding load_segment_def split_conv small(2) by (simp add: guard_def)
  show ?thesis
    unfolding run user_vfs_read_def Let_def nat_int wp_bind
  proof (rule wp_mono [OF read_exact [where F = F and p = p, OF s f s2(2) len]], goal_cases)
    case 1
    show ?case
      using False by simp
  next
    case (2 x)
    obtain r b s3 where x: "x = (r, b, s3)" by (cases x)
    have r: "r = int ?n" "b = take ?n (drop (unat loc) c)" "positioned s p fd i (unat loc + ?n) s3"
      using 2 pos(4) unfolding x by auto
    show ?case
      unfolding x split_conv r(1,2) wp_bind
      by (rule wp_mono [OF put]) (use r(3) eq in \<open>auto simp: guard_def\<close>)
  qed
qed

lemma load_image:
  assumes s: "vfs_idle s" "F p = drv" "0 \<le> fd" "fd < int MAX_OPEN_FILES" and f: "vol (vfs_world s) f = Some (i, c)"
    and s': "positioned s p fd i pos s'" "good (vfs_world s)"
    and img: "image_ok elf c" and pt: "maps_image elf pt"
    and zero: "um pt ram = (\<lambda>a. if in_stack a \<or> in_ro elf a \<or> in_rw elf a then Some 0 else None)"
  shows "\<exists>ram1 s1 ram2 s2 q.
    load_segment F (Some pt) fd (ro_vaddr elf) (ro_location elf) (ro_size elf) (ram, s') = Some (ram1, s1) \<and>
    load_segment F (Some pt) fd (rw_vaddr elf) (rw_location elf) (rw_size elf) (ram1, s1) = Some (ram2, s2) \<and>
    positioned s p fd i q s2 \<and> um pt ram2 = image_byte elf c \<and>
    (\<forall>a. unat (drop_bit 12 a) \<notin> pm_frames (pt_map pt) \<longrightarrow> ram2 a = ram a)"
proof -
  note L = image_layout [OF img] and W = maps_image_writable [OF img pt]
  have pt': "pt_ok pt" "frames_inj (pt_map pt)"
    using pt by (simp_all add: maps_image_def)
  have le: "unat (ro_size elf) \<le> 4096 * unat (ro_pages elf)" "unat (rw_size elf) \<le> 4096 * unat (rw_pages elf)"
    and ro: "unat (ro_size elf) = 0 \<or> 4096 \<le> unat (ro_vaddr elf) \<and>
      unat (ro_vaddr elf) + unat (ro_size elf) \<le> 2147483648 \<and> unat (ro_location elf) + unat (ro_size elf) \<le> length c"
    and rw: "unat (rw_size elf) = 0 \<or> 4096 \<le> unat (rw_vaddr elf) \<and>
      unat (rw_vaddr elf) + unat (rw_size elf) \<le> 2147483648 \<and> unat (rw_location elf) + unat (rw_size elf) \<le> length c"
    using img L(1,2) by (auto simp: image_ok_def Let_def)
  have w: "writable pt (ro_vaddr elf + of_nat k)" if "k < unat (ro_size elf)" for k
    using in_range_add [OF less_le_trans [OF that le(1)] L(1)] W(1) by blast
  have w': "writable pt (rw_vaddr elf + of_nat k)" if "k < unat (rw_size elf)" for k
    using in_range_add [OF less_le_trans [OF that le(2)] L(2)] W(1) by blast
  obtain ram1 s1 q1 where l1: "load_segment F (Some pt) fd (ro_vaddr elf) (ro_location elf) (ro_size elf) (ram, s') = Some (ram1, s1)"
      "positioned s p fd i q1 s1" "um pt ram1 = (\<lambda>a. if in_range (ro_vaddr elf) (unat (ro_size elf)) a
        then Some (c ! (unat (ro_location elf) + (unat a - unat (ro_vaddr elf)))) else um pt ram a)"
      "\<forall>a. unat (drop_bit 12 a) \<notin> pm_frames (pt_map pt) \<longrightarrow> ram1 a = ram a"
    using wpD [OF load_segment_wp [where F = F and p = p, OF s f s' pt' ro w, of ram]] by blast
  obtain ram2 s2 q2 where l2: "load_segment F (Some pt) fd (rw_vaddr elf) (rw_location elf) (rw_size elf) (ram1, s1) = Some (ram2, s2)"
      "positioned s p fd i q2 s2" "um pt ram2 = (\<lambda>a. if in_range (rw_vaddr elf) (unat (rw_size elf)) a
        then Some (c ! (unat (rw_location elf) + (unat a - unat (rw_vaddr elf)))) else um pt ram1 a)"
      "\<forall>a. unat (drop_bit 12 a) \<notin> pm_frames (pt_map pt) \<longrightarrow> ram2 a = ram1 a"
    using wpD [OF load_segment_wp [where F = F and p = p, OF s f l1(2) s'(2) pt' rw w', of ram1]] by blast
  have in_seg: "in_range v n a \<longleftrightarrow> in_range v m a \<and> unat a - unat v < n" if "n \<le> m" for v a n m
    using that by (auto simp: in_range_def)
  have "um pt ram2 a = image_byte elf c a" for a
    unfolding l2(3) l1(3) zero image_byte_def seg_byte_def Let_def in_seg [OF le(1)] in_seg [OF le(2)]
    using L(7,8) [of a] by auto
  then have "um pt ram2 = image_byte elf c"
    by (rule ext)
  with l1 l2 show ?thesis
    by auto
qed

text \<open>Write protection of the read-only segment.\<close>

lemma protect_image:
  assumes img: "image_ok elf c" and pt: "maps_image elf pt" and ok: "loader_ok pool pt"
  shows "\<exists>pt'. for_each (page_list (ro_vaddr elf) (ro_pages elf)) (\<lambda>v pt. vm_set_dirty pt v 0) pt = Some pt' \<and>
    loader_ok pool pt' \<and> pt_ASID pt' = pt_ASID pt \<and> um pt' ram = um pt ram \<and>
    (\<forall>a. writable pt' a \<longleftrightarrow> in_stack a \<or> in_rw elf a) \<and> pm_frames (pt_map pt') = pm_frames (pt_map pt)"
proof -
  note L = image_layout [OF img] and W = maps_image_writable [OF img pt]
  have ptD: "pt_ok pt" "frames_inj (pt_map pt)" "dom (pt_map pt) = vpn ` set (image_pages elf)"
    using pt by (simp_all add: maps_image_def)
  have "vpn ` set (page_list (ro_vaddr elf) (ro_pages elf)) \<subseteq> dom (pt_map pt)"
    unfolding ptD(3) image_pages_def by auto
  then obtain pt' where run: "for_each (page_list (ro_vaddr elf) (ro_pages elf)) (\<lambda>v pt. vm_set_dirty pt v 0) pt = Some pt'"
      "pt_ok pt'" "pt_ASID pt' = pt_ASID pt"
    and map: "pt_map pt' = (\<lambda>k. if k \<in> vpn ` set (page_list (ro_vaddr elf) (ro_pages elf))
      then map_option (\<lambda>(f, d). (f, False)) (pt_map pt k) else pt_map pt k)"
    using wpD [OF set_dirty_loop [OF ptD(1)]] by blast
  have frames: "pm_frames (pt_map pt') = pm_frames (pt_map pt)" "frames_inj (pt_map pt')"
    unfolding map by (rule pm_frames_dirty, rule frames_inj_dirty [OF ptD(2)])
  have "um pt' ram a = um pt ram a" for a
    unfolding um_eq [OF ptD(1)] um_eq [OF run(2)] map by (cases "pt_map pt (vpn a)") auto
  moreover have "writable pt' a \<longleftrightarrow> in_stack a \<or> in_rw elf a" for a
  proof -
    have "writable pt' a \<longleftrightarrow> writable pt a \<and> \<not> in_ro elf a"
      unfolding writable_def map L(6) by (cases "pt_map pt (vpn a)") auto
    then show ?thesis
      using W(1) L(7) by blast
  qed
  ultimately show ?thesis
    using run ok frames by (auto simp: loader_ok_def)
qed

lemma process_load_wp:
  assumes s: "vfs_idle s" "F p = drv" "0 \<le> fd" "fd < int MAX_OPEN_FILES" and f: "vol (vfs_world s) f = Some (i, c)"
    and s': "positioned s p fd i pos s'" "good (vfs_world s)"
    and ok: "loader_ok pool pt" "pt_map pt = Map.empty" and img: "image_ok elf c"
    and room: "unat (ro_pages elf) + unat (rw_pages elf) + 1 \<le> card (pool_free pool)"
  shows "wp (process_load F fd elf (pool, pt) (ram, s')) (\<lambda>((pool', pt'), ram', s'').
    (\<exists>q. positioned s p fd i q s'') \<and> loader_ok pool' pt' \<and> pt_ASID pt' = pt_ASID pt \<and>
    um pt' ram' = image_byte elf c \<and> (\<forall>a. writable pt' a \<longleftrightarrow> in_stack a \<or> in_rw elf a) \<and>
    pool_pages pool' = pool_pages pool \<and> pool_free pool' \<subseteq> pool_free pool \<and>
    pm_frames (pt_map pt') = pool_free pool - pool_free pool' \<and>
    (\<forall>a. unat (drop_bit 12 a) \<notin> pool_free pool - pool_free pool' \<longrightarrow> ram' a = ram a))"
proof -
  obtain pool1 pt1 where m: "map_pages (image_pages elf) (pool, pt) = Some (pool1, pt1)" "maps_image elf pt1"
      "loader_ok pool1 pt1" "pt_ASID pt1 = pt_ASID pt" "pool_pages pool1 = pool_pages pool"
      "pool_free pool1 \<subseteq> pool_free pool" "pm_frames (pt_map pt1) = pool_free pool - pool_free pool1"
    using map_image [OF ok img room] by blast
  obtain ram1 ram2 ram3 where z: "user_memoryset (Some pt1) (ro_vaddr elf) 0 (sint (ro_pages elf * 4096)) ram = Some ram1"
      "user_memoryset (Some pt1) (rw_vaddr elf) 0 (sint (rw_pages elf * 4096)) ram1 = Some ram2"
      "user_memoryset (Some pt1) stack_bottom 0 4096 ram2 = Some ram3"
      "um pt1 ram3 = (\<lambda>a. if in_stack a \<or> in_ro elf a \<or> in_rw elf a then Some 0 else None)"
      "\<forall>a. unat (drop_bit 12 a) \<notin> pm_frames (pt_map pt1) \<longrightarrow> ram3 a = ram a"
    using clear_image [OF img m(2)] by blast
  obtain ram4 s4 ram5 s5 q where l: "load_segment F (Some pt1) fd (ro_vaddr elf) (ro_location elf) (ro_size elf) (ram3, s') = Some (ram4, s4)"
      "load_segment F (Some pt1) fd (rw_vaddr elf) (rw_location elf) (rw_size elf) (ram4, s4) = Some (ram5, s5)"
      "positioned s p fd i q s5" "um pt1 ram5 = image_byte elf c"
      "\<forall>a. unat (drop_bit 12 a) \<notin> pm_frames (pt_map pt1) \<longrightarrow> ram5 a = ram3 a"
    using load_image [where F = F and p = p, OF s f s' img m(2) z(4)] by blast
  obtain pt2 where d: "for_each (page_list (ro_vaddr elf) (ro_pages elf)) (\<lambda>v pt. vm_set_dirty pt v 0) pt1 = Some pt2"
      "loader_ok pool1 pt2" "pt_ASID pt2 = pt_ASID pt1" "um pt2 ram5 = um pt1 ram5"
      "\<forall>a. writable pt2 a \<longleftrightarrow> in_stack a \<or> in_rw elf a" "pm_frames (pt_map pt2) = pm_frames (pt_map pt1)"
    using protect_image [OF img m(2,3)] by blast
  have "map_pages (page_list (rw_vaddr elf) (rw_pages elf)) s2 = Some (pool1, pt1)"
    if "map_pages stack_list (pool, pt) = Some s1" "map_pages (page_list (ro_vaddr elf) (ro_pages elf)) s1 = Some s2" for s1 s2
    using m(1) that by (simp add: image_pages_def map_pages_append)
  moreover obtain s1 s2 where "map_pages stack_list (pool, pt) = Some s1"
      "map_pages (page_list (ro_vaddr elf) (ro_pages elf)) s1 = Some s2"
    using m(1) by (auto simp: image_pages_def map_pages_append split: bind_splits)
  ultimately have run: "process_load F fd elf (pool, pt) (ram, s') = Some ((pool1, pt2), ram5, s5)"
    unfolding process_load_def split_conv by (simp add: z(1-3) l(1,2) d(1))
  have "ram5 a = ram a" if "unat (drop_bit 12 a) \<notin> pool_free pool - pool_free pool1" for a
    using that l(5) z(5) unfolding m(7) by metis
  then show ?thesis
    unfolding run wp_Some split_conv d(6) m(7) d(4) l(4)
    using l(3) d(2,3,5) m(4-6) by auto
qed

lemma elf_parse_positioned:
  assumes s: "vfs_idle s" "F p = drv" "good (vfs_world s)" and at: "open_at s fd p i 0"
    and f: "vol (vfs_world s) f = Some (i, c)" and c: "elf_valid c"
    and off: "unat (e_phoff c) + 32 * unat (e_phnum c) < 2147483648" and len: "length hdr = 52" "length phdr = 32"
  shows "\<exists>s' q. elf_parse_header F hdr phdr fd s = Some (Some (elf_info_of (e_entry c) (elf_phdrs c)), s') \<and>
    positioned s p fd i q s'"
  using wpD [OF elf_parse_wp [where F = F and p = p, OF s at f off len]] c by auto

lemma positioned_then:
  "positioned s p fd i q s' \<Longrightarrow> vfs_idle s \<Longrightarrow>
    vfs_idle s' \<and> good (vfs_world s') \<and> vol (vfs_world s') = vol (vfs_world s)"
  by (auto simp: positioned_def)

text \<open>The process image of a valid program.\<close>

lemma process_start_wp:
  fixes m :: "'w machine"
  defines "vfs \<equiv> mc_vfs m" and "k \<equiv> mc_kernel m"
  assumes s: "vfs_idle vfs" "good (vfs_world vfs)" "F p = drv"
    and proc: "get_proc pid m = Some pr"
    and path: "terminated (pe_executable pr)" "path_parts (cstr (pe_executable pr)) = Some (v, f)" "f \<noteq> []"
    and mnt: "mounted vfs v = Some p" and row: "free_file vfs = Some fd"
    and f: "vol (vfs_world vfs) f = Some (i, c)"
    and c: "elf_valid c" "unat (e_phoff c) + 32 * unat (e_phnum c) < 2147483648"
    and elf: "elf = elf_info_of (e_entry c) (elf_phdrs c)" "image_ok elf c" "4096 \<le> entry_point elf"
      "ro_pages elf + rw_pages elf + 1 \<le> maxindex + 1"
    and thread: "current_on cpu k = Some t" "get_thread t k = Some e" "t_pagetable e = 0"
    and pool: "pool_ok (mc_pool m)" "unat (ro_pages elf) + unat (rw_pages elf) + 2 \<le> card (pool_free (mc_pool m))"
    and tables: "\<And>a. length (pt_entries (mc_tables m a)) = PAGETABLE_ENTRIES"
    and len: "length hdr = 52" "length phdr = 32"
  shows "wp (process_start F hdr phdr maxindex cpu pid m) (\<lambda>(ctx, m'). \<exists>pt.
    c_pc ctx = e_entry c \<and> cpu_regs ctx ! REGISTER_SP = USERLAND_STACK_TOP \<and>
    current_pagetable cpu m' = Some pt \<and> process_get_current_process cpu m' = Some pid \<and>
    pt_ok pt \<and> pt_ASID pt = word_of_int t \<and> um pt (mc_ram m') = image_byte elf c \<and>
    (\<forall>a. writable pt a \<longleftrightarrow> in_stack a \<or> in_rw elf a) \<and> frames_inj (pt_map pt) \<and>
    pool_ok (mc_pool m') \<and> pool_free (mc_pool m') \<subseteq> pool_free (mc_pool m) \<and>
    (\<exists>n \<in> pool_free (mc_pool m) - pool_free (mc_pool m').
      mc_tables m' = (mc_tables m)(ADDR_PHYS_TO_KERNEL (page_addr n) := pt) \<and>
      pm_frames (pt_map pt) = pool_free (mc_pool m) - pool_free (mc_pool m') - {n}) \<and>
    (\<forall>a. unat (drop_bit 12 a) \<notin> pool_free (mc_pool m) - pool_free (mc_pool m') \<longrightarrow> mc_ram m' a = mc_ram m a) \<and>
    vfs_idle (mc_vfs m') \<and> good (vfs_world (mc_vfs m')) \<and> vol (vfs_world (mc_vfs m')) = vol (vfs_world vfs))"
proof -
  have ne: "pool_free (mc_pool m) \<noteq> {}"
    using pool(2) by auto
  obtain n pool1 where n: "pagepool_get_phys_page (mc_pool m) = Some (page_addr n, pool1)" "n \<in> pool_free (mc_pool m)"
      "pool_ok pool1" "pool_free pool1 = pool_free (mc_pool m) - {n}" "pool_pages pool1 = pool_pages (mc_pool m)"
    using pool.get_some [OF pool(1) ne] by blast
  have range: "0 < n" "n < MAX_FRAMES"
    using pool.pages_range [OF pool(1)] pool.avail_pages [OF pool(1)] n(2) by blast+
  then have "page_addr n \<noteq> 0"
    using page_addr_0 by simp
  define table where "table = ADDR_PHYS_TO_KERNEL (page_addr n)"
  have "unat table \<noteq> 0"
    unfolding table_def using unat_phys_to_kernel [OF range(2)] by simp
  then have table0: "table \<noteq> 0"
    by (simp add: unat_eq_0)
  define pt0 where "pt0 = (mc_tables m table)\<lparr>pt_ASID := word_of_int t, valid_count := 0\<rparr>"
  have create: "vm_create_pagetable (word_of_int t) (mc_tables m) (mc_pool m) = Some (Some (table, pt0), pool1)"
    using n(1) \<open>page_addr n \<noteq> 0\<close> by (simp add: vm_create_pagetable_def Let_def table_def pt0_def)
  have empty: "pt_map pt0 = Map.empty"
    by (simp add: pt0_def pt_map_def pt_valid_def)
  then have ld: "loader_ok pool1 pt0"
    using n(3) tables by (simp add: loader_ok_def pt0_def pt_ok_def pt_valid_def frames_inj_def pm_frames_def)
  obtain w where o: "vfs_open F (pe_executable pr) vfs =
      Some (int fd, vfs_then vfs (int fd) \<lparr>of_filesystem = Some p, of_fileid = i, of_seek_position = 0\<rparr> w)"
    and w: "good w" "vol w = vol (vfs_world vfs)"
    using wpD [OF vfs_open_file [where F = F and p = p, OF s path mnt row]] f by auto
  define v1 where "v1 = vfs_then vfs (int fd) \<lparr>of_filesystem = Some p, of_fileid = i, of_seek_position = 0\<rparr> w"
  have v1: "vfs_idle v1" "good (vfs_world v1)" "vol (vfs_world v1) = vol (vfs_world vfs)"
    using s(1) w by (simp_all add: v1_def)
  have fdr: "0 \<le> int fd" "int fd < int MAX_OPEN_FILES"
    using free_fileD [OF row] by simp_all
  have at: "open_at v1 (int fd) p i 0"
    using s(1) fdr by (simp add: open_at_def v1_def vfs_then_def vfs_idle_def)
  have f1: "vol (vfs_world v1) f = Some (i, c)"
    using f by (simp add: v1(3))
  obtain v2 q2 where parse: "elf_parse_header F hdr phdr (int fd) v1 = Some (Some elf, v2)" "positioned v1 p (int fd) i q2 v2"
    using elf_parse_positioned [where F = F and p = p, OF v1(1) s(3) v1(2) at f1 c len] unfolding elf(1) by blast
  have "unat (ro_pages elf) + unat (rw_pages elf) + 1 \<le> card (pool_free pool1)"
    using pool(2) n(2,4) by simp
  from wpD [OF process_load_wp [where F = F and p = p, OF v1(1) s(3) fdr f1 parse(2) v1(2) ld empty elf(2) this, of "mc_ram m"]]
  obtain pool3 pt3 ram3 v3 q3 where l: "process_load F (int fd) elf (pool1, pt0) (mc_ram m, v2) = Some ((pool3, pt3), ram3, v3)"
      "positioned v1 p (int fd) i q3 v3" "loader_ok pool3 pt3" "pt_ASID pt3 = pt_ASID pt0"
      "um pt3 ram3 = image_byte elf c" "\<forall>a. writable pt3 a \<longleftrightarrow> in_stack a \<or> in_rw elf a"
      "pool_free pool3 \<subseteq> pool_free pool1" "pm_frames (pt_map pt3) = pool_free pool1 - pool_free pool3"
      "\<forall>a. unat (drop_bit 12 a) \<notin> pool_free pool1 - pool_free pool3 \<longrightarrow> ram3 a = mc_ram m a"
    by auto
  have tr: "0 \<le> t" "nat t < length (thread_table k)" "thread_table k ! nat t = e"
    using thread(2) by (auto simp: get_thread_def split: if_splits)
  define k2 where "k2 = k\<lparr>thread_table := (thread_table k)[nat t := e\<lparr>t_process_id := pid, t_pagetable := table\<rparr>]\<rparr>"
  define k1 where "k1 = k\<lparr>thread_table := (thread_table k)[nat t := e\<lparr>t_process_id := pid\<rparr>]\<rparr>"
  have threads: "upd_thread t (t_process_id_update (\<lambda>_. pid)) k = Some k1" "get_thread t k1 = Some (e\<lparr>t_process_id := pid\<rparr>)"
      "upd_thread t (t_pagetable_update (\<lambda>_. table)) k1 = Some k2"
    using tr by (simp_all add: upd_thread_def get_thread_def k1_def k2_def)
  define m3 where "m3 = m\<lparr>mc_kernel := k2, mc_pool := pool3, mc_tables := (mc_tables m)(table := pt3), mc_ram := ram3, mc_vfs := v3\<rparr>"
  let ?c = "\<lparr>cpu_regs = (replicate 29 0)[REGISTER_SP := USERLAND_STACK_TOP], c_hi = 0, c_lo = 0,
         c_pc = entry_point elf, c_status = 0, c_prev_context = 0\<rparr> :: cpu_context"
  have guards: "guard (int fd \<ge> 0) = Some ()" "guard (entry_point elf \<ge> 4096) = Some ()"
      "guard (ro_pages elf + rw_pages elf + of_nat CONFIG_USERLAND_STACK_SIZE \<le> maxindex + 1) = Some ()"
      "guard (t_pagetable (e\<lparr>t_process_id := pid\<rparr>) = 0) = Some ()"
    using elf(3,4) thread(3) by (simp_all add: guard_def)
  have run: "process_start F hdr phdr maxindex cpu pid m = Some (thread_goto_userland ?c, m3)"
    unfolding process_start_def thread_get_current_thread_def k_def [symmetric] vfs_def [symmetric]
      thread(1) Option.bind.simps threads proc create o v1_def [symmetric] parse(1) guards split_conv l(1) m3_def ..
  have cur: "current_on cpu k2 = Some t" "get_thread t k2 = Some (e\<lparr>t_process_id := pid, t_pagetable := table\<rparr>)"
    using thread(1) tr by (auto simp: current_on_def get_thread_def k2_def split: if_splits)
  have ctx: "c_pc (thread_goto_userland ?c) = e_entry c" "cpu_regs (thread_goto_userland ?c) ! REGISTER_SP = USERLAND_STACK_TOP"
    unfolding thread_goto_userland_def by (simp_all add: elf(1) elf_info_of_def Let_def)
  have proc': "current_pagetable cpu m3 = Some pt3" "process_get_current_process cpu m3 = Some pid"
    unfolding current_pagetable_def process_get_current_process_def thread_get_current_thread_entry_def m3_def
    using cur table0 by simp_all
  have mem: "pt_ok pt3" "frames_inj (pt_map pt3)" "pool_ok pool3" "pt_ASID pt3 = word_of_int t"
    using l(3,4) by (simp_all add: loader_ok_def pt0_def)
  have frames: "pool_free pool3 \<subseteq> pool_free (mc_pool m)" "n \<in> pool_free (mc_pool m) - pool_free pool3"
      "pm_frames (pt_map pt3) = pool_free (mc_pool m) - pool_free pool3 - {n}"
    using l(7,8) n(2,4) by auto
  have ram: "\<forall>a. unat (drop_bit 12 a) \<notin> pool_free (mc_pool m) - pool_free pool3 \<longrightarrow> ram3 a = mc_ram m a"
    using l(9) n(4) by auto
  have fs: "vfs_idle v3" "good (vfs_world v3)" "vol (vfs_world v3) = vol (vfs_world vfs)"
    using positioned_then [OF l(2) v1(1)] v1(3) by simp_all
  have sel: "mc_ram m3 = ram3" "mc_pool m3 = pool3" "mc_tables m3 = (mc_tables m)(table := pt3)" "mc_vfs m3 = v3"
    by (simp_all add: m3_def)
  have tbl: "(mc_tables m)(table := pt3) = (mc_tables m)(ADDR_PHYS_TO_KERNEL (page_addr n) := pt3)"
    by (simp add: table_def)
  show ?thesis
    unfolding run wp_Some split_conv sel
    by (intro exI [of _ pt3] conjI bexI [of _ n])
      (fact ctx proc' mem l(5,6) frames ram fs tbl)+
qed

end

section \<open>Properties\<close>


text \<open>A machine with five free pages whose first process is the small program.\<close>

definition demo_process_pool :: pagepool where
  "demo_process_pool = \<lparr>pp_free_pages = [0, 0, 0, 7], pp_num_pages = 8, pp_num_free_pages = 5, pp_static_end = 3\<rparr>"

lemma demo_process_pool_ok: "pool_ok demo_process_pool" "pool_free demo_process_pool = {3..<8}"
proof -
  have bits: "bm_bit (pp_free_pages demo_process_pool) i \<longleftrightarrow> i < 3" if "i < 8" for i
  proof -
    have "i \<in> {0, 1, 2, 3, 4, 5, 6, 7}"
      using that by auto
    then show ?thesis
      by (auto simp: demo_process_pool_def bm_bit_def get32_def be_word_def bit_simps)
  qed
  have "pool_pages demo_process_pool = {3..<8}"
    by (simp add: pool_pages_def demo_process_pool_def)
  then show free: "pool_free demo_process_pool = {3..<8}"
    using bits by (auto simp: pool_free_def)
  have "bm_bit (pp_free_pages demo_process_pool) i" if "i < 3" for i
    using bits [of i] that by simp
  then show "pool_ok demo_process_pool"
    unfolding pool_ok_def free by (simp add: demo_process_pool_def bm_room_def)
qed

definition demo_process :: process where
  "demo_process = \<lparr>pe_executable = [91, 100, 93, 97] @ replicate 252 0, pe_state = Process_Running, pe_retval = 0,
     pe_parent = - 1, pe_cFiles = 0, pe_files = replicate 10 0\<rparr>"

definition demo_machine :: "(ram disk tfs \<times> kres) machine" where
  "demo_machine = \<lparr>mc_kernel = (snd demo_boot)\<lparr>current_thread := [1, 0, 0, 0]\<rparr>,
     mc_procs = demo_process # replicate 128 (demo_process\<lparr>pe_state := Process_Free\<rparr>), mc_pool = demo_process_pool,
     mc_tables = (\<lambda>_. demo_pagetable), mc_ram = (\<lambda>_. 0), mc_vfs = one_file_mount demo_elf\<rparr>"


end
