(* ===== verification/Process_Properties.thy ===== *)
theory Process_Properties
  imports Process_Image Tty_Properties
begin

text \<open>
  The life of processes: waiting for the end of a child and the list of open files.  A step
  relation interleaves the operations of \<open>proc/process.c\<close> with the scheduler, with other
  sleeping and waking and with other threads.
\<close>

section \<open>Changes that the thread lists do not see\<close>

lemma kernel_ok_cong:
  assumes ok: "kernel_ok k"
    and eq: "length (thread_table k') = length (thread_table k)"
      "\<And>u. t_state (thread_table k' ! u) = t_state (thread_table k ! u)"
      "\<And>u. t_sleeps_on (thread_table k' ! u) = t_sleeps_on (thread_table k ! u)"
      "\<And>u. t_next (thread_table k' ! u) = t_next (thread_table k ! u)"
      "current_thread k' = current_thread k" "sleepq_table k' = sleepq_table k"
      "ready_head k' = ready_head k" "ready_tail k' = ready_tail k"
  shows "kernel_ok k'"
proof -
  obtain qs B where k: "kernel_at k qs B"
    using ok by (auto simp: kernel_ok_def)
  note D = kernel_atD [OF k]
  have "kernel_at k' qs B"
  proof (rule kernel_at_update [OF k, where X = "{}"])
    show "ready_queue k' qs"
      by (rule ready_queue_cong [OF D(4)]) (simp_all add: eq)
    show "chain (thread_table k') (sleepq_table k' ! h) (B h)" if "h < SLEEPQ_HASHTABLE_SIZE" for h
      using D(5) [OF that] seg_frame [of "thread_table k'" "thread_table k" "B h" "sleepq_table k ! h" "- 1"] by (simp add: eq)
  qed (use D in \<open>simp_all add: eq running_on_def\<close>)
  then show ?thesis
    by (auto simp: kernel_ok_def)
qed

lemma upd_thread_other:
  assumes "upd_thread t f k = Some k'" and "kernel_ok k"
    and f: "\<And>e. t_state (f e) = t_state e" "\<And>e. t_sleeps_on (f e) = t_sleeps_on e" "\<And>e. t_next (f e) = t_next e"
  shows "kernel_ok k'" "sleepers k' r = sleepers k r" "next_tid k' = next_tid k" "current_thread k' = current_thread k"
    "t_state (thread_table k' ! u) = t_state (thread_table k ! u)"
    "t_sleeps_on (thread_table k' ! u) = t_sleeps_on (thread_table k ! u)"
proof -
  have k': "k' = k\<lparr>thread_table := (thread_table k)[nat t := f (thread_table k ! nat t)]\<rparr>"
    using assms(1) by (simp add: upd_thread_def split: if_splits)
  show "kernel_ok k'"
    by (rule kernel_ok_cong [OF assms(2)]) (simp_all add: k' nth_update_if f)
  have same: "t_sleeps_on (thread_table k' ! u) = t_sleeps_on (thread_table k ! u)" for u
    by (simp add: k' nth_update_if f)
  show "sleepers k' r = sleepers k r"
    by (simp add: sleepers_def same)
  show "next_tid k' = next_tid k" "current_thread k' = current_thread k"
    "t_state (thread_table k' ! u) = t_state (thread_table k ! u)"
    "t_sleeps_on (thread_table k' ! u) = t_sleeps_on (thread_table k ! u)"
    by (simp_all add: k' nth_update_if f)
qed

section \<open>Waiting for a process\<close>

text \<open>The addresses of the rows of the process table.\<close>

definition row_addrs :: "u32 \<Rightarrow> u32 set" where
  "row_addrs base = (\<lambda>i. proc_addr base (int i)) ` {..<PROCESS_MAX_PROCESSES}"

definition table_at :: "u32 \<Rightarrow> bool" where
  "table_at base \<longleftrightarrow> 0 < unat base \<and> unat base + 312 * 129 < 2 ^ 32"

lemma proc_addr_unat: "table_at base \<Longrightarrow> i < 129 \<Longrightarrow> unat (proc_addr base (int i)) = unat base + 312 * i"
proof -
  assume a: "table_at base" "i < 129"
  have "proc_addr base (int i) = of_nat (unat base + 312 * i)"
    by (simp add: proc_addr_def)
  moreover have "unat base + 312 * i < 2 ^ 32"
    using a by (simp add: table_at_def)
  ultimately show ?thesis
    using of_nat_inverse [of "unat base + 312 * i" "proc_addr base (int i)"] by simp
qed

lemma proc_addr_eq_iff: "table_at base \<Longrightarrow> i < 129 \<Longrightarrow> j < 129 \<Longrightarrow>
    proc_addr base (int i) = proc_addr base (int j) \<longleftrightarrow> i = j"
  using proc_addr_unat [of base i] proc_addr_unat [of base j] by (metis add_left_cancel mult_cancel_left zero_neq_numeral)

lemma proc_addr_nonzero: "table_at base \<Longrightarrow> i < 129 \<Longrightarrow> proc_addr base (int i) \<noteq> 0"
  using proc_addr_unat [of base i] by (metis add_is_0 less_not_refl table_at_def unsigned_0)

text \<open>The steps: those of processes, the scheduler, and sleeping and waking by other parts of the
  kernel, which sleep on addresses outside the process table.\<close>

inductive proc_step :: "u32 \<Rightarrow> 'w machine \<Rightarrow> 'w machine \<Rightarrow> bool" for base where
  schedule: "c < MAX_CPUS \<Longrightarrow> scheduler_schedule c rnd (mc_kernel m) = Some (k, ticks) \<Longrightarrow>
    proc_step base m (m\<lparr>mc_kernel := k\<rparr>)"
| fork: "thread_create stacks fin func arg (mc_kernel m) = Some (t, k) \<Longrightarrow> proc_step base m (m\<lparr>mc_kernel := k\<rparr>)"
| run: "0 < t \<Longrightarrow> t < MAX_THREADS \<Longrightarrow> t_state (thread_table (mc_kernel m) ! t) = Thread_Nonready \<Longrightarrow>
    thread_run (int t) (mc_kernel m) = Some k \<Longrightarrow> proc_step base m (m\<lparr>mc_kernel := k\<rparr>)"
| finish: "caller c (mc_kernel m) t \<Longrightarrow> thread_finish c (mc_kernel m) = Some k \<Longrightarrow> proc_step base m (m\<lparr>mc_kernel := k\<rparr>)"
| wait: "caller c (mc_kernel m) t \<Longrightarrow> r \<noteq> 0 \<Longrightarrow> r \<notin> row_addrs base \<Longrightarrow> sleepq_add c r (mc_kernel m) = Some k \<Longrightarrow>
    proc_step base m (m\<lparr>mc_kernel := k\<rparr>)"
| wake: "r \<noteq> 0 \<Longrightarrow> sleepq_wake_all r (mc_kernel m) = Some k \<Longrightarrow> proc_step base m (m\<lparr>mc_kernel := k\<rparr>)"
| spawn: "caller c (mc_kernel m) t \<Longrightarrow> process_spawn stacks fin start c exe m = Some (r, m') \<Longrightarrow> proc_step base m m'"
| start: "caller c (mc_kernel m) t \<Longrightarrow> process_start F hdr phdr maxindex c pid m = Some (ctx, m') \<Longrightarrow> proc_step base m m'"
| join: "caller c (mc_kernel m) t \<Longrightarrow> process_join base c pid m = Some (r, m') \<Longrightarrow> proc_step base m m'"
| resume: "caller c (mc_kernel m) t \<Longrightarrow> i < PROCESS_MAX_PROCESSES \<Longrightarrow>
    process_join_loop base c (int i) m = Some (r, m') \<Longrightarrow> proc_step base m m'"
| exit: "caller c (mc_kernel m) t \<Longrightarrow> process_finish base c v m = Some m' \<Longrightarrow> proc_step base m m'"

text \<open>No thread sleeps on the row of a process that has ended.\<close>

definition proc_inv :: "u32 \<Rightarrow> 'w machine \<Rightarrow> bool" where
  "proc_inv base m \<longleftrightarrow> kernel_ok (mc_kernel m) \<and> 0 \<le> next_tid (mc_kernel m) \<and> next_tid (mc_kernel m) < int MAX_THREADS \<and>
     length (mc_procs m) = PROCESS_MAX_PROCESSES + 1 \<and>
     (\<forall>i<PROCESS_MAX_PROCESSES. sleepers (mc_kernel m) (proc_addr base (int i)) \<noteq> {} \<longrightarrow> pe_state (mc_procs m ! i) \<noteq> Process_Zombie)"

text \<open>A step of the kernel under which no one begins to wait for a process.\<close>

definition kernel_calm :: "u32 \<Rightarrow> kernel \<Rightarrow> kernel \<Rightarrow> bool" where
  "kernel_calm base k k' \<longleftrightarrow> kernel_ok k' \<and> 0 \<le> next_tid k' \<and> next_tid k' < int MAX_THREADS \<and>
     (\<forall>r\<in>row_addrs base. sleepers k' r \<subseteq> sleepers k r)"

lemma row_addrsI: "i < PROCESS_MAX_PROCESSES \<Longrightarrow> proc_addr base (int i) \<in> row_addrs base"
  by (auto simp: row_addrs_def)

lemma calm_inv:
  assumes "proc_inv base m" and "kernel_calm base (mc_kernel m) (mc_kernel m')"
    and "length (mc_procs m') = length (mc_procs m)"
    and "\<And>i. i < PROCESS_MAX_PROCESSES \<Longrightarrow> pe_state (mc_procs m' ! i) = Process_Zombie \<Longrightarrow>
      pe_state (mc_procs m ! i) = Process_Zombie \<or> sleepers (mc_kernel m') (proc_addr base (int i)) = {}"
  shows "proc_inv base m'"
  using assms row_addrsI [of _ base] unfolding proc_inv_def kernel_calm_def by (metis (no_types, lifting) subset_empty)

lemma calm_kernel:
  assumes "proc_inv base m" and "kernel_calm base (mc_kernel m) k"
  shows "proc_inv base (m\<lparr>mc_kernel := k\<rparr>)"
  by (rule calm_inv [OF assms(1)]) (use assms(2) in simp_all)

lemma calm_refl: "proc_inv base m \<Longrightarrow> kernel_calm base (mc_kernel m) (mc_kernel m)"
  by (simp add: proc_inv_def kernel_calm_def)

lemma calm_trans: "kernel_calm base k1 k2 \<Longrightarrow> kernel_calm base k2 k3 \<Longrightarrow> kernel_calm base k1 k3"
  unfolding kernel_calm_def by blast

lemma row_nonzero: "table_at base \<Longrightarrow> r \<in> row_addrs base \<Longrightarrow> r \<noteq> 0"
  using proc_addr_nonzero by (auto simp: row_addrs_def)

lemma sleepers_same:
  "(\<And>u. t_sleeps_on (thread_table k' ! u) = t_sleeps_on (thread_table k ! u)) \<Longrightarrow> sleepers k' r = sleepers k r"
  by (simp add: sleepers_def)

lemma calmI:
  assumes "wp f (\<lambda>(x, k'). kernel_ok k' \<and> 0 \<le> next_tid k' \<and> next_tid k' < int MAX_THREADS \<and>
      (\<forall>u. t_sleeps_on (thread_table k' ! u) = t_sleeps_on (thread_table k ! u)))" and "f = Some (x, k')"
  shows "kernel_calm base k k'"
  using assms sleepers_same [of k' k] by (simp add: kernel_calm_def)

lemma calm_thread_ops:
  assumes "proc_inv base m"
  shows "c < MAX_CPUS \<Longrightarrow> scheduler_schedule c rnd (mc_kernel m) = Some (k, ticks) \<Longrightarrow> kernel_calm base (mc_kernel m) k"
    and "thread_create stacks fin func arg (mc_kernel m) = Some (t, k) \<Longrightarrow> kernel_calm base (mc_kernel m) k"
    and "0 < u \<Longrightarrow> u < MAX_THREADS \<Longrightarrow> t_state (thread_table (mc_kernel m) ! u) = Thread_Nonready \<Longrightarrow>
      thread_run (int u) (mc_kernel m) = Some k \<Longrightarrow> kernel_calm base (mc_kernel m) k"
    and "caller c (mc_kernel m) u \<Longrightarrow> thread_finish c (mc_kernel m) = Some k \<Longrightarrow> kernel_calm base (mc_kernel m) k"
proof -
  obtain qs B where k: "kernel_at (mc_kernel m) qs B"
    using assms by (auto simp: proc_inv_def kernel_ok_def)
  have tid: "0 \<le> next_tid (mc_kernel m)" "next_tid (mc_kernel m) < int MAX_THREADS"
    using assms by (simp_all add: proc_inv_def)
  show "kernel_calm base (mc_kernel m) k" if "c < MAX_CPUS" "scheduler_schedule c rnd (mc_kernel m) = Some (k, ticks)"
    using wp_Some_iff [OF schedule_at [OF k that(1)] that(2)] tid sleepers_same [of k "mc_kernel m"]
    by (auto simp: kernel_calm_def kernel_ok_def)
  show "kernel_calm base (mc_kernel m) k" if "thread_create stacks fin func arg (mc_kernel m) = Some (t, k)"
    using wp_Some_iff [OF create_at [OF k tid] that] sleepers_same [of k "mc_kernel m"]
    by (auto simp: kernel_calm_def kernel_ok_def)
  show "kernel_calm base (mc_kernel m) k" if "0 < u" "u < MAX_THREADS" "t_state (thread_table (mc_kernel m) ! u) = Thread_Nonready"
      "thread_run (int u) (mc_kernel m) = Some k"
    using wp_Some_iff [OF add_ready_at [OF k that(1-3)] that(4) [unfolded thread_run_def]] tid sleepers_same [of k "mc_kernel m"]
    by (auto simp: kernel_calm_def kernel_ok_def)
  show "kernel_calm base (mc_kernel m) k" if t: "caller c (mc_kernel m) u" and f: "thread_finish c (mc_kernel m) = Some k"
  proof -
    note t' = t [unfolded caller_def]
    have "t_pagetable (thread_table (mc_kernel m) ! u) = 0"
      using f t' running_state [OF k, of c u] kernel_atD(1) [OF k]
      by (auto simp: thread_finish_def guard_def split: if_splits)
    then show ?thesis
      using wp_Some_iff [OF finish_at [OF k, of c u] f] t' tid sleepers_same [of k "mc_kernel m"]
      by (auto simp: kernel_calm_def kernel_ok_def)
  qed
qed

lemma add_sleeper:
  assumes "kernel_ok k" and "caller c k t" and "r \<noteq> 0" and "sleepq_add c r k = Some k'"
  shows "kernel_ok k'" "next_tid k' = next_tid k" "r' \<noteq> r \<Longrightarrow> r' \<noteq> 0 \<Longrightarrow> sleepers k' r' = sleepers k r'"
    "sleepers k' r = insert t (sleepers k r)"
proof -
  obtain qs B where k: "kernel_at k qs B"
    using assms(1) by (auto simp: kernel_ok_def)
  note t = assms(2) [unfolded caller_def]
  have "t < MAX_THREADS"
    using running_state(1) [OF k] t by blast
  then show "kernel_ok k'" "next_tid k' = next_tid k" "r' \<noteq> r \<Longrightarrow> r' \<noteq> 0 \<Longrightarrow> sleepers k' r' = sleepers k r'"
    "sleepers k' r = insert t (sleepers k r)"
    using wp_Some_iff [OF add_at [OF k, of c t r] assms(4)] t assms(3)
    by (auto simp: kernel_ok_def sleepers_def split: if_splits)
qed

lemma wake_all_calm:
  assumes "proc_inv base m" and "table_at base" and "r \<noteq> 0" and "sleepq_wake_all r (mc_kernel m) = Some k"
  shows "kernel_calm base (mc_kernel m) k"
proof -
  have ok: "kernel_ok (mc_kernel m)"
    using assms(1) by (simp add: proc_inv_def)
  show ?thesis
    using wake_all_sleepers(1,3,4) [OF ok assms(3,4)] assms(1) row_nonzero [OF assms(2)]
    by (simp add: kernel_calm_def proc_inv_def)
qed


lemma caller_other:
  assumes "upd_thread u f k = Some k'" and "kernel_ok k" and "caller c k t"
    and f: "\<And>e. t_state (f e) = t_state e" "\<And>e. t_sleeps_on (f e) = t_sleeps_on e" "\<And>e. t_next (f e) = t_next e"
  shows "caller c k' t"
  using assms(3) upd_thread_other(4-6) [OF assms(1,2) f] by (simp add: caller_def)

text \<open>The rows of the process table under its operations.\<close>

lemma upd_proc_Some:
  "upd_proc pid f m = Some m' \<longleftrightarrow> 0 \<le> pid \<and> nat pid < length (mc_procs m) \<and>
    m' = m\<lparr>mc_procs := (mc_procs m)[nat pid := f (mc_procs m ! nat pid)]\<rparr>"
  by (auto simp: upd_proc_def)

lemma alloc_find_rows:
  "alloc_find is m = Some (pid, m') \<Longrightarrow> mc_kernel m' = mc_kernel m \<and> length (mc_procs m') = length (mc_procs m) \<and>
    (\<forall>i. pe_state (mc_procs m' ! i) = Process_Zombie \<longrightarrow> pe_state (mc_procs m ! i) = Process_Zombie)"
  by (induction "is" m rule: alloc_find.induct)
    (auto simp: upd_proc_Some nth_list_update split: bind_splits if_splits)

lemma spawn_step:
  assumes inv: "proc_inv base m" and run: "process_spawn stacks fin start c exe m = Some (r, m')"
  shows "proc_inv base m'"
proof -
  obtain pid m1 where a: "alloc_process_id m = Some (pid, m1)"
    using run by (auto simp: process_spawn_def split: bind_splits)
  note rows = alloc_find_rows [OF a [unfolded alloc_process_id_def]]
  have inv1: "proc_inv base m1"
    by (rule calm_inv [OF inv]) (use rows calm_refl [OF inv] in auto)
  show ?thesis
  proof (cases "pid = int PROCESS_MAX_PROCESSES")
    case True
    then show ?thesis
      using run a inv1 by (simp add: process_spawn_def)
  next
    case False
    then obtain name parent m2 t k1 k2 where b:
        "upd_proc pid (\<lambda>p. p\<lparr>pe_executable := name, pe_parent := parent\<rparr>) m1 = Some m2"
        "thread_create stacks fin start (word_of_int pid) (mc_kernel m2) = Some (t, k1)"
        "thread_run t k1 = Some k2" "m' = m2\<lparr>mc_kernel := k2\<rparr>"
      using run a by (auto simp: process_spawn_def split: bind_splits)
    have inv2: "proc_inv base m2"
      by (rule calm_inv [OF inv1]) (use b(1) calm_refl [OF inv1] in \<open>auto simp: upd_proc_Some nth_list_update split: if_splits\<close>)
    obtain qs B where k: "kernel_at (mc_kernel m2) qs B"
      using inv2 by (auto simp: proc_inv_def kernel_ok_def)
    have tid: "0 \<le> next_tid (mc_kernel m2)" "next_tid (mc_kernel m2) < int MAX_THREADS"
      using inv2 by (simp_all add: proc_inv_def)
    have "t \<noteq> - 1"
      using b(3) by (auto simp: thread_run_def scheduler_add_ready_def scheduler_add_to_ready_list_def guard_def split: if_splits)
    then have t: "0 < t" "t < int MAX_THREADS" "t_state (thread_table k1 ! nat t) = Thread_Nonready"
      using wp_Some_iff [OF create_at [OF k tid] b(2)] by (auto split: if_splits)
    have calm1: "kernel_calm base (mc_kernel m2) k1"
      by (rule calm_thread_ops(2) [OF inv2 b(2)])
    have inv3: "proc_inv base (m2\<lparr>mc_kernel := k1\<rparr>)"
      by (rule calm_kernel [OF inv2 calm1])
    have calm2: "kernel_calm base k1 k2"
      using calm_thread_ops(3) [OF inv3, of "nat t" k2] t b(3) by simp
    show ?thesis
      unfolding b(4) by (rule calm_kernel [OF inv2 calm_trans [OF calm1 calm2]])
  qed
qed

lemma start_step:
  assumes inv: "proc_inv base m" and run: "process_start F hdr phdr maxindex c pid m = Some (ctx, m')"
  shows "proc_inv base m'"
proof -
  obtain me k1 k2 table where a: "upd_thread me (t_process_id_update (\<lambda>_. pid)) (mc_kernel m) = Some k1"
      "upd_thread me (t_pagetable_update (\<lambda>_. table)) k1 = Some k2" "mc_kernel m' = k2" "mc_procs m' = mc_procs m"
    using run by (auto simp: process_start_def split: bind_splits)
  have ok: "kernel_ok (mc_kernel m)"
    using inv by (simp add: proc_inv_def)
  note u1 = upd_thread_other [OF a(1) ok, simplified] and u2 = upd_thread_other [OF a(2) upd_thread_other(1) [OF a(1) ok], simplified]
  show ?thesis
    by (rule calm_inv [OF inv]) (use inv u1 u2 a(3,4) in \<open>auto simp: kernel_calm_def proc_inv_def\<close>)
qed

lemma join_loop_step:
  assumes inv: "proc_inv base m" and t: "table_at base" "caller c (mc_kernel m) t" and i: "i < PROCESS_MAX_PROCESSES"
    and run: "process_join_loop base c (int i) m = Some (r, m')"
  shows "proc_inv base m'"
proof -
  have ok: "kernel_ok (mc_kernel m)" and len: "length (mc_procs m) = PROCESS_MAX_PROCESSES + 1"
    using inv by (simp_all add: proc_inv_def)
  show ?thesis
  proof (cases "pe_state (mc_procs m ! i) = Process_Zombie")
    case True
    then have m': "m' = m\<lparr>mc_procs := (mc_procs m)[i := (mc_procs m ! i)\<lparr>pe_state := Process_Free,
        pe_executable := (pe_executable (mc_procs m ! i))[0 := 0], pe_retval := 0, pe_cFiles := 0\<rparr>]\<rparr>"
      using run i len by (auto simp: process_join_loop_def get_proc_def process_reset_def upd_proc_Some split: bind_splits)
    show ?thesis
      by (rule calm_inv [OF inv]) (use calm_refl [OF inv] i len in \<open>auto simp: m' nth_list_update split: if_splits\<close>)
  next
    case False
    then obtain k where k: "sleepq_add c (proc_addr base (int i)) (mc_kernel m) = Some k" "m' = m\<lparr>mc_kernel := k\<rparr>"
      using run i len by (auto simp: process_join_loop_def get_proc_def split: bind_splits)
    note add = add_sleeper [OF ok t(2) proc_addr_nonzero [OF t(1)] k(1)]
    have same: "sleepers k (proc_addr base (int j)) = sleepers (mc_kernel m) (proc_addr base (int j))"
      if "j < PROCESS_MAX_PROCESSES" "j \<noteq> i" for j
      by (rule add(3)) (use that i proc_addr_eq_iff [OF t(1), of j i] proc_addr_nonzero [OF t(1), of j] in auto)
    have "pe_state (mc_procs m ! j) \<noteq> Process_Zombie"
      if "j < PROCESS_MAX_PROCESSES" "sleepers k (proc_addr base (int j)) \<noteq> {}" for j
      using inv that False same [OF that(1)] unfolding proc_inv_def by (cases "j = i") auto
    then show ?thesis
      using inv add(1,2) i by (simp add: proc_inv_def k(2))
  qed
qed


lemma finish_step:
  assumes inv: "proc_inv base m" and t: "table_at base" "caller c (mc_kernel m) t"
    and run: "process_finish base c v m = Some m'"
  shows "proc_inv base m'" "process_get_current_process c m = Some pid \<Longrightarrow> 0 \<le> pid \<and>
    mc_procs m' = (mc_procs m)[nat pid := (mc_procs m ! nat pid)\<lparr>pe_state := Process_Zombie, pe_retval := v\<rparr>] \<and>
    sleepers (mc_kernel m') (proc_addr base pid) = {}"
proof -
  obtain cur me m1 k1 k2 k3 where a: "process_get_current_process c m = Some cur"
      "upd_proc cur (\<lambda>p. p\<lparr>pe_state := Process_Zombie, pe_retval := v\<rparr>) m = Some m1"
      "upd_thread me (t_pagetable_update (\<lambda>_. 0)) (mc_kernel m) = Some k1"
      "sleepq_wake_all (proc_addr base cur) k1 = Some k2" "thread_finish c k2 = Some k3" "mc_kernel m' = k3"
      "mc_procs m' = mc_procs m1"
    using run by (auto simp: process_finish_def upd_proc_Some split: bind_splits)
  have ok: "kernel_ok (mc_kernel m)" and len: "length (mc_procs m) = PROCESS_MAX_PROCESSES + 1"
    using inv by (simp_all add: proc_inv_def)
  have cur: "0 \<le> cur" "nat cur < 129" "mc_procs m' = (mc_procs m)[nat cur := (mc_procs m ! nat cur)\<lparr>pe_state := Process_Zombie, pe_retval := v\<rparr>]"
    using a(2,7) len by (auto simp: upd_proc_Some)
  note u1 = upd_thread_other [OF a(3) ok, simplified]
  have addr: "proc_addr base cur = proc_addr base (int (nat cur))" "proc_addr base cur \<noteq> 0"
    using cur(1) proc_addr_nonzero [OF t(1) cur(2)] by simp_all
  note w = wake_all_sleepers [OF u1(1) addr(2) a(4)]
  have t1: "caller c k1 t"
    by (rule caller_other [OF a(3) ok t(2)]) simp_all
  obtain qs B where k2: "kernel_at k2 qs B"
    using w(1) by (auto simp: kernel_ok_def)
  obtain qs1 B1 where k1: "kernel_at k1 qs1 B1"
    using u1(1) by (auto simp: kernel_ok_def)
  note t1' = t1 [unfolded caller_def]
  have t2: "current_thread k2 ! c = int t" "t_sleeps_on (thread_table k2 ! t) = 0"
    using t1' w(5,6) running_state(1) [OF k1, of c t] by auto
  have "t_pagetable (thread_table k2 ! t) = 0"
    using a(5) t1' t2 running_state [OF k2, of c t] kernel_atD(1) [OF k2]
    by (auto simp: thread_finish_def guard_def split: if_splits)
  then have f: "kernel_ok k3" "next_tid k3 = next_tid k2" "sleepers k3 r = sleepers k2 r" for r
    using wp_Some_iff [OF finish_at [OF k2, of c t] a(5)] t1' t2 sleepers_same [of k3 k2]
    by (auto simp: kernel_ok_def)
  have sub: "sleepers k3 r \<subseteq> sleepers (mc_kernel m) r" if "r \<noteq> 0" for r
    using w(3) [OF that] f(3) u1(2) by simp
  have calm: "kernel_calm base (mc_kernel m) k3"
    using f(1,2) w(4) u1(3) inv sub row_nonzero [OF t(1)] by (auto simp: kernel_calm_def proc_inv_def)
  have none: "sleepers k3 (proc_addr base cur) = {}"
    using w(2) f(3) by simp
  show "proc_inv base m'"
  proof (rule calm_inv [OF inv])
    show "kernel_calm base (mc_kernel m) (mc_kernel m')"
      using calm by (simp add: a(6))
    show "pe_state (mc_procs m ! i) = Process_Zombie \<or> sleepers (mc_kernel m') (proc_addr base (int i)) = {}"
      if "i < PROCESS_MAX_PROCESSES" "pe_state (mc_procs m' ! i) = Process_Zombie" for i
      using that none cur len unfolding a(6) by (cases "int i = cur") (auto simp: nth_list_update split: if_splits)
  qed (simp add: cur(3))
  show "0 \<le> pid \<and>
    mc_procs m' = (mc_procs m)[nat pid := (mc_procs m ! nat pid)\<lparr>pe_state := Process_Zombie, pe_retval := v\<rparr>] \<and>
    sleepers (mc_kernel m') (proc_addr base pid) = {}" if "process_get_current_process c m = Some pid"
    using cur none a(1,6) that by simp
qed

lemma proc_step_inv:
  assumes "proc_step base m m'" and "table_at base" and inv: "proc_inv base m"
  shows "proc_inv base m'"
  using assms(1)
proof (cases rule: proc_step.cases)
  case (schedule c rnd k ticks)
  then show ?thesis
    using calm_kernel [OF inv calm_thread_ops(1) [OF inv]] by blast
next
  case (fork stacks fin func arg t k)
  then show ?thesis
    using calm_kernel [OF inv calm_thread_ops(2) [OF inv]] by blast
next
  case (run t k)
  then show ?thesis
    using calm_kernel [OF inv calm_thread_ops(3) [OF inv]] by blast
next
  case (finish c t k)
  then show ?thesis
    using calm_kernel [OF inv calm_thread_ops(4) [OF inv]] by blast
next
  case (wait c t r k)
  have ok: "kernel_ok (mc_kernel m)"
    using inv by (simp add: proc_inv_def)
  note add = add_sleeper [OF ok wait(2,3,5)]
  have "sleepers k r' = sleepers (mc_kernel m) r'" if "r' \<in> row_addrs base" for r'
    by (rule add(3)) (use that wait(4) row_nonzero [OF assms(2)] in auto)
  then have "kernel_calm base (mc_kernel m) k"
    using add(1,2) inv by (simp add: kernel_calm_def proc_inv_def)
  then show ?thesis
    unfolding wait(1) by (rule calm_kernel [OF inv])
next
  case (wake r k)
  then show ?thesis
    using calm_kernel [OF inv wake_all_calm [OF inv assms(2)]] by blast
next
  case (spawn c t stacks fin start exe r)
  then show ?thesis
    using spawn_step [OF inv] by blast
next
  case (start c t F hdr phdr maxindex pid ctx)
  then show ?thesis
    using start_step [OF inv] by blast
next
  case (join c t pid r)
  show ?thesis
  proof (cases "m' = m")
    case False
    then have "0 \<le> pid" "pid < int PROCESS_MAX_PROCESSES" and loop: "process_join_loop base c pid m = Some (r, m')"
      using join(2) by (auto simp: process_join_def split: if_splits bind_splits)
    then have "nat pid < PROCESS_MAX_PROCESSES" "int (nat pid) = pid"
      by simp_all
    then show ?thesis
      using join_loop_step [OF inv assms(2) join(1), of "nat pid" r m'] loop by simp
  qed (use inv in simp)
next
  case (resume c t i r)
  then show ?thesis
    using join_loop_step [OF inv assms(2)] by blast
next
  case (exit c t v)
  then show ?thesis
    using finish_step [OF inv assms(2)] by blast
qed


lemma proc_steps_inv: "(proc_step base)\<^sup>*\<^sup>* m m' \<Longrightarrow> table_at base \<Longrightarrow> proc_inv base m \<Longrightarrow> proc_inv base m'"
  by (induction rule: rtranclp_induct) (auto intro: proc_step_inv)

text \<open>The process table and the kernel after the initialisation.\<close>

lemma process_init_rows:
  assumes "length (mc_procs m) = PROCESS_MAX_PROCESSES + 1"
  shows "wp (process_init m) (\<lambda>m'. mc_kernel m' = mc_kernel m \<and> length (mc_procs m') = PROCESS_MAX_PROCESSES + 1 \<and>
    (\<forall>i<PROCESS_MAX_PROCESSES + 1. pe_state (mc_procs m' ! i) = Process_Free))"
proof -
  let ?P = "\<lambda>n m'. mc_kernel m' = mc_kernel m \<and> length (mc_procs m') = PROCESS_MAX_PROCESSES + 1 \<and>
    (\<forall>i<n. pe_state (mc_procs m' ! i) = Process_Free)"
  show ?thesis
    unfolding process_init_def
  proof (rule wp_for_each_upt [where P = ?P])
    show "wp (process_reset (int n) m') (?P (Suc n))" if "n < PROCESS_MAX_PROCESSES + 1" "?P n m'" for n and m' :: "'a machine"
      using that by (auto simp: process_reset_def upd_proc_def nth_list_update less_Suc_eq)
  qed (use assms in auto)
qed

lemma init_inv:
  assumes "fresh_kernel s k" and "mc_kernel m = snd (boot stacks idle_loop (s, k))"
    and "length (mc_procs m) = PROCESS_MAX_PROCESSES + 1" and "process_init m = Some m'"
  shows "proc_inv base m'"
proof -
  have "kernel_inv (boot stacks idle_loop (s, k))"
    by (rule boot_inv [OF assms(1)])
  then show ?thesis
    using wp_Some_iff [OF process_init_rows [OF assms(3)] assms(4)] assms(2)
    by (auto simp: proc_inv_def kernel_inv_def split_beta)
qed

text \<open>The row of a process that has ended is kept until it is collected.\<close>

lemma alloc_find_keeps:
  "alloc_find is m = Some (pid, m') \<Longrightarrow> pe_state (mc_procs m ! i) = Process_Zombie \<Longrightarrow>
    mc_procs m' ! i = mc_procs m ! i \<and> (pid = int PROCESS_MAX_PROCESSES + 1 \<or>
      0 \<le> pid \<and> nat pid < length (mc_procs m) \<and> pe_state (mc_procs m ! nat pid) = Process_Free)"
  by (induction "is" m rule: alloc_find.induct)
    (auto simp: upd_proc_Some get_proc_def nth_list_update split: bind_splits if_splits)

lemma zombie_kept:
  assumes step: "proc_step base m m'" and z: "pe_state (mc_procs m ! i) = Process_Zombie" "pe_state (mc_procs m' ! i) = Process_Zombie"
    and none: "\<And>c t. caller c (mc_kernel m) t \<Longrightarrow> process_get_current_process c m \<noteq> Some (int i)"
    and len: "length (mc_procs m) = PROCESS_MAX_PROCESSES + 1"
  shows "mc_procs m' ! i = mc_procs m ! i"
  using step
proof (cases rule: proc_step.cases)
  case (spawn c t stacks fin start exe r)
  obtain pid m1 where a: "alloc_find [0..<PROCESS_MAX_PROCESSES + 1] m = Some (pid, m1)"
    using spawn(2) by (auto simp: process_spawn_def alloc_process_id_def split: bind_splits)
  note k = alloc_find_keeps [OF a z(1)]
  show ?thesis
  proof (cases "pid = int PROCESS_MAX_PROCESSES")
    case True
    then show ?thesis
      using spawn(2) a k by (simp add: process_spawn_def alloc_process_id_def)
  next
    case False
    then obtain f m2 where "upd_proc pid f m1 = Some m2" "mc_procs m' = mc_procs m2"
      using spawn(2) a by (auto simp: process_spawn_def alloc_process_id_def split: bind_splits)
    then show ?thesis
      using k z len alloc_find_rows [OF a] by (auto simp: upd_proc_Some nth_list_update)
  qed
next
  case (start c t F hdr phdr maxindex pid ctx)
  then show ?thesis
    by (auto simp: process_start_def split: bind_splits)
next
  case (join c t pid r)
  then show ?thesis
    using z by (auto simp: process_join_def process_join_loop_def process_reset_def upd_proc_Some nth_list_update split: bind_splits if_splits)
next
  case (resume c t j r)
  then show ?thesis
    using z by (auto simp: process_join_loop_def process_reset_def upd_proc_Some nth_list_update split: bind_splits if_splits)
next
  case (exit c t v)
  then show ?thesis
    using none [OF exit(1)] by (auto simp: process_finish_def upd_proc_Some nth_list_update split: bind_splits)
qed simp_all

text \<open>Steps in which no thread of process \<open>i\<close> acts and its row stays a zombie.\<close>

definition zombie_step :: "u32 \<Rightarrow> nat \<Rightarrow> 'w machine \<Rightarrow> 'w machine \<Rightarrow> bool" where
  "zombie_step base i m m' \<longleftrightarrow> proc_step base m m' \<and>
     (\<forall>c t. caller c (mc_kernel m) t \<longrightarrow> process_get_current_process c m \<noteq> Some (int i)) \<and>
     pe_state (mc_procs m ! i) = Process_Zombie \<and> pe_state (mc_procs m' ! i) = Process_Zombie"

lemma zombie_steps_keep:
  assumes "(zombie_step base i)\<^sup>*\<^sup>* m m'" and "table_at base" and "proc_inv base m"
  shows "proc_inv base m' \<and> mc_procs m' ! i = mc_procs m ! i"
  using assms(1)
proof (induction rule: rtranclp_induct)
  case (step m1 m2)
  then have "proc_inv base m2"
    using proc_step_inv assms(2) by (auto simp: zombie_step_def)
  moreover have "mc_procs m2 ! i = mc_procs m1 ! i"
    by (rule zombie_kept) (use step in \<open>auto simp: zombie_step_def proc_inv_def\<close>)
  ultimately show ?case
    using step by simp
qed (use assms(3) in simp)

section \<open>The list of open files\<close>

definition own_files :: "process \<Rightarrow> int set" where
  "own_files p = set (take (unat (pe_cFiles p)) (pe_files p))"

definition files_ok :: "process \<Rightarrow> bool" where
  "files_ok p \<longleftrightarrow> length (pe_files p) = 10 \<and> unat (pe_cFiles p) \<le> 10 \<and> distinct (take (unat (pe_cFiles p)) (pe_files p))"

lemma check_loop_set:
  "(\<And>i. i \<in> set is \<Longrightarrow> i < length fs) \<Longrightarrow>
    check_loop fd fs is found = Some (if \<exists>i\<in>set is. fs ! i = fd then 0 else found)"
  by (induction "is" arbitrary: found) auto

lemma in_take_nth: "n \<le> length fs \<Longrightarrow> (\<exists>i\<in>set [0..<n]. fs ! i = fd) \<longleftrightarrow> fd \<in> set (take n fs)"
  by (auto simp: in_set_conv_nth)

lemma rem_loop_set:
  assumes "n \<le> length fs" and "distinct (take n fs)" and "fd \<notin> set (take i (take n fs))"
  shows "\<exists>n' fs'. rem_loop fd i n fs = Some (n', fs') \<and> length fs' = length fs \<and> n' \<le> n \<and>
    distinct (take n' fs') \<and> set (take n' fs') = set (take n fs) - {fd}"
  using assms
proof (induction fd i n fs rule: rem_loop.induct)
  case (1 fd i n fs)
  show ?case
  proof (cases "i < n")
    case False
    then show ?thesis
      using 1(3-5) by (subst rem_loop.simps) auto
  next
    case True
    then have i: "i < length fs" "n - 1 < length fs"
      using 1(3) by auto
    show ?thesis
    proof (cases "fs ! i = fd")
      case False
      have "fd \<notin> set (take (i + 1) (take n fs))"
        using 1(5) False True i by (simp add: take_Suc_conv_app_nth min_def)
      from 1(2) [OF True i(1) False 1(3,4) this] show ?thesis
        using True i False by (subst rem_loop.simps) simp
    next
      case eq: True
      let ?fs = "fs[i := fs ! (n - 1)]"
      have split: "take n fs = take (n - 1) fs @ [fs ! (n - 1)]"
        using True i by (metis Suc_diff_1 gr_zeroI not_less0 take_Suc_conv_app_nth)
      have upd: "take (n - 1) ?fs = (take (n - 1) fs)[i := fs ! (n - 1)]"
        by (rule take_update_swap)
      have dist: "distinct (take (n - 1) fs)" "fs ! (n - 1) \<notin> set (take (n - 1) fs)"
        using 1(4) unfolding split by simp_all
      have set: "distinct (take (n - 1) ?fs) \<and> set (take (n - 1) ?fs) = set (take n fs) - {fd}"
      proof (cases "i = n - 1")
        case True
        then show ?thesis
          using dist eq unfolding split upd by (simp add: list_update_beyond)
      next
        case False
        then have "i < n - 1"
          using \<open>i < n\<close> by simp
        then have m: "i < length (take (n - 1) fs)" "take (n - 1) fs ! i = fd"
          using i eq by simp_all
        have ne: "fs ! (n - 1) \<noteq> fd"
          using dist(2) m by (metis nth_mem)
        have "set ((take (n - 1) fs)[i := fs ! (n - 1)]) = insert (fs ! (n - 1)) (set (take (n - 1) fs) - {fd})"
          using set_update_distinct [OF dist(1) m(1)] m(2) by metis
        then show ?thesis
          using distinct_list_update [OF dist(1)] dist(2) ne unfolding split upd by auto
      qed
      have "fd \<notin> set (take (i + 1) (take (n - 1) ?fs))"
        using set by (metis DiffD2 in_set_takeD insertI1)
      moreover have "n - 1 \<le> length ?fs"
        using i by simp
      ultimately obtain n' fs' where IH: "rem_loop fd (i + 1) (n - 1) ?fs = Some (n', fs')" "length fs' = length ?fs"
          "n' \<le> n - 1" "distinct (take n' fs')" "set (take n' fs') = set (take (n - 1) ?fs) - {fd}"
        using 1(1) [OF True i(1) eq i(2)] set by blast
      have "rem_loop fd i n fs = Some (n', fs')"
        using True i eq IH(1) by (subst rem_loop.simps) simp
      then show ?thesis
        using IH set by auto
    qed
  qed
qed


text \<open>The operations on the list of the process with row \<open>i\<close>, which runs.\<close>

definition own_row :: "nat \<Rightarrow> nat \<Rightarrow> 'w machine \<Rightarrow> process \<Rightarrow> bool" where
  "own_row cpu i m p \<longleftrightarrow> process_get_current_process cpu m = Some (int i) \<and> i < PROCESS_MAX_PROCESSES \<and>
     i < length (mc_procs m) \<and> mc_procs m ! i = p \<and> pe_state p = Process_Running \<and> files_ok p"

lemma own_row_upd: "own_row cpu i m p \<Longrightarrow> files_ok p' \<Longrightarrow> pe_state p' = Process_Running \<Longrightarrow>
    own_row cpu i (m\<lparr>mc_procs := (mc_procs m)[i := p']\<rparr>) p'"
  by (simp add: own_row_def process_get_current_process_def)

lemma card_own_files: "files_ok p \<Longrightarrow> card (own_files p) = unat (pe_cFiles p)"
  using distinct_card [of "take (unat (pe_cFiles p)) (pe_files p)"] by (simp add: own_files_def files_ok_def)

lemma check_file_eq:
  assumes "own_row cpu i m p"
  shows "process_check_file cpu fd m = Some (if fd \<in> own_files p then 0 else - 1)"
proof -
  have "unat (pe_cFiles p) \<le> length (pe_files p)"
    using assms by (simp add: own_row_def files_ok_def)
  then have "check_loop fd (pe_files p) [0..<unat (pe_cFiles p)] (- 1) = Some (if fd \<in> own_files p then 0 else - 1)"
    using in_take_nth [of "unat (pe_cFiles p)" "pe_files p" fd] by (subst check_loop_set) (auto simp: own_files_def)
  then show ?thesis
    using assms by (simp add: process_check_file_def own_row_def get_proc_def)
qed

lemma add_file_wp:
  assumes row: "own_row cpu i m p" and new: "fd \<notin> own_files p"
  shows "wp (process_add_file cpu fd m) (\<lambda>(r, m').
    if card (own_files p) = 10 then r = - 1 \<and> m' = m
    else r = 0 \<and> (\<exists>p'. m' = m\<lparr>mc_procs := (mc_procs m)[i := p']\<rparr> \<and> own_row cpu i m' p' \<and>
      own_files p' = insert fd (own_files p)))"
proof -
  have ok: "files_ok p" and st: "pe_state p = Process_Running"
    using row by (simp_all add: own_row_def)
  let ?n = "unat (pe_cFiles p)"
  have n: "?n \<le> 10" "length (pe_files p) = 10" "card (own_files p) = ?n"
    using ok card_own_files [OF ok] by (simp_all add: files_ok_def)
  show ?thesis
  proof (cases "?n = 10")
    case True
    then have "pe_cFiles p \<ge> PROCESS_MAX_FILES"
      by (simp add: word_le_nat_alt)
    then show ?thesis
      using row n True by (simp add: process_add_file_def own_row_def get_proc_def)
  next
    case False
    then have less: "?n < 10" "\<not> pe_cFiles p \<ge> PROCESS_MAX_FILES"
      using n(1) by (simp_all add: word_le_nat_alt)
    let ?p = "p\<lparr>pe_files := (pe_files p)[?n := fd], pe_cFiles := pe_cFiles p + 1\<rparr>"
    have c: "unat (pe_cFiles p + 1) = Suc ?n"
      using less(1) by (simp add: unat_word_ariths)
    have "take (Suc ?n) ((pe_files p)[?n := fd]) = take ?n (pe_files p) @ [fd]"
      using less n by (simp add: take_Suc_upd)
    then have "files_ok ?p" "own_files ?p = insert fd (own_files p)"
      using ok less new unfolding files_ok_def own_files_def by (simp_all add: c)
    with own_row_upd [OF row this(1)] have "own_row cpu i (m\<lparr>mc_procs := (mc_procs m)[i := ?p]\<rparr>) ?p \<and>
        own_files ?p = insert fd (own_files p)"
      using st by simp
    then show ?thesis
      using row n less False st
      by (auto simp: process_add_file_def own_row_def get_proc_def upd_proc_def guard_def)
  qed
qed

lemma rem_file_wp:
  assumes row: "own_row cpu i m p"
  shows "wp (process_rem_file cpu fd m) (\<lambda>(r, m'). r = 0 \<and> (\<exists>p'. m' = m\<lparr>mc_procs := (mc_procs m)[i := p']\<rparr> \<and>
    own_row cpu i m' p' \<and> own_files p' = own_files p - {fd}))"
proof -
  have ok: "files_ok p" and st: "pe_state p = Process_Running"
    using row by (simp_all add: own_row_def)
  let ?n = "unat (pe_cFiles p)"
  obtain n' fs' where l: "rem_loop fd 0 ?n (pe_files p) = Some (n', fs')" "length fs' = 10" "n' \<le> 10"
      "distinct (take n' fs')" "set (take n' fs') = own_files p - {fd}"
  proof -
    have "?n \<le> length (pe_files p)" "distinct (take ?n (pe_files p))" "?n \<le> 10" "length (pe_files p) = 10"
      using ok by (simp_all add: files_ok_def)
    with rem_loop_set [of ?n "pe_files p" fd 0] that show thesis
      unfolding own_files_def by fastforce
  qed
  let ?p = "p\<lparr>pe_cFiles := of_nat n', pe_files := fs'\<rparr>"
  have "unat (of_nat n' :: u32) = n'"
    using l(3) by (simp add: unat_of_nat)
  then have "files_ok ?p" "own_files ?p = own_files p - {fd}"
    using l unfolding files_ok_def own_files_def by simp_all
  with own_row_upd [OF row this(1)] have "own_row cpu i (m\<lparr>mc_procs := (mc_procs m)[i := ?p]\<rparr>) ?p \<and>
      own_files ?p = own_files p - {fd}"
    using st by simp
  then show ?thesis
    using row l(1) st by (auto simp: process_rem_file_def own_row_def get_proc_def upd_proc_def simp del: rem_loop.simps)
qed

section \<open>Properties\<close>


text \<open>C19. The exit status reaches the parent: when process \<open>i\<close> has ended with \<open>v\<close>, then after any
  further steps of the system in which no thread of that process acts and nobody has collected the
  status, a join by the parent returns \<open>v\<close>, frees the row and changes nothing else, and a join by any other
  process is refused.\<close>

theorem process_exit_status:
  assumes "table_at base" and "proc_inv base m" and "caller c (mc_kernel m) t"
    and "process_get_current_process c m = Some (int i)" and "i < PROCESS_MAX_PROCESSES"
    and "process_finish base c v m = Some m1" and "(zombie_step base i)\<^sup>*\<^sup>* m1 m2"
    and "process_get_current_process d m2 = Some cur"
  shows "process_join base d (int i) m2 =
    (if cur = pe_parent (mc_procs m ! i)
     then Some (Some v, m2\<lparr>mc_procs := (mc_procs m2)[i := (mc_procs m2 ! i)\<lparr>pe_state := Process_Free,
       pe_executable := (pe_executable (mc_procs m2 ! i))[0 := 0], pe_retval := 0, pe_cFiles := 0\<rparr>]\<rparr>)
     else Some (Some PROCESS_ILLEGAL_JOIN, m2))"
proof -
  have inv1: "proc_inv base m1"
    by (rule finish_step(1) [OF assms(2,1,3,6)])
  have len: "length (mc_procs m) = PROCESS_MAX_PROCESSES + 1"
    using assms(2) by (simp add: proc_inv_def)
  then have row1: "mc_procs m1 ! i = (mc_procs m ! i)\<lparr>pe_state := Process_Zombie, pe_retval := v\<rparr>"
    using finish_step(2) [OF assms(2,1,3,6,4)] assms(5) by simp
  have "proc_inv base m2" and row2: "mc_procs m2 ! i = (mc_procs m ! i)\<lparr>pe_state := Process_Zombie, pe_retval := v\<rparr>"
    using zombie_steps_keep [OF assms(7,1) inv1] row1 by simp_all
  then have "get_proc (int i) m2 = Some (mc_procs m2 ! i)" "i < length (mc_procs m2)"
    using assms(5) by (simp_all add: get_proc_def proc_inv_def)
  then show ?thesis
    using assms(5,8) row2 by (auto simp: process_join_def process_join_loop_def process_reset_def upd_proc_def)
qed


text \<open>A full process table: when no row from 0 to 127 is free, the first \<open>process_spawn\<close> takes the
  row behind the table and returns \<open>PROCESS_PTABLE_FULL\<close>; after it, with the table still full,
  \<open>process_spawn\<close> runs on behind that row and does not return.\<close>

theorem process_table_full:
  assumes "length (mc_procs m) = PROCESS_MAX_PROCESSES + 1" and "\<And>i. i < PROCESS_MAX_PROCESSES \<Longrightarrow> pe_state (mc_procs m ! i) \<noteq> Process_Free"
  shows "if pe_state (mc_procs m ! 128) = Process_Free
    then \<exists>m'. process_spawn stacks fin start cpu exe m = Some (PROCESS_PTABLE_FULL, m') \<and>
      m' = m\<lparr>mc_procs := (mc_procs m)[128 := (mc_procs m ! 128)\<lparr>pe_state := Process_Running\<rparr>]\<rparr> \<and>
      process_spawn stacks fin start cpu exe m' = None
    else process_spawn stacks fin start cpu exe m = None"
proof -
  have find: "alloc_find [i..<129] m = (if pe_state (mc_procs m ! 128) = Process_Free
      then Some (128, m\<lparr>mc_procs := (mc_procs m)[128 := (mc_procs m ! 128)\<lparr>pe_state := Process_Running\<rparr>]\<rparr>)
      else Some (129, m))"
    if "length (mc_procs m) = 129" "\<And>i. i < 128 \<Longrightarrow> pe_state (mc_procs m ! i) \<noteq> Process_Free" "i \<le> 128" for i and m :: "'a machine"
    using that(3)
  proof (induction "128 - i" arbitrary: i)
    case 0
    then have "[i..<129] = [128]" by (simp add: upt_rec del: upt_rec_numeral)
    then show ?case
      using that(1) by (simp add: get_proc_def upd_proc_def)
  next
    case (Suc n)
    then have "[i..<129] = i # [Suc i..<129]" by (simp add: upt_rec del: upt_rec_numeral)
    then show ?case
      using Suc.hyps(1) [of "Suc i"] Suc.hyps(2) Suc.prems that(1,2) by (simp add: get_proc_def)
  qed
  have full: "process_spawn stacks fin start cpu exe m' = None"
    if "length (mc_procs m') = 129" "\<And>i. i < 128 \<Longrightarrow> pe_state (mc_procs m' ! i) \<noteq> Process_Free"
      "pe_state (mc_procs m' ! 128) \<noteq> Process_Free" for m' :: "'a machine"
    using find [OF that(1,2), of 0] that(1,3) by (simp add: process_spawn_def alloc_process_id_def get_proc_def del: upt_rec_numeral)
  show ?thesis
  proof (cases "pe_state (mc_procs m ! 128) = Process_Free")
    case True
    let ?m = "m\<lparr>mc_procs := (mc_procs m)[128 := (mc_procs m ! 128)\<lparr>pe_state := Process_Running\<rparr>]\<rparr>"
    have "process_spawn stacks fin start cpu exe m = Some (PROCESS_PTABLE_FULL, ?m)"
      using find [of m 0] assms True by (simp add: process_spawn_def alloc_process_id_def del: upt_rec_numeral)
    moreover have "process_spawn stacks fin start cpu exe ?m = None"
      by (rule full) (use assms in auto)
    ultimately show ?thesis
      using True by simp
  next
    case False
    then show ?thesis
      using full [of m] assms by simp
  qed
qed


text \<open>A process 0 on processor 1 and its child 1 on processor 0, whose page table is page 2.\<close>

definition demo_thread :: "int \<Rightarrow> u32 \<Rightarrow> thread" where
  "demo_thread pid pt = \<lparr>t_context = 0, t_user_context = 0, t_state = Thread_Running, t_sleeps_on = 0,
     t_pagetable = pt, t_process_id = pid, t_next = - 1\<rparr>"

definition demo_family :: "(ram disk tfs \<times> kres) machine" where
  "demo_family = demo_machine\<lparr>
     mc_kernel := (snd demo_boot)\<lparr>current_thread := [1, 2, 0, 0],
       thread_table := (thread_table (snd demo_boot))[1 := demo_thread 1 0x80002000, 2 := demo_thread 0 0x80001000]\<rparr>,
     mc_procs := demo_process # demo_process\<lparr>pe_parent := 0\<rparr> # replicate 127 (demo_process\<lparr>pe_state := Process_Free\<rparr>),
     mc_pool := demo_process_pool\<lparr>pp_static_end := 1, pp_num_free_pages := 5\<rparr>\<rparr>"

lemma demo_boot_simps:
  "length (thread_table (snd demo_boot)) = 32" "sleepq_table (snd demo_boot) = replicate SLEEPQ_HASHTABLE_SIZE (- 1)"
  "ready_head (snd demo_boot) = - 1" "ready_tail (snd demo_boot) = - 1" "next_tid (snd demo_boot) = 0"
  "u < 32 \<Longrightarrow> t_sleeps_on (thread_table (snd demo_boot) ! u) = 0"
  "u < 32 \<Longrightarrow> t_state (thread_table (snd demo_boot) ! u) = (if u = 0 then Thread_Ready else Thread_Free)"
  by (simp_all add: demo_boot_def boot_def sleepq_init_def scheduler_init_def thread_table_init_def Let_def demo_kernel_def
      del: upt_rec_numeral)

lemma demo_family_simps:
  "current_thread (mc_kernel demo_family) = [1, 2, 0, 0]"
  "length (thread_table (mc_kernel demo_family)) = 32" "sleepq_table (mc_kernel demo_family) = replicate 127 (- 1)"
  "thread_table (mc_kernel demo_family) ! 1 = demo_thread 1 0x80002000"
  "thread_table (mc_kernel demo_family) ! 2 = demo_thread 0 0x80001000"
  "next_tid (mc_kernel demo_family) = 0" "length (mc_procs demo_family) = 129"
  "mc_procs demo_family ! 0 = demo_process" "mc_procs demo_family ! 1 = demo_process\<lparr>pe_parent := 0\<rparr>"
  by (simp_all add: demo_family_def demo_boot_simps demo_machine_def)

lemmas demo_child = demo_family_simps(4,9) [unfolded One_nat_def]

lemma demo_family_inv: "proc_inv base demo_family"
proof -
  let ?k = "mc_kernel demo_family"
  have th: "thread_table ?k ! u = (if u = 1 then demo_thread 1 0x80002000 else if u = 2 then demo_thread 0 0x80001000
      else thread_table (snd demo_boot) ! u)" if "u < 32" for u
    using that by (simp add: demo_family_def demo_boot_simps)
  have cur: "current_thread ?k ! c = (if c = 0 then 1 else if c = 1 then 2 else 0)" if "c < 4" for c
    using that unfolding demo_family_simps by (auto simp: nth_Cons' less_Suc_eq numeral_eq_Suc)
  have st: "t_state (thread_table ?k ! u) = (if u = 1 \<or> u = 2 then Thread_Running else if u = 0 then Thread_Ready else Thread_Free)"
    and none: "t_sleeps_on (thread_table ?k ! u) = 0" if "u < 32" for u
    using that th [OF that] by (auto simp: demo_thread_def demo_boot_simps)
  have "kernel_at ?k [] (\<lambda>_. [])"
    unfolding kernel_at_def
  proof (intro conjI allI impI)
    show "thread_ok ?k [] (\<lambda>_. []) t" if "0 < t \<and> t < MAX_THREADS" for t
      using that st none by (auto simp: thread_ok_def running_on_def demo_family_simps Let_def)
    show "ready_queue ?k []"
      by (simp add: ready_queue_def demo_family_def demo_boot_simps)
    show "c = d \<or> current_thread ?k ! c = 0" if "c < MAX_CPUS" "d < MAX_CPUS" "current_thread ?k ! c = current_thread ?k ! d" for c d
      using that cur by (auto split: if_splits)
  qed (use st none cur in \<open>auto simp: demo_family_simps\<close>)
  then have "kernel_ok ?k"
    by (auto simp: kernel_ok_def)
  moreover have "sleepers ?k r = {}" if "r \<noteq> 0" for r
    using none that by (auto simp: sleepers_def)
  moreover have "pe_state (mc_procs demo_family ! i) \<noteq> Process_Zombie" if "i < 128" for i
    using that by (auto simp: demo_family_def demo_process_def nth_Cons')
  ultimately show ?thesis
    by (simp add: proc_inv_def demo_family_simps)
qed

lemma demo_table_at: "table_at 0x80030000"
  by (simp add: table_at_def)

lemma demo_callers: "caller 0 (mc_kernel demo_family) 1" "caller 1 (mc_kernel demo_family) 2"
  by (simp_all add: caller_def demo_family_simps demo_thread_def del: One_nat_def)

lemma demo_processes: "process_get_current_process 0 demo_family = Some 1" "process_get_current_process 1 demo_family = Some 0"
  by (simp_all add: process_get_current_process_def thread_get_current_thread_entry_def current_on_def get_thread_def
      demo_family_simps demo_child demo_thread_def)


lemma wake_all_nobody:
  assumes "get_slot (SLEEPQ_HASH r) k = Some (- 1)"
  shows "sleepq_wake_all r k = Some k"
  using assms by (subst sleepq_wake_all_def) (simp add: sleepq_wake_loop.simps)

theorem process_exit_status_witness:
  "\<exists>m1 m2. process_finish 0x80030000 0 7 demo_family = Some m1 \<and>
    process_join 0x80030000 1 1 m1 = Some (Some 7, m2) \<and> pe_state (mc_procs m2 ! 1) = Process_Free"
proof -
  let ?r = "proc_addr 0x80030000 1"
  let ?tt = "(thread_table (mc_kernel demo_family))[1 := demo_thread 1 0]"
  have "\<exists>pool. pagepool_free_phys_page 0x2000 (demo_process_pool\<lparr>pp_static_end := 1, pp_num_free_pages := 5\<rparr>) = Some pool"
    by (simp add: pagepool_free_phys_page_def demo_process_pool_def bitmap_get_def bitmap_set_def guard_def ck_def
        rd32_def wr32_def get32_def be_word_def int_ok_def)
  then obtain pool where free: "vm_destroy_pagetable 0x80002000 (mc_pool demo_family) = Some pool"
    by (auto simp: vm_destroy_pagetable_def demo_family_def ADDR_KERNEL_TO_PHYS_def)
  have slot: "sleepq_wake_all ?r (mc_kernel demo_family\<lparr>thread_table := ?tt\<rparr>) = Some (mc_kernel demo_family\<lparr>thread_table := ?tt\<rparr>)"
    by (rule wake_all_nobody) (simp add: get_slot_def SLEEPQ_HASH_def proc_addr_def demo_family_simps)
  have pt: "(thread_table (mc_kernel demo_family))[1 := t_pagetable_update (\<lambda>_. 0) (demo_thread 1 0x80002000)] = ?tt"
    by (simp add: demo_thread_def)
  have "process_finish 0x80030000 0 7 demo_family = Some (demo_family\<lparr>
      mc_procs := (mc_procs demo_family)[1 := (mc_procs demo_family ! 1)\<lparr>pe_state := Process_Zombie, pe_retval := 7\<rparr>],
      mc_kernel := mc_kernel demo_family\<lparr>thread_table := ?tt[1 := (demo_thread 1 0)\<lparr>t_state := Thread_Dying\<rparr>]\<rparr>, mc_pool := pool\<rparr>)"
    using free slot pt
    by (simp add: process_finish_def demo_processes thread_get_current_thread_def current_on_def demo_family_simps get_thread_def
        demo_child upd_proc_def upd_thread_def thread_finish_def guard_def demo_thread_def)
  then obtain m1 where m1: "process_finish 0x80030000 0 7 demo_family = Some m1"
    and "process_get_current_process 1 m1 = Some 0"
    by (simp add: process_get_current_process_def thread_get_current_thread_entry_def current_on_def get_thread_def
        demo_family_simps demo_thread_def)
  from process_exit_status [where base = "0x80030000", OF demo_table_at demo_family_inv demo_callers(1) _ _ m1 rtranclp.rtrancl_refl this(2), of 1]
  have "process_join 0x80030000 1 1 m1 = Some (Some 7, m1\<lparr>mc_procs := (mc_procs m1)[1 := (mc_procs m1 ! 1)\<lparr>pe_state := Process_Free,
      pe_executable := (pe_executable (mc_procs m1 ! 1))[0 := 0], pe_retval := 0, pe_cFiles := 0\<rparr>]\<rparr>)"
    by (simp add: demo_processes demo_child)
  moreover have "length (mc_procs m1) = 129"
    using finish_step(1) [OF demo_family_inv demo_table_at demo_callers(1) m1] by (simp add: proc_inv_def)
  ultimately show ?thesis
    using m1 by (simp add: del: One_nat_def)
qed


theorem process_table_full_witness:
  "process_spawn 0 0 0 0 [0] (demo_machine\<lparr>mc_procs := replicate 129 demo_process\<rparr>) = None"
  using process_table_full [of "demo_machine\<lparr>mc_procs := replicate 129 demo_process\<rparr>" 0 0 0 0 "[0]"]
  by (simp add: demo_process_def)

end
