(* ===== verification/Syscall_Properties.thy ===== *)
theory Syscall_Properties
  imports Syscall Process_Properties
begin

text \<open>
  What system calls promise to a user program: descriptors are private to the process that opened
  them, and reading delivers the bytes of the file into the user's buffer.
\<close>

section \<open>Returning to the user\<close>

lemma upd_context_same [simp]:
  "mc_procs (upd_context uc f m) = mc_procs m" "mc_vfs (upd_context uc f m) = mc_vfs m"
  "mc_ram (upd_context uc f m) = mc_ram m" "mc_tables (upd_context uc f m) = mc_tables m"
  "mc_pool (upd_context uc f m) = mc_pool m" "contexts (mc_kernel (upd_context uc f m)) uc = f (contexts (mc_kernel m) uc)"
  "current_pagetable cpu (upd_context uc f m) = current_pagetable cpu m"
  "process_get_current_process cpu (upd_context uc f m) = process_get_current_process cpu m"
  by (simp_all add: upd_context_def current_pagetable_def process_get_current_process_def
      thread_get_current_thread_entry_def current_on_def get_thread_def)

lemma own_row_context [simp]: "own_row cpu i (upd_context uc f m) p = own_row cpu i m p"
  by (simp add: own_row_def)

text \<open>The user sees \<open>v\<close> in register v0 and goes on behind the system call.\<close>

definition returned :: "u32 \<Rightarrow> int \<Rightarrow> 'w machine \<Rightarrow> 'w machine \<Rightarrow> bool" where
  "returned uc v m m' \<longleftrightarrow> (\<exists>c. contexts (mc_kernel m') uc = c \<and>
     c = (contexts (mc_kernel m) uc)\<lparr>cpu_regs := (cpu_regs (contexts (mc_kernel m) uc))[MIPS_REGISTER_V0 := word_of_int v],
       c_pc := c_pc (contexts (mc_kernel m) uc) + 4\<rparr>)"

lemma syscall_return_eq:
  "syscall_return uc (v, m) = (To_User, next_instruction uc (upd_context uc
    (cpu_regs_update (\<lambda>rs. rs[MIPS_REGISTER_V0 := word_of_int v])) m))"
  by (simp add: syscall_return_def)

lemma returned_after:
  "returned uc v m (next_instruction uc (upd_context uc (cpu_regs_update (\<lambda>rs. rs[MIPS_REGISTER_V0 := word_of_int v])) m))"
  by (simp add: returned_def next_instruction_def)

section \<open>Reading into user memory\<close>

lemma put_prefix:
  assumes pt: "pt_ok pt" "frames_inj (pt_map pt)" and old: "length old = n" "length d \<le> n" "unat v + n \<le> 2147483648"
    and w: "\<And>i. i < length d \<Longrightarrow> writable pt (v + of_nat i)" and r: "r \<le> int (length d)" "r < int (length d) \<Longrightarrow> d = []"
  shows "wp (user_put (Some pt) v r old (d @ drop (length d) old) ram) (\<lambda>ram'.
    um pt ram' = (\<lambda>a. if in_range v (length d) a then Some (d ! (unat a - unat v)) else um pt ram a) \<and>
    (\<forall>a. unat (drop_bit 12 a) \<notin> pm_frames (pt_map pt) \<longrightarrow> ram' a = ram a))"
proof -
  let ?new = "d @ drop (length d) old"
  let ?sel = "\<lambda>i. int i < r \<or> ?new ! i \<noteq> old ! i"
  have len: "length ?new = n"
    using old by simp
  have tail: "?new ! i = old ! i" if "length d \<le> i" "i < n" for i
    using that old by (simp add: nth_append)
  have head: "int i < r" if "i < length d" for i
    using that r by (cases "r < int (length d)") auto
  have sel: "i < n \<Longrightarrow> ?sel i \<longleftrightarrow> i < length d" for i
    using tail head r(1) by (metis (no_types, lifting) leI of_nat_less_imp_less order_less_le_trans)
  have "wp (for_each [0..<n] (\<lambda>i ram. if ?sel i then user_store (Some pt) (v + of_nat i) (?new ! i) ram else Some ram) ram)
    (\<lambda>ram'. um pt ram' = (\<lambda>a. if unat v \<le> unat a \<and> unat a < unat v + n \<and> ?sel (unat a - unat v)
        then Some (?new ! (unat a - unat v)) else um pt ram a) \<and>
      (\<forall>a. unat (drop_bit 12 a) \<notin> pm_frames (pt_map pt) \<longrightarrow> ram' a = ram a))"
    by (rule store_loop [OF pt old(3)]) (use sel w in blast)
  moreover have "(\<lambda>a. if unat v \<le> unat a \<and> unat a < unat v + n \<and> ?sel (unat a - unat v)
        then Some (?new ! (unat a - unat v)) else m a) =
      (\<lambda>a. if in_range v (length d) a then Some (d ! (unat a - unat v)) else m a)" for m :: "u32 \<Rightarrow> u8 option"
  proof
    fix a :: u32
    let ?i = "unat a - unat v"
    have e1: "(unat v \<le> unat a \<and> unat a < unat v + n \<and> ?sel ?i) = in_range v (length d) a"
    proof (cases "unat v \<le> unat a \<and> unat a < unat v + n")
      case True
      then have "?i < n" by linarith
      from sel [OF this] True show ?thesis
        unfolding in_range_def by linarith
    next
      case False
      then show ?thesis
        using old(2) unfolding in_range_def by linarith
    qed
    have e2: "Some (?new ! ?i) = Some (d ! ?i)" if "in_range v (length d) a"
    proof -
      have "?i < length d"
        using that unfolding in_range_def by linarith
      then show ?thesis
        by (simp add: nth_append)
    qed
    show "(if unat v \<le> unat a \<and> unat a < unat v + n \<and> ?sel ?i then Some (?new ! ?i) else m a) =
        (if in_range v (length d) a then Some (d ! ?i) else m a)"
      by (rule if_cong [OF e1 e2 refl])
  qed
  ultimately show ?thesis
    unfolding user_put_def len by simp
qed

context file_driver
begin

lemma user_read_file:
  assumes s: "vfs_idle s" "good (vfs_world s)" "F p = drv" "open_at s fd p i pos" "0 \<le> pos"
    and f: "vol (vfs_world s) f = Some (i, c)"
    and pt: "pt_ok pt" "frames_inj (pt_map pt)" and n: "unat v + n \<le> 2147483648"
    and w: "\<And>k. k < n \<Longrightarrow> writable pt (v + of_nat k)"
  defines "d \<equiv> (if int (length c) < pos then [] else take n (drop (nat pos) c))"
  shows "wp (user_vfs_read F (Some pt) fd v (int n) ram s) (\<lambda>(r, ram', s').
    r = (if int (length c) < pos then VFS_ERROR else int (length d)) \<and>
    um pt ram' = (\<lambda>a. if in_range v (length d) a then Some (d ! (unat a - unat v)) else um pt ram a) \<and>
    (\<forall>a. unat (drop_bit 12 a) \<notin> pm_frames (pt_map pt) \<longrightarrow> ram' a = ram a) \<and>
    (\<exists>w. good w \<and> vol w = vol (vfs_world s) \<and>
      s' = vfs_then s fd \<lparr>of_filesystem = Some p, of_fileid = i, of_seek_position = pos + int (length d)\<rparr> w))"
proof -
  let ?old = "user_bytes (Some pt) ram v n"
  have "um pt ram (v + of_nat k) \<noteq> None" if "k < n" for k
    using w [OF that] by (auto simp: um_eq [OF pt(1)] writable_def)
  then have len: "length ?old = n"
    by (rule user_bytes_length)
  have d: "length d \<le> n"
    by (simp add: d_def)
  show ?thesis
    unfolding user_vfs_read_def Let_def nat_int wp_bind
  proof (rule wp_mono [OF vfs_read_file [where F = F and p = p, OF s f]], goal_cases)
    case (3 x)
    obtain r b s' where x: "x = (r, b, s')" by (cases x)
    let ?R = "if int (length c) < pos then VFS_ERROR else int (length d)"
    have r: "r = ?R" "b = d @ drop (length d) ?old"
      using 3 unfolding x d_def by (auto simp: Let_def split: if_splits)
    obtain w' where w': "good w'" "vol w' = vol (vfs_world s)"
        "s' = vfs_then s fd \<lparr>of_filesystem = Some p, of_fileid = i, of_seek_position = pos + max r 0\<rparr> w'"
      using 3 unfolding x by auto
    have mx: "max r 0 = int (length d)"
      unfolding r(1) by (simp add: d_def)
    have put: "wp (user_put (Some pt) v r ?old b ram) (\<lambda>ram'.
        um pt ram' = (\<lambda>a. if in_range v (length d) a then Some (d ! (unat a - unat v)) else um pt ram a) \<and>
        (\<forall>a. unat (drop_bit 12 a) \<notin> pm_frames (pt_map pt) \<longrightarrow> ram' a = ram a))"
      unfolding r(2) by (rule put_prefix [OF pt len d n]) (use w d r(1) in \<open>auto simp: d_def split: if_splits\<close>)
    show ?case
      unfolding x split_conv wp_bind
      by (rule wp_mono [OF put]) (use r(1) w' mx in auto)
  qed (simp_all add: len)
qed

end

section \<open>Reading and writing through a descriptor\<close>

lemma syscall_read_eq:
  assumes "own_row cpu i m p" and "fd > 2"
  shows "syscall_read S cpu fd s len m =
    (if sint fd \<in> own_files p then map_option (\<lambda>(r, ram, v). (r, m\<lparr>mc_ram := ram, mc_vfs := v\<rparr>))
       (user_vfs_read (sys_fs S) (current_pagetable cpu m) (sint (fd - 3)) s len (mc_ram m) (mc_vfs m))
     else Some (VFS_NOT_OPEN, m))"
proof -
  have "fd \<noteq> 0"
    using assms(2) by auto
  then show ?thesis
    using assms(2) by (simp add: syscall_read_def check_file_eq [OF assms(1)] map_option_case split_beta split: option.splits)
qed

lemma syscall_write_eq:
  assumes "own_row cpu i m p" and "fd > 2"
  shows "syscall_write S cpu fd s len m =
    (if sint fd \<in> own_files p then on_vfs (vfs_write (sys_fs S) (sint (fd - 3)) (user_buffer cpu s (nat len) m) len) m
     else Some (VFS_NOT_OPEN, m))"
proof -
  have "fd \<noteq> 1" "fd \<noteq> 2"
    using assms(2) by auto
  then show ?thesis
    using assms(2) by (simp add: syscall_write_def check_file_eq [OF assms(1)])
qed

lemma handle_read: "cpu_regs (contexts (mc_kernel m) uc) ! MIPS_REGISTER_A0 = SYSCALL_READ \<Longrightarrow>
    syscall_handle S cpu uc m = (let regs = cpu_regs (contexts (mc_kernel m) uc) in
      map_option (syscall_return uc) (syscall_read S cpu (regs ! MIPS_REGISTER_A1) (regs ! MIPS_REGISTER_A2)
        (sint (regs ! MIPS_REGISTER_A3)) m))"
  and handle_write: "cpu_regs (contexts (mc_kernel m) uc) ! MIPS_REGISTER_A0 = SYSCALL_WRITE \<Longrightarrow>
    syscall_handle S cpu uc m = (let regs = cpu_regs (contexts (mc_kernel m) uc) in
      map_option (syscall_return uc) (syscall_write S cpu (regs ! MIPS_REGISTER_A1) (regs ! MIPS_REGISTER_A2)
        (sint (regs ! MIPS_REGISTER_A3)) m))"
  by (simp_all add: syscall_handle_def Let_def)

context file_driver
begin

lemma syscall_read_wp:
  fixes m :: "'w machine" and uc :: u32
  defines "ctx \<equiv> contexts (mc_kernel m) uc"
  defines "fd \<equiv> cpu_regs ctx ! MIPS_REGISTER_A1" and "buf \<equiv> cpu_regs ctx ! MIPS_REGISTER_A2"
    and "len \<equiv> unat (cpu_regs ctx ! MIPS_REGISTER_A3)"
  assumes row: "own_row cpu k m pr" and call: "cpu_regs ctx ! MIPS_REGISTER_A0 = SYSCALL_READ"
    and fd: "fd > 2" "sint fd \<in> own_files pr"
    and s: "vfs_idle (mc_vfs m)" "good (vfs_world (mc_vfs m))" "sys_fs S p = drv" "open_at (mc_vfs m) (sint (fd - 3)) p i pos" "0 \<le> pos"
    and f: "vol (vfs_world (mc_vfs m)) f = Some (i, c)"
    and pt: "current_pagetable cpu m = Some pt" "pt_ok pt" "frames_inj (pt_map pt)" and n: "unat buf + len \<le> 2147483648"
    and len: "len < 2147483648" and w: "\<And>k. k < len \<Longrightarrow> writable pt (buf + of_nat k)"
  defines "d \<equiv> (if int (length c) < pos then [] else take len (drop (nat pos) c))"
  shows "wp (syscall_handle S cpu uc m) (\<lambda>(e, m'). e = To_User \<and>
    returned uc (if int (length c) < pos then VFS_ERROR else int (length d)) m m' \<and>
    current_pagetable cpu m' = Some pt \<and>
    um pt (mc_ram m') = (\<lambda>a. if in_range buf (length d) a then Some (d ! (unat a - unat buf)) else um pt (mc_ram m) a) \<and>
    (\<forall>a. unat (drop_bit 12 a) \<notin> pm_frames (pt_map pt) \<longrightarrow> mc_ram m' a = mc_ram m a) \<and>
    own_row cpu k m' pr \<and> vfs_idle (mc_vfs m') \<and> good (vfs_world (mc_vfs m')) \<and>
    vol (vfs_world (mc_vfs m')) = vol (vfs_world (mc_vfs m)) \<and>
    open_at (mc_vfs m') (sint (fd - 3)) p i (pos + int (length d)))"
proof -
  have a3: "sint (cpu_regs ctx ! MIPS_REGISTER_A3) = int len"
    using len unfolding len_def by (intro sint_small) simp
  note read = user_read_file [where F = "sys_fs S" and p = p, OF s f pt(2,3) n w, of "mc_ram m", folded d_def]
  have run: "syscall_handle S cpu uc m = Option.bind
      (user_vfs_read (sys_fs S) (Some pt) (sint (fd - 3)) buf (int len) (mc_ram m) (mc_vfs m))
      (\<lambda>(r, ram, v). Some (syscall_return uc (r, m\<lparr>mc_ram := ram, mc_vfs := v\<rparr>)))"
    using fd(2) unfolding handle_read [OF call [unfolded ctx_def]] Let_def ctx_def [symmetric] fd_def [symmetric] buf_def [symmetric] a3
      syscall_read_eq [OF row fd(1)] pt(1)
    by (cases "user_vfs_read (sys_fs S) (Some pt) (sint (fd - 3)) buf (int len) (mc_ram m) (mc_vfs m)") auto
  show ?thesis
    unfolding run wp_bind
  proof (rule wp_mono [OF read], goal_cases)
    case (2 x)
    let ?r = "if int (length c) < pos then VFS_ERROR else int (length d)"
    obtain ram' w' where x: "x = (?r, ram', vfs_then (mc_vfs m) (sint (fd - 3))
          \<lparr>of_filesystem = Some p, of_fileid = i, of_seek_position = pos + int (length d)\<rparr> w')"
      and r: "um pt ram' = (\<lambda>a. if in_range buf (length d) a then Some (d ! (unat a - unat buf)) else um pt (mc_ram m) a)"
        "\<forall>a. unat (drop_bit 12 a) \<notin> pm_frames (pt_map pt) \<longrightarrow> ram' a = mc_ram m a"
        "good w'" "vol w' = vol (vfs_world (mc_vfs m))"
      using 2 by (cases x) auto
    let ?m = "m\<lparr>mc_ram := ram', mc_vfs := vfs_then (mc_vfs m) (sint (fd - 3))
      \<lparr>of_filesystem = Some p, of_fileid = i, of_seek_position = pos + int (length d)\<rparr> w'\<rparr>"
    have ret: "returned uc v m (next_instruction uc (upd_context uc (cpu_regs_update (\<lambda>rs. rs[MIPS_REGISTER_V0 := word_of_int v])) ?m))" for v
      using returned_after [of uc v ?m] by (simp add: returned_def)
    have row': "own_row cpu k ?m pr"
      using row by (simp add: own_row_def process_get_current_process_def)
    have pt': "current_pagetable cpu ?m = Some pt"
      using pt(1) by (simp add: current_pagetable_def cong: if_cong)
    have sel: "mc_ram ?m = ram'" "mc_vfs ?m = vfs_then (mc_vfs m) (sint (fd - 3))
        \<lparr>of_filesystem = Some p, of_fileid = i, of_seek_position = pos + int (length d)\<rparr> w'"
      by simp_all
    show ?case
      unfolding x wp_Some split_conv syscall_return_eq
      using r s(1) row' pt' ret [of ?r] vfs_then_open [OF s(1,4)]
      by (simp only: next_instruction_def upd_context_same own_row_context sel vfs_then_idle vfs_then_world simp_thms)
  qed simp
qed

end

section \<open>Properties\<close>

text \<open>C25. Descriptors are private: a read or write system call on a descriptor above 2 that the calling
  process has not opened returns \<open>VFS_NOT_OPEN\<close> in register v0 and changes nothing else, whatever
  the virtual file system has open under that number; on a descriptor of the process it is
  the operation of the virtual file system on the open file.\<close>

theorem syscall_descriptors_private:
  assumes "own_row cpu i m p" and "regs = cpu_regs (contexts (mc_kernel m) uc)" and "regs ! MIPS_REGISTER_A1 > 2"
    and "regs ! MIPS_REGISTER_A0 = SYSCALL_READ \<or> regs ! MIPS_REGISTER_A0 = SYSCALL_WRITE"
  shows "if sint (regs ! MIPS_REGISTER_A1) \<notin> own_files p
    then syscall_handle S cpu uc m = Some (To_User, next_instruction uc (upd_context uc
      (cpu_regs_update (\<lambda>rs. rs[MIPS_REGISTER_V0 := word_of_int VFS_NOT_OPEN])) m))
    else syscall_handle S cpu uc m = map_option (syscall_return uc)
      (let fd = sint (regs ! MIPS_REGISTER_A1 - 3); buf = regs ! MIPS_REGISTER_A2; len = sint (regs ! MIPS_REGISTER_A3) in
        if regs ! MIPS_REGISTER_A0 = SYSCALL_READ
        then map_option (\<lambda>(r, ram, v). (r, m\<lparr>mc_ram := ram, mc_vfs := v\<rparr>))
          (user_vfs_read (sys_fs S) (current_pagetable cpu m) fd buf len (mc_ram m) (mc_vfs m))
        else on_vfs (vfs_write (sys_fs S) fd (user_buffer cpu buf (nat len) m) len) m)"
  using assms(4)
proof
  assume "regs ! MIPS_REGISTER_A0 = SYSCALL_READ"
  then show ?thesis
    using handle_read [of m uc S cpu] unfolding assms(2) [symmetric]
    by (simp only: syscall_read_eq [OF assms(1,3)] Let_def syscall_return_eq if_True if_False option.map split: if_split) simp
next
  assume "regs ! MIPS_REGISTER_A0 = SYSCALL_WRITE"
  then show ?thesis
    using handle_write [of m uc S cpu] unfolding assms(2) [symmetric]
    by (simp only: syscall_write_eq [OF assms(1,3)] Let_def syscall_return_eq if_True if_False option.map split: if_split) simp
qed


text \<open>C13. Reading a file: when the calling process has the descriptor, its open file is at position \<open>pos\<close>
  of a file of the mounted disk, and the buffer lies in writable user memory, the system call
  returns in v0 the number of bytes between the position and the end of the file, at most the
  length asked for, puts exactly those bytes of the file into the buffer, changes no other byte that the
  process or anybody else can see, moves the position behind them, and keeps the
  content of the volume; behind the end of the file it returns an error and changes nothing.\<close>

theorem syscall_read_file:
  assumes "sector_hw H sectors nsect idle running irq" and "sys_fs S p = tfs_driver (disk_gbd H) name"
    and "own_row cpu k m pr" and "regs = cpu_regs (contexts (mc_kernel m) uc)" and "regs ! MIPS_REGISTER_A0 = SYSCALL_READ"
    and "fd = regs ! MIPS_REGISTER_A1" and "fd > 2" and "sint fd \<in> own_files pr"
    and "buf = regs ! MIPS_REGISTER_A2" and "len = unat (regs ! MIPS_REGISTER_A3)"
    and "vfs_idle (mc_vfs m)" and "tfs_good (disk_ready idle) (disk_blk sectors) nsect (vfs_world (mc_vfs m))"
    and "open_at (mc_vfs m) (sint (fd - 3)) p i pos" and "0 \<le> pos"
    and "tfs_volume (disk_blk sectors) (vfs_world (mc_vfs m)) f = Some (i, c)"
    and "current_pagetable cpu m = Some pt" and "pt_ok pt" and "frames_inj (pt_map pt)"
    and "unat buf + len \<le> 2147483648" and "len < 2147483648" and "\<And>k. k < len \<Longrightarrow> writable pt (buf + of_nat k)"
    and "d = (if int (length c) < pos then [] else take len (drop (nat pos) c))"
  shows "wp (syscall_handle S cpu uc m) (\<lambda>(e, m'). e = To_User \<and>
    returned uc (if int (length c) < pos then VFS_ERROR else int (length d)) m m' \<and>
    current_pagetable cpu m' = Some pt \<and>
    um pt (mc_ram m') = (\<lambda>a. if in_range buf (length d) a then Some (d ! (unat a - unat buf)) else um pt (mc_ram m) a) \<and>
    (\<forall>a. unat (drop_bit 12 a) \<notin> pm_frames (pt_map pt) \<longrightarrow> mc_ram m' a = mc_ram m a) \<and>
    own_row cpu k m' pr \<and> vfs_idle (mc_vfs m') \<and>
    tfs_good (disk_ready idle) (disk_blk sectors) nsect (vfs_world (mc_vfs m')) \<and>
    tfs_volume (disk_blk sectors) (vfs_world (mc_vfs m')) = tfs_volume (disk_blk sectors) (vfs_world (mc_vfs m)) \<and>
    open_at (mc_vfs m') (sint (fd - 3)) p i (pos + int (length d)))"
  unfolding assms(4,6,9,10,22)
  by (rule file_driver.syscall_read_wp [OF block_device.tfs_driver_contract [OF sector_hw.disk_device [OF assms(1)]]
        assms(3) assms(5) [unfolded assms(4)] assms(7,8) [unfolded assms(6,4)] assms(11,12,2) assms(13) [unfolded assms(6,4)]
        assms(14,15,16,17,18) assms(19,20,21) [unfolded assms(9,10,4)]])

text \<open>C39. Opening with a full table: when the process has ten open files and the virtual file system opens
  another one as number \<open>file\<close>, \<open>syscall_open\<close> does not close it but the open file three numbers
  below, which may belong to anybody, and the kernel stops when there is none.\<close>

theorem syscall_open_full:
  assumes "own_row cpu i m p" and "card (own_files p) = 10"
    and "vfs_open (sys_fs S) (user_string cpu filename m) (mc_vfs m) = Some (file, v)" and "0 \<le> file" and "vfs_usable v"
  shows "syscall_open S cpu filename m =
    (if file < 3 then None
     else map_option (\<lambda>(_, v). (- 1, m\<lparr>mc_vfs := v\<rparr>)) (vfs_close (sys_fs S) (file - 3) v))"
proof -
  have row: "own_row cpu i (m\<lparr>mc_vfs := v\<rparr>) p"
    using assms(1) by (simp add: own_row_def process_get_current_process_def)
  have full: "pe_cFiles p \<ge> PROCESS_MAX_FILES"
    using assms(2) card_own_files [of p] assms(1) by (simp add: own_row_def word_le_nat_alt)
  have add: "process_add_file cpu (file + 3) (m\<lparr>mc_vfs := v\<rparr>) = Some (- 1, m\<lparr>mc_vfs := v\<rparr>)"
    using row full by (simp add: process_add_file_def own_row_def get_proc_def)
  have neg: "vfs_close (sys_fs S) (file - 3) v = None" if "file < 3"
    using that assms(5)
    by (auto simp: vfs_close_def vfs_start_op_def vfs_verify_open_def file_P_def op_P_def op_V_def guard_def Let_def split: bind_splits)
  show ?thesis
    using neg assms(4)
    by (cases "vfs_close (sys_fs S) (file - 3) v") (auto simp: syscall_open_def on_vfs_def assms(3) add)
qed

text \<open>Closing and seeking do not check the descriptor: on a descriptor above 2 that the process does
  not have, \<open>syscall_close\<close> closes the open file behind it, whoever opened it, and leaves
  the list of the process as a set unchanged; \<open>syscall_seek\<close> moves its position.\<close>

theorem syscall_close_unchecked:
  assumes "own_row cpu i m p" and "fd \<notin> own_files p" and "fd > 2"
  shows "\<exists>p'. own_files p' = own_files p \<and>
    syscall_close S cpu fd m = on_vfs (vfs_close (sys_fs S) (fd - 3)) (m\<lparr>mc_procs := (mc_procs m)[i := p']\<rparr>) \<and>
    syscall_seek fd offset m = on_vfs (vfs_seek (fd - 3) offset) m"
proof -
  obtain r m' p' where "process_rem_file cpu fd m = Some (r, m')" "r = 0" "m' = m\<lparr>mc_procs := (mc_procs m)[i := p']\<rparr>"
      "own_files p' = own_files p - {fd}"
    using wpD [OF rem_file_wp [OF assms(1), of fd]] by auto
  then show ?thesis
    using assms(2,3) by (intro exI [of _ p']) (simp add: syscall_close_def syscall_seek_def)
qed


text \<open>The child process of the family with open files \<open>fs\<close>, registers \<open>regs\<close> at the call, and a page at
  \<open>0x10000\<close>; every page holds the path of the file.\<close>

definition demo_caller :: "pagetable \<Rightarrow> int list \<Rightarrow> (ram disk tfs \<times> kres) vfs \<Rightarrow> u32 list \<Rightarrow> (ram disk tfs \<times> kres) machine" where
  "demo_caller pt fs v regs = upd_context 0 (cpu_regs_update (\<lambda>_. regs)) (demo_family\<lparr>
     mc_procs := (mc_procs demo_family)[1 := demo_process\<lparr>pe_parent := 0, pe_cFiles := of_nat (length fs),
       pe_files := fs @ replicate (10 - length fs) 0\<rparr>],
     mc_tables := (\<lambda>_. pt), mc_vfs := v,
     mc_ram := (\<lambda>a. let i = unat (take_bit 12 a) in if i < 4 then [91, 100, 93, 97] ! i else 0)\<rparr>)"

definition demo_system :: "(ram disk tfs \<times> kres, u32) system" where
  "demo_system = \<lparr>sys_fs = (\<lambda>_. tfs_driver (disk_gbd ram_hw) [0]), sys_stacks = 0x80040000, sys_thread_finish = 0x80010000,
     sys_process_start = 0x80012000, sys_process_table = 0x80030000, sys_devices = [],
     sys_gcd = (\<lambda>_. \<lparr>gcd_read = \<lambda>_ _ _. None, gcd_write = \<lambda>_ _ _. None\<rparr>)\<rparr>"

lemma demo_caller_row:
  assumes "distinct fs" and "length fs \<le> 10"
  obtains p where "own_row 0 1 (demo_caller pt fs v regs) p" "own_files p = set fs"
proof -
  let ?p = "demo_process\<lparr>pe_parent := 0, pe_cFiles := of_nat (length fs), pe_files := fs @ replicate (10 - length fs) 0\<rparr>"
  have n: "unat (of_nat (length fs) :: u32) = length fs"
    using assms(2) by (simp add: unat_of_nat)
  have "own_row 0 1 (demo_caller pt fs v regs) ?p"
    using assms demo_processes(1) unfolding demo_caller_def own_row_context
    by (simp add: own_row_def demo_family_simps files_ok_def n demo_process_def process_get_current_process_def)
  moreover have "own_files ?p = set fs"
    by (simp add: own_files_def n)
  ultimately show ?thesis by (rule that)
qed

lemma demo_caller_simps:
  "contexts (mc_kernel (demo_caller pt fs v regs)) 0 = (contexts (mc_kernel demo_family) 0)\<lparr>cpu_regs := regs\<rparr>"
  "mc_vfs (demo_caller pt fs v regs) = v" "current_pagetable 0 (demo_caller pt fs v regs) = Some pt"
  "mc_ram (demo_caller pt fs v regs) = (\<lambda>a. let i = unat (take_bit 12 a) in if i < 4 then [91, 100, 93, 97] ! i else 0)"
  unfolding demo_caller_def upd_context_same
  by (simp_all add: current_pagetable_def thread_get_current_thread_entry_def current_on_def get_thread_def
      demo_family_simps demo_child demo_thread_def)

lemma demo_page:
  "\<exists>pt. pt_ok pt \<and> frames_inj (pt_map pt) \<and> pt_map pt = [0x10 \<mapsto> (5, True)]"
proof -
  have "vpn 0x10000 = 0x10"
    by (simp add: vpn_div)
  moreover have "unat (valid_count demo_pagetable) = 0"
    by (simp add: demo_pagetable_def)
  ultimately show ?thesis
    using vm_map_cases [OF demo_pagetable_ok(1), where physaddr = "0x5000" and vaddr = "0x10000" and dirty = 1]
    by (auto simp: demo_pagetable_ok(2) drop_bit_eq_div frames_inj_def split: option.splits if_splits)
qed

lemma demo_page_writable:
  assumes "pt_map pt = [0x10 \<mapsto> (5, True)]" and "k < 4096"
  shows "writable pt (0x10000 + of_nat k)"
proof -
  have "unat (0x10000 + of_nat k :: u32) = 0x10000 + k"
    using assms(2) by (simp add: unat_word_ariths unat_of_nat)
  then show ?thesis
    using assms by (simp add: writable_def vpn_div word_less_nat_alt)
qed

theorem syscall_descriptors_private_witness:
  "map_option (\<lambda>(e, m). (e, cpu_regs (contexts (mc_kernel m) 0) ! 1))
    (syscall_handle demo_system 0 0 (demo_caller demo_pagetable [5, 3] demo_open [0, 0, 0, 0x204, 7, 0x10000, 4])) =
    Some (To_User, - 4)"
proof -
  obtain p where p: "own_row 0 1 (demo_caller demo_pagetable [5, 3] demo_open [0, 0, 0, 0x204, 7, 0x10000, 4]) p" "own_files p = set [5, 3]"
    by (rule demo_caller_row [of "[5, 3]"]) simp_all
  from syscall_descriptors_private [OF p(1) refl, of 0 demo_system] show ?thesis
    by (simp add: demo_caller_simps p(2) next_instruction_def)
qed

theorem syscall_read_file_witness:
  "\<exists>pt. wp (syscall_handle demo_system 0 0 (demo_caller pt [3] demo_open [0, 0, 0, 0x204, 3, 0x10000, 4]))
    (\<lambda>(e, m'). e = To_User \<and> returned 0 4 (demo_caller pt [3] demo_open [0, 0, 0, 0x204, 3, 0x10000, 4]) m' \<and>
      um pt (mc_ram m') 0x10001 = Some 0x45)"
proof -
  obtain pt where pt: "pt_ok pt" "frames_inj (pt_map pt)" "pt_map pt = [0x10 \<mapsto> (5, True)]"
    using demo_page by blast
  let ?m = "demo_caller pt [3] demo_open [0, 0, 0, 0x204, 3, 0x10000, 4]"
  obtain p where p: "own_row 0 1 ?m p" "own_files p = set [3]"
    by (rule demo_caller_row [of "[3]"]) simp_all
  note o = one_file_mount_ok [of demo_elf, unfolded demo_elf_fields, simplified]
  have at: "open_at demo_open 0 1 3 0"
    by (simp add: demo_open_def open_at_def vfs_then_def one_file_mount_def)
  have sys: "sys_fs demo_system 1 = tfs_driver (disk_gbd ram_hw) [0]"
    by (simp add: demo_system_def)
  have fs: "vfs_idle (mc_vfs ?m)" "tfs_good (disk_ready (ram_ok 6 Ram_Idle)) (disk_blk ram_sect) 6 (vfs_world (mc_vfs ?m))"
      "tfs_volume (disk_blk ram_sect) (vfs_world (mc_vfs ?m)) [97] = Some (3, demo_elf)"
    using o by (simp_all add: demo_caller_simps demo_open_def)
  show ?thesis
    by (rule exI [of _ pt], rule wp_mono [OF syscall_read_file [OF ram.sector_hw_axioms sys p(1) refl _ refl _ _ refl refl fs(1,2) _ _
          fs(3) _ pt(1,2), where pos = 0 and uc = 0, OF _ _ _ _ _ _ _ _ _ refl]])
      (auto simp: demo_caller_simps p(2) at [unfolded One_nat_def] demo_elf_fields in_range_def intro!: demo_page_writable [OF pt(3)],
        simp_all add: demo_elf_def)
qed

lemma user_bytes_eq:
  "(\<And>i. i < n \<Longrightarrow> um pt ram (v + of_nat i) = Some (g i)) \<Longrightarrow> user_bytes (Some pt) ram v n = map g [0..<n]"
proof (induction n arbitrary: v g)
  case (Suc n)
  have "user_load (Some pt) ram v = Some (g 0)"
    using Suc.prems [of 0] by (simp add: um_def)
  moreover have "um pt ram (v + 1 + of_nat i) = Some (g (Suc i))" if "i < n" for i
    using Suc.prems [of "Suc i"] that by (simp add: add.assoc)
  ultimately show ?case
    using Suc.IH [of "v + 1" "g \<circ> Suc"] by (simp add: map_upt_Suc del: upt_Suc)
qed simp

theorem syscall_open_full_witness:
  "\<exists>pt. syscall_open demo_system 0 0x10000 (demo_caller pt [3..12] (one_file_mount demo_elf) []) = None"
proof -
  obtain pt where pt: "pt_ok pt" "frames_inj (pt_map pt)" "pt_map pt = [0x10 \<mapsto> (5, True)]"
    using demo_page by blast
  let ?m = "demo_caller pt [3..12] (one_file_mount demo_elf) []"
  obtain p where p: "own_row 0 1 ?m p" "own_files p = set [3..12]"
    by (rule demo_caller_row [of "[3..12]"]) simp_all
  let ?g = "\<lambda>i. if i < 4 then [91, 100, 93, 97] ! i else 0 :: u8"
  have "um pt (mc_ram ?m) (0x10000 + of_nat i) = Some (?g i)" if "i < 512" for i
  proof -
    have a: "unat (0x10000 + of_nat i :: u32) = 0x10000 + i"
      using that by (simp add: unat_word_ariths unat_of_nat)
    have "(0x10000 + i) div 4096 = 16"
      using that div_mult_self3 [of 4096 16 i] by simp
    then have page: "vpn (0x10000 + of_nat i) = 0x10"
      by (simp only: vpn_div a)
    have "unat (take_bit 12 (0x10000 + of_nat i :: u32)) = i"
      using vpn_offset [of "0x10000 + of_nat i"] unfolding a page by linarith
    moreover note page
    moreover have "0x10000 + of_nat i < (0x80000000 :: u32)"
      unfolding word_less_nat_alt a using that by simp
    ultimately show ?thesis
      unfolding um_eq [OF pt(1)] pt(3) demo_caller_simps by (simp add: frame_addr_parts)
  qed
  then have str: "user_string 0 0x10000 ?m = map ?g [0..<512]"
    unfolding user_string_def user_buffer_def demo_caller_simps by (rule user_bytes_eq)
  have split: "map ?g [0..<512] = [91, 100, 93, 97] @ 0 # replicate 507 0"
    by (rule nth_equalityI) (auto simp: nth_append nth_Cons' simp del: upt_rec_numeral)
  have path: "terminated (user_string 0 0x10000 ?m)" "path_parts (cstr (user_string 0 0x10000 ?m)) = Some ([100], [97])"
    unfolding str split by (simp_all add: terminated_def cstr_def path_parts_def)
  note o = one_file_mount_ok [of demo_elf, unfolded demo_elf_fields, simplified]
  have sys: "sys_fs demo_system 1 = tfs_driver (disk_gbd ram_hw) [0]"
    by (simp add: demo_system_def)
  obtain w where w: "vfs_open (sys_fs demo_system) (user_string 0 0x10000 ?m) (mc_vfs ?m) =
      Some (0, vfs_then (one_file_mount demo_elf) 0 \<lparr>of_filesystem = Some 1, of_fileid = 3, of_seek_position = 0\<rparr> w)"
    using wpD [OF file_driver.vfs_open_file [OF block_device.tfs_driver_contract [OF sector_hw.disk_device [OF ram.sector_hw_axioms]],
        where F = "sys_fs demo_system" and p = 1, OF o(1,2) sys path _ o(3) [folded One_nat_def] o(4)]] o(5)
    by (auto simp: demo_caller_simps)
  have u: "vfs_usable (vfs_then (one_file_mount demo_elf) 0 \<lparr>of_filesystem = Some 1, of_fileid = 3, of_seek_position = 0\<rparr> w)"
    by (simp add: vfs_then_def one_file_mount_def)
  have "card (own_files p) = 10"
    by (simp add: p(2))
  from syscall_open_full [OF p(1) this w _ u] show ?thesis
    by (intro exI [of _ pt]) simp
qed

theorem syscall_close_unchecked_witness:
  "\<exists>pr. syscall_close demo_system 0 3 (demo_caller demo_pagetable [5] demo_open []) =
    on_vfs (vfs_close (sys_fs demo_system) 0) ((demo_caller demo_pagetable [5] demo_open [])\<lparr>mc_procs := pr\<rparr>)"
proof -
  obtain p where p: "own_row 0 1 (demo_caller demo_pagetable [5] demo_open []) p" "own_files p = set [5]"
    by (rule demo_caller_row [of "[5]"]) simp_all
  have "(3 :: int) \<notin> own_files p" by (simp add: p(2))
  from syscall_close_unchecked [OF p(1) this, of demo_system 0] show ?thesis
    by auto
qed

end
