(* ===== verification/Network.thy ===== *)
theory Network
  imports Vm Device Sleepq Fs_Common
begin

text \<open>
  The network stack, \<open>net/network.c\<close>, \<open>net/protocols.c\<close>, \<open>net/socket.c\<close> and \<open>net/pop.c\<close>: frames
  in pages of the page pool, the table of sockets, and POP, a datagram protocol with an input queue
  and a service thread.

  The state holds the file-scope variables, the kernel memory that frames and buffers are in, by
  kernel address, the page pool, the threads, and the state \<open>'d\<close> of the network devices; there is no
  driver for one in the tree, so the devices are given by their function pointers (\<open>gnd\<close>).  A
  semaphore is its value, \<open>net_sems\<close> counts the free rows of the semaphore table.  What happens
  under one lock is one step; what the service thread does without locks is a second step.
\<close>

abbreviation (input) CONFIG_MAX_OPEN_SOCKETS :: nat where "CONFIG_MAX_OPEN_SOCKETS \<equiv> 64"
abbreviation (input) CONFIG_POP_QUEUE_SIZE :: nat where "CONFIG_POP_QUEUE_SIZE \<equiv> 32"
abbreviation (input) CONFIG_POP_QUEUE_MIN_AGE :: u32 where "CONFIG_POP_QUEUE_MIN_AGE \<equiv> 250"
abbreviation (input) CONFIG_MAX_GNDS :: nat where "CONFIG_MAX_GNDS \<equiv> 4"
abbreviation (input) NET_OK :: int where "NET_OK \<equiv> 0"
abbreviation (input) NET_ERROR :: int where "NET_ERROR \<equiv> - 1"
abbreviation (input) NET_DOESNT_EXIST :: int where "NET_DOESNT_EXIST \<equiv> - 2"
abbreviation (input) NETWORK_BROADCAST_ADDRESS :: u32 where "NETWORK_BROADCAST_ADDRESS \<equiv> 0xffffffff"
abbreviation (input) NETWORK_LOOPBACK_ADDRESS :: u32 where "NETWORK_LOOPBACK_ADDRESS \<equiv> 0"
abbreviation (input) NETWORK_MAX_MTU :: int where "NETWORK_MAX_MTU \<equiv> 4096"
abbreviation (input) TYPECODE_NIC :: u32 where "TYPECODE_NIC \<equiv> 0x401"
abbreviation (input) FRAME_HEADER :: u32 where "FRAME_HEADER \<equiv> 12"
abbreviation (input) POP_HEADER :: u32 where "POP_HEADER \<equiv> 8"

definition PROTOCOL_POP :: u8 where "PROTOCOL_POP = 1"
definition PROTOCOL_SOP :: u8 where "PROTOCOL_SOP = 2"

section \<open>State\<close>

type_synonym kmemory = "u32 \<Rightarrow> u8"

text \<open>The function pointers of a network device; frames are at physical addresses.\<close>

record 'd gnd =
  gnd_send :: "u32 \<Rightarrow> u32 \<Rightarrow> kmemory \<Rightarrow> 'd \<Rightarrow> (int \<times> 'd) option"
  gnd_recv :: "u32 \<Rightarrow> kmemory \<Rightarrow> 'd \<Rightarrow> (int \<times> kmemory \<times> 'd) option"
  gnd_frame_size :: u32
  gnd_hwaddr :: u32

record network_interface =
  ni_address :: u32
  ni_mtu :: int
  ni_gnd :: "nat option"

text \<open>Pointers in a socket are addresses, 0 for \<open>NULL\<close>; \<open>so_receive_complete\<close> is the semaphore.\<close>

record socket =
  so_port :: u16
  so_protocol :: u8
  so_receive_complete :: "int option"
  so_rbuf :: u32
  so_bufsize :: u32
  so_sender :: u32
  so_copied :: u32
  so_sport :: u32

record pop_slot =
  pq_frame :: u32
  pq_socket :: int
  pq_timestamp :: u32
  pq_from :: u32
  pq_busy :: bool

record 'd net =
  network_interfaces :: "network_interface list"
  open_sockets :: "socket list"
  open_sockets_sem :: int
  socket_init_done :: bool
  pop_queue :: "pop_slot list"
  pop_queue_sem :: int
  pop_send_buffer :: u32
  pop_send_buffer_sem :: int
  pop_service_thread_sem :: int
  pop_service_thread_id :: int
  pop_init_done :: bool
  net_sems :: nat
  net_pool :: pagepool
  net_mem :: kmemory
  net_kernel :: kernel
  net_dev :: 'd

text \<open>The addresses of the thread stacks, of \<open>thread_finish\<close> and of the two threads' functions.\<close>

record net_link =
  nl_stacks :: u32
  nl_finish :: u32
  nl_pop_service :: u32
  nl_receive :: u32

definition new_sem :: "'d net \<Rightarrow> 'd net option" where
  "new_sem s = (if net_sems s = 0 then None else Some (s\<lparr>net_sems := net_sems s - 1\<rparr>))"

definition sockets_P :: "'d net \<Rightarrow> 'd net option" where
  "sockets_P s = do { v \<leftarrow> sem_P (open_sockets_sem s); Some (s\<lparr>open_sockets_sem := v\<rparr>) }"

definition sockets_V :: "'d net \<Rightarrow> 'd net" where
  "sockets_V s = s\<lparr>open_sockets_sem := sem_V (open_sockets_sem s)\<rparr>"

definition queue_P :: "'d net \<Rightarrow> 'd net option" where
  "queue_P s = do { v \<leftarrow> sem_P (pop_queue_sem s); Some (s\<lparr>pop_queue_sem := v\<rparr>) }"

definition queue_V :: "'d net \<Rightarrow> 'd net" where
  "queue_V s = s\<lparr>pop_queue_sem := sem_V (pop_queue_sem s)\<rparr>"

definition send_P :: "'d net \<Rightarrow> 'd net option" where
  "send_P s = do { v \<leftarrow> sem_P (pop_send_buffer_sem s); Some (s\<lparr>pop_send_buffer_sem := v\<rparr>) }"

definition send_V :: "'d net \<Rightarrow> 'd net" where
  "send_V s = s\<lparr>pop_send_buffer_sem := sem_V (pop_send_buffer_sem s)\<rparr>"

definition service_V :: "'d net \<Rightarrow> 'd net" where
  "service_V s = s\<lparr>pop_service_thread_sem := sem_V (pop_service_thread_sem s)\<rparr>"

definition set_socket :: "nat \<Rightarrow> socket \<Rightarrow> 'd net \<Rightarrow> 'd net" where
  "set_socket i so s = s\<lparr>open_sockets := (open_sockets s)[i := so]\<rparr>"

definition set_slot_row :: "nat \<Rightarrow> pop_slot \<Rightarrow> 'd net \<Rightarrow> 'd net" where
  "set_slot_row i q s = s\<lparr>pop_queue := (pop_queue s)[i := q]\<rparr>"

section \<open>Kernel memory\<close>

definition kget32 :: "kmemory \<Rightarrow> u32 \<Rightarrow> u32" where
  "kget32 m a = be_word (m a) (m (a + 1)) (m (a + 2)) (m (a + 3))"

definition kput32 :: "u32 \<Rightarrow> u32 \<Rightarrow> kmemory \<Rightarrow> kmemory" where
  "kput32 a w m = m(a := be_byte 0 w, a + 1 := be_byte 1 w, a + 2 := be_byte 2 w, a + 3 := be_byte 3 w)"

definition kget16 :: "kmemory \<Rightarrow> u32 \<Rightarrow> u16" where
  "kget16 m a = push_bit 8 (ucast (m a)) OR ucast (m (a + 1))"

definition kput16 :: "u32 \<Rightarrow> u16 \<Rightarrow> kmemory \<Rightarrow> kmemory" where
  "kput16 a w m = m(a := ucast (drop_bit 8 w), a + 1 := ucast w)"

text \<open>\<open>memcopy\<close> between buffers of kernel memory, from the first byte on.\<close>

definition kmemcopy :: "int \<Rightarrow> u32 \<Rightarrow> u32 \<Rightarrow> kmemory \<Rightarrow> kmemory" where
  "kmemcopy n target source m =
     fold (\<lambda>i m. m(target + of_nat i := m (source + of_nat i))) [0..<nat n] m"

section \<open>Sockets\<close>

definition closed_socket :: "socket \<Rightarrow> socket" where
  "closed_socket so = so\<lparr>so_port := 0, so_protocol := 0, so_rbuf := 0, so_bufsize := 0, so_sender := 0,
     so_copied := 0, so_receive_complete := None\<rparr>"

definition socket_init :: "'d net \<Rightarrow> 'd net option" where
  "socket_init s = do {
     guard (\<not> socket_init_done s);
     s \<leftarrow> new_sem (s\<lparr>socket_init_done := True\<rparr>);
     Some (s\<lparr>open_sockets_sem := 1, open_sockets := map (\<lambda>so. (closed_socket so)\<lparr>so_sport := 0\<rparr>) (open_sockets s)\<rparr>)
   }"

definition port_used :: "u16 \<Rightarrow> socket list \<Rightarrow> bool" where
  "port_used port sos \<longleftrightarrow> (\<exists>i<length sos. so_protocol (sos ! i) \<noteq> 0 \<and> so_port (sos ! i) = port)"

text \<open>The search for the first free port; it would not end if all ports were taken.\<close>

partial_function (option) free_port :: "u16 \<Rightarrow> socket list \<Rightarrow> u16 option" where
  "free_port port sos = (if port_used (port + 1) sos then free_port (port + 1) sos else Some (port + 1))"

text \<open>The port to bind to, \<open>None\<close> when the given one is in use.\<close>

definition choose_port :: "u16 \<Rightarrow> socket list \<Rightarrow> u16 option option" where
  "choose_port port sos =
     (if port = 0 then do { p \<leftarrow> free_port 0 sos; guard (p \<noteq> 0); Some (Some p) }
      else Some (if port_used port sos then None else Some port))"

definition socket_open :: "u8 \<Rightarrow> u16 \<Rightarrow> 'd net \<Rightarrow> (int \<times> 'd net) option" where
  "socket_open protocol port s =
     (if protocol \<noteq> PROTOCOL_POP \<and> protocol \<noteq> PROTOCOL_SOP then Some (- 1, s)
      else do {
        s \<leftarrow> sockets_P s;
        case List.find (\<lambda>i. so_protocol (open_sockets s ! i) = 0) [0..<CONFIG_MAX_OPEN_SOCKETS] of
          None \<Rightarrow> Some (- 1, sockets_V s)
        | Some i \<Rightarrow> do {
            r \<leftarrow> choose_port port (open_sockets s);
            case r of None \<Rightarrow> Some (- 1, sockets_V s)
            | Some port \<Rightarrow>
                (case new_sem s of
                   None \<Rightarrow> Some (- 1, sockets_V (set_socket i ((open_sockets s ! i)\<lparr>so_receive_complete := None\<rparr>) s))
                 | Some s \<Rightarrow> Some (int i, sockets_V (set_socket i ((open_sockets s ! i)\<lparr>so_port := port, so_protocol := protocol,
                     so_receive_complete := Some 0, so_rbuf := 0, so_bufsize := 0, so_sender := 0, so_copied := 0\<rparr>) s)))
          }
      })"

definition socket_close :: "int \<Rightarrow> 'd net \<Rightarrow> 'd net option" where
  "socket_close so s = do {
     guard (0 \<le> so \<and> so < int CONFIG_MAX_OPEN_SOCKETS);
     s \<leftarrow> sockets_P s;
     Some (sockets_V (if so_receive_complete (open_sockets s ! nat so) = None then s
       else (set_socket (nat so) (closed_socket (open_sockets s ! nat so)) s)\<lparr>net_sems := net_sems s + 1\<rparr>))
   }"

section \<open>The input queue of POP\<close>

definition network_free_frame :: "u32 \<Rightarrow> 'd net \<Rightarrow> 'd net option" where
  "network_free_frame payload_frame s = do {
     pool \<leftarrow> pagepool_free_phys_page (ADDR_KERNEL_TO_PHYS payload_frame AND 0xfffff000) (net_pool s);
     Some (s\<lparr>net_pool := pool\<rparr>)
   }"

text \<open>The search for a free slot and for the oldest one that is not busy; -1 is no slot.\<close>

fun push_scan :: "pop_slot list \<Rightarrow> nat list \<Rightarrow> int \<Rightarrow> int \<Rightarrow> int \<times> int" where
  "push_scan qs [] free oldest = (free, oldest)"
| "push_scan qs (i # is) free oldest = push_scan qs is
     (if free = - 1 \<and> pq_frame (qs ! i) = 0 then int i else free)
     (if \<not> pq_busy (qs ! i) \<and> (oldest = - 1 \<or> pq_timestamp (qs ! i) < pq_timestamp (qs ! nat oldest)) then int i else oldest)"

text \<open>\<open>msec\<close> and \<open>msec'\<close> are the values of the two calls of \<open>rtc_get_msec\<close>.\<close>

definition pop_push_frame :: "u32 \<times> u32 \<Rightarrow> u32 \<Rightarrow> u32 \<Rightarrow> u32 \<Rightarrow> u32 \<Rightarrow> 'd net \<Rightarrow> (int \<times> 'd net) option" where
  "pop_push_frame = (\<lambda>(msec, msec') fromaddr toaddr protocol_id frame s. do {
     guard (protocol_id = ucast PROTOCOL_POP);
     s \<leftarrow> queue_P s;
     let (free, oldest) = push_scan (pop_queue s) [0..<CONFIG_POP_QUEUE_SIZE] (- 1) (- 1) in
     if free = - 1 \<and> (oldest = - 1 \<or> msec - pq_timestamp (pop_queue s ! nat oldest) < CONFIG_POP_QUEUE_MIN_AGE)
     then Some (0, queue_V s)
     else let i = nat (if free = - 1 then oldest else free) in do {
       s \<leftarrow> (if pq_frame (pop_queue s ! i) \<noteq> 0 then network_free_frame (pq_frame (pop_queue s ! i)) s else Some s);
       Some (1, service_V (queue_V (set_slot_row i
         \<lparr>pq_frame = frame, pq_socket = - 1, pq_timestamp = msec', pq_from = fromaddr, pq_busy = False\<rparr> s)))
     }
   })"

section \<open>Frames\<close>

type_synonym 'd frame_handler = "u32 \<times> u32 \<Rightarrow> u32 \<Rightarrow> u32 \<Rightarrow> u32 \<Rightarrow> u32 \<Rightarrow> 'd net \<Rightarrow> (int \<times> 'd net) option"

definition network_protocols :: "(u32 \<times> 'd frame_handler) list" where
  "network_protocols = [(ucast PROTOCOL_POP, pop_push_frame)]"

definition protocols_get_frame_handler :: "u32 \<Rightarrow> 'd frame_handler option" where
  "protocols_get_frame_handler protocol_id = map_of network_protocols protocol_id"

text \<open>\<open>frame\<close> is the kernel address of the frame: destination, source and protocol, then the payload.\<close>

definition network_receive_frame :: "u32 \<times> u32 \<Rightarrow> u32 \<Rightarrow> 'd net \<Rightarrow> (int \<times> 'd net) option" where
  "network_receive_frame clk frame s =
     (case protocols_get_frame_handler (kget32 (net_mem s) (frame + 8)) of
        Some frame_handler \<Rightarrow> frame_handler clk (kget32 (net_mem s) (frame + 4)) (kget32 (net_mem s) frame)
          (kget32 (net_mem s) (frame + 8)) (frame + FRAME_HEADER) s
      | None \<Rightarrow> Some (0, s))"

text \<open>One round of the loop of \<open>network_receive_thread\<close>, over \<open>ret\<close> and \<open>frame_phys_addr\<close>.\<close>

definition network_receive_round ::
    "(nat \<Rightarrow> 'd gnd) \<Rightarrow> u32 \<times> u32 \<Rightarrow> nat \<Rightarrow> int \<times> u32 \<times> 'd net \<Rightarrow> (int \<times> u32 \<times> 'd net) option" where
  "network_receive_round G clk interface = (\<lambda>(ret, frame_phys_addr, s). do {
     gnd \<leftarrow> ni_gnd (network_interfaces s ! interface);
     (phys, s) \<leftarrow> (if ret \<noteq> 0 then do {
         (phys, pool) \<leftarrow> pagepool_get_phys_page (net_pool s);
         guard (phys \<noteq> 0);
         Some (phys, s\<lparr>net_pool := pool\<rparr>)
       }
       else Some (frame_phys_addr, s));
     (r, m, d) \<leftarrow> gnd_recv (G gnd) phys (net_mem s) (net_dev s);
     let s = s\<lparr>net_mem := m, net_dev := d\<rparr> in
     if r = 0 then do { (ret, s) \<leftarrow> network_receive_frame clk (ADDR_PHYS_TO_KERNEL phys) s; Some (ret, phys, s) }
     else Some (0, phys, s)
   })"

definition network_get_source_address :: "int \<Rightarrow> 'd net \<Rightarrow> u32" where
  "network_get_source_address interface s =
     (if interface < 0 \<or> interface \<ge> int CONFIG_MAX_GNDS then 0
      else ni_address (network_interfaces s ! nat interface))"

definition network_get_broadcast_address :: u32 where
  "network_get_broadcast_address = NETWORK_BROADCAST_ADDRESS"

definition network_get_loopback_address :: u32 where
  "network_get_loopback_address = NETWORK_LOOPBACK_ADDRESS"

text \<open>The loops end at a row without device; when every row has one they run off the table.\<close>

fun mtu_min :: "network_interface list \<Rightarrow> int \<Rightarrow> int option" where
  "mtu_min [] m = None"
| "mtu_min (n # ns) m = (if ni_gnd n = None then Some m else mtu_min ns (if ni_mtu n < m then ni_mtu n else m))"

fun mtu_find :: "network_interface list \<Rightarrow> u32 \<Rightarrow> int option" where
  "mtu_find [] a = None"
| "mtu_find (n # ns) a = (if ni_gnd n = None then Some 0
     else if ni_address n = a then Some (sint (word_of_int (ni_mtu n) - FRAME_HEADER)) else mtu_find ns a)"

definition network_get_mtu :: "u32 \<Rightarrow> 'd net \<Rightarrow> int option" where
  "network_get_mtu local_address s =
     (if local_address = NETWORK_BROADCAST_ADDRESS then do {
        m \<leftarrow> mtu_min (network_interfaces s) (NETWORK_MAX_MTU + 1);
        Some (sint (word_of_int m - FRAME_HEADER))
      }
      else if local_address = NETWORK_LOOPBACK_ADDRESS then Some (sint (4096 - FRAME_HEADER))
      else mtu_find (network_interfaces s) local_address)"

definition network_get_interface :: "u32 \<Rightarrow> 'd net \<Rightarrow> int" where
  "network_get_interface local_address s =
     (case List.find (\<lambda>i. ni_address (network_interfaces s ! i) = local_address) [0..<CONFIG_MAX_GNDS] of
        Some i \<Rightarrow> int i | None \<Rightarrow> - 1)"

definition network_send_interface :: "(nat \<Rightarrow> 'd gnd) \<Rightarrow> nat \<Rightarrow> u32 \<Rightarrow> u32 \<Rightarrow> 'd net \<Rightarrow> (int \<times> 'd net) option" where
  "network_send_interface G interface destination frame s = do {
     gnd \<leftarrow> ni_gnd (network_interfaces s ! interface);
     (r, d) \<leftarrow> gnd_send (G gnd) (ADDR_KERNEL_TO_PHYS frame) destination (net_mem s) (net_dev s);
     Some (r, s\<lparr>net_dev := d\<rparr>)
   }"

fun send_all :: "(nat \<Rightarrow> 'd gnd) \<Rightarrow> nat list \<Rightarrow> u32 \<Rightarrow> u32 \<Rightarrow> int \<Rightarrow> 'd net \<Rightarrow> (int \<times> 'd net) option" where
  "send_all G [] destination frame send_ret s = Some (send_ret, s)"
| "send_all G (i # is) destination frame send_ret s =
     (if ni_gnd (network_interfaces s ! i) = None then Some (send_ret, s)
      else do {
        (r, s) \<leftarrow> network_send_interface G i destination frame s;
        send_all G is destination frame (if r \<noteq> 0 then NET_ERROR else send_ret) s
      })"

text \<open>The frame that \<open>network_send\<close> builds in its page.\<close>

definition build_frame :: "u32 \<Rightarrow> u32 \<Rightarrow> u32 \<Rightarrow> u32 \<Rightarrow> int \<Rightarrow> u32 \<Rightarrow> kmemory \<Rightarrow> kmemory" where
  "build_frame frame src destination protocol_id len buffer m =
     kmemcopy len (frame + FRAME_HEADER) buffer
       (kput32 (frame + 8) protocol_id (kput32 frame destination (kput32 (frame + 4) src m)))"

definition network_send ::
    "(nat \<Rightarrow> 'd gnd) \<Rightarrow> u32 \<times> u32 \<Rightarrow> u32 \<Rightarrow> u32 \<Rightarrow> u32 \<Rightarrow> int \<Rightarrow> u32 \<Rightarrow> 'd net \<Rightarrow> (int \<times> 'd net) option" where
  "network_send G clk src destination protocol_id len buffer s = do {
     guard (len > 0 \<and> len \<le> 4096 - 12);
     (phys_frame, pool) \<leftarrow> pagepool_get_phys_page (net_pool s);
     if phys_frame = 0 then Some (NET_ERROR, s\<lparr>net_pool := pool\<rparr>)
     else let frame = ADDR_PHYS_TO_KERNEL phys_frame;
       s = s\<lparr>net_pool := pool, net_mem := build_frame frame src destination protocol_id len buffer (net_mem s)\<rparr>;
       free_frame = (\<lambda>r s. do {
         pool \<leftarrow> pagepool_free_phys_page phys_frame (net_pool s);
         Some (r, s\<lparr>net_pool := pool\<rparr>)
       }) in
     if destination = NETWORK_LOOPBACK_ADDRESS then do {
       let s = (if kget32 (net_mem s) (frame + 4) = NETWORK_BROADCAST_ADDRESS
                then s\<lparr>net_mem := kput32 (frame + 4) NETWORK_LOOPBACK_ADDRESS (net_mem s)\<rparr> else s) in do {
         (r, s) \<leftarrow> network_receive_frame clk frame s;
         if r = 0 then free_frame NET_ERROR s else Some (NET_OK, s)
       }
     }
     else if src \<noteq> NETWORK_BROADCAST_ADDRESS then let interface = network_get_interface src s in
       if interface < 0 then free_frame NET_DOESNT_EXIST s
       else do {
         (r, s) \<leftarrow> network_send_interface G (nat interface) destination frame s;
         free_frame (if r \<noteq> 0 then NET_ERROR else NET_OK) s
       }
     else do {
       (r, s) \<leftarrow> send_all G [0..<CONFIG_MAX_GNDS] destination frame NET_OK s;
       free_frame r s
     }
   }"

section \<open>Sending and receiving on a socket\<close>

text \<open>Up to the lock of the send buffer, and from there on.\<close>

definition socket_sendto_port :: "int \<Rightarrow> 'd net \<Rightarrow> (u16 option \<times> 'd net) option" where
  "socket_sendto_port so s = do {
     s \<leftarrow> sockets_P s;
     if so_protocol (open_sockets s ! nat so) \<noteq> PROTOCOL_POP then Some (None, sockets_V s)
     else Some (Some (so_port (open_sockets s ! nat so)), sockets_V s)
   }"

definition socket_sendto ::
    "(nat \<Rightarrow> 'd gnd) \<Rightarrow> u32 \<times> u32 \<Rightarrow> int \<Rightarrow> u32 \<Rightarrow> u16 \<Rightarrow> u32 \<Rightarrow> int \<Rightarrow> 'd net \<Rightarrow> (int \<times> 'd net) option" where
  "socket_sendto G clk so addr dport buf sz s = do {
     guard (0 \<le> so \<and> so < int CONFIG_MAX_OPEN_SOCKETS);
     if dport = 0 then Some (- 1, s)
     else do {
       guard (sz \<ge> 1 \<and> buf \<noteq> 0);
       mtu \<leftarrow> network_get_mtu NETWORK_BROADCAST_ADDRESS s;
       let sz = sint (min (min (word_of_int sz) (word_of_int mtu - POP_HEADER)) (4096 - POP_HEADER)) in do {
         (r, s) \<leftarrow> socket_sendto_port so s;
         case r of None \<Rightarrow> Some (- 1, s)
         | Some sport \<Rightarrow> do {
             s \<leftarrow> send_P s;
             let hdr = pop_send_buffer s;
               s = s\<lparr>net_mem := kmemcopy sz (hdr + POP_HEADER) buf
                 (kput32 (hdr + 4) (word_of_int sz) (kput16 (hdr + 2) dport (kput16 hdr sport (net_mem s))))\<rparr> in do {
               (r, s) \<leftarrow> network_send G clk NETWORK_BROADCAST_ADDRESS addr (ucast PROTOCOL_POP) (sz + 8) hdr s;
               Some (if r \<noteq> NET_OK then - 1 else sz, send_V s)
             }
           }
       }
     }
   }"

text \<open>\<open>socket_recvfrom\<close> up to the wait for the packet (no value yet) or an error, and behind the wait.\<close>

definition socket_recvfrom ::
    "int \<Rightarrow> u32 \<Rightarrow> u32 \<Rightarrow> u32 \<Rightarrow> int \<Rightarrow> u32 \<Rightarrow> 'd net \<Rightarrow> (int option \<times> 'd net) option" where
  "socket_recvfrom so addr sport buf buflength lengthp s = do {
     guard (0 \<le> so \<and> so < int CONFIG_MAX_OPEN_SOCKETS);
     guard (buflength \<ge> 1 \<and> buf \<noteq> 0 \<and> addr \<noteq> 0 \<and> sport \<noteq> 0 \<and> lengthp \<noteq> 0);
     s \<leftarrow> sockets_P s;
     let e = open_sockets s ! nat so in
     if so_protocol e \<noteq> PROTOCOL_POP \<or> so_rbuf e \<noteq> 0 then Some (Some (- 1), sockets_V s)
     else Some (None, service_V (sockets_V (set_socket (nat so) (e\<lparr>so_rbuf := buf, so_bufsize := word_of_int buflength,
       so_sender := addr, so_copied := lengthp, so_sport := sport\<rparr>) s)))
   }"

definition socket_recvfrom_done :: "int \<Rightarrow> u32 \<Rightarrow> 'd net \<Rightarrow> (int \<times> 'd net) option" where
  "socket_recvfrom_done so lengthp s = (let e = open_sockets s ! nat so in do {
     sem \<leftarrow> so_receive_complete e;
     v \<leftarrow> sem_P sem;
     Some (sint (kget32 (net_mem s) lengthp), set_socket (nat so) (e\<lparr>so_receive_complete := Some v\<rparr>) s)
   })"

section \<open>The service thread\<close>

text \<open>The action that the scan of the queue decides on, with the slot and the packet.\<close>

datatype pop_action = Pop_None | Pop_Discard nat u32 | Pop_Transfer nat u32

definition find_recipient :: "u32 \<Rightarrow> 'd net \<Rightarrow> nat option" where
  "find_recipient f s = List.find (\<lambda>j. so_protocol (open_sockets s ! j) = PROTOCOL_POP \<and>
     so_port (open_sockets s ! j) = kget16 (net_mem s) (f + 2)) [0..<CONFIG_MAX_OPEN_SOCKETS]"

fun service_scan :: "nat list \<Rightarrow> 'd net \<Rightarrow> pop_action \<times> 'd net" where
  "service_scan [] s = (Pop_None, s)"
| "service_scan (i # is) s = (let q = pop_queue s ! i; f = pq_frame q in
     if f = 0 then service_scan is s
     else let q = (if pq_socket q = - 1
              then (case find_recipient f s of None \<Rightarrow> q | Some j \<Rightarrow> q\<lparr>pq_socket := int j\<rparr>) else q);
            s = set_slot_row i q s in
       if pq_socket q = - 1 then (Pop_Discard i f, s)
       else if so_protocol (open_sockets s ! nat (pq_socket q)) \<noteq> PROTOCOL_POP then (Pop_Discard i f, s)
       else if so_rbuf (open_sockets s ! nat (pq_socket q)) \<noteq> 0
       then (Pop_Transfer i f, set_slot_row i (q\<lparr>pq_busy := True\<rparr>) s)
       else service_scan is s)"

definition pop_service_scan :: "'d net \<Rightarrow> (pop_action \<times> 'd net) option" where
  "pop_service_scan s = do {
     s \<leftarrow> sockets_P s;
     s \<leftarrow> queue_P s;
     let (action, s) = service_scan [0..<CONFIG_POP_QUEUE_SIZE] s in
       Some (action, sockets_V (queue_V s))
   }"

text \<open>The copy to the buffers of the receiver.\<close>

definition pop_deliver :: "socket \<Rightarrow> pop_slot \<Rightarrow> u32 \<Rightarrow> kmemory \<Rightarrow> kmemory" where
  "pop_deliver so q f m =
     (let bytes = sint (min (kget32 m (f + 4)) (so_bufsize so));
          m = kmemcopy bytes (so_rbuf so) (f + POP_HEADER) m;
          m = kput32 (so_sender so) (pq_from q) m;
          m = kput32 (so_copied so) (word_of_int bytes) m
      in kput16 (so_sport so) (kget16 m f) m)"

fun pop_service_act :: "pop_action \<Rightarrow> 'd net \<Rightarrow> 'd net option" where
  "pop_service_act Pop_None s = Some s"
| "pop_service_act (Pop_Discard slot f) s = do {
     s \<leftarrow> network_free_frame f s;
     Some (set_slot_row slot ((pop_queue s ! slot)\<lparr>pq_frame := 0\<rparr>) s)
   }"
| "pop_service_act (Pop_Transfer slot f) s = (let q = pop_queue s ! slot; j = nat (pq_socket q); so = open_sockets s ! j in do {
     s \<leftarrow> network_free_frame f (s\<lparr>net_mem := pop_deliver so q f (net_mem s)\<rparr>);
     sem \<leftarrow> so_receive_complete so;
     Some (set_slot_row slot (q\<lparr>pq_frame := 0\<rparr>) (set_socket j (so\<lparr>so_rbuf := 0, so_bufsize := 0, so_sender := 0,
       so_copied := 0, so_sport := 0, so_receive_complete := Some (sem_V sem)\<rparr>) s))
   })"

text \<open>One round of the service thread that nothing interrupts; \<open>True\<close> when it goes to sleep.\<close>

definition pop_service_round :: "'d net \<Rightarrow> (bool \<times> 'd net) option" where
  "pop_service_round s = do {
     (action, s) \<leftarrow> pop_service_scan s;
     s \<leftarrow> pop_service_act action s;
     Some (action = Pop_None, s)
   }"

section \<open>Start-up\<close>

definition pop_init :: "net_link \<Rightarrow> 'd net \<Rightarrow> 'd net option" where
  "pop_init L s = do {
     guard (\<not> pop_init_done s);
     (addr, pool) \<leftarrow> pagepool_get_phys_page (net_pool s);
     guard (addr \<noteq> 0);
     s \<leftarrow> new_sem (s\<lparr>pop_init_done := True, net_pool := pool, pop_send_buffer := ADDR_PHYS_TO_KERNEL addr\<rparr>);
     s \<leftarrow> new_sem s;
     s \<leftarrow> new_sem s;
     let s = s\<lparr>pop_send_buffer_sem := 1, pop_queue_sem := 1, pop_service_thread_sem := 0,
       pop_queue := map (\<lambda>q. \<lparr>pq_frame = 0, pq_socket = - 1, pq_timestamp = 0, pq_from = 0, pq_busy = False\<rparr>) (pop_queue s)\<rparr> in do {
       (tid, k) \<leftarrow> thread_create (nl_stacks L) (nl_finish L) (nl_pop_service L) 0 (net_kernel s);
       k \<leftarrow> thread_run tid k;
       Some (s\<lparr>net_kernel := k, pop_service_thread_id := tid\<rparr>)
     }
   }"

definition protocols_init :: "net_link \<Rightarrow> 'd net \<Rightarrow> 'd net option" where
  "protocols_init L s = pop_init L s"

text \<open>\<open>gnd_of\<close> finds the network device behind the pointer \<open>generic_device\<close>.\<close>

definition init_interface ::
    "(nat \<Rightarrow> 'd gnd) \<Rightarrow> ('v \<Rightarrow> nat) \<Rightarrow> 'v device list \<Rightarrow> nat \<Rightarrow> network_interface \<Rightarrow> network_interface option" where
  "init_interface G gnd_of devices i n =
     (case device_get devices TYPECODE_NIC i of
        None \<Rightarrow> Some (n\<lparr>ni_gnd := None, ni_address := 0\<rparr>)
      | Some dev \<Rightarrow> do {
          v \<leftarrow> dev_generic dev;
          let gnd = gnd_of v; mtu = sint (gnd_frame_size (G gnd)) in do {
            guard (mtu \<le> 4096);
            Some \<lparr>ni_address = gnd_hwaddr (G gnd), ni_mtu = mtu, ni_gnd = Some gnd\<rparr>
          }
        })"

fun start_receivers :: "net_link \<Rightarrow> network_interface list \<Rightarrow> nat list \<Rightarrow> kernel \<Rightarrow> kernel option" where
  "start_receivers L ns [] k = Some k"
| "start_receivers L ns (i # is) k =
     (if ni_gnd (ns ! i) = None then Some k
      else do {
        (tid, k) \<leftarrow> thread_create (nl_stacks L) (nl_finish L) (nl_receive L) (of_nat i) k;
        guard (tid > 0);
        k \<leftarrow> thread_run tid k;
        start_receivers L ns is k
      })"

definition network_init ::
    "(nat \<Rightarrow> 'd gnd) \<Rightarrow> ('v \<Rightarrow> nat) \<Rightarrow> 'v device list \<Rightarrow> net_link \<Rightarrow> 'd net \<Rightarrow> 'd net option" where
  "network_init G gnd_of devices L s = do {
     s \<leftarrow> for_each [0..<CONFIG_MAX_GNDS] (\<lambda>i s. do {
       n \<leftarrow> init_interface G gnd_of devices i (network_interfaces s ! i);
       Some (s\<lparr>network_interfaces := (network_interfaces s)[i := n]\<rparr>)
     }) s;
     s \<leftarrow> socket_init s;
     s \<leftarrow> protocols_init L s;
     k \<leftarrow> start_receivers L (network_interfaces s) [0..<CONFIG_MAX_GNDS] (net_kernel s);
     Some (s\<lparr>net_kernel := k\<rparr>)
   }"

end
