(* ===== verification/Socket_Properties.thy ===== *)
theory Socket_Properties
  imports Network Vm_Properties Kernel_Properties
begin

text \<open>
  The socket table: open sockets have distinct ports, and opening and closing act on the map from
  sockets to their protocol and port.
\<close>

section \<open>The bound ports\<close>

definition bound :: "socket list \<Rightarrow> nat \<rightharpoonup> u8 \<times> u16" where
  "bound sos i = (if i < length sos \<and> so_protocol (sos ! i) \<noteq> 0
     then Some (so_protocol (sos ! i), so_port (sos ! i)) else None)"

definition bound_ports :: "socket list \<Rightarrow> u16 set" where
  "bound_ports sos = {p. \<exists>i t. bound sos i = Some (t, p)}"

definition sockets_ok :: "socket list \<Rightarrow> bool" where
  "sockets_ok sos \<longleftrightarrow> length sos = CONFIG_MAX_OPEN_SOCKETS \<and> 0 \<notin> bound_ports sos \<and>
     (\<forall>i t p. bound sos i = Some (t, p) \<longrightarrow> so_receive_complete (sos ! i) \<noteq> None) \<and>
     (\<forall>i j t u p. bound sos i = Some (t, p) \<longrightarrow> bound sos j = Some (u, p) \<longrightarrow> i = j)"

lemma port_used_iff: "port_used p sos \<longleftrightarrow> p \<in> bound_ports sos"
  by (auto simp: port_used_def bound_ports_def bound_def)

lemma bound_update: "i < length sos \<Longrightarrow> bound (sos[i := so]) =
    (bound sos)(i := if so_protocol so = 0 then None else Some (so_protocol so, so_port so))"
  by (auto simp: bound_def fun_eq_iff nth_list_update)

section \<open>The search for a free port\<close>

text \<open>\<open>p\<close> is the smallest free port from 1 on.\<close>

definition least_free :: "socket list \<Rightarrow> u16 \<Rightarrow> bool" where
  "least_free sos p \<longleftrightarrow> p \<noteq> 0 \<and> p \<notin> bound_ports sos \<and> (\<forall>q. q \<noteq> 0 \<longrightarrow> q < p \<longrightarrow> q \<in> bound_ports sos)"

lemma card_bound_ports: "card (bound_ports sos) \<le> length sos"
proof -
  have "bound_ports sos \<subseteq> (\<lambda>i. so_port (sos ! i)) ` {..<length sos}"
    by (auto simp: bound_ports_def bound_def split: if_splits)
  then have "card (bound_ports sos) \<le> card ((\<lambda>i. so_port (sos ! i)) ` {..<length sos})"
    by (intro card_mono) simp_all
  also have "\<dots> \<le> length sos"
    using card_image_le [of "{..<length sos}" "\<lambda>i. so_port (sos ! i)"] by simp
  finally show ?thesis .
qed

lemma least_free_exists:
  assumes "length sos < 65535"
  shows "\<exists>p. least_free sos p \<and> free_port 0 sos = Some p"
proof -
  let ?P = "\<lambda>n. 0 < n \<and> (of_nat n :: u16) \<notin> bound_ports sos"
  have un: "unat (of_nat n :: u16) = n" if "n < 65536" for n
    using that by (simp add: unat_of_nat)
  have ex: "\<exists>n\<le>length sos + 1. ?P n"
  proof (rule ccontr)
    assume none: "\<not> (\<exists>n\<le>length sos + 1. ?P n)"
    then have "(of_nat :: nat \<Rightarrow> u16) ` {1..length sos + 1} \<subseteq> bound_ports sos"
      by auto
    moreover have "finite (bound_ports sos)"
      by simp
    moreover have "inj_on (of_nat :: nat \<Rightarrow> u16) {1..length sos + 1}"
    proof (rule inj_onI)
      fix x y assume x: "x \<in> {1..length sos + 1}" "y \<in> {1..length sos + 1}" and eq: "(of_nat x :: u16) = of_nat y"
      have "unat (of_nat x :: u16) = x" "unat (of_nat y :: u16) = y"
        using assms x by (auto intro!: un)
      then show "x = y"
        using eq by metis
    qed
    ultimately have "card {1..length sos + 1} \<le> card (bound_ports sos)"
      by (metis card_image card_mono)
    then show False
      using card_bound_ports [of sos] by simp
  qed
  define m where "m = (LEAST n. ?P n)"
  have m: "0 < m" "(of_nat m :: u16) \<notin> bound_ports sos" "m \<le> length sos + 1"
    using ex LeastI [of ?P] Least_le [of ?P] unfolding m_def by (blast, blast, meson order_trans)
  have below: "(of_nat n :: u16) \<in> bound_ports sos" if "0 < n" "n < m" for n
    using not_less_Least [of n ?P] that unfolding m_def by blast
  have small: "m < 65536"
    using m(3) assms by simp
  have "free_port (of_nat k) sos = Some (of_nat m)" if "k < m" for k
    using that
  proof (induction "m - k" arbitrary: k)
    case (Suc d)
    have suc: "(of_nat k + 1 :: u16) = of_nat (Suc k)"
      by (simp add: add.commute)
    show ?case
    proof (cases "Suc k = m")
      case True
      then show ?thesis
        using m(2) by (subst free_port.simps) (simp only: suc port_used_iff if_False)
    next
      case False
      then have "Suc k < m"
        using Suc.prems by simp
      then show ?thesis
        using below [of "Suc k"] Suc.hyps by (subst free_port.simps) (simp only: suc port_used_iff if_True zero_less_Suc)
    qed
  qed simp
  from this [of 0] m(1) have "free_port 0 sos = Some (of_nat m)"
    by simp
  moreover have "least_free sos (of_nat m)"
  proof -
    have "q \<in> bound_ports sos" if "q \<noteq> 0" "q < of_nat m" for q
      using below [of "unat q"] that un [OF small] by (simp add: word_less_nat_alt unat_gt_0)
    moreover have "(of_nat m :: u16) \<noteq> 0"
      using un [OF small] m(1) by (metis less_not_refl unat_0)
    ultimately show ?thesis
      using m(2) by (simp add: least_free_def)
  qed
  ultimately show ?thesis by blast
qed


section \<open>Opening and closing\<close>

lemma find_slot: "length sos = n \<Longrightarrow>
    (case List.find (\<lambda>i. so_protocol (sos ! i) = 0) [0..<n] of
       None \<Rightarrow> dom (bound sos) = {..<n} | Some i \<Rightarrow> i < n \<and> bound sos i = None \<and> so_protocol (sos ! i) = 0)"
  by (auto simp: bound_def dom_def find_None_iff find_Some_iff split: option.splits)

lemma sockets_ok_upd:
  assumes ok: "sockets_ok sos" and i: "i < length sos"
    and so: "so_protocol so = 0 \<or> so_port so \<noteq> 0 \<and> so_port so \<notin> bound_ports sos \<and> so_receive_complete so \<noteq> None"
    and "bound sos i = None \<or> so_protocol so = 0"
  shows "sockets_ok (sos[i := so])"
proof -
  have other: "j \<noteq> i" if "bound (sos[i := so]) j = Some (t, p)" "so_protocol so = 0" for j t p
    using that i by (auto simp: bound_update split: if_splits)
  have ports: "p \<in> bound_ports sos" if "bound sos j = Some (t, p)" for j t p
    using that by (auto simp: bound_ports_def)
  have "0 \<notin> bound_ports (sos[i := so])"
    using ok so i by (auto simp: bound_ports_def sockets_ok_def bound_update split: if_splits)
  moreover have "so_receive_complete (sos[i := so] ! j) \<noteq> None" if "bound (sos[i := so]) j = Some (t, p)" for j t p
    using that ok so i by (cases "j = i") (auto simp: sockets_ok_def bound_update nth_list_update split: if_splits)
  moreover have "j = k" if "bound (sos[i := so]) j = Some (t, p)" "bound (sos[i := so]) k = Some (u, p)" for j k t u p
    using that ok so i ports unfolding bound_update [OF i] sockets_ok_def by (auto split: if_splits)
  ultimately show ?thesis
    using ok unfolding sockets_ok_def by simp
qed

lemma socket_open_wp:
  assumes ok: "sockets_ok (open_sockets s)" and lock: "0 < open_sockets_sem s"
  shows "wp (socket_open protocol port s) (\<lambda>(r, s'). sockets_ok (open_sockets s') \<and> open_sockets_sem s' = open_sockets_sem s \<and>
    (if protocol \<notin> {PROTOCOL_POP, PROTOCOL_SOP} \<or> dom (bound (open_sockets s)) = {..<CONFIG_MAX_OPEN_SOCKETS} \<or>
        port \<in> bound_ports (open_sockets s) \<or> net_sems s = 0
     then r = - 1 \<and> bound (open_sockets s') = bound (open_sockets s) \<and> net_sems s' = net_sems s
     else \<exists>i p. r = int i \<and> i < CONFIG_MAX_OPEN_SOCKETS \<and> bound (open_sockets s) i = None \<and>
       bound (open_sockets s') = (bound (open_sockets s))(i \<mapsto> (protocol, p)) \<and> net_sems s = Suc (net_sems s') \<and>
       (if port = 0 then least_free (open_sockets s) p else p = port)))"
proof (cases "protocol \<notin> {PROTOCOL_POP, PROTOCOL_SOP}")
  case True
  then show ?thesis
    using ok by (simp add: socket_open_def)
next
  case False
  let ?sos = "open_sockets s"
  have len: "length ?sos = CONFIG_MAX_OPEN_SOCKETS" and zero: "0 \<notin> bound_ports ?sos"
    using ok by (simp_all add: sockets_ok_def)
  have prot: "protocol \<noteq> 0"
    using False by (auto simp: PROTOCOL_POP_def PROTOCOL_SOP_def)
  have known: "(protocol \<noteq> PROTOCOL_POP \<and> protocol \<noteq> PROTOCOL_SOP) = False"
    using False by auto
  let ?find = "List.find (\<lambda>i. so_protocol (?sos ! i) = 0) [0..<CONFIG_MAX_OPEN_SOCKETS]"
  note find = find_slot [OF len]
  show ?thesis
  proof (cases ?find)
    case None
    then show ?thesis
      using ok False lock find
      by (simp add: socket_open_def sockets_P_def sockets_V_def sem_P_def sem_V_def)
  next
    case (Some i)
    then have i: "i < length ?sos" "bound ?sos i = None" "so_protocol (?sos ! i) = 0"
      using find len by simp_all
    then have room: "dom (bound ?sos) \<noteq> {..<CONFIG_MAX_OPEN_SOCKETS}"
      using len by auto
    obtain p0 where p0: "least_free ?sos p0" "free_port 0 ?sos = Some p0"
      using least_free_exists [of ?sos] len by auto
    define r where "r = (if port = 0 then Some p0 else if port \<in> bound_ports ?sos then None else Some port)"
    have search: "choose_port port ?sos = Some r"
      using p0 by (auto simp: choose_port_def r_def guard_def least_free_def port_used_iff)
    have same: "sockets_ok (?sos[i := (?sos ! i)\<lparr>so_receive_complete := None\<rparr>])"
        "bound (?sos[i := (?sos ! i)\<lparr>so_receive_complete := None\<rparr>]) = bound ?sos"
      using sockets_ok_upd [OF ok i(1)] i by (auto simp: bound_update fun_eq_iff)
    have new: "sockets_ok (?sos[i := so]) \<and> bound (?sos[i := so]) = (bound ?sos)(i \<mapsto> (protocol, p))"
      if "r = Some p" "so_protocol so = protocol" "so_port so = p" "so_receive_complete so = Some 0" for p so
      using sockets_ok_upd [OF ok i(1), of so] i that p0(1) prot zero
      by (auto simp: bound_update r_def least_free_def split: if_splits)
    have cond: "(port \<in> bound_ports ?sos) = (r = None)"
      using p0(1) zero by (auto simp: r_def)
    have run: "socket_open protocol port s = (case r of None \<Rightarrow> Some (- 1, s)
      | Some p \<Rightarrow> if net_sems s = 0 then Some (- 1, s\<lparr>open_sockets := ?sos[i := (?sos ! i)\<lparr>so_receive_complete := None\<rparr>]\<rparr>)
          else Some (int i, s\<lparr>net_sems := net_sems s - 1, open_sockets := ?sos[i := (?sos ! i)\<lparr>so_port := p, so_protocol := protocol,
                     so_receive_complete := Some 0, so_rbuf := 0, so_bufsize := 0, so_sender := 0, so_copied := 0\<rparr>]\<rparr>))"
      using known lock Some search
      by (cases r) (simp_all only: socket_open_def if_False, simp_all add: sockets_P_def sockets_V_def sem_P_def sem_V_def new_sem_def set_socket_def
          del: upt_rec_numeral)
    show ?thesis
    proof (cases r)
      case None
      then show ?thesis
        using ok cond by (simp add: run)
    next
      case (Some p)
      then show ?thesis
        using same new [of p] cond False room i len p0
        unfolding run by (auto simp: r_def split: if_splits)
    qed
  qed
qed

lemma socket_close_wp:
  assumes ok: "sockets_ok (open_sockets s)" and lock: "0 < open_sockets_sem s" and i: "i < CONFIG_MAX_OPEN_SOCKETS"
  shows "wp (socket_close (int i) s) (\<lambda>s'. sockets_ok (open_sockets s') \<and> open_sockets_sem s' = open_sockets_sem s \<and>
    bound (open_sockets s') = (bound (open_sockets s))(i := None) \<and>
    net_sems s' = net_sems s + of_bool (so_receive_complete (open_sockets s ! i) \<noteq> None))"
proof -
  let ?sos = "open_sockets s"
  have len: "i < length ?sos"
    using ok i by (simp add: sockets_ok_def)
  have upd: "sockets_ok (?sos[i := closed_socket (?sos ! i)])" "bound (?sos[i := closed_socket (?sos ! i)]) = (bound ?sos)(i := None)"
    using sockets_ok_upd [OF ok len, of "closed_socket (?sos ! i)"] bound_update [OF len] by (simp_all add: closed_socket_def)
  have closed: "(bound ?sos)(i := None) = bound ?sos" if "so_receive_complete (?sos ! i) = None"
  proof -
    have "bound ?sos i = None"
      using that ok unfolding sockets_ok_def by (metis not_None_eq old.prod.exhaust)
    then show ?thesis by (simp add: fun_upd_idem)
  qed
  show ?thesis
    using lock i upd closed ok
    by (auto simp: socket_close_def guard_def sockets_P_def sockets_V_def sem_P_def sem_V_def set_socket_def)
qed

text \<open>C23. The socket table is a map with distinct ports: \<open>socket_open\<close> binds the first row that is
  not in use to the given port, or to the smallest free port when 0 is given, unless the protocol is
  unknown, the table is full, the port is taken or no semaphore is left, in which cases
  nothing changes; its search for a port ends; \<open>socket_close\<close> unbinds one socket.  Both
  give the lock back and keep that open sockets have distinct ports, none of them 0, and
  a semaphore.\<close>

theorem socket_table_map:
  assumes "sockets_ok (open_sockets s)" and "0 < open_sockets_sem s"
  shows "wp (socket_open protocol port s) (\<lambda>(r, s'). sockets_ok (open_sockets s') \<and> open_sockets_sem s' = open_sockets_sem s \<and>
      (if protocol \<notin> {PROTOCOL_POP, PROTOCOL_SOP} \<or> dom (bound (open_sockets s)) = {..<CONFIG_MAX_OPEN_SOCKETS} \<or>
          port \<in> bound_ports (open_sockets s) \<or> net_sems s = 0
       then r = - 1 \<and> bound (open_sockets s') = bound (open_sockets s) \<and> net_sems s' = net_sems s
       else \<exists>i p. r = int i \<and> i < CONFIG_MAX_OPEN_SOCKETS \<and> bound (open_sockets s) i = None \<and>
         bound (open_sockets s') = (bound (open_sockets s))(i \<mapsto> (protocol, p)) \<and> net_sems s = Suc (net_sems s') \<and>
         (if port = 0 then least_free (open_sockets s) p else p = port))) \<and>
    (\<forall>i<CONFIG_MAX_OPEN_SOCKETS. wp (socket_close (int i) s) (\<lambda>s'. sockets_ok (open_sockets s') \<and>
      open_sockets_sem s' = open_sockets_sem s \<and> bound (open_sockets s') = (bound (open_sockets s))(i := None) \<and>
      net_sems s' = net_sems s + of_bool (so_receive_complete (open_sockets s ! i) \<noteq> None)))"
  using socket_open_wp [OF assms] socket_close_wp [OF assms] by blast

text \<open>The stack after its start without a network device.\<close>

definition demo_net :: "unit net" where
  "demo_net = \<lparr>network_interfaces = replicate 4 \<lparr>ni_address = 0, ni_mtu = 0, ni_gnd = None\<rparr>,
     open_sockets = replicate 64 \<lparr>so_port = 0, so_protocol = 0, so_receive_complete = None, so_rbuf = 0, so_bufsize = 0,
       so_sender = 0, so_copied = 0, so_sport = 0\<rparr>,
     open_sockets_sem = 1, socket_init_done = True,
     pop_queue = replicate 32 \<lparr>pq_frame = 0, pq_socket = - 1, pq_timestamp = 0, pq_from = 0, pq_busy = False\<rparr>,
     pop_queue_sem = 1, pop_send_buffer = 0x80002000, pop_send_buffer_sem = 1, pop_service_thread_sem = 0,
     pop_service_thread_id = 1, pop_init_done = True, net_sems = 5, net_pool = demo_pool, net_mem = (\<lambda>_. 0),
     net_kernel = demo_kernel, net_dev = ()\<rparr>"

lemma demo_sockets: "sockets_ok (open_sockets demo_net)" "bound (open_sockets demo_net) = Map.empty"
proof -
  show "bound (open_sockets demo_net) = Map.empty"
    by (auto simp: bound_def demo_net_def fun_eq_iff)
  then show "sockets_ok (open_sockets demo_net)"
    by (simp add: sockets_ok_def bound_ports_def) (simp add: demo_net_def)
qed

theorem socket_table_map_witness:
  "wp (socket_open PROTOCOL_POP 80 demo_net) (\<lambda>(r, s'). \<exists>i. r = int i \<and> bound (open_sockets s') = [i \<mapsto> (PROTOCOL_POP, 80)])"
proof -
  have "0 < open_sockets_sem demo_net" "net_sems demo_net = 5"
    by (simp_all add: demo_net_def)
  moreover have "bound_ports (open_sockets demo_net) = {}"
    by (simp add: bound_ports_def demo_sockets)
  moreover have "dom (bound (open_sockets demo_net)) \<noteq> {..<CONFIG_MAX_OPEN_SOCKETS}"
    using lessThan_empty_iff [of "64 :: nat"] by (auto simp: demo_sockets)
  moreover note socket_table_map [OF demo_sockets(1), THEN conjunct1, of PROTOCOL_POP 80]
  ultimately show ?thesis
    by (auto simp: demo_sockets(2) elim!: wp_mono)
qed

end
