(* ===== verification/Network_Frames.thy ===== *)
theory Network_Frames
  imports Socket_Properties
begin

text \<open>
  The pages of frames: every page of the pool is free, or in the input queue of POP, or held by
  someone else, and each function of the network stack moves pages between the three as its
  contract says.
\<close>

section \<open>Frames and their pages\<close>

text \<open>The payload of the frame in page \<open>i\<close>, and back.\<close>

definition frame_at :: "nat \<Rightarrow> u32" where
  "frame_at i = ADDR_PHYS_TO_KERNEL (page_addr i) + FRAME_HEADER"

definition page_of :: "u32 \<Rightarrow> nat" where
  "page_of f = unat (ADDR_KERNEL_TO_PHYS f) div 4096"

lemma unat_frame_at: "i < MAX_FRAMES \<Longrightarrow> unat (frame_at i) = 2147483660 + 4096 * i"
  by (simp add: frame_at_def unat_word_ariths unat_phys_to_kernel)

lemma frame_at_nonzero: "i < MAX_FRAMES \<Longrightarrow> frame_at i \<noteq> 0"
  using unat_frame_at [of i] by (metis add_is_0 unat_0 zero_neq_numeral)

lemma kernel_to_phys: "ADDR_KERNEL_TO_PHYS a = take_bit 31 a"
proof -
  have "(0x7fffffff :: u32) = mask 31"
    by (simp add: mask_eq_exp_minus_1)
  then show ?thesis
    by (simp add: ADDR_KERNEL_TO_PHYS_def take_bit_eq_mask)
qed

lemma and_page_mask: "unat (a AND 0xfffff000 :: u32) = 4096 * (unat a div 4096)"
proof -
  have "(0xfffff000 :: u32) = NOT (mask 12)"
    by (simp add: mask_eq_exp_minus_1)
  then have "a AND 0xfffff000 = a AND NOT (mask 12)"
    by (simp only:)
  also have "\<dots> = push_bit 12 (drop_bit 12 a)"
    by (auto intro!: bit_word_eqI simp: bit_simps)
  also have "unat \<dots> = 4096 * (unat a div 4096)"
  proof -
    have "unat a div 4096 * 4096 \<le> unat a"
      by simp
    also have "\<dots> < 4294967296"
      using unsigned_less [of a] by simp
    finally show ?thesis
      by (simp add: push_bit_eq_mult unat_word_ariths drop_bit_eq_div unat_div_distrib mult.commute)
  qed
  finally show ?thesis .
qed

lemma unat_frame_phys: "i < MAX_FRAMES \<Longrightarrow> unat (ADDR_KERNEL_TO_PHYS (frame_at i)) = 4096 * i + 12"
proof -
  assume i: "i < MAX_FRAMES"
  have "unat (ADDR_KERNEL_TO_PHYS (frame_at i)) = (2147483660 + 4096 * i) mod 2147483648"
    by (simp add: kernel_to_phys take_bit_eq_mod unat_mod_distrib unat_frame_at [OF i])
  also have "2147483660 + 4096 * i = 4096 * i + 12 + 2147483648"
    by simp
  also have "(4096 * i + 12 + 2147483648) mod 2147483648 = 4096 * i + 12"
    unfolding mod_add_self2 using i by simp
  finally show ?thesis .
qed

lemma page_of_frame: "i < MAX_FRAMES \<Longrightarrow> page_of (frame_at i) = i"
  using div_mult_self3 [of 4096 i 12] by (simp add: page_of_def unat_frame_phys add.commute)

lemma frame_page: "i < MAX_FRAMES \<Longrightarrow> ADDR_KERNEL_TO_PHYS (frame_at i) AND 0xfffff000 = page_addr i"
  using page_of_frame [of i] by (simp add: word_unat_eq_iff and_page_mask unat_page_addr page_of_def)

lemma pool_range: "pool_ok p \<Longrightarrow> i \<in> pool_pages p \<Longrightarrow> 0 < i \<and> i < MAX_FRAMES"
  using pool.pages_range by blast

section \<open>Where the pages are\<close>

text \<open>\<open>queued qs k\<close> is the page of the frame in slot \<open>k\<close>; \<open>others s\<close> are the pages that are in use
  outside the queue.\<close>

definition queued :: "pop_slot list \<Rightarrow> nat \<rightharpoonup> nat" where
  "queued qs k = (if k < length qs \<and> pq_frame (qs ! k) \<noteq> 0 then Some (page_of (pq_frame (qs ! k))) else None)"

definition others :: "'d net \<Rightarrow> nat set" where
  "others s = pool_pages (net_pool s) - pool_free (net_pool s) - ran (queued (pop_queue s))"

definition frames_ok :: "'d net \<Rightarrow> bool" where
  "frames_ok s \<longleftrightarrow> pool_ok (net_pool s) \<and> length (pop_queue s) = CONFIG_POP_QUEUE_SIZE \<and>
     inj_on (queued (pop_queue s)) (dom (queued (pop_queue s))) \<and>
     (\<forall>k i. queued (pop_queue s) k = Some i \<longrightarrow> pq_frame (pop_queue s ! k) = frame_at i \<and>
        i \<in> pool_pages (net_pool s) - pool_free (net_pool s)) \<and>
     (\<forall>q\<in>set (pop_queue s). - 1 \<le> pq_socket q \<and> pq_socket q < int CONFIG_MAX_OPEN_SOCKETS)"

text \<open>No function is inside its locked section.\<close>

definition net_ok :: "'d net \<Rightarrow> bool" where
  "net_ok s \<longleftrightarrow> frames_ok s \<and> sockets_ok (open_sockets s) \<and> 0 < open_sockets_sem s \<and> 0 < pop_queue_sem s"

lemma queued_update: "k < length qs \<Longrightarrow> queued (qs[k := q]) =
    (queued qs)(k := if pq_frame q = 0 then None else Some (page_of (pq_frame q)))"
  by (auto simp: queued_def fun_eq_iff nth_list_update)

lemma queued_same: "length qs' = length qs \<Longrightarrow> (\<And>k. k < length qs \<Longrightarrow> pq_frame (qs' ! k) = pq_frame (qs ! k)) \<Longrightarrow>
    queued qs' = queued qs"
  by (auto simp: queued_def fun_eq_iff)

lemma queued_frame: "frames_ok s \<Longrightarrow> k < length (pop_queue s) \<Longrightarrow> pq_frame (pop_queue s ! k) \<noteq> 0 \<Longrightarrow>
    \<exists>i. queued (pop_queue s) k = Some i \<and> pq_frame (pop_queue s ! k) = frame_at i \<and> i < MAX_FRAMES \<and>
      i \<in> pool_pages (net_pool s) \<and> i \<notin> pool_free (net_pool s)"
proof -
  assume "frames_ok s" and k: "k < length (pop_queue s)" "pq_frame (pop_queue s ! k) \<noteq> 0"
  then have ok: "pool_ok (net_pool s)" "\<And>k i. queued (pop_queue s) k = Some i \<Longrightarrow>
      pq_frame (pop_queue s ! k) = frame_at i \<and> i \<in> pool_pages (net_pool s) - pool_free (net_pool s)"
    unfolding frames_ok_def by blast+
  obtain i where i: "queued (pop_queue s) k = Some i"
    using k by (simp add: queued_def)
  with ok(2) [OF i] pool_range [OF ok(1)] show ?thesis
    by blast
qed

lemma others_page: "frames_ok s \<Longrightarrow> i \<in> others s \<Longrightarrow> i < MAX_FRAMES \<and> i \<in> pool_pages (net_pool s) \<and>
    i \<notin> pool_free (net_pool s) \<and> i \<notin> ran (queued (pop_queue s))"
  using pool_range [of "net_pool s" i] by (auto simp: frames_ok_def others_def)

lemma ran_upd_inj:
  assumes "inj_on m (dom m)" and "m k = Some i"
  shows "ran (m(k := None)) = ran m - {i}"
proof -
  have k: "l = k" if "m l = Some i" for l
    using inj_onD [OF assms(1), of l k] assms(2) that by auto
  have "(x \<in> ran (m(k := None))) = (\<exists>l. l \<noteq> k \<and> m l = Some x)" for x
    unfolding ran_def mem_Collect_eq fun_upd_apply by (metis option.distinct(1))
  moreover have "(\<exists>l. l \<noteq> k \<and> m l = Some x) = (x \<in> ran m \<and> x \<noteq> i)" for x
    unfolding ran_def mem_Collect_eq by (metis assms(2) k option.inject)
  ultimately show ?thesis
    by blast
qed

text \<open>A slot is emptied and its page becomes free.\<close>

lemma free_slot:
  fixes s :: "'d net"
  assumes ok: "frames_ok s" and k: "k < length (pop_queue s)" "pq_frame (pop_queue s ! k) \<noteq> 0"
    and q: "pq_frame q = 0" "- 1 \<le> pq_socket q" "pq_socket q < int CONFIG_MAX_OPEN_SOCKETS"
  shows "wp (network_free_frame (pq_frame (pop_queue s ! k)) s) (\<lambda>s'. s' = s\<lparr>net_pool := net_pool s'\<rparr> \<and>
    (\<forall>s'' :: 'd net. pop_queue s'' = (pop_queue s)[k := q] \<longrightarrow> net_pool s'' = net_pool s' \<longrightarrow>
      frames_ok s'' \<and> others s'' = others s))"
proof -
  obtain i where i: "queued (pop_queue s) k = Some i" "pq_frame (pop_queue s ! k) = frame_at i" "i < MAX_FRAMES"
      "i \<in> pool_pages (net_pool s)" "i \<notin> pool_free (net_pool s)"
    using queued_frame [OF ok k] by blast
  have pool: "pool_ok (net_pool s)" and inj: "inj_on (queued (pop_queue s)) (dom (queued (pop_queue s)))"
    using ok by (simp_all add: frames_ok_def)
  obtain p where p: "pagepool_free_phys_page (page_addr i) (net_pool s) = Some p" "pool_ok p"
      "pool_free p = insert i (pool_free (net_pool s))" "pool_pages p = pool_pages (net_pool s)"
    using pool.free_some [OF pool i(4,5)] by blast
  have "frames_ok s'' \<and> others s'' = others s"
    if s'': "pop_queue s'' = (pop_queue s)[k := q]" "net_pool s'' = p" for s'' :: "'d net"
  proof
    have m: "queued (pop_queue s'') = (queued (pop_queue s))(k := None)"
      by (simp add: s'' queued_update [OF k(1)] q)
    have r: "ran (queued (pop_queue s'')) = ran (queued (pop_queue s)) - {i}"
      unfolding m by (rule ran_upd_inj [OF inj i(1)])
    then show "others s'' = others s"
      using i(1) by (auto simp: others_def s'' p intro: ranI)
    have "j \<noteq> i" if "queued (pop_queue s'') l = Some j" for l j
      using r that by (auto intro: ranI)
    then have rows: "pq_frame (pop_queue s'' ! l) = frame_at j \<and> j \<in> pool_pages p - pool_free p"
      if "queued (pop_queue s'') l = Some j" for l j
      using that ok p unfolding m by (auto simp: frames_ok_def s'' split: if_splits)
    have "inj_on (queued (pop_queue s'')) (dom (queued (pop_queue s'')))"
      unfolding m using inj by (auto simp: inj_on_def)
    with rows show "frames_ok s''"
      using ok p(2) q set_update_subset_insert [of "pop_queue s" k q]
      unfolding frames_ok_def s''(2) by (auto simp: s''(1))
  qed
  then have "\<forall>s'' :: 'd net. pop_queue s'' = (pop_queue s)[k := q] \<longrightarrow> net_pool s'' = p \<longrightarrow> frames_ok s'' \<and> others s'' = others s"
    by blast
  then show ?thesis
    using p by (simp add: network_free_frame_def i(2) frame_page [OF i(3)])
qed

text \<open>A page that is in use goes to an empty slot.\<close>

lemma fill_slot:
  assumes ok: "frames_ok s" and k: "k < length (pop_queue s)" "pq_frame (pop_queue s ! k) = 0"
    and i: "i \<in> others s" and q: "pq_frame q = frame_at i" "- 1 \<le> pq_socket q" "pq_socket q < int CONFIG_MAX_OPEN_SOCKETS"
    and s'': "pop_queue s'' = (pop_queue s)[k := q]" "net_pool s'' = net_pool s"
  shows "frames_ok s'' \<and> others s'' = others s - {i}"
proof
  note page = others_page [OF ok i]
  have none: "queued (pop_queue s) k = None"
    using k by (simp add: queued_def)
  have m: "queued (pop_queue s'') = (queued (pop_queue s))(k \<mapsto> i)"
    using page by (simp add: s'' queued_update [OF k(1)] q frame_at_nonzero page_of_frame)
  then show "others s'' = others s - {i}"
    using none by (auto simp: others_def s'')
  have rows: "pq_frame (pop_queue s'' ! l) = frame_at j \<and> j \<in> pool_pages (net_pool s) - pool_free (net_pool s)"
    if "queued (pop_queue s'') l = Some j" for l j
    using that ok page k q unfolding m by (auto simp: frames_ok_def s'' split: if_splits)
  have "inj_on (queued (pop_queue s'')) (dom (queued (pop_queue s'')))"
    unfolding m using ok page by (auto simp: frames_ok_def inj_on_def ran_def)
  with rows show "frames_ok s''"
    using ok q set_update_subset_insert [of "pop_queue s" k q]
    unfolding frames_ok_def s''(2) by (auto simp: s''(1))
qed

section \<open>The input queue\<close>

lemma push_scan_append: "push_scan qs (xs @ ys) f a = (case push_scan qs xs f a of (f, a) \<Rightarrow> push_scan qs ys f a)"
  by (induction xs arbitrary: f a) simp_all

lemma find_append: "List.find P (xs @ ys) = (case List.find P xs of None \<Rightarrow> List.find P ys | Some x \<Rightarrow> Some x)"
  by (induction xs) simp_all

text \<open>\<open>a\<close> is the first of the oldest slots below \<open>n\<close> that are not busy, -1 when there is none.\<close>

definition oldest_slot :: "pop_slot list \<Rightarrow> nat \<Rightarrow> int \<Rightarrow> bool" where
  "oldest_slot qs n a \<longleftrightarrow> (if \<forall>k<n. pq_busy (qs ! k) then a = - 1
     else 0 \<le> a \<and> a < int n \<and> \<not> pq_busy (qs ! nat a) \<and>
       (\<forall>k<n. \<not> pq_busy (qs ! k) \<longrightarrow> pq_timestamp (qs ! nat a) \<le> pq_timestamp (qs ! k) \<and>
         (int k < a \<longrightarrow> pq_timestamp (qs ! nat a) < pq_timestamp (qs ! k))))"

lemma oldest_slot_Suc: "oldest_slot qs n a \<Longrightarrow>
    oldest_slot qs (Suc n) (if \<not> pq_busy (qs ! n) \<and> (a = - 1 \<or> pq_timestamp (qs ! n) < pq_timestamp (qs ! nat a)) then int n else a)"
  by (auto simp: oldest_slot_def less_Suc_eq not_less split: if_splits intro: order_trans less_imp_le)

definition first_empty :: "pop_slot list \<Rightarrow> nat \<Rightarrow> int" where
  "first_empty qs n = (case List.find (\<lambda>k. pq_frame (qs ! k) = 0) [0..<n] of None \<Rightarrow> - 1 | Some k \<Rightarrow> int k)"

lemma push_scan_spec: "\<exists>a. push_scan qs [0..<n] (- 1) (- 1) = (first_empty qs n, a) \<and> oldest_slot qs n a"
proof (induction n)
  case 0
  then show ?case by (simp add: first_empty_def oldest_slot_def)
next
  case (Suc n)
  then obtain a where a: "push_scan qs [0..<n] (- 1) (- 1) = (first_empty qs n, a)" "oldest_slot qs n a"
    by blast
  have "first_empty qs (Suc n) = (if first_empty qs n = - 1 \<and> pq_frame (qs ! n) = 0 then int n else first_empty qs n)"
    by (auto simp: first_empty_def find_append split: option.splits)
  with a oldest_slot_Suc [OF a(2)] show ?case
    by (simp add: push_scan_append)
qed

lemma first_empty: "first_empty qs n = - 1 \<and> (\<forall>k<n. pq_frame (qs ! k) \<noteq> 0) \<or>
    (\<exists>k<n. first_empty qs n = int k \<and> pq_frame (qs ! k) = 0 \<and> (\<forall>l<k. pq_frame (qs ! l) \<noteq> 0))"
  by (auto simp: first_empty_def find_None_iff find_Some_iff split: option.splits)

text \<open>What a frame from \<open>fromaddr\<close> leaves in its slot, and the state behind a push to slot \<open>k\<close>.\<close>

definition new_slot :: "u32 \<Rightarrow> u32 \<Rightarrow> u32 \<Rightarrow> pop_slot" where
  "new_slot msec fromaddr frame = \<lparr>pq_frame = frame, pq_socket = - 1, pq_timestamp = msec, pq_from = fromaddr, pq_busy = False\<rparr>"

definition pushed :: "pop_slot \<Rightarrow> int \<Rightarrow> 'd net \<Rightarrow> 'd net" where
  "pushed q k s = s\<lparr>pop_queue := (pop_queue s)[nat k := q], pop_service_thread_sem := pop_service_thread_sem s + 1\<rparr>"

lemma pushed_simps [simp]:
  "pop_queue (pushed q k s) = (pop_queue s)[nat k := q]" "net_pool (pushed q k s) = net_pool s"
  "open_sockets (pushed q k s) = open_sockets s" "open_sockets_sem (pushed q k s) = open_sockets_sem s"
  "pop_queue_sem (pushed q k s) = pop_queue_sem s" "net_mem (pushed q k s) = net_mem s"
  "pop_service_thread_sem (pushed q k s) = pop_service_thread_sem s + 1" "net_dev (pushed q k s) = net_dev s"
  by (simp_all add: pushed_def)

lemma evict_slot:
  fixes s :: "'d net"
  assumes ok: "frames_ok s" and k: "k < length (pop_queue s)" "pq_frame (pop_queue s ! k) \<noteq> 0" and i: "i \<in> others s"
    and q: "pq_frame q = frame_at i" "- 1 \<le> pq_socket q" "pq_socket q < int CONFIG_MAX_OPEN_SOCKETS"
  shows "wp (network_free_frame (pq_frame (pop_queue s ! k)) s) (\<lambda>s'. s' = s\<lparr>net_pool := net_pool s'\<rparr> \<and>
    (\<forall>s'' :: 'd net. pop_queue s'' = (pop_queue s)[k := q] \<longrightarrow> net_pool s'' = net_pool s' \<longrightarrow>
      frames_ok s'' \<and> others s'' = others s - {i}))"
proof -
  let ?e = "(pop_queue s ! k)\<lparr>pq_frame := 0\<rparr>"
  have e: "- 1 \<le> pq_socket ?e" "pq_socket ?e < int CONFIG_MAX_OPEN_SOCKETS"
    using ok k(1) by (auto simp: frames_ok_def)
  show ?thesis
  proof (rule wp_mono [OF free_slot [OF ok k _ e]])
    fix s' :: "'d net" assume s': "s' = s\<lparr>net_pool := net_pool s'\<rparr> \<and> (\<forall>s'' :: 'd net. pop_queue s'' = (pop_queue s)[k := ?e] \<longrightarrow>
        net_pool s'' = net_pool s' \<longrightarrow> frames_ok s'' \<and> others s'' = others s)"
    let ?s1 = "s'\<lparr>pop_queue := (pop_queue s)[k := ?e]\<rparr>"
    have s1: "frames_ok ?s1" "others ?s1 = others s"
      using s' [THEN conjunct2, rule_format, of ?s1] by simp_all
    have "frames_ok s'' \<and> others s'' = others s - {i}"
      if "pop_queue s'' = (pop_queue s)[k := q]" "net_pool s'' = net_pool s'" for s'' :: "'d net"
      using fill_slot [OF s1(1), of k i q s''] s1(2) that k i q by simp
    then show "s' = s\<lparr>net_pool := net_pool s'\<rparr> \<and> (\<forall>s'' :: 'd net. pop_queue s'' = (pop_queue s)[k := q] \<longrightarrow>
        net_pool s'' = net_pool s' \<longrightarrow> frames_ok s'' \<and> others s'' = others s - {i})"
      using s' by blast
  qed simp
qed

lemma pop_push_frame_wp:
  fixes s :: "'d net"
  assumes fo: "frames_ok s" and lock: "0 < pop_queue_sem s" and i: "i \<in> others s"
    and q: "q = new_slot msec' fromaddr (frame_at i)"
  shows "wp (pop_push_frame (msec, msec') fromaddr toaddr (ucast PROTOCOL_POP) (frame_at i) s) (\<lambda>(r, s').
    \<exists>a. oldest_slot (pop_queue s) CONFIG_POP_QUEUE_SIZE a \<and> frames_ok s' \<and>
      (if first_empty (pop_queue s) CONFIG_POP_QUEUE_SIZE \<noteq> - 1
       then r = 1 \<and> s' = pushed q (first_empty (pop_queue s) CONFIG_POP_QUEUE_SIZE) s \<and> others s' = others s - {i}
       else if a = - 1 \<or> msec - pq_timestamp (pop_queue s ! nat a) < CONFIG_POP_QUEUE_MIN_AGE then r = 0 \<and> s' = s
       else r = 1 \<and> (\<exists>p. s' = (pushed q a s)\<lparr>net_pool := p\<rparr>) \<and> others s' = others s - {i}))"
proof -
  let ?qs = "pop_queue s" and ?free = "first_empty (pop_queue s) CONFIG_POP_QUEUE_SIZE"
  have len: "length ?qs = CONFIG_POP_QUEUE_SIZE"
    using fo by (simp add: frames_ok_def)
  have qf: "pq_frame q = frame_at i" "- 1 \<le> pq_socket q" "pq_socket q < int CONFIG_MAX_OPEN_SOCKETS"
    by (simp_all add: q new_slot_def)
  obtain a where a: "push_scan ?qs [0..<CONFIG_POP_QUEUE_SIZE] (- 1) (- 1) = (?free, a)"
      "oldest_slot ?qs CONFIG_POP_QUEUE_SIZE a"
    using push_scan_spec by blast
  note run = pop_push_frame_def queue_P_def queue_V_def service_V_def sem_P_def sem_V_def set_slot_row_def guard_def lock a(1)
    new_slot_def [of msec' fromaddr, symmetric] q [symmetric]
  consider k where "?free = int k" "k < CONFIG_POP_QUEUE_SIZE" "pq_frame (?qs ! k) = 0"
    | "?free = - 1" "a = - 1 \<or> msec - pq_timestamp (?qs ! nat a) < CONFIG_POP_QUEUE_MIN_AGE"
    | "?free = - 1" "\<not> (a = - 1 \<or> msec - pq_timestamp (?qs ! nat a) < CONFIG_POP_QUEUE_MIN_AGE)"
      "\<forall>k<CONFIG_POP_QUEUE_SIZE. pq_frame (?qs ! k) \<noteq> 0"
    using first_empty [of ?qs CONFIG_POP_QUEUE_SIZE] by blast
  then show ?thesis
  proof cases
    case 1
    have "frames_ok (pushed q (int k) s) \<and> others (pushed q (int k) s) = others s - {i}"
      by (rule fill_slot [OF fo _ _ i qf]) (simp_all add: 1 len)
    then show ?thesis
      using 1 a(2) by (auto simp: run pushed_def)
  next
    case 2
    then show ?thesis
      using a(2) fo by (auto simp: run intro!: exI [of _ a])
  next
    case 3
    then have k: "nat a < length ?qs" "pq_frame (?qs ! nat a) \<noteq> 0"
      using a(2) len by (auto simp: oldest_slot_def split: if_splits)
    obtain s' where s': "network_free_frame (pq_frame (?qs ! nat a)) s = Some s'" "s' = s\<lparr>net_pool := net_pool s'\<rparr>"
        "\<forall>s'' :: 'd net. pop_queue s'' = ?qs[nat a := q] \<longrightarrow> net_pool s'' = net_pool s' \<longrightarrow> frames_ok s'' \<and> others s'' = others s - {i}"
      using evict_slot [OF fo k i qf] unfolding wp_iff by blast
    define p where "p = net_pool s'"
    have fr: "frames_ok ((pushed q a s)\<lparr>net_pool := p\<rparr>)" "others ((pushed q a s)\<lparr>net_pool := p\<rparr>) = others s - {i}"
      using s'(3) by (simp_all add: p_def)
    have fs: "network_free_frame (pq_frame (?qs ! nat a)) s = Some (s\<lparr>net_pool := p\<rparr>)"
      using s'(1,2) by (simp add: p_def)
    have comm: "s\<lparr>net_pool := p, pop_queue := x, pop_service_thread_sem := y\<rparr> = s\<lparr>pop_queue := x, pop_service_thread_sem := y, net_pool := p\<rparr>"
      for x y by (cases s) simp
    have free: "network_free_frame f (s\<lparr>pop_queue_sem := v\<rparr>) = Option.bind (network_free_frame f s)
        (\<lambda>s. Some (s\<lparr>pop_queue_sem := v\<rparr>))" for f v
      by (simp add: network_free_frame_def split: bind_split)
    show ?thesis
      using 3 a(2) k fs fr by (auto simp: run free pushed_def comm simp del: net.update_convs intro!: exI [of _ a])
  qed
qed

section \<open>Pages taken and given back\<close>

lemma take_page:
  fixes s :: "'d net"
  assumes ok: "frames_ok s"
  shows "pagepool_get_phys_page (net_pool s) = Some (0, net_pool s) \<and> pool_free (net_pool s) = {} \<or>
    (\<exists>i p. pagepool_get_phys_page (net_pool s) = Some (page_addr i, p) \<and> page_addr i \<noteq> 0 \<and> i < MAX_FRAMES \<and>
      i \<in> pool_free (net_pool s) \<and> pool_free p = pool_free (net_pool s) - {i} \<and> pool_pages p = pool_pages (net_pool s) \<and> i \<notin> others s \<and>
      (\<forall>s'' :: 'd net. pop_queue s'' = pop_queue s \<longrightarrow> net_pool s'' = p \<longrightarrow>
        frames_ok s'' \<and> others s'' = insert i (others s)))"
proof (cases "pool_free (net_pool s) = {}")
  case True
  then show ?thesis
    using pool.get_none ok by (simp add: frames_ok_def)
next
  case False
  have pool: "pool_ok (net_pool s)"
    using ok by (simp add: frames_ok_def)
  obtain i p where i: "pagepool_get_phys_page (net_pool s) = Some (page_addr i, p)" "i \<in> pool_free (net_pool s)" "pool_ok p"
      "pool_free p = pool_free (net_pool s) - {i}" "pool_pages p = pool_pages (net_pool s)"
    using pool.get_some [OF pool False] by blast
  have page: "i \<in> pool_pages (net_pool s)" "0 < i" "i < MAX_FRAMES"
    using i(2) pool.avail_pages [OF pool] pool_range [OF pool] by blast+
  have fresh: "i \<notin> ran (queued (pop_queue s))"
    using ok i(2) by (auto simp: frames_ok_def ran_def)
  have "i \<notin> others s"
    using i(2) by (simp add: others_def)
  moreover have "frames_ok s'' \<and> others s'' = insert i (others s)"
    if "pop_queue s'' = pop_queue s" "net_pool s'' = p" for s'' :: "'d net"
  proof -
    have "frames_ok s''"
      using ok i that unfolding frames_ok_def by auto
    moreover have "others s'' = insert i (others s)"
      using i page fresh unfolding others_def that by auto
    ultimately show ?thesis by blast
  qed
  ultimately show ?thesis
    using i page page_addr_0 [of i] by (intro disjI2 exI [of _ i] exI [of _ p]) simp
qed

lemma give_page:
  fixes s :: "'d net"
  assumes ok: "frames_ok s" and i: "i \<in> others s"
  shows "\<exists>p. pagepool_free_phys_page (page_addr i) (net_pool s) = Some p \<and> pool_free p = insert i (pool_free (net_pool s)) \<and>
    (\<forall>s'' :: 'd net. pop_queue s'' = pop_queue s \<longrightarrow> net_pool s'' = p \<longrightarrow> frames_ok s'' \<and> others s'' = others s - {i})"
proof -
  note page = others_page [OF ok i]
  have pool: "pool_ok (net_pool s)"
    using ok by (simp add: frames_ok_def)
  obtain p where p: "pagepool_free_phys_page (page_addr i) (net_pool s) = Some p" "pool_ok p"
      "pool_free p = insert i (pool_free (net_pool s))" "pool_pages p = pool_pages (net_pool s)"
    using pool.free_some [OF pool] page by blast
  have "frames_ok s'' \<and> others s'' = others s - {i}" if "pop_queue s'' = pop_queue s" "net_pool s'' = p" for s'' :: "'d net"
  proof
    have "j \<noteq> i" if "queued (pop_queue s) l = Some j" for l j
      using page that by (auto intro: ranI)
    then show "frames_ok s''"
      using ok p that unfolding frames_ok_def by auto
    show "others s'' = others s - {i}"
      using p unfolding others_def that by auto
  qed
  with p show ?thesis by blast
qed

section \<open>Receiving and sending a frame\<close>

text \<open>What the two leave alone.\<close>

definition same_net :: "'d net \<Rightarrow> 'd net \<Rightarrow> bool" where
  "same_net s s' \<longleftrightarrow> open_sockets s' = open_sockets s \<and> open_sockets_sem s' = open_sockets_sem s \<and>
     pop_queue_sem s' = pop_queue_sem s \<and> network_interfaces s' = network_interfaces s \<and>
     pop_send_buffer s' = pop_send_buffer s \<and> pop_send_buffer_sem s' = pop_send_buffer_sem s \<and> net_sems s' = net_sems s"

lemma same_net_refl [simp]: "same_net s s"
  by (simp add: same_net_def)

lemma same_net_trans: "same_net s t \<Longrightarrow> same_net t u \<Longrightarrow> same_net s u"
  by (simp add: same_net_def)

lemma pushed_same: "same_net s ((pushed q k s)\<lparr>net_pool := p\<rparr>)"
  by (simp add: same_net_def pushed_def)

lemma pushed_pool: "pushed q k s = (pushed q k s)\<lparr>net_pool := net_pool s\<rparr>"
  by (simp add: pushed_def)

lemma network_receive_frame_wp:
  fixes s :: "'d net"
  assumes ok: "frames_ok s" and lock: "0 < pop_queue_sem s" and i: "i \<in> others s"
  shows "wp (network_receive_frame clk (ADDR_PHYS_TO_KERNEL (page_addr i)) s) (\<lambda>(r, s'). same_net s s' \<and> frames_ok s' \<and>
    (if r = 0 then s' = s else others s' = others s - {i}))"
proof -
  obtain msec msec' where clk: "clk = (msec, msec')"
    by (cases clk)
  let ?frame = "ADDR_PHYS_TO_KERNEL (page_addr i)"
  let ?from = "kget32 (net_mem s) (?frame + 4)"
  have "wp (pop_push_frame clk ?from (kget32 (net_mem s) ?frame) (ucast PROTOCOL_POP) (?frame + FRAME_HEADER) s)
      (\<lambda>(r, s'). same_net s s' \<and> frames_ok s' \<and> (if r = 0 then s' = s else others s' = others s - {i}))"
    unfolding clk frame_at_def [symmetric]
  proof (rule wp_mono [OF pop_push_frame_wp [OF ok lock i refl]], goal_cases)
    case (1 x)
    obtain r s' where x: "x = (r, s')"
      by (cases x)
    have "frames_ok s' \<and> (r = 1 \<and> (\<exists>q k p. s' = (pushed q k s)\<lparr>net_pool := p\<rparr>) \<and> others s' = others s - {i} \<or> r = 0 \<and> s' = s)"
      using 1 unfolding x split_conv by (metis pushed_pool)
    then show ?case
      unfolding x split_conv using pushed_same [of s] by auto
  qed
  then show ?thesis
    using ok by (auto simp: network_receive_frame_def protocols_get_frame_handler_def network_protocols_def)
qed

text \<open>The devices answer; the interface of the source has one.\<close>

definition gnds_answer :: "(nat \<Rightarrow> 'd gnd) \<Rightarrow> bool" where
  "gnds_answer G \<longleftrightarrow> (\<forall>g phys a m d. gnd_send (G g) phys a m d \<noteq> None \<and> gnd_recv (G g) phys m d \<noteq> None)"

definition source_ok :: "u32 \<Rightarrow> 'd net \<Rightarrow> bool" where
  "source_ok src s \<longleftrightarrow> src = NETWORK_BROADCAST_ADDRESS \<or> network_get_interface src s < 0 \<or>
     ni_gnd (network_interfaces s ! nat (network_get_interface src s)) \<noteq> None"

lemma send_interface_wp:
  "gnds_answer G \<Longrightarrow> ni_gnd (network_interfaces s ! k) \<noteq> None \<Longrightarrow>
    wp (network_send_interface G k dst frame s) (\<lambda>(r, s'). \<exists>d. s' = s\<lparr>net_dev := d\<rparr>)"
proof -
  assume "gnds_answer G" and "ni_gnd (network_interfaces s ! k) \<noteq> None"
  then obtain g r d where "ni_gnd (network_interfaces s ! k) = Some g"
      "gnd_send (G g) (ADDR_KERNEL_TO_PHYS frame) dst (net_mem s) (net_dev s) = Some (r, d)"
    unfolding gnds_answer_def by (metis option.exhaust surj_pair)
  then show ?thesis
    by (auto simp: network_send_interface_def)
qed

lemma net_dev_same: "\<exists>d. s = s\<lparr>net_dev := d\<rparr>"
  by (metis net.surjective net.update_convs(16))

lemma send_all_wp:
  assumes G: "gnds_answer G" and "r \<in> {0, - 1}"
  shows "wp (send_all G is dst frame r s) (\<lambda>(r, s'). r \<in> {0, - 1} \<and> (\<exists>d. s' = s\<lparr>net_dev := d\<rparr>))"
  using assms(2)
proof (induction "is" arbitrary: r s)
  case Nil
  then show ?case using net_dev_same by auto
next
  case (Cons i "is")
  show ?case
  proof (cases "ni_gnd (network_interfaces s ! i) = None")
    case True
    then show ?thesis using net_dev_same Cons.prems by auto
  next
    case False
    obtain r' d where r': "network_send_interface G i dst frame s = Some (r', s\<lparr>net_dev := d\<rparr>)"
      using send_interface_wp [OF G False, of dst frame] by (auto simp: wp_iff)
    have "(ni_gnd (network_interfaces s ! i) = None) = False"
      using False by simp
    then show ?thesis
      using Cons.prems Cons.IH [of "if r' \<noteq> 0 then - 1 else r" "s\<lparr>net_dev := d\<rparr>"] r' by (simp only: send_all.simps if_False) auto
  qed
qed

lemma network_send_wp:
  fixes s :: "'d net"
  assumes ok: "frames_ok s" and lock: "0 < pop_queue_sem s" and len: "0 < len" "len \<le> 4096 - 12"
    and G: "gnds_answer G" and src: "source_ok src s"
  shows "wp (network_send G clk src dst proto len buf s) (\<lambda>(r, s').
    same_net s s' \<and> frames_ok s' \<and> others s' = others s \<and> r \<in> {NET_OK, NET_ERROR, NET_DOESNT_EXIST})"
proof -
  consider "pagepool_get_phys_page (net_pool s) = Some (0, net_pool s)"
    | i p where "pagepool_get_phys_page (net_pool s) = Some (page_addr i, p)" "page_addr i \<noteq> 0" "i \<notin> others s"
      "\<forall>s'' :: 'd net. pop_queue s'' = pop_queue s \<longrightarrow> net_pool s'' = p \<longrightarrow> frames_ok s'' \<and> others s'' = insert i (others s)"
    using take_page [OF ok] by (elim disjE exE conjE) fast+
  then show ?thesis
  proof cases
    case 1
    then show ?thesis
      using ok len by (simp add: network_send_def guard_def same_net_def)
  next
    case 2
    let ?frame = "ADDR_PHYS_TO_KERNEL (page_addr i)"
    define m where "m = build_frame ?frame src dst proto len buf (net_mem s)"
    define built where "built m = s\<lparr>net_pool := p, net_mem := m\<rparr>" for m
    have built: "frames_ok (built m)" "others (built m) = insert i (others s)" "0 < pop_queue_sem (built m)" "same_net s (built m)" for m
      using 2(4) [rule_format, of "built m"] lock by (simp_all add: built_def same_net_def)
    have "i \<in> others (built m)"
      by (simp add: built(2))
    from give_page [OF built(1) this] obtain p' where "pagepool_free_phys_page (page_addr i) (net_pool (built m)) = Some p'"
        "\<And>s'' :: 'd net. pop_queue s'' = pop_queue (built m) \<Longrightarrow> net_pool s'' = p' \<Longrightarrow>
          frames_ok s'' \<and> others s'' = others (built m) - {i}"
      by blast
    moreover have "insert i (others s) - {i} = others s"
      using 2(3) by blast
    ultimately have p': "pagepool_free_phys_page (page_addr i) p = Some p'"
        "\<And>s'' :: 'd net. pop_queue s'' = pop_queue s \<Longrightarrow> net_pool s'' = p' \<Longrightarrow> frames_ok s'' \<and> others s'' = others s"
      by (simp_all add: built(2)) (simp_all add: built_def)
    have freed: "same_net s s'' \<and> frames_ok s'' \<and> others s'' = others s"
      if "s'' = (built m)\<lparr>net_dev := d, net_pool := p'\<rparr>" for m d s''
      using p'(2) [of s''] that by (simp add: built_def same_net_def)
    show ?thesis
    proof (cases "dst = NETWORK_LOOPBACK_ADDRESS")
      case True
      define m' where "m' = (if kget32 m (?frame + 4) = NETWORK_BROADCAST_ADDRESS
          then kput32 (?frame + 4) NETWORK_LOOPBACK_ADDRESS m else m)"
      have "i \<in> others (built m')"
        by (simp add: built(2))
      from network_receive_frame_wp [OF built(1,3) this, of clk] obtain r s'
        where r: "network_receive_frame clk ?frame (built m') = Some (r, s')" "same_net (built m') s'" "frames_ok s'"
          "if r = 0 then s' = built m' else others s' = others (built m') - {i}"
        by (auto simp: wp_iff)
      have "network_send G clk src dst proto len buf s = do {
          (r, s) \<leftarrow> network_receive_frame clk ?frame (built m');
          if r = 0 then do { pool \<leftarrow> pagepool_free_phys_page (page_addr i) (net_pool s); Some (- 1, s\<lparr>net_pool := pool\<rparr>) }
          else Some (0, s)
        }"
        using 2(1,2) len True
        by (simp add: network_send_def guard_def Let_def m_def [unfolded True, symmetric] built_def m'_def)
      also have "\<dots> = (if r = 0 then Some (- 1, s'\<lparr>net_pool := p'\<rparr>) else Some (0, s'))"
        using r(1,4) p'(1) by (auto simp: built_def)
      finally have send: "network_send G clk src dst proto len buf s =
          (if r = 0 then Some (- 1, s'\<lparr>net_pool := p'\<rparr>) else Some (0, s'))" .
      show ?thesis
      proof (cases "r = 0")
        case True
        then show ?thesis
          using r(4) freed [of "s'\<lparr>net_pool := p'\<rparr>" "net_dev s" m'] unfolding send by (simp add: built_def)
      next
        case False
        then show ?thesis
          using r(3,4) same_net_trans [OF built(4) r(2)] 2(3) unfolding send by (simp add: built(2))
      qed
    next
      case False
      have send: "network_send G clk src dst proto len buf s =
          (if src \<noteq> NETWORK_BROADCAST_ADDRESS
           then if network_get_interface src s < 0 then Some (- 2, (built m)\<lparr>net_pool := p'\<rparr>)
             else do {
               (r, s) \<leftarrow> network_send_interface G (nat (network_get_interface src s)) dst ?frame (built m);
               pool \<leftarrow> pagepool_free_phys_page (page_addr i) (net_pool s);
               Some (if r \<noteq> 0 then - 1 else 0, s\<lparr>net_pool := pool\<rparr>)
             }
           else do {
             (r, s) \<leftarrow> send_all G [0..<CONFIG_MAX_GNDS] dst ?frame 0 (built m);
             pool \<leftarrow> pagepool_free_phys_page (page_addr i) (net_pool s);
             Some (r, s\<lparr>net_pool := pool\<rparr>)
           })"
        using 2(1,2) len p'(1) False
        by (simp add: network_send_def guard_def Let_def m_def built_def network_get_interface_def del: upt_rec_numeral)
      have freed_m: "same_net s ((built m)\<lparr>net_dev := d, net_pool := p'\<rparr>) \<and>
          frames_ok ((built m)\<lparr>net_dev := d, net_pool := p'\<rparr>) \<and> others ((built m)\<lparr>net_dev := d, net_pool := p'\<rparr>) = others s" for d
        by (rule freed [OF refl])
      have pool: "net_pool ((built m)\<lparr>net_dev := d\<rparr>) = p" for d
        by (simp add: built_def)
      consider "src = NETWORK_BROADCAST_ADDRESS" | "src \<noteq> NETWORK_BROADCAST_ADDRESS" "network_get_interface src s < 0"
        | "src \<noteq> NETWORK_BROADCAST_ADDRESS" "\<not> network_get_interface src s < 0"
          "ni_gnd (network_interfaces (built m) ! nat (network_get_interface src s)) \<noteq> None"
        using src by (auto simp: source_ok_def built_def)
      then show ?thesis
      proof cases
        case 1
        show ?thesis
          unfolding send using send_all_wp [OF G, of 0 "[0..<CONFIG_MAX_GNDS]" dst ?frame "built m"] 1 p'(1) freed_m pool
          by (auto simp: wp_iff simp del: upt_rec_numeral)
      next
        case 2
        then show ?thesis
          unfolding send using freed_m [of "net_dev s"] by (simp add: built_def)
      next
        case 3
        then show ?thesis
          unfolding send using send_interface_wp [OF G 3(3), of dst ?frame] p'(1) freed_m pool
          by (auto simp: wp_iff)
      qed
    qed
  qed
qed

section \<open>The service thread\<close>

text \<open>The scan decides on a frame of the queue and moves none.\<close>

definition action_ok :: "pop_action \<Rightarrow> 'd net \<Rightarrow> bool" where
  "action_ok a s \<longleftrightarrow> (case a of Pop_None \<Rightarrow> True
     | Pop_Discard k f \<Rightarrow> k < length (pop_queue s) \<and> f \<noteq> 0 \<and> pq_frame (pop_queue s ! k) = f
     | Pop_Transfer k f \<Rightarrow> k < length (pop_queue s) \<and> f \<noteq> 0 \<and> pq_frame (pop_queue s ! k) = f \<and> pq_busy (pop_queue s ! k) \<and>
         0 \<le> pq_socket (pop_queue s ! k) \<and> (let so = open_sockets s ! nat (pq_socket (pop_queue s ! k)) in
           so_protocol so = PROTOCOL_POP \<and> so_rbuf so \<noteq> 0))"

definition moves_none :: "pop_slot list \<Rightarrow> pop_slot list \<Rightarrow> bool" where
  "moves_none qs qs' \<longleftrightarrow> length qs' = length qs \<and> (\<forall>k<length qs. pq_frame (qs' ! k) = pq_frame (qs ! k) \<and>
     pq_from (qs' ! k) = pq_from (qs ! k) \<and>
     (- 1 \<le> pq_socket (qs ! k) \<and> pq_socket (qs ! k) < int CONFIG_MAX_OPEN_SOCKETS \<longrightarrow>
      - 1 \<le> pq_socket (qs' ! k) \<and> pq_socket (qs' ! k) < int CONFIG_MAX_OPEN_SOCKETS))"

lemma moves_none_refl: "moves_none qs qs"
  by (simp add: moves_none_def)

lemma moves_none_upd:
  assumes "moves_none (qs[k := q]) qs'" and "k < length qs" and "pq_frame q = pq_frame (qs ! k)" "pq_from q = pq_from (qs ! k)"
    and "- 1 \<le> pq_socket q" "pq_socket q < int CONFIG_MAX_OPEN_SOCKETS"
  shows "moves_none qs qs'"
  using assms unfolding moves_none_def by (auto simp: nth_list_update split: if_splits)

lemma find_recipient_range: "find_recipient f s = Some j \<Longrightarrow> j < CONFIG_MAX_OPEN_SOCKETS"
  by (auto simp: find_recipient_def find_Some_iff)

lemma service_scan_spec:
  assumes "\<forall>k\<in>set is. k < length (pop_queue s)"
    and "\<forall>k<length (pop_queue s). - 1 \<le> pq_socket (pop_queue s ! k) \<and> pq_socket (pop_queue s ! k) < int CONFIG_MAX_OPEN_SOCKETS"
  shows "\<exists>a qs. service_scan is s = (a, s\<lparr>pop_queue := qs\<rparr>) \<and> moves_none (pop_queue s) qs \<and> action_ok a (s\<lparr>pop_queue := qs\<rparr>)"
  using assms
proof (induction "is" arbitrary: s)
  case Nil
  then show ?case
    by (intro exI [of _ Pop_None] exI [of _ "pop_queue s"]) (simp add: moves_none_refl action_ok_def)
next
  case (Cons k "is")
  let ?q = "pop_queue s ! k"
  show ?case
  proof (cases "pq_frame ?q = 0")
    case True
    then show ?thesis
      using Cons by simp
  next
    case False
    define q where "q = (if pq_socket ?q = - 1 then (case find_recipient (pq_frame ?q) s of None \<Rightarrow> ?q | Some j \<Rightarrow> ?q\<lparr>pq_socket := int j\<rparr>) else ?q)"
    have k: "k < length (pop_queue s)"
      using Cons.prems(1) by simp
    have q: "pq_frame q = pq_frame ?q" "pq_from q = pq_from ?q" "- 1 \<le> pq_socket q" "pq_socket q < int CONFIG_MAX_OPEN_SOCKETS"
      using Cons.prems(2) [rule_format, OF k] find_recipient_range [of "pq_frame ?q" s]
      unfolding q_def by (auto split: option.splits)
    let ?s = "s\<lparr>pop_queue := (pop_queue s)[k := q]\<rparr>"
    have scan: "service_scan (k # is) s =
        (if pq_socket q = - 1 \<or> so_protocol (open_sockets s ! nat (pq_socket q)) \<noteq> PROTOCOL_POP then (Pop_Discard k (pq_frame ?q), ?s)
         else if so_rbuf (open_sockets s ! nat (pq_socket q)) \<noteq> 0
         then (Pop_Transfer k (pq_frame ?q), s\<lparr>pop_queue := (pop_queue s)[k := q\<lparr>pq_busy := True\<rparr>]\<rparr>)
         else service_scan is ?s)"
      using False by (simp add: Let_def set_slot_row_def q_def [symmetric])
    consider "pq_socket q = - 1 \<or> so_protocol (open_sockets s ! nat (pq_socket q)) \<noteq> PROTOCOL_POP"
      | "0 \<le> pq_socket q" "so_protocol (open_sockets s ! nat (pq_socket q)) = PROTOCOL_POP" "so_rbuf (open_sockets s ! nat (pq_socket q)) \<noteq> 0"
      | "0 \<le> pq_socket q" "so_protocol (open_sockets s ! nat (pq_socket q)) = PROTOCOL_POP" "so_rbuf (open_sockets s ! nat (pq_socket q)) = 0"
      using q(3) by force
    then show ?thesis
    proof cases
      case 1
      then show ?thesis
        using k q False moves_none_upd [OF moves_none_refl k q]
        unfolding scan by (intro exI) (auto simp: action_ok_def)
    next
      case 2
      then show ?thesis
        using k q False moves_none_upd [OF moves_none_refl k, of "q\<lparr>pq_busy := True\<rparr>"]
        unfolding scan by (intro exI) (auto simp: action_ok_def Let_def)
    next
      case 3
      have "\<exists>a qs. service_scan is ?s = (a, ?s\<lparr>pop_queue := qs\<rparr>) \<and> moves_none (pop_queue ?s) qs \<and> action_ok a (?s\<lparr>pop_queue := qs\<rparr>)"
        by (rule Cons.IH) (use Cons.prems q k in \<open>auto simp: nth_list_update\<close>)
      then obtain a qs where "service_scan is ?s = (a, s\<lparr>pop_queue := qs\<rparr>)" "moves_none ((pop_queue s)[k := q]) qs"
          "action_ok a (s\<lparr>pop_queue := qs\<rparr>)"
        by auto
      then show ?thesis
        using 3 moves_none_upd [OF _ k q] unfolding scan by auto
    qed
  qed
qed

lemma frames_ok_moves:
  assumes "frames_ok s" and "moves_none (pop_queue s) qs"
  shows "frames_ok (s\<lparr>pop_queue := qs\<rparr>) \<and> others (s\<lparr>pop_queue := qs\<rparr>) = others s"
proof -
  have m: "queued qs = queued (pop_queue s)"
    using assms(2) by (auto intro!: queued_same simp: moves_none_def)
  have "pq_frame (qs ! k) = pq_frame (pop_queue s ! k)" if "queued (pop_queue s) k = Some i" for k i
    using assms(2) that by (auto simp: moves_none_def queued_def split: if_splits)
  moreover have "\<forall>q\<in>set qs. - 1 \<le> pq_socket q \<and> pq_socket q < int CONFIG_MAX_OPEN_SOCKETS"
    using assms by (auto simp: frames_ok_def moves_none_def all_set_conv_all_nth)
  ultimately show ?thesis
    using assms by (simp add: frames_ok_def others_def m moves_none_def)
qed

lemma sockets_ok_received:
  assumes "sockets_ok sos" and "j < length sos" and "so_protocol (sos ! j) \<noteq> 0"
    and "so_protocol so = so_protocol (sos ! j)" "so_port so = so_port (sos ! j)" "so_receive_complete so \<noteq> None"
  shows "sockets_ok (sos[j := so]) \<and> bound (sos[j := so]) = bound sos"
proof -
  have b: "bound (sos[j := so]) = bound sos"
    using assms by (auto simp: bound_update) (auto simp: bound_def)
  then show ?thesis
    using assms(1,2,6) unfolding sockets_ok_def bound_ports_def b by (auto simp: nth_list_update split: if_splits)
qed

text \<open>The tables and locks that the service thread leaves alone.\<close>

definition same_tables :: "'d net \<Rightarrow> 'd net \<Rightarrow> bool" where
  "same_tables s s' \<longleftrightarrow> bound (open_sockets s') = bound (open_sockets s) \<and> open_sockets_sem s' = open_sockets_sem s \<and>
     pop_queue_sem s' = pop_queue_sem s \<and> network_interfaces s' = network_interfaces s \<and>
     pop_send_buffer s' = pop_send_buffer s \<and> pop_send_buffer_sem s' = pop_send_buffer_sem s \<and> net_sems s' = net_sems s"

lemma pop_service_act_wp:
  fixes s :: "'d net"
  assumes ok: "net_ok s" and a: "action_ok a s"
  shows "wp (pop_service_act a s) (\<lambda>s'. net_ok s' \<and> others s' = others s \<and> same_tables s s')"
proof (cases a)
  case Pop_None
  then show ?thesis
    using ok by (simp add: same_tables_def)
next
  case (Pop_Discard k f)
  let ?e = "(pop_queue s ! k)\<lparr>pq_frame := 0\<rparr>"
  have fo: "frames_ok s" and k: "k < length (pop_queue s)" "pq_frame (pop_queue s ! k) \<noteq> 0" "f = pq_frame (pop_queue s ! k)"
    using ok a by (auto simp: net_ok_def action_ok_def Pop_Discard)
  have e: "pq_frame ?e = 0" "- 1 \<le> pq_socket ?e" "pq_socket ?e < int CONFIG_MAX_OPEN_SOCKETS"
    using fo k(1) by (auto simp: frames_ok_def)
  obtain p where p: "network_free_frame f s = Some (s\<lparr>net_pool := p\<rparr>)" "\<forall>s'' :: 'd net.
      pop_queue s'' = (pop_queue s)[k := ?e] \<longrightarrow> net_pool s'' = p \<longrightarrow> frames_ok s'' \<and> others s'' = others s"
    using free_slot [OF fo k(1,2) e] k(3) unfolding wp_iff by metis
  let ?s' = "s\<lparr>net_pool := p, pop_queue := (pop_queue s)[k := ?e]\<rparr>"
  have "frames_ok ?s'" "others ?s' = others s"
    using p(2) [rule_format, of ?s'] by simp_all
  then show ?thesis
    using ok p(1) by (simp add: Pop_Discard set_slot_row_def net_ok_def same_tables_def)
next
  case (Pop_Transfer k f)
  let ?q = "pop_queue s ! k"
  define j where "j = nat (pq_socket ?q)"
  let ?so = "open_sockets s ! j"
  have fo: "frames_ok s" and so: "sockets_ok (open_sockets s)" and k: "k < length (pop_queue s)" "pq_frame ?q \<noteq> 0" "f = pq_frame ?q"
    and pr: "so_protocol ?so \<noteq> 0" and q0: "0 \<le> pq_socket ?q"
    using ok a by (auto simp: net_ok_def action_ok_def Pop_Transfer j_def Let_def PROTOCOL_POP_def)
  let ?e = "?q\<lparr>pq_frame := 0\<rparr>"
  have e: "pq_frame ?e = 0" "- 1 \<le> pq_socket ?e" "pq_socket ?e < int CONFIG_MAX_OPEN_SOCKETS"
    using fo k(1) by (auto simp: frames_ok_def)
  then have j: "j < length (open_sockets s)"
    using so q0 by (simp add: j_def sockets_ok_def nat_less_iff)
  obtain sem where sem: "so_receive_complete ?so = Some sem"
    using so pr j unfolding sockets_ok_def bound_def by (metis option.exhaust)
  define so' where "so' = ?so\<lparr>so_rbuf := 0, so_bufsize := 0, so_sender := 0, so_copied := 0, so_sport := 0,
      so_receive_complete := Some (sem_V sem)\<rparr>"
  have so': "sockets_ok ((open_sockets s)[j := so']) \<and> bound ((open_sockets s)[j := so']) = bound (open_sockets s)"
    by (rule sockets_ok_received [OF so j pr]) (simp_all add: so'_def)
  define m where "m = pop_deliver ?so ?q f (net_mem s)"
  let ?sm = "s\<lparr>net_mem := m\<rparr>"
  have fm: "frames_ok ?sm" "others ?sm = others s"
    using fo by (simp_all add: frames_ok_def others_def)
  obtain p where p: "network_free_frame f ?sm = Some (?sm\<lparr>net_pool := p\<rparr>)" "\<forall>s'' :: 'd net.
      pop_queue s'' = (pop_queue s)[k := ?e] \<longrightarrow> net_pool s'' = p \<longrightarrow> frames_ok s'' \<and> others s'' = others s"
    using free_slot [OF fm(1), of k ?e] k e unfolding wp_iff fm(2) by auto
  let ?s' = "?sm\<lparr>net_pool := p, open_sockets := (open_sockets s)[j := so'], pop_queue := (pop_queue s)[k := ?e]\<rparr>"
  have fin: "frames_ok ?s'" "others ?s' = others s"
    using p(2) [rule_format, of ?s'] by simp_all
  have "pop_service_act a s = Some ?s'"
    using p(1) sem by (simp add: Pop_Transfer Let_def j_def [symmetric] m_def [symmetric] so'_def set_slot_row_def set_socket_def)
  then show ?thesis
    using ok fin so' by (simp add: net_ok_def same_tables_def)
qed

lemma pop_service_round_wp:
  fixes s :: "'d net"
  assumes ok: "net_ok s"
  shows "wp (pop_service_round s) (\<lambda>(idle, s'). net_ok s' \<and> others s' = others s \<and> same_tables s s')"
proof -
  have fo: "frames_ok s" and locks: "0 < open_sockets_sem s" "0 < pop_queue_sem s" and len: "length (pop_queue s) = CONFIG_POP_QUEUE_SIZE"
    using ok by (simp_all add: net_ok_def frames_ok_def)
  let ?s = "s\<lparr>open_sockets_sem := open_sockets_sem s - 1, pop_queue_sem := pop_queue_sem s - 1\<rparr>"
  have "\<exists>a qs. service_scan [0..<CONFIG_POP_QUEUE_SIZE] ?s = (a, ?s\<lparr>pop_queue := qs\<rparr>) \<and> moves_none (pop_queue ?s) qs \<and>
      action_ok a (?s\<lparr>pop_queue := qs\<rparr>)"
    by (rule service_scan_spec) (use fo len in \<open>auto simp: frames_ok_def\<close>)
  then obtain a qs where scan: "service_scan [0..<CONFIG_POP_QUEUE_SIZE] ?s = (a, ?s\<lparr>pop_queue := qs\<rparr>)"
      "moves_none (pop_queue s) qs" "action_ok a (?s\<lparr>pop_queue := qs\<rparr>)"
    by auto
  let ?s1 = "s\<lparr>pop_queue := qs\<rparr>"
  have run: "pop_service_scan s = Some (a, ?s1)"
    using locks scan(1) by (simp add: pop_service_scan_def sockets_P_def sockets_V_def queue_P_def queue_V_def sem_P_def sem_V_def
        del: upt_rec_numeral)
  have ok1: "net_ok ?s1" "others ?s1 = others s" "action_ok a ?s1"
    using frames_ok_moves [OF fo scan(2)] ok scan(3) by (auto simp: net_ok_def action_ok_def split: pop_action.splits)
  show ?thesis
    using pop_service_act_wp [OF ok1(1,3)] ok1(2) run by (auto simp: pop_service_round_def same_tables_def wp_iff)
qed

text \<open>The page that a receiving thread has at the start of a round: none behind a frame that was taken.\<close>

definition in_hand :: "int \<Rightarrow> u32 \<Rightarrow> nat set" where
  "in_hand ret phys = (if ret = 0 then {unat phys div 4096} else {})"

definition receiver_ok :: "int \<Rightarrow> u32 \<Rightarrow> 'd net \<Rightarrow> bool" where
  "receiver_ok ret phys s \<longleftrightarrow> (ret = 0 \<longrightarrow> (\<exists>i\<in>others s. phys = page_addr i))"

lemma network_receive_round_wp:
  fixes s :: "'d net"
  assumes ok: "net_ok s" and G: "gnds_answer G" and gnd: "ni_gnd (network_interfaces s ! k) \<noteq> None"
    and room: "ret \<noteq> 0 \<longrightarrow> pool_free (net_pool s) \<noteq> {}" and hand: "receiver_ok ret phys s"
  shows "wp (network_receive_round G clk k (ret, phys, s)) (\<lambda>(ret', phys', s'). net_ok s' \<and> receiver_ok ret' phys' s' \<and>
    others s' - in_hand ret' phys' = others s - in_hand ret phys \<and> same_tables s s')"
proof -
  have fo: "frames_ok s"
    using ok by (simp add: net_ok_def)
  obtain g where g: "ni_gnd (network_interfaces s ! k) = Some g"
    using gnd by blast
  define step where "step = (if ret \<noteq> 0 then do {
      (phys, pool) \<leftarrow> pagepool_get_phys_page (net_pool s); guard (phys \<noteq> 0); Some (phys, s\<lparr>net_pool := pool\<rparr>) }
    else Some (phys, s))"
  have "\<exists>i pool. step = Some (page_addr i, s\<lparr>net_pool := pool\<rparr>) \<and> i < MAX_FRAMES \<and> frames_ok (s\<lparr>net_pool := pool\<rparr>) \<and>
      i \<in> others (s\<lparr>net_pool := pool\<rparr>) \<and> others (s\<lparr>net_pool := pool\<rparr>) - {i} = others s - in_hand ret phys"
  proof (cases "ret = 0")
    case True
    then obtain i where i: "i \<in> others s" "phys = page_addr i"
      using hand by (auto simp: receiver_ok_def)
    then have "i < MAX_FRAMES"
      using others_page [OF fo] by blast
    then show ?thesis
      using True i fo unat_page_addr [of i]
      by (intro exI [of _ i] exI [of _ "net_pool s"]) (simp add: step_def in_hand_def)
  next
    case False
    then obtain i p where i: "pagepool_get_phys_page (net_pool s) = Some (page_addr i, p)" "page_addr i \<noteq> 0" "i < MAX_FRAMES" "i \<notin> others s"
        "\<forall>s'' :: 'd net. pop_queue s'' = pop_queue s \<longrightarrow> net_pool s'' = p \<longrightarrow> frames_ok s'' \<and> others s'' = insert i (others s)"
      using take_page [OF fo] room by (elim disjE exE conjE) fast+
    show ?thesis
      using i(1-4) i(5) [rule_format, of "s\<lparr>net_pool := p\<rparr>"] False
      by (intro exI [of _ i] exI [of _ p]) (auto simp: step_def in_hand_def guard_def)
  qed
  then obtain i pool where i: "step = Some (page_addr i, s\<lparr>net_pool := pool\<rparr>)" "i < MAX_FRAMES" "frames_ok (s\<lparr>net_pool := pool\<rparr>)"
      "i \<in> others (s\<lparr>net_pool := pool\<rparr>)" "others (s\<lparr>net_pool := pool\<rparr>) - {i} = others s - in_hand ret phys"
    by blast
  obtain r m d where r: "gnd_recv (G g) (page_addr i) (net_mem s) (net_dev s) = Some (r, m, d)"
    using G unfolding gnds_answer_def by (metis option.exhaust surj_pair)
  let ?s1 = "s\<lparr>net_pool := pool, net_mem := m, net_dev := d\<rparr>"
  have s1: "frames_ok ?s1" "others ?s1 = others (s\<lparr>net_pool := pool\<rparr>)" "0 < pop_queue_sem ?s1"
    using i(3) ok by (simp_all add: frames_ok_def others_def net_ok_def)
  have hand_i: "in_hand 0 (page_addr i) = {i}"
    using i(2) by (simp add: in_hand_def unat_page_addr)
  have run: "network_receive_round G clk k (ret, phys, s) =
      (if r = 0 then do { (ret, s) \<leftarrow> network_receive_frame clk (ADDR_PHYS_TO_KERNEL (page_addr i)) ?s1; Some (ret, page_addr i, s) }
       else Some (0, page_addr i, ?s1))"
    using g i(1) r by (simp add: network_receive_round_def step_def [symmetric])
  show ?thesis
  proof (cases "r = 0")
    case True
    have "i \<in> others ?s1"
      using i(4) s1(2) by simp
    from network_receive_frame_wp [OF s1(1,3) this, of clk] obtain ret' s' where
      rec: "network_receive_frame clk (ADDR_PHYS_TO_KERNEL (page_addr i)) ?s1 = Some (ret', s')" "same_net ?s1 s'" "frames_ok s'"
        "if ret' = 0 then s' = ?s1 else others s' = others ?s1 - {i}"
      by (auto simp: wp_iff)
    have "net_ok s'" "same_tables s s'"
      using rec(2,3) ok by (simp_all add: net_ok_def same_net_def same_tables_def)
    moreover have "receiver_ok ret' (page_addr i) s' \<and> others s' - in_hand ret' (page_addr i) = others s - in_hand ret phys"
      using rec(4) i(4,5) s1(2) hand_i by (cases "ret' = 0") (auto simp: receiver_ok_def in_hand_def)
    ultimately show ?thesis
      using run rec(1) True by simp
  next
    case False
    then show ?thesis
      using run i(4,5) s1(1,2) ok hand_i by (auto simp: receiver_ok_def net_ok_def same_tables_def)
  qed
qed

section \<open>Contracts\<close>


text \<open>C28. What the queue does with a frame of the page \<open>i\<close>: with an empty slot, the first one gets it; else the
  oldest slot that is not busy is replaced, and its page becomes free, when it has been there for
  \<open>CONFIG_POP_QUEUE_MIN_AGE\<close> milliseconds; else, and when all slots are busy, the
  frame is refused, nothing changes and the caller keeps the page.\<close>

theorem pop_push_policy:
  assumes "net_ok s" and "i \<in> others s" and "q = new_slot msec' fromaddr (frame_at i)"
  shows "wp (pop_push_frame (msec, msec') fromaddr toaddr (ucast PROTOCOL_POP) (frame_at i) s) (\<lambda>(r, s').
    \<exists>a. oldest_slot (pop_queue s) CONFIG_POP_QUEUE_SIZE a \<and> frames_ok s' \<and>
      (if first_empty (pop_queue s) CONFIG_POP_QUEUE_SIZE \<noteq> - 1
       then r = 1 \<and> s' = pushed q (first_empty (pop_queue s) CONFIG_POP_QUEUE_SIZE) s \<and> others s' = others s - {i}
       else if a = - 1 \<or> msec - pq_timestamp (pop_queue s ! nat a) < CONFIG_POP_QUEUE_MIN_AGE then r = 0 \<and> s' = s
       else r = 1 \<and> (\<exists>p. s' = (pushed q a s)\<lparr>net_pool := p\<rparr>) \<and> others s' = others s - {i}))"
  using pop_push_frame_wp [OF _ _ assms(2,3)] assms(1) by (simp add: net_ok_def)

section \<open>Witnesses\<close>

definition demo_gnd :: "nat \<Rightarrow> unit gnd" where
  "demo_gnd g = \<lparr>gnd_send = (\<lambda>_ _ _ d. Some (0, d)), gnd_recv = (\<lambda>_ m d. Some (0, m, d)), gnd_frame_size = 4096, gnd_hwaddr = 7\<rparr>"

text \<open>The same with page 3 in use.\<close>

definition demo_taken :: "unit net" where
  "demo_taken = demo_net\<lparr>net_pool := demo_pool\<lparr>pp_free_pages := bm_set (pp_free_pages demo_pool) 3 True,
     pp_num_free_pages := pp_num_free_pages demo_pool - 1\<rparr>\<rparr>"

lemma demo_net_fields: "queued (pop_queue demo_net) = Map.empty" "length (pop_queue demo_net) = 32"
    "net_pool demo_net = demo_pool" "0 < pop_queue_sem demo_net" "0 < open_sockets_sem demo_net"
    "\<forall>q\<in>set (pop_queue demo_net). - 1 \<le> pq_socket q \<and> pq_socket q < 64"
    "first_empty (pop_queue demo_net) CONFIG_POP_QUEUE_SIZE = 0"
proof -
  have "pop_queue demo_net ! 0 = \<lparr>pq_frame = 0, pq_socket = - 1, pq_timestamp = 0, pq_from = 0, pq_busy = False\<rparr>"
    by (simp add: demo_net_def)
  moreover have "[0..<CONFIG_POP_QUEUE_SIZE] = 0 # [1..<CONFIG_POP_QUEUE_SIZE]"
    by (simp add: upt_rec del: upt_rec_numeral)
  ultimately show "first_empty (pop_queue demo_net) CONFIG_POP_QUEUE_SIZE = 0"
    by (simp add: first_empty_def del: upt_rec_numeral)
  show "queued (pop_queue demo_net) = Map.empty"
    by (auto simp: queued_def demo_net_def fun_eq_iff)
qed (auto simp: demo_net_def)

lemma demo_net_ok: "net_ok demo_net" "others demo_net = {}"
  using demo_net_fields demo_pool_ok demo_sockets(1)
  by (simp_all add: net_ok_def frames_ok_def others_def)

lemma demo_taken_ok: "net_ok demo_taken" "others demo_taken = {3}"
proof -
  note p = pagepool_get_some [OF demo_pool_ok(1), of 3, unfolded demo_pool_ok]
  have "net_pool demo_taken = demo_pool\<lparr>pp_free_pages := bm_set (pp_free_pages demo_pool) 3 True,
      pp_num_free_pages := pp_num_free_pages demo_pool - 1\<rparr>" "pop_queue demo_taken = pop_queue demo_net"
      "open_sockets demo_taken = open_sockets demo_net" "pop_queue_sem demo_taken = pop_queue_sem demo_net"
      "open_sockets_sem demo_taken = open_sockets_sem demo_net"
    by (simp_all add: demo_taken_def)
  note f = this
  show "net_ok demo_taken"
    using f demo_net_fields demo_sockets(1) p(2) by (simp add: net_ok_def frames_ok_def)
  show "others demo_taken = {3}"
    using f(1,2) demo_net_fields p(3,4) by (auto simp: others_def)
qed


theorem pop_push_policy_witness:
  "wp (pop_push_frame (500, 500) 7 9 (ucast PROTOCOL_POP) (frame_at 3) demo_taken)
    (\<lambda>(r, s'). r = 1 \<and> s' = pushed (new_slot 500 7 (frame_at 3)) 0 demo_taken)"
proof -
  have "3 \<in> others demo_taken"
    by (simp add: demo_taken_ok(2))
  moreover have "pop_queue demo_taken = pop_queue demo_net"
    by (simp add: demo_taken_def)
  ultimately show ?thesis
    using pop_push_policy [OF demo_taken_ok(1) _ refl, of 3 500 500 7 9]
    by (auto simp: demo_net_fields(7) elim!: wp_mono)
qed

end
