(* ===== verification/Network_Delivery.thy ===== *)
theory Network_Delivery
  imports Network_Frames
begin

text \<open>
  A datagram from one socket to another: what is sent to the loopback address is what the receiver's
  buffer holds, with the sender's address, port and the length.
\<close>

section \<open>Kernel memory\<close>

definition kreg :: "u32 \<Rightarrow> nat \<Rightarrow> u32 set" where
  "kreg a n = (\<lambda>i. a + of_nat i) ` {..<n}"

lemma kregI: "i < n \<Longrightarrow> a + of_nat i \<in> kreg a n"
  by (simp add: kreg_def)

lemma kreg_mono: "m \<le> n \<Longrightarrow> kreg a m \<subseteq> kreg a n"
  by (auto simp: kreg_def)

lemma kreg_split: "kreg (a + of_nat m) n \<subseteq> kreg a (m + n)"
proof
  fix x assume "x \<in> kreg (a + of_nat m) n"
  then obtain i where "i < n" "x = a + of_nat (m + i)"
    by (auto simp: kreg_def add.assoc)
  then show "x \<in> kreg a (m + n)"
    by (metis kregI nat_add_left_cancel_less)
qed

lemma kreg_4: "kreg a 4 = {a, a + 1, a + 2, a + 3}"
  by (auto simp: kreg_def lessThan_nat_numeral lessThan_Suc numeral_eq_Suc)

lemma kreg_2: "kreg a 2 = {a, a + 1}"
  by (auto simp: kreg_def lessThan_nat_numeral lessThan_Suc numeral_eq_Suc)

text \<open>A copy between regions that are apart.\<close>

lemma kmemcopy_apart:
  assumes "kreg t (nat n) \<inter> kreg s (nat n) = {}" and "n < 2 ^ 32"
  shows "i < nat n \<Longrightarrow> kmemcopy n t s m (t + of_nat i) = m (s + of_nat i)"
    and "a \<notin> kreg t (nat n) \<Longrightarrow> kmemcopy n t s m a = m a"
proof -
  define F where "F k = fold (\<lambda>i m. m(t + of_nat i := m (s + of_nat i))) [0..<k] m" for k
  have F_Suc: "F (Suc k) = (F k)(t + of_nat k := F k (s + of_nat k))" for k
    by (simp add: F_def)
  have *: "(\<forall>i<k. F k (t + of_nat i) = m (s + of_nat i)) \<and> (\<forall>a. a \<notin> kreg t k \<longrightarrow> F k a = m a)" if "k \<le> nat n" for k
    using that
  proof (induction k)
    case (Suc k)
    then have IH: "i < k \<Longrightarrow> F k (t + of_nat i) = m (s + of_nat i)" "a \<notin> kreg t k \<Longrightarrow> F k a = m a" for i a
      by simp_all
    have "s + of_nat k \<in> kreg s (nat n)"
      using Suc.prems by (intro kregI) simp
    then have src: "F k (s + of_nat k) = m (s + of_nat k)"
      using assms(1) kreg_mono [of k "nat n" t] Suc.prems by (intro IH(2)) auto
    have inj: "(of_nat i :: u32) \<noteq> of_nat k" if "i < k" for i
    proof -
      have "unat (of_nat i :: u32) = i" "unat (of_nat k :: u32) = k"
        using that Suc.prems assms(2) by (intro of_nat_inverse [OF refl]; simp)+
      then show ?thesis
        using that by (metis less_irrefl)
    qed
    have "kreg t (Suc k) = insert (t + of_nat k) (kreg t k)"
      by (auto simp: kreg_def lessThan_Suc)
    then show ?case
      unfolding F_Suc src using IH inj by (auto simp: less_Suc_eq)
  qed (simp add: kreg_def F_def)
  from * [of "nat n"] show "i < nat n \<Longrightarrow> kmemcopy n t s m (t + of_nat i) = m (s + of_nat i)"
      "a \<notin> kreg t (nat n) \<Longrightarrow> kmemcopy n t s m a = m a"
    by (simp_all add: kmemcopy_def F_def)
qed

lemma kput32_other: "b \<notin> kreg a 4 \<Longrightarrow> kput32 a w m b = m b"
  by (simp add: kput32_def kreg_4)

lemma kput16_other: "b \<notin> kreg a 2 \<Longrightarrow> kput16 a w m b = m b"
  by (simp add: kput16_def kreg_2)

lemma kget32_kput32 [simp]: "kget32 (kput32 a w m) a = w"
  by (simp add: kget32_def kput32_def)

lemma kget16_kput16 [simp]: "kget16 (kput16 a w m) a = w"
  by (auto intro!: bit_word_eqI simp: kget16_def kput16_def bit_simps)

lemma kget32_cong: "(\<And>b. b \<in> kreg a 4 \<Longrightarrow> m b = m' b) \<Longrightarrow> kget32 m a = kget32 m' a"
  by (simp add: kget32_def kreg_4)

lemma kget16_cong: "(\<And>b. b \<in> kreg a 2 \<Longrightarrow> m b = m' b) \<Longrightarrow> kget16 m a = kget16 m' a"
  by (simp add: kget16_def kreg_2)

lemma offset_eq: "j < 2 ^ 32 \<Longrightarrow> k < 2 ^ 32 \<Longrightarrow> (a + of_nat j :: u32) = a + of_nat k \<longleftrightarrow> j = k"
proof -
  assume "j < 2 ^ 32" and "k < 2 ^ 32"
  then have "unat (of_nat j :: u32) = j" "unat (of_nat k :: u32) = k"
    by (intro of_nat_inverse [OF refl]; simp)+
  then show ?thesis
    by (metis add_left_cancel)
qed

lemma kreg_offset: "x \<in> kreg (a + of_nat l) n \<longleftrightarrow> (\<exists>i<n. x = a + of_nat (l + i))"
  by (auto simp: kreg_def add.assoc)

lemma kreg_apart:
  assumes "j + m \<le> l \<or> l + n \<le> j" and "j + m \<le> 2 ^ 32" and "l + n \<le> 2 ^ 32"
  shows "kreg (a + of_nat j) m \<inter> kreg (a + of_nat l) n = {}"
proof -
  have "a + of_nat (j + i) \<noteq> a + of_nat (l + k)" if "i < m" "k < n" for i k
  proof -
    have "j + i \<noteq> l + k" "j + i < 2 ^ 32" "l + k < 2 ^ 32"
      using that assms by linarith+
    then show ?thesis
      using offset_eq by blast
  qed
  then show ?thesis
    unfolding disjoint_iff kreg_offset by metis
qed

lemmas kreg_offsets = kreg_apart [where j = 0, unfolded of_nat_0 add_0_right add_0] kreg_apart [where l = 0, unfolded of_nat_0 add_0_right add_0]

lemma kget32_put:
  "kreg a 4 \<inter> kreg b 4 = {} \<Longrightarrow> kget32 (kput32 b w m) a = kget32 m a"
  "kreg a 4 \<inter> kreg b 2 = {} \<Longrightarrow> kget32 (kput16 b v m) a = kget32 m a"
  "kreg a 4 \<inter> kreg b (nat n) = {} \<Longrightarrow> kreg b (nat n) \<inter> kreg c (nat n) = {} \<Longrightarrow> n < 2 ^ 32 \<Longrightarrow>
    kget32 (kmemcopy n b c m) a = kget32 m a"
  by (intro kget32_cong kput32_other kput16_other kmemcopy_apart(2); blast)+

lemma kget16_put:
  "kreg a 2 \<inter> kreg b 4 = {} \<Longrightarrow> kget16 (kput32 b w m) a = kget16 m a"
  "kreg a 2 \<inter> kreg b 2 = {} \<Longrightarrow> kget16 (kput16 b v m) a = kget16 m a"
  "kreg a 2 \<inter> kreg b (nat n) = {} \<Longrightarrow> kreg b (nat n) \<inter> kreg c (nat n) = {} \<Longrightarrow> n < 2 ^ 32 \<Longrightarrow>
    kget16 (kmemcopy n b c m) a = kget16 m a"
  by (intro kget16_cong kput32_other kput16_other kmemcopy_apart(2); blast)+

section \<open>Packets\<close>

text \<open>The packet of POP at \<open>a\<close>: ports, size and payload.\<close>

definition packet :: "kmemory \<Rightarrow> u32 \<Rightarrow> u16 \<Rightarrow> u16 \<Rightarrow> nat \<Rightarrow> (nat \<Rightarrow> u8) \<Rightarrow> bool" where
  "packet m a sp dp n g \<longleftrightarrow> kget16 m a = sp \<and> kget16 m (a + 2) = dp \<and> kget32 m (a + 4) = of_nat n \<and>
     (\<forall>k<n. m (a + 8 + of_nat k) = g k)"

lemma packet_move:
  assumes "packet m a sp dp n g" and same: "\<And>k. k < 8 + n \<Longrightarrow> m' (a' + of_nat k) = m (a + of_nat k)"
  shows "packet m' a' sp dp n g"
proof -
  have b: "m' a' = m a" "m' (a' + 1) = m (a + 1)" "m' (a' + 2) = m (a + 2)" "m' (a' + 3) = m (a + 3)"
      "m' (a' + 4) = m (a + 4)" "m' (a' + 5) = m (a + 5)" "m' (a' + 6) = m (a + 6)" "m' (a' + 7) = m (a + 7)"
    using same [of 0] same [of 1] same [of 2] same [of 3] same [of 4] same [of 5] same [of 6] same [of 7] by simp_all
  have "m' (a' + 8 + of_nat k) = m (a + 8 + of_nat k)" if "k < n" for k
    using same [of "8 + k"] that by (simp add: add.assoc)
  with assms(1) b show ?thesis
    by (simp add: packet_def kget16_def kget32_def add.assoc)
qed

lemma packet_cong: "packet m a sp dp n g \<Longrightarrow> (\<And>b. b \<in> kreg a (8 + n) \<Longrightarrow> m' b = m b) \<Longrightarrow> packet m' a sp dp n g"
  by (erule packet_move) (simp add: kregI)

text \<open>The packet that \<open>socket_sendto\<close> makes in the send buffer.\<close>

lemma packet_made:
  assumes "n \<le> 4088" and apart: "kreg hdr 4096 \<inter> kreg buf n = {}"
    and made: "m' = kmemcopy (int n) (hdr + 8) buf (kput32 (hdr + 4) (of_nat n) (kput16 (hdr + 2) dp (kput16 hdr sp m)))"
  shows "packet m' hdr sp dp n (\<lambda>k. m (buf + of_nat k))" and "b \<notin> kreg hdr 4096 \<Longrightarrow> m' b = m b"
  unfolding made
proof -
  let ?m = "kmemcopy (int n) (hdr + 8) buf (kput32 (hdr + 4) (of_nat n) (kput16 (hdr + 2) dp (kput16 hdr sp m)))"
  have k8: "kreg (hdr + 8) n \<subseteq> kreg hdr 4096" "kreg (hdr + 4) 4 \<subseteq> kreg hdr 4096" "kreg (hdr + 2) 2 \<subseteq> kreg hdr 4096" "kreg hdr 2 \<subseteq> kreg hdr 4096"
    using kreg_split [of hdr 8 n] kreg_split [of hdr 4 4] kreg_split [of hdr 2 2] kreg_mono [of "8 + n" 4096 hdr]
      kreg_mono [of 8 4096 hdr] kreg_mono [of 4 4096 hdr] kreg_mono [of 2 4096 hdr] assms(1) by auto
  then have src: "kreg (hdr + 8) n \<inter> kreg buf n = {}"
    using apart by blast
  note off = kreg_offsets [of _ 8 n hdr] kreg_apart [of 2 _ 8 n hdr] kreg_apart [of 4 _ 8 n hdr] kreg_offsets [of _ 2 2 hdr]
    kreg_offsets [of _ 4 4 hdr] kreg_apart [of 2 _ 4 4 hdr] kreg_apart [of 4 4 2 2 hdr]
  note copy = kmemcopy_apart [where t = "hdr + 8" and s = buf and n = "int n", unfolded nat_int, OF src]
  have low: "b \<notin> kreg buf n" if "b \<in> kreg hdr 4096" for b
    using that apart by blast
  have "kget16 ?m hdr = sp"
    using assms(1) src off by (simp add: kget16_put)
  moreover have "kget16 ?m (hdr + 2) = dp"
    using assms(1) src off by (simp add: kget16_put)
  moreover have "kget32 ?m (hdr + 4) = of_nat n"
    using assms(1) src off by (simp add: kget32_put)
  moreover have "?m (hdr + 8 + of_nat k) = m (buf + of_nat k)" if "k < n" for k
  proof -
    have "buf + of_nat k \<notin> kreg hdr 4096"
      using apart kregI [OF that, of buf] by blast
    then have "buf + of_nat k \<notin> kreg (hdr + 4) 4" "buf + of_nat k \<notin> kreg (hdr + 2) 2" "buf + of_nat k \<notin> kreg hdr 2"
      using k8 by blast+
    then show ?thesis
      using copy(1) that assms(1) by (simp add: kput32_other kput16_other)
  qed
  ultimately show "packet ?m hdr sp dp n (\<lambda>k. m (buf + of_nat k))"
    by (simp add: packet_def)
  assume "b \<notin> kreg hdr 4096"
  then have "b \<notin> kreg (hdr + 8) n" "b \<notin> kreg (hdr + 4) 4" "b \<notin> kreg (hdr + 2) 2" "b \<notin> kreg hdr 2"
    using k8 by blast+
  then show "?m b = m b"
    using copy(2) assms(1) by (simp add: kput32_other kput16_other)
qed

lemma kreg_in_page: "l + n \<le> 4096 \<Longrightarrow> kreg (a + of_nat l) n \<subseteq> kreg a 4096"
  using kreg_split [of a l n] kreg_mono [of "l + n" 4096 a] by blast

text \<open>The frame that \<open>network_send\<close> makes of it.\<close>

lemma frame_made:
  assumes "n \<le> 4076" and packet: "packet m hdr sp dp n g" and apart: "kreg frame 4096 \<inter> kreg hdr 4096 = {}"
    and made: "m' = build_frame frame src dst proto (int (8 + n)) hdr m"
  shows "kget32 m' (frame + 4) = src" and "kget32 m' (frame + 8) = proto" and "kget32 m' frame = dst"
    and "packet m' (frame + 12) sp dp n g" and "b \<notin> kreg frame 4096 \<Longrightarrow> m' b = m b"
proof -
  have body: "kreg (frame + 12) (8 + n) \<subseteq> kreg frame 4096" and header: "kreg (frame + 8) 4 \<subseteq> kreg frame 4096"
      "kreg (frame + 4) 4 \<subseteq> kreg frame 4096" "kreg frame 4 \<subseteq> kreg frame 4096"
    using kreg_in_page [of 12 "8 + n" frame] kreg_in_page [of 8 4 frame] kreg_in_page [of 4 4 frame] kreg_mono [of 4 4096 frame] assms(1)
    by simp_all
  have from_hdr: "kreg hdr (8 + n) \<subseteq> kreg hdr 4096"
    using assms(1) by (intro kreg_mono) simp
  have src: "kreg (frame + 12) (8 + n) \<inter> kreg hdr (8 + n) = {}"
    using body from_hdr apart by blast
  have m': "m' = kmemcopy (int (8 + n)) (frame + 12) hdr (kput32 (frame + 8) proto (kput32 frame dst (kput32 (frame + 4) src m)))"
    by (simp add: made build_frame_def)
  note copy = kmemcopy_apart [where t = "frame + 12" and s = hdr and n = "int (8 + n)", unfolded nat_int, OF src]
  note off = kreg_offsets [of _ 12 "8 + n" frame] kreg_apart [of 4 _ 12 "8 + n" frame] kreg_apart [of 8 _ 12 "8 + n" frame]
    kreg_apart [of 4 4 8 4 frame] kreg_offsets [of _ 8 4 frame] kreg_offsets [of _ 4 4 frame] kreg_offsets(2) [of 4 4 _ frame]
    kreg_offsets(2) [of 8 4 _ frame]
  have apart4: "kreg frame 4 \<inter> kreg (frame + 12) (8 + n) = {}" "kreg (frame + 4) 4 \<inter> kreg (frame + 12) (8 + n) = {}"
      "kreg (frame + 8) 4 \<inter> kreg (frame + 12) (8 + n) = {}" "kreg (frame + 4) 4 \<inter> kreg (frame + 8) 4 = {}"
      "kreg frame 4 \<inter> kreg (frame + 8) 4 = {}" "kreg frame 4 \<inter> kreg (frame + 4) 4 = {}" "kreg (frame + 4) 4 \<inter> kreg frame 4 = {}"
    using kreg_apart [of 0 4 12 "8 + n" frame] kreg_apart [of 4 4 12 "8 + n" frame] kreg_apart [of 8 4 12 "8 + n" frame]
      kreg_apart [of 4 4 8 4 frame] kreg_apart [of 0 4 8 4 frame] kreg_apart [of 0 4 4 4 frame] kreg_apart [of 4 4 0 4 frame] assms(1)
    by simp_all
  have get: "kget32 m' a = kget32 (kput32 (frame + 8) proto (kput32 frame dst (kput32 (frame + 4) src m))) a"
    if "kreg a 4 \<inter> kreg (frame + 12) (8 + n) = {}" for a
    unfolding m' by (rule kget32_put(3)) (use that src assms(1) in \<open>simp_all del: of_nat_add\<close>)
  show "kget32 m' (frame + 4) = src" "kget32 m' (frame + 8) = proto" "kget32 m' frame = dst"
    using apart4 by (simp_all add: get kget32_put)
  have "m' ((frame + 12) + of_nat k) = m (hdr + of_nat k)" if "k < 8 + n" for k
  proof -
    have "hdr + of_nat k \<notin> kreg frame 4096"
      using kregI [OF that, of hdr] from_hdr apart by blast
    then have "hdr + of_nat k \<notin> kreg (frame + 8) 4" "hdr + of_nat k \<notin> kreg (frame + 4) 4" "hdr + of_nat k \<notin> kreg frame 4"
      using header by blast+
    then show ?thesis
      using copy(1) that assms(1) by (simp add: m' kput32_other del: of_nat_add)
  qed
  then show "packet m' (frame + 12) sp dp n g"
    by (rule packet_move [OF packet])
  assume "b \<notin> kreg frame 4096"
  then have "b \<notin> kreg (frame + 12) (8 + n)" "b \<notin> kreg (frame + 8) 4" "b \<notin> kreg (frame + 4) 4" "b \<notin> kreg frame 4"
    using body header by blast+
  then show "m' b = m b"
    using copy(2) assms(1) by (simp add: m' kput32_other del: of_nat_add)
qed

text \<open>The copy of \<open>pop_service_thread\<close> to the receiver.\<close>

lemma delivered:
  assumes packet: "packet m f sp dp n g" and n: "n < 2 ^ 31" "so_bufsize so < 2 ^ 31"
    and l: "l = min n (unat (so_bufsize so))"
    and apart: "kreg f (8 + n) \<inter> (kreg (so_rbuf so) l \<union> kreg (so_sender so) 4 \<union> kreg (so_copied so) 4 \<union> kreg (so_sport so) 2) = {}"
      "kreg (so_rbuf so) l \<inter> (kreg (so_sender so) 4 \<union> kreg (so_copied so) 4 \<union> kreg (so_sport so) 2) = {}"
      "kreg (so_sender so) 4 \<inter> (kreg (so_copied so) 4 \<union> kreg (so_sport so) 2) = {}" "kreg (so_copied so) 4 \<inter> kreg (so_sport so) 2 = {}"
    and m': "m' = pop_deliver so q f m"
  shows "kget32 m' (so_sender so) = pq_from q" and "kget32 m' (so_copied so) = of_nat l" and "kget16 m' (so_sport so) = sp"
    and "k < l \<Longrightarrow> m' (so_rbuf so + of_nat k) = g k"
proof -
  have "unat (of_nat n :: u32) = n"
    using n(1) by (intro of_nat_inverse [OF refl]) simp
  then have min: "unat (min (of_nat n) (so_bufsize so)) = l"
    by (simp add: l min_def word_le_nat_alt)
  have l31: "l < 2 ^ 31" "l \<le> n"
    using n(1) by (simp_all add: l)
  have bytes: "sint (min (kget32 m (f + 4)) (so_bufsize so)) = int l"
    using packet l31 by (subst sint_small) (simp_all add: packet_def min)
  have pay: "kreg (f + 8) l \<subseteq> kreg f (8 + n)"
    using kreg_split [of f 8 l] kreg_mono [of "8 + l" "8 + n" f] l31 by auto
  have f2: "kreg f 2 \<subseteq> kreg f (8 + n)"
    by (intro kreg_mono) simp
  have src: "kreg (so_rbuf so) l \<inter> kreg (f + 8) l = {}"
    using pay apart(1) by blast
  note copy = kmemcopy_apart [where t = "so_rbuf so" and s = "f + 8" and n = "int l", unfolded nat_int, OF src]
  let ?m1 = "kmemcopy (int l) (so_rbuf so) (f + 8) m"
  let ?m2 = "kput32 (so_copied so) (of_nat l) (kput32 (so_sender so) (pq_from q) ?m1)"
  have m'': "m' = kput16 (so_sport so) (kget16 ?m2 f) ?m2"
    by (simp add: m' pop_deliver_def bytes Let_def)
  have d: "kreg (so_sender so) 4 \<inter> kreg (so_sport so) 2 = {}" "kreg (so_copied so) 4 \<inter> kreg (so_sport so) 2 = {}"
      "kreg (so_sender so) 4 \<inter> kreg (so_copied so) 4 = {}"
    using apart(3,4) by blast+
  show "kget32 m' (so_sender so) = pq_from q" "kget32 m' (so_copied so) = of_nat l"
    unfolding m'' using d by (simp_all add: kget32_put)
  have e: "kreg f 2 \<inter> kreg (so_copied so) 4 = {}" "kreg f 2 \<inter> kreg (so_sender so) 4 = {}" "kreg f 2 \<inter> kreg (so_rbuf so) l = {}"
    using f2 apart(1) by blast+
  have "kget16 ?m1 f = kget16 m f"
    by (rule kget16_put(3)) (use e(3) src l31 in simp_all)
  then have "kget16 ?m2 f = sp"
    using e packet by (simp add: kget16_put packet_def)
  then show "kget16 m' (so_sport so) = sp"
    unfolding m'' by simp
  assume k: "k < l"
  then have "so_rbuf so + of_nat k \<notin> kreg (so_sport so) 2" "so_rbuf so + of_nat k \<notin> kreg (so_copied so) 4"
      "so_rbuf so + of_nat k \<notin> kreg (so_sender so) 4"
    using kregI [OF k, of "so_rbuf so"] apart(2) by blast+
  then show "m' (so_rbuf so + of_nat k) = g k"
    using copy(1) [of k] k l31 packet unfolding m'' by (simp add: kput16_other kput32_other packet_def)
qed

section \<open>From socket to socket\<close>

abbreviation (input) page_area :: "nat \<Rightarrow> u32 set" where
  "page_area i \<equiv> kreg (ADDR_PHYS_TO_KERNEL (page_addr i)) 4096"

lemma network_send_loopback:
  fixes s :: "'d net"
  assumes ok: "net_ok s" and empty: "pq_frame (pop_queue s ! 0) = 0" and room: "pool_free (net_pool s) \<noteq> {}"
    and n: "n \<le> 4076" and packet: "packet (net_mem s) hdr sp dp n g"
    and apart: "\<forall>i\<in>pool_free (net_pool s). page_area i \<inter> kreg hdr 4096 = {}"
  shows "\<exists>i m p. i \<in> pool_free (net_pool s) \<and> i < MAX_FRAMES \<and>
    network_send G (msec, msec') NETWORK_BROADCAST_ADDRESS NETWORK_LOOPBACK_ADDRESS (ucast PROTOCOL_POP) (int n + 8) hdr s =
      Some (NET_OK, (pushed (new_slot msec' NETWORK_LOOPBACK_ADDRESS (frame_at i)) 0 s)\<lparr>net_pool := p, net_mem := m\<rparr>) \<and>
    frames_ok ((pushed (new_slot msec' NETWORK_LOOPBACK_ADDRESS (frame_at i)) 0 s)\<lparr>net_pool := p, net_mem := m\<rparr>) \<and>
    others ((pushed (new_slot msec' NETWORK_LOOPBACK_ADDRESS (frame_at i)) 0 s)\<lparr>net_pool := p, net_mem := m\<rparr>) = others s \<and>
    packet m (frame_at i) sp dp n g \<and> (\<forall>b. b \<notin> page_area i \<longrightarrow> m b = net_mem s b)"
proof -
  have fo: "frames_ok s" and lock: "0 < pop_queue_sem s" and len: "length (pop_queue s) = CONFIG_POP_QUEUE_SIZE"
    using ok by (simp_all add: net_ok_def frames_ok_def)
  obtain i p where i: "pagepool_get_phys_page (net_pool s) = Some (page_addr i, p)" "page_addr i \<noteq> 0" "i < MAX_FRAMES"
      "i \<in> pool_free (net_pool s)" "i \<notin> others s"
      "\<forall>s'' :: 'd net. pop_queue s'' = pop_queue s \<longrightarrow> net_pool s'' = p \<longrightarrow> frames_ok s'' \<and> others s'' = insert i (others s)"
    using take_page [OF fo] room by (elim disjE exE conjE) fast+
  let ?frame = "ADDR_PHYS_TO_KERNEL (page_addr i)"
  define m where "m = build_frame ?frame NETWORK_BROADCAST_ADDRESS NETWORK_LOOPBACK_ADDRESS (ucast PROTOCOL_POP) (int (8 + n)) hdr (net_mem s)"
  define m' where "m' = kput32 (?frame + 4) NETWORK_LOOPBACK_ADDRESS m"
  have "page_area i \<inter> kreg hdr 4096 = {}"
    using apart i(4) by blast
  note made = frame_made [OF n packet this m_def]
  let ?s1 = "s\<lparr>net_pool := p, net_mem := m'\<rparr>" and ?q = "new_slot msec' NETWORK_LOOPBACK_ADDRESS (frame_at i)"
  have s1: "frames_ok ?s1" "others ?s1 = insert i (others s)"
    using i(6) [rule_format, of ?s1] by simp_all
  have "kreg (?frame + 4) 4 \<inter> kreg (?frame + 8) 4 = {}" "kreg (?frame + 4) 4 \<inter> kreg (?frame + 12) (8 + n) = {}"
    using kreg_apart [of 4 4 8 4 ?frame] kreg_apart [of 4 4 12 "8 + n" ?frame] n by simp_all
  then have ap: "kreg (?frame + 8) 4 \<inter> kreg (?frame + 4) 4 = {}" "b \<in> kreg (?frame + 12) (8 + n) \<Longrightarrow> b \<notin> kreg (?frame + 4) 4" for b
    by blast+
  have hd: "kget32 m' (?frame + 4) = NETWORK_LOOPBACK_ADDRESS" "kget32 m' (?frame + 8) = ucast PROTOCOL_POP"
    using made(2) ap(1) by (simp_all add: m'_def kget32_put)
  have hd3: "packet m' (frame_at i) sp dp n g"
    unfolding frame_at_def by (rule packet_cong [OF made(4)]) (simp add: m'_def kput32_other ap(2))
  have rest: "m' b = net_mem s b" if "b \<notin> page_area i" for b
  proof -
    have "b \<notin> kreg (?frame + 4) 4"
      using that kreg_in_page [of 4 4 ?frame] by auto
    then show ?thesis
      using made(5) [OF that] by (simp add: m'_def kput32_other)
  qed
  have free: "first_empty (pop_queue s) CONFIG_POP_QUEUE_SIZE = 0"
    using first_empty [of "pop_queue s" CONFIG_POP_QUEUE_SIZE] empty by force
  have "i \<in> others ?s1" "0 < pop_queue_sem ?s1"
    using s1(2) lock by simp_all
  note push = pop_push_frame_wp [OF s1(1) this(2,1) refl, of msec msec' NETWORK_LOOPBACK_ADDRESS NETWORK_LOOPBACK_ADDRESS]
  have toaddr: "kget32 m' ?frame = NETWORK_LOOPBACK_ADDRESS"
  proof -
    have "kreg ?frame 4 \<inter> kreg (?frame + 4) 4 = {}"
      using kreg_apart [of 0 4 4 4 ?frame] by simp
    then show ?thesis
      using made(3) by (simp add: m'_def kget32_put)
  qed
  obtain s2 where s2: "pop_push_frame (msec, msec') NETWORK_LOOPBACK_ADDRESS NETWORK_LOOPBACK_ADDRESS (ucast PROTOCOL_POP) (frame_at i) ?s1 = Some (1, s2)"
      "s2 = pushed ?q 0 ?s1" "frames_ok s2" "others s2 = others ?s1 - {i}"
    using push free by (auto simp: wp_iff)
  then have oth: "others s2 = others s"
    using s1(2) i(5) by auto
  have rec: "network_receive_frame (msec, msec') ?frame ?s1 = Some (1, s2)"
    using hd(1,2) s2(1) toaddr by (simp add: network_receive_frame_def protocols_get_frame_handler_def network_protocols_def frame_at_def)
  have "network_send G (msec, msec') NETWORK_BROADCAST_ADDRESS NETWORK_LOOPBACK_ADDRESS (ucast PROTOCOL_POP) (int n + 8) hdr s = Some (0, s2)"
    using n i(1,2) rec made(1)
    by (simp add: network_send_def guard_def Let_def m_def [simplified, unfolded add.commute [of 8], symmetric] m'_def [simplified, symmetric] add.commute)
  moreover have "s2 = (pushed ?q 0 s)\<lparr>net_pool := p, net_mem := m'\<rparr>"
    unfolding s2(2) by (cases s) (simp add: pushed_def)
  ultimately show ?thesis
    using i(3,4) s2(3) oth hd3 rest by (intro exI [of _ i] exI [of _ m'] exI [of _ p]) simp
qed

lemma service_first_slot:
  assumes ok: "net_ok s" and q: "pop_queue s ! 0 = q" "pq_frame q \<noteq> 0" "pq_socket q = - 1"
    and j: "find_recipient (pq_frame q) s = Some j" "so_protocol (open_sockets s ! j) = PROTOCOL_POP" "so_rbuf (open_sockets s ! j) \<noteq> 0"
    and run: "pop_service_round s = Some (idle, s')"
  shows "\<exists>sem. so_receive_complete (open_sockets s ! j) = Some sem \<and> \<not> idle \<and>
    net_mem s' = pop_deliver (open_sockets s ! j) (q\<lparr>pq_socket := int j, pq_busy := True\<rparr>) (pq_frame q) (net_mem s) \<and>
    open_sockets s' = (open_sockets s)[j := (open_sockets s ! j)\<lparr>so_rbuf := 0, so_bufsize := 0, so_sender := 0,
       so_copied := 0, so_sport := 0, so_receive_complete := Some (sem_V sem)\<rparr>]"
proof -
  have len: "length (pop_queue s) = CONFIG_POP_QUEUE_SIZE" and locks: "0 < open_sockets_sem s" "0 < pop_queue_sem s"
    using ok by (simp_all add: net_ok_def frames_ok_def)
  have upt: "[0..<CONFIG_POP_QUEUE_SIZE] = 0 # [1..<CONFIG_POP_QUEUE_SIZE]"
    by (simp add: upt_rec del: upt_rec_numeral)
  let ?q = "q\<lparr>pq_socket := int j, pq_busy := True\<rparr>"
  have fr: "find_recipient (pq_frame q) (s\<lparr>open_sockets_sem := v, pop_queue_sem := w\<rparr>) = Some j" for v w
    using j(1) by (simp add: find_recipient_def)
  have scan: "pop_service_scan s = Some (Pop_Transfer 0 (pq_frame q), s\<lparr>pop_queue := (pop_queue s)[0 := ?q]\<rparr>)"
    using locks q j(2,3) len
    by (simp add: pop_service_scan_def sockets_P_def sockets_V_def queue_P_def queue_V_def sem_P_def sem_V_def set_slot_row_def upt fr Let_def
        del: upt_rec_numeral)
  show ?thesis
    using run len
    by (auto simp: pop_service_round_def scan Let_def network_free_frame_def set_socket_def set_slot_row_def split: bind_splits)
qed

lemma find_unique: "j < n \<Longrightarrow> P j \<Longrightarrow> (\<And>i. i < n \<Longrightarrow> P i \<Longrightarrow> i = j) \<Longrightarrow> List.find P [0..<n] = Some j"
proof (cases "List.find P [0..<n]")
  case None
  assume "j < n" and "P j"
  with None show ?thesis
    by (auto simp: find_None_iff)
next
  case (Some i)
  assume "\<And>i. i < n \<Longrightarrow> P i \<Longrightarrow> i = j"
  then show ?thesis
    using Some by (auto simp: find_Some_iff)
qed

lemma find_recipient_bound:
  assumes "sockets_ok (open_sockets s)" and "bound (open_sockets s) j = Some (PROTOCOL_POP, p)" and "kget16 (net_mem s) (f + 2) = p"
  shows "find_recipient f s = Some j"
proof -
  let ?P = "\<lambda>i. so_protocol (open_sockets s ! i) = PROTOCOL_POP \<and> so_port (open_sockets s ! i) = p"
  have len: "length (open_sockets s) = CONFIG_MAX_OPEN_SOCKETS"
    using assms(1) by (simp add: sockets_ok_def)
  have j: "j < CONFIG_MAX_OPEN_SOCKETS" "?P j"
    using assms(2) len by (auto simp: bound_def split: if_splits)
  have only: "i = j" if "i < CONFIG_MAX_OPEN_SOCKETS" "?P i" for i
  proof -
    have "bound (open_sockets s) i = Some (PROTOCOL_POP, p)"
      using that len by (simp add: bound_def PROTOCOL_POP_def)
    then show ?thesis
      using assms(1,2) unfolding sockets_ok_def by blast
  qed
  have "List.find ?P [0..<CONFIG_MAX_OPEN_SOCKETS] = Some j"
    by (rule find_unique [where P = ?P]) (fact j, fact j, rule only)
  then show ?thesis
    by (simp add: find_recipient_def assms(3) del: upt_rec_numeral)
qed

text \<open>A thread calls \<open>socket_recvfrom\<close> and waits, another one calls \<open>socket_sendto\<close>, the service thread makes
  one round, and the first thread goes on.\<close>

definition exchange where
  "exchange G clk a b dport buf sz sender sport rbuf n lengthp s = do {
     (w, s) \<leftarrow> socket_recvfrom (int b) sender sport rbuf n lengthp s;
     (sent, s) \<leftarrow> socket_sendto G clk (int a) NETWORK_LOOPBACK_ADDRESS dport buf sz s;
     (idle, s) \<leftarrow> pop_service_round s;
     (got, s) \<leftarrow> socket_recvfrom_done (int b) lengthp s;
     Some (w, sent, idle, got, s)
   }"

text \<open>The parameters of the receiver are areas that are apart, and apart from the free pages.\<close>

definition receiver_areas :: "u32 \<Rightarrow> u32 \<Rightarrow> u32 \<Rightarrow> u32 \<Rightarrow> nat \<Rightarrow> u32 set \<Rightarrow> bool" where
  "receiver_areas sender sport lengthp rbuf l A \<longleftrightarrow>
     kreg rbuf l \<inter> (kreg sender 4 \<union> kreg lengthp 4 \<union> kreg sport 2) = {} \<and>
     kreg sender 4 \<inter> (kreg lengthp 4 \<union> kreg sport 2) = {} \<and> kreg lengthp 4 \<inter> kreg sport 2 = {} \<and>
     A \<inter> (kreg rbuf l \<union> kreg sender 4 \<union> kreg lengthp 4 \<union> kreg sport 2) = {}"

lemma socket_sendto_loopback:
  fixes s :: "'d net"
  assumes ok: "net_ok s" and empty: "pq_frame (pop_queue s ! 0) = 0" and room: "pool_free (net_pool s) \<noteq> {}"
    and lock: "0 < pop_send_buffer_sem s" and mtu: "network_get_mtu NETWORK_BROADCAST_ADDRESS s = Some mtu" "mtu < 2 ^ 31"
    and n: "0 < n" "n \<le> 4076" "int n + 8 \<le> mtu" and a: "bound (open_sockets s) a = Some (PROTOCOL_POP, p)" and d: "dport \<noteq> 0" "buf \<noteq> 0"
    and buf: "kreg (pop_send_buffer s) 4096 \<inter> kreg buf n = {}"
    and apart: "\<forall>i\<in>pool_free (net_pool s). page_area i \<inter> kreg (pop_send_buffer s) 4096 = {}"
  shows "\<exists>i m pool. i \<in> pool_free (net_pool s) \<and> i < MAX_FRAMES \<and>
    (let s' = (pushed (new_slot msec' NETWORK_LOOPBACK_ADDRESS (frame_at i)) 0 s)\<lparr>net_pool := pool, net_mem := m\<rparr> in
     socket_sendto G (msec, msec') (int a) NETWORK_LOOPBACK_ADDRESS dport buf (int n) s = Some (int n, s') \<and> net_ok s' \<and> others s' = others s \<and>
     packet m (frame_at i) p dport n (\<lambda>k. net_mem s (buf + of_nat k)))"
proof -
  have a': "a < CONFIG_MAX_OPEN_SOCKETS" "so_protocol (open_sockets s ! a) = PROTOCOL_POP" "so_port (open_sockets s ! a) = p"
    using a ok by (auto simp: bound_def net_ok_def sockets_ok_def split: if_splits)
  let ?hdr = "pop_send_buffer s"
  have "word_of_int mtu = (of_nat (nat mtu) :: u32)"
    using n(3) by simp
  moreover have "unat (of_nat (nat mtu) :: u32) = nat mtu"
    using mtu(2) by (intro of_nat_inverse [OF refl]) simp
  moreover have "unat (of_nat n :: u32) = n"
    using n(2) by (intro of_nat_inverse [OF refl]) simp
  ultimately have n32: "unat (of_nat n :: u32) = n" "unat (word_of_int mtu :: u32) = nat mtu"
    by simp_all
  have "(8 :: u32) \<le> word_of_int mtu"
    using n mtu(2) n32 by (simp add: word_le_nat_alt)
  then have "unat (word_of_int mtu - 8 :: u32) = nat mtu - 8"
    using n32 by (simp add: unat_sub)
  moreover have "n \<le> nat mtu - 8"
    using n(3) by linarith
  ultimately have small: "min (min (of_nat n) (word_of_int mtu - 8)) (4088 :: u32) = of_nat n"
    using n n32 by (simp add: min_def word_le_nat_alt)
  have "sint (of_nat n :: u32) = int n"
    using n n32 by (subst sint_small) simp_all
  then have size: "sint (min (min (of_nat n) (word_of_int mtu - 8)) (4088 :: u32)) = int n"
    by (simp only: small)
  define m where "m = kmemcopy (int n) (?hdr + 8) buf (kput32 (?hdr + 4) (of_nat n) (kput16 (?hdr + 2) dport (kput16 ?hdr p (net_mem s))))"
  have packet: "packet m ?hdr p dport n (\<lambda>k. net_mem s (buf + of_nat k))"
    using packet_made(1) [OF _ buf m_def] n(2) by simp
  let ?s1 = "s\<lparr>pop_send_buffer_sem := pop_send_buffer_sem s - 1, net_mem := m\<rparr>"
  have ok1: "net_ok ?s1" "others ?s1 = others s"
    using ok by (simp_all add: net_ok_def frames_ok_def others_def)
  have "\<exists>i m' pool. i \<in> pool_free (net_pool ?s1) \<and> i < MAX_FRAMES \<and>
    network_send G (msec, msec') NETWORK_BROADCAST_ADDRESS NETWORK_LOOPBACK_ADDRESS (ucast PROTOCOL_POP) (int n + 8) ?hdr ?s1 =
      Some (NET_OK, (pushed (new_slot msec' NETWORK_LOOPBACK_ADDRESS (frame_at i)) 0 ?s1)\<lparr>net_pool := pool, net_mem := m'\<rparr>) \<and>
    frames_ok ((pushed (new_slot msec' NETWORK_LOOPBACK_ADDRESS (frame_at i)) 0 ?s1)\<lparr>net_pool := pool, net_mem := m'\<rparr>) \<and>
    others ((pushed (new_slot msec' NETWORK_LOOPBACK_ADDRESS (frame_at i)) 0 ?s1)\<lparr>net_pool := pool, net_mem := m'\<rparr>) = others ?s1 \<and>
    packet m' (frame_at i) p dport n (\<lambda>k. net_mem s (buf + of_nat k)) \<and> (\<forall>b. b \<notin> page_area i \<longrightarrow> m' b = net_mem ?s1 b)"
    by (rule network_send_loopback [OF ok1(1)]) (use empty room n packet apart in simp_all)
  then obtain i m' pool where i: "i \<in> pool_free (net_pool s)" "i < MAX_FRAMES"
      "network_send G (msec, msec') NETWORK_BROADCAST_ADDRESS NETWORK_LOOPBACK_ADDRESS (ucast PROTOCOL_POP) (int n + 8) ?hdr ?s1 =
        Some (NET_OK, (pushed (new_slot msec' NETWORK_LOOPBACK_ADDRESS (frame_at i)) 0 ?s1)\<lparr>net_pool := pool, net_mem := m'\<rparr>)"
      "frames_ok ((pushed (new_slot msec' NETWORK_LOOPBACK_ADDRESS (frame_at i)) 0 ?s1)\<lparr>net_pool := pool, net_mem := m'\<rparr>)"
      "others ((pushed (new_slot msec' NETWORK_LOOPBACK_ADDRESS (frame_at i)) 0 ?s1)\<lparr>net_pool := pool, net_mem := m'\<rparr>) = others ?s1"
      "packet m' (frame_at i) p dport n (\<lambda>k. net_mem s (buf + of_nat k))"
    by auto
  define q where "q = new_slot msec' NETWORK_LOOPBACK_ADDRESS (frame_at i)"
  let ?s' = "(pushed q 0 s)\<lparr>net_pool := pool, net_mem := m'\<rparr>"
  have eq: "((pushed q 0 ?s1)\<lparr>net_pool := pool, net_mem := m'\<rparr>)\<lparr>pop_send_buffer_sem := pop_send_buffer_sem s\<rparr> = ?s'"
    by (cases s) (simp add: pushed_def)
  have locks: "0 < open_sockets_sem s"
    using ok by (simp add: net_ok_def)
  have "socket_sendto G (msec, msec') (int a) NETWORK_LOOPBACK_ADDRESS dport buf (int n) s =
      Some (int n, ((pushed q 0 ?s1)\<lparr>net_pool := pool, net_mem := m'\<rparr>)\<lparr>pop_send_buffer_sem := pop_send_buffer_sem s\<rparr>)"
    using a' d n mtu(1) size i(3) lock locks
    by (simp add: socket_sendto_def guard_def Let_def small pushed_def socket_sendto_port_def sockets_P_def sockets_V_def send_P_def send_V_def sem_P_def sem_V_def
        m_def [symmetric] q_def [symmetric])
  then have "socket_sendto G (msec, msec') (int a) NETWORK_LOOPBACK_ADDRESS dport buf (int n) s = Some (int n, ?s')"
    unfolding eq .
  moreover have "net_ok ?s'" "others ?s' = others s"
    using i(4,5) ok1 ok unfolding q_def [symmetric] by (simp_all add: net_ok_def frames_ok_def others_def)
  ultimately show ?thesis
    using i(1,2,6) by (intro exI [of _ i] exI [of _ m'] exI [of _ pool]) (simp add: Let_def q_def)
qed

lemma socket_recvfrom_wp:
  fixes s :: "'d net"
  assumes ok: "net_ok s" and b: "bound (open_sockets s) b = Some (PROTOCOL_POP, p)" "so_rbuf (open_sockets s ! b) = 0"
    and nz: "0 < nb" "nb < 2 ^ 31" "rbuf \<noteq> 0" "sender \<noteq> 0" "sport \<noteq> 0" "lengthp \<noteq> 0"
  defines "so \<equiv> (open_sockets s ! b)\<lparr>so_rbuf := rbuf, so_bufsize := of_nat nb, so_sender := sender, so_copied := lengthp, so_sport := sport\<rparr>"
  defines "s' \<equiv> s\<lparr>open_sockets := (open_sockets s)[b := so], pop_service_thread_sem := pop_service_thread_sem s + 1\<rparr>"
  shows "socket_recvfrom (int b) sender sport rbuf (int nb) lengthp s = Some (None, s') \<and> net_ok s' \<and> others s' = others s \<and>
    bound (open_sockets s') = bound (open_sockets s)"
proof -
  have sos: "sockets_ok (open_sockets s)" and lock: "0 < open_sockets_sem s"
    using ok by (simp_all add: net_ok_def)
  have b': "b < length (open_sockets s)" "length (open_sockets s) = CONFIG_MAX_OPEN_SOCKETS" "so_protocol (open_sockets s ! b) = PROTOCOL_POP"
      "so_protocol (open_sockets s ! b) \<noteq> 0" "so_receive_complete (open_sockets s ! b) \<noteq> None"
    using b(1) sos unfolding sockets_ok_def by (auto simp: bound_def split: if_splits)
  have upd: "sockets_ok ((open_sockets s)[b := so]) \<and> bound ((open_sockets s)[b := so]) = bound (open_sockets s)"
    by (rule sockets_ok_received [OF sos b'(1,4)]) (use b'(5) in \<open>simp_all add: so_def\<close>)
  then have "net_ok s'" "others s' = others s"
    using ok by (simp_all add: s'_def net_ok_def frames_ok_def others_def)
  moreover have "socket_recvfrom (int b) sender sport rbuf (int nb) lengthp s = Some (None, s')"
    using b' b(2) nz lock
    by (simp add: socket_recvfrom_def guard_def sockets_P_def sockets_V_def service_V_def sem_P_def sem_V_def set_socket_def Let_def s'_def so_def)
  ultimately show ?thesis
    using upd by (simp add: s'_def)
qed

lemma exchange_wp:
  fixes s :: "'d net"
  assumes ok: "net_ok s" and empty: "pq_frame (pop_queue s ! 0) = 0" and room: "pool_free (net_pool s) \<noteq> {}"
    and lock: "0 < pop_send_buffer_sem s" and mtu: "network_get_mtu NETWORK_BROADCAST_ADDRESS s = Some mtu" "mtu < 2 ^ 31"
    and n: "0 < n" "n \<le> 4076" "int n + 8 \<le> mtu" and a: "bound (open_sockets s) a = Some (PROTOCOL_POP, p)" and "buf \<noteq> 0"
    and b: "bound (open_sockets s) b = Some (PROTOCOL_POP, dport)" "so_rbuf (open_sockets s ! b) = 0"
      "so_receive_complete (open_sockets s ! b) = Some 0"
    and nz: "0 < nb" "nb < 2 ^ 31" "rbuf \<noteq> 0" "sender \<noteq> 0" "sport \<noteq> 0" "lengthp \<noteq> 0"
    and buf: "kreg (pop_send_buffer s) 4096 \<inter> kreg buf n = {}"
    and apart: "\<forall>i\<in>pool_free (net_pool s). page_area i \<inter> kreg (pop_send_buffer s) 4096 = {} \<and>
      receiver_areas sender sport lengthp rbuf (min n nb) (page_area i)"
  shows "wp (exchange G (msec, msec') a b dport buf (int n) sender sport rbuf (int nb) lengthp s) (\<lambda>(w, sent, idle, got, s').
    w = None \<and> sent = int n \<and> \<not> idle \<and> got = int (min n nb) \<and>
    (\<forall>k<min n nb. net_mem s' (rbuf + of_nat k) = net_mem s (buf + of_nat k)) \<and>
    kget32 (net_mem s') sender = NETWORK_LOOPBACK_ADDRESS \<and> kget16 (net_mem s') sport = p \<and>
    kget32 (net_mem s') lengthp = of_nat (min n nb) \<and>
    net_ok s' \<and> others s' = others s \<and> bound (open_sockets s') = bound (open_sockets s) \<and>
    so_rbuf (open_sockets s' ! b) = 0 \<and> so_receive_complete (open_sockets s' ! b) = Some 0)"
proof -
  have d: "dport \<noteq> 0"
    using ok b(1) by (auto simp: net_ok_def sockets_ok_def bound_ports_def)
  have bl: "b < length (open_sockets s)"
    using b(1) by (simp add: bound_def split: if_splits)
  define so where "so = (open_sockets s ! b)\<lparr>so_rbuf := rbuf, so_bufsize := of_nat nb, so_sender := sender, so_copied := lengthp, so_sport := sport\<rparr>"
  define s1 where "s1 = s\<lparr>open_sockets := (open_sockets s)[b := so], pop_service_thread_sem := pop_service_thread_sem s + 1\<rparr>"
  have r1: "socket_recvfrom (int b) sender sport rbuf (int nb) lengthp s = Some (None, s1)" "net_ok s1" "others s1 = others s"
      "bound (open_sockets s1) = bound (open_sockets s)"
    using socket_recvfrom_wp [OF ok b(1,2) nz] unfolding so_def s1_def by blast+
  have f1: "net_mem s1 = net_mem s" "net_pool s1 = net_pool s" "pop_queue s1 = pop_queue s" "pop_send_buffer s1 = pop_send_buffer s"
      "pop_send_buffer_sem s1 = pop_send_buffer_sem s" "network_get_mtu x s1 = network_get_mtu x s" "open_sockets s1 ! b = so" for x
    using bl by (simp_all add: s1_def network_get_mtu_def)
  have "\<exists>i m pool. i \<in> pool_free (net_pool s1) \<and> i < MAX_FRAMES \<and>
    (let s' = (pushed (new_slot msec' NETWORK_LOOPBACK_ADDRESS (frame_at i)) 0 s1)\<lparr>net_pool := pool, net_mem := m\<rparr> in
     socket_sendto G (msec, msec') (int a) NETWORK_LOOPBACK_ADDRESS dport buf (int n) s1 = Some (int n, s') \<and> net_ok s' \<and> others s' = others s1 \<and>
     packet m (frame_at i) p dport n (\<lambda>k. net_mem s1 (buf + of_nat k)))"
    by (rule socket_sendto_loopback [OF r1(2)]) (use empty room lock mtu n a d \<open>buf \<noteq> 0\<close> buf apart f1 r1(4) in simp_all)
  then obtain i m pool where i: "i \<in> pool_free (net_pool s)" "i < MAX_FRAMES"
      and r2: "socket_sendto G (msec, msec') (int a) NETWORK_LOOPBACK_ADDRESS dport buf (int n) s1 =
        Some (int n, (pushed (new_slot msec' NETWORK_LOOPBACK_ADDRESS (frame_at i)) 0 s1)\<lparr>net_pool := pool, net_mem := m\<rparr>)"
      and ok2: "net_ok ((pushed (new_slot msec' NETWORK_LOOPBACK_ADDRESS (frame_at i)) 0 s1)\<lparr>net_pool := pool, net_mem := m\<rparr>)"
        "others ((pushed (new_slot msec' NETWORK_LOOPBACK_ADDRESS (frame_at i)) 0 s1)\<lparr>net_pool := pool, net_mem := m\<rparr>) = others s"
      and packet: "packet m (frame_at i) p dport n (\<lambda>k. net_mem s (buf + of_nat k))"
    unfolding Let_def f1 r1(3) by blast
  define q where "q = new_slot msec' NETWORK_LOOPBACK_ADDRESS (frame_at i)"
  define s2 where "s2 = (pushed q 0 s1)\<lparr>net_pool := pool, net_mem := m\<rparr>"
  have f2: "net_mem s2 = m" "open_sockets s2 = open_sockets s1" "pop_queue s2 ! 0 = q"
    using ok by (simp_all add: s2_def f1 net_ok_def frames_ok_def)
  have ok2': "net_ok s2" "others s2 = others s"
    using ok2 by (simp_all add: s2_def q_def)
  obtain idle s3 where r3: "pop_service_round s2 = Some (idle, s3)" "net_ok s3" "others s3 = others s2" "same_tables s2 s3"
    using pop_service_round_wp [OF ok2'(1)] by (auto simp: wp_iff)
  have q: "pq_frame q = frame_at i" "pq_frame q \<noteq> 0" "pq_socket q = - 1" "pq_from q = NETWORK_LOOPBACK_ADDRESS"
    using frame_at_nonzero [OF i(2)] by (simp_all add: q_def new_slot_def)
  have recipient: "find_recipient (pq_frame q) s2 = Some b"
    by (rule find_recipient_bound [where p = dport]) (use ok2' b(1) r1(4) packet in \<open>simp_all add: net_ok_def f2 q(1) packet_def\<close>)
  have waiting: "so_protocol (open_sockets s2 ! b) = PROTOCOL_POP" "so_rbuf (open_sockets s2 ! b) \<noteq> 0"
    using b(1) nz(3) by (auto simp: f2 f1 so_def bound_def split: if_splits)
  obtain sem where r3': "so_receive_complete so = Some sem" "\<not> idle"
      "net_mem s3 = pop_deliver so (q\<lparr>pq_socket := int b, pq_busy := True\<rparr>) (frame_at i) m"
      "open_sockets s3 = (open_sockets s1)[b := so\<lparr>so_rbuf := 0, so_bufsize := 0, so_sender := 0,
         so_copied := 0, so_sport := 0, so_receive_complete := Some (sem_V sem)\<rparr>]"
    using service_first_slot [OF ok2'(1) f2(3) q(2,3) recipient waiting r3(1), unfolded f2 f1 q(1)] by blast
  have sem: "sem = 0"
    using r3'(1) b(3) by (simp add: so_def)
  have nb: "unat (of_nat nb :: u32) = nb"
    using nz(2) by (intro of_nat_inverse [OF refl]) simp
  have frame: "kreg (frame_at i) (8 + n) \<subseteq> page_area i"
    using kreg_in_page [of 12 "8 + n" "ADDR_PHYS_TO_KERNEL (page_addr i)"] n(2) by (simp add: frame_at_def)
  note areas = apart [rule_format, OF i(1), THEN conjunct2, unfolded receiver_areas_def]
  have so: "so_rbuf so = rbuf" "so_sender so = sender" "so_copied so = lengthp" "so_sport so = sport" "unat (so_bufsize so) = nb"
      "so_bufsize so < 2 ^ 31"
    using nb nz(2) by (simp_all add: so_def word_less_nat_alt)
  have del: "kget32 (net_mem s3) sender = pq_from (q\<lparr>pq_socket := int b, pq_busy := True\<rparr>) \<and> kget32 (net_mem s3) lengthp = of_nat (min n nb) \<and>
      kget16 (net_mem s3) sport = p \<and> (\<forall>k<min n nb. net_mem s3 (rbuf + of_nat k) = net_mem s (buf + of_nat k))"
  proof -
    have n31: "n < 2 ^ 31"
      using n(2) by simp
    have apart: "kreg (frame_at i) (8 + n) \<inter> (kreg rbuf (min n nb) \<union> kreg sender 4 \<union> kreg lengthp 4 \<union> kreg sport 2) = {}"
      using areas frame by blast
    show ?thesis
      using delivered [OF packet n31 so(6) refl, unfolded so, OF apart _ _ _ r3'(3)] areas by blast
  qed
  have s3b: "open_sockets s3 ! b = so\<lparr>so_rbuf := 0, so_bufsize := 0, so_sender := 0,
         so_copied := 0, so_sport := 0, so_receive_complete := Some 1\<rparr>" "b < length (open_sockets s3)"
    using bl by (simp_all add: r3'(4) sem sem_V_def s1_def)
  define s4 where "s4 = set_socket b ((open_sockets s3 ! b)\<lparr>so_receive_complete := Some 0\<rparr>) s3"
  have l: "sint (of_nat (min n nb) :: u32) = int (min n nb)"
  proof -
    have "unat (of_nat (min n nb) :: u32) = min n nb"
      using n(2) by (intro of_nat_inverse [OF refl]) simp
    then show ?thesis
      using n(2) by (subst sint_small) simp_all
  qed
  have r4: "socket_recvfrom_done (int b) lengthp s3 = Some (int (min n nb), s4)"
    using del l by (simp add: socket_recvfrom_done_def Let_def s3b s4_def sem_P_def)
  have pr: "so_protocol (open_sockets s3 ! b) \<noteq> 0"
    using b(1) by (auto simp: s3b(1) so_def bound_def split: if_splits)
  have os4: "open_sockets s4 = (open_sockets s3)[b := (open_sockets s3 ! b)\<lparr>so_receive_complete := Some 0\<rparr>]"
    by (simp add: s4_def set_socket_def)
  have sos4: "sockets_ok (open_sockets s4) \<and> bound (open_sockets s4) = bound (open_sockets s3)"
    unfolding os4
    by (rule sockets_ok_received [OF _ s3b(2) pr]) (use r3(2) in \<open>simp_all add: net_ok_def\<close>)
  have "net_ok s4" "others s4 = others s" "net_mem s4 = net_mem s3"
    using r3(2,3) ok2'(2) sos4 by (simp_all add: s4_def set_socket_def net_ok_def frames_ok_def others_def)
  moreover have "open_sockets s4 ! b = (open_sockets s3 ! b)\<lparr>so_receive_complete := Some 0\<rparr>"
    using s3b(2) by (simp add: s4_def set_socket_def)
  moreover have "exchange G (msec, msec') a b dport buf (int n) sender sport rbuf (int nb) lengthp s =
      Some (None, int n, idle, int (min n nb), s4)"
    using r1(1) r2 [folded q_def, folded s2_def] r3(1) r4 by (simp add: exchange_def)
  ultimately show ?thesis
    using r3'(2) del q(4) sos4 r3(4) r1(4) s3b(1) by (simp add: same_tables_def f2)
qed

text \<open>C7. A datagram to the loopback address arrives: socket \<open>b\<close> is bound to port \<open>dport\<close> and a thread waits in
  \<open>socket_recvfrom\<close> for up to \<open>nb\<close> bytes; another thread sends \<open>n\<close> bytes, as many as
  fit into a frame, from socket \<open>a\<close> with \<open>socket_sendto\<close>; one round of the POP service thread later the
  waiting thread goes on.  All of \<open>n\<close> bytes are sent, the receiver gets the first \<open>min n nb\<close> of them in its buffer, with
  the sender's address and the port of \<open>a\<close>, and returns their number; the socket is ready for the next
  call and no page is lost.\<close>

theorem loopback_datagram:
  fixes s :: "'d net"
  assumes "net_ok s" and "pq_frame (pop_queue s ! 0) = 0" and "pool_free (net_pool s) \<noteq> {}"
    and "0 < pop_send_buffer_sem s" and "network_get_mtu NETWORK_BROADCAST_ADDRESS s = Some mtu" "mtu < 2 ^ 31"
    and "0 < n" "n \<le> 4076" "int n + 8 \<le> mtu" and "bound (open_sockets s) a = Some (PROTOCOL_POP, p)" and "buf \<noteq> 0"
    and "bound (open_sockets s) b = Some (PROTOCOL_POP, dport)" "so_rbuf (open_sockets s ! b) = 0"
      "so_receive_complete (open_sockets s ! b) = Some 0"
    and "0 < nb" "nb < 2 ^ 31" "rbuf \<noteq> 0" "sender \<noteq> 0" "sport \<noteq> 0" "lengthp \<noteq> 0"
    and "kreg (pop_send_buffer s) 4096 \<inter> kreg buf n = {}"
    and "\<forall>i\<in>pool_free (net_pool s). page_area i \<inter> kreg (pop_send_buffer s) 4096 = {} \<and>
      receiver_areas sender sport lengthp rbuf (min n nb) (page_area i)"
  shows "wp (exchange G (msec, msec') a b dport buf (int n) sender sport rbuf (int nb) lengthp s) (\<lambda>(w, sent, idle, got, s').
    w = None \<and> sent = int n \<and> \<not> idle \<and> got = int (min n nb) \<and>
    (\<forall>k<min n nb. net_mem s' (rbuf + of_nat k) = net_mem s (buf + of_nat k)) \<and>
    kget32 (net_mem s') sender = NETWORK_LOOPBACK_ADDRESS \<and> kget16 (net_mem s') sport = p \<and>
    kget32 (net_mem s') lengthp = of_nat (min n nb) \<and>
    net_ok s' \<and> others s' = others s \<and> bound (open_sockets s') = bound (open_sockets s) \<and>
    so_rbuf (open_sockets s' ! b) = 0 \<and> so_receive_complete (open_sockets s' ! b) = Some 0)"
  by (rule exchange_wp [OF assms])

text \<open>Without a network device \<open>network_get_mtu\<close> gives more than fits into a frame: for a size of 4077 or more bytes,
  \<open>socket_sendto\<close> on a socket of POP fails the assertion of \<open>network_send\<close> instead of sending what fits,
  as its comment says.\<close>

theorem socket_sendto_oversize:
  assumes "ni_gnd (network_interfaces s ! 0) = None" "network_interfaces s \<noteq> []" and "4077 \<le> n" "n < 2 ^ 31"
    and "so_protocol (open_sockets s ! a) = PROTOCOL_POP" and "dport \<noteq> 0"
  shows "socket_sendto G clk (int a) addr dport buf (int n) s = None"
proof -
  have "mtu_min (network_interfaces s) m = Some m" for m
    using assms(1,2) by (cases "network_interfaces s") simp_all
  then have mtu: "network_get_mtu NETWORK_BROADCAST_ADDRESS s = Some 4085"
    by (simp add: network_get_mtu_def)
  have n: "unat (of_nat n :: u32) = n"
    using assms(4) by (intro of_nat_inverse [OF refl]) simp
  have "min (min (of_nat n) (word_of_int 4085 - 8)) (4088 :: u32) = 4077"
    using assms(3) n by (simp add: min_def word_le_nat_alt)
  then have size: "sint (min (min (of_nat n) (word_of_int 4085 - 8)) (4088 :: u32)) = 4077"
    by simp
  then show ?thesis
    using assms(3,5,6) mtu
    by (auto simp: socket_sendto_def socket_sendto_port_def network_send_def guard_def Let_def sockets_P_def send_P_def sem_P_def
        split: bind_split)
qed

section \<open>A race of the service thread\<close>

lemma pagepool_free_twice: "pool_ok p \<Longrightarrow> j \<in> pool_free p \<Longrightarrow> pagepool_free_phys_page (page_addr j) p = None"
proof -
  assume ok: "pool_ok p" and j: "j \<in> pool_free p"
  then have n: "j < nat (pp_num_pages p)" "\<not> bm_bit (pp_free_pages p) j" "j < MAX_FRAMES"
    using pool.avail_pages [OF ok] pool_range [OF ok, of j] by (auto simp: pool_free_def pool_pages_def)
  have "bitmap_get (pp_free_pages p) (int j) = Some 0"
    using bm_room_word [OF _ n(1), of "pp_free_pages p"] ok n(2) by (simp add: pool_ok_def bitmap_eqs)
  then show ?thesis
    using n(3) by (simp add: pagepool_free_phys_page_def page_addr_div guard_def)
qed

lemma oldest_slot_unique:
  assumes "oldest_slot qs n a" and "oldest_slot qs n b"
  shows "a = b"
proof (cases "\<forall>k<n. pq_busy (qs ! k)")
  case True
  then show ?thesis
    using assms unfolding oldest_slot_def by (simp only: if_True)
next
  case False
  have least: "\<exists>x<n. c = int x \<and> \<not> pq_busy (qs ! x) \<and> (\<forall>k<n. \<not> pq_busy (qs ! k) \<longrightarrow>
      pq_timestamp (qs ! x) \<le> pq_timestamp (qs ! k) \<and> (k < x \<longrightarrow> pq_timestamp (qs ! x) < pq_timestamp (qs ! k)))"
    if "oldest_slot qs n c" for c
    using that False unfolding oldest_slot_def by (cases c) auto
  obtain x y where x: "x < n" "a = int x" "\<not> pq_busy (qs ! x)" "\<forall>k<n. \<not> pq_busy (qs ! k) \<longrightarrow>
      pq_timestamp (qs ! x) \<le> pq_timestamp (qs ! k) \<and> (k < x \<longrightarrow> pq_timestamp (qs ! x) < pq_timestamp (qs ! k))"
    and y: "y < n" "b = int y" "\<not> pq_busy (qs ! y)" "\<forall>k<n. \<not> pq_busy (qs ! k) \<longrightarrow>
      pq_timestamp (qs ! y) \<le> pq_timestamp (qs ! k) \<and> (k < y \<longrightarrow> pq_timestamp (qs ! y) < pq_timestamp (qs ! k))"
    using least [OF assms(1)] least [OF assms(2)] by blast
  have "\<not> x < y" "\<not> y < x"
    using x y by (meson leD)+
  then show ?thesis
    using x(2) y(2) by simp
qed

text \<open>C40. The service thread gives up its locks before it discards the frame \<open>f\<close> that it has found in slot \<open>k\<close>, and
  does not mark the slot busy.  If a frame arrives in between, all slots are in use and \<open>k\<close> is the oldest, at least
  \<open>CONFIG_POP_QUEUE_MIN_AGE\<close> milliseconds old, then \<open>pop_push_frame\<close> gives the slot to the new frame and frees \<open>f\<close>, and the service
  thread frees it again: the assertion of the page pool fails.\<close>

theorem pop_discard_race:
  fixes s :: "'d net"
  assumes "net_ok s" and "action_ok (Pop_Discard k f) s" and "first_empty (pop_queue s) CONFIG_POP_QUEUE_SIZE = - 1"
    and "oldest_slot (pop_queue s) CONFIG_POP_QUEUE_SIZE (int k)" and "CONFIG_POP_QUEUE_MIN_AGE \<le> msec - pq_timestamp (pop_queue s ! k)"
    and "i \<in> others s"
  shows "wp (pop_push_frame (msec, msec') fromaddr toaddr (ucast PROTOCOL_POP) (frame_at i) s) (\<lambda>(r, s'). r = 1 \<and>
    pop_service_act (Pop_Discard k f) s' = None)"
proof -
  have fo: "frames_ok s" and lock: "0 < pop_queue_sem s" and len: "length (pop_queue s) = CONFIG_POP_QUEUE_SIZE"
    using assms(1) by (simp_all add: net_ok_def frames_ok_def)
  have k: "k < length (pop_queue s)" "pq_frame (pop_queue s ! k) \<noteq> 0" "pq_frame (pop_queue s ! k) = f"
    using assms(2) by (auto simp: action_ok_def)
  obtain j where j: "f = frame_at j" "j < MAX_FRAMES" "j \<in> pool_pages (net_pool s)" "j \<notin> pool_free (net_pool s)"
    using queued_frame [OF fo k(1,2)] k(3) by auto
  have pool: "pool_ok (net_pool s)"
    using fo by (simp add: frames_ok_def)
  obtain p where p: "pagepool_free_phys_page (page_addr j) (net_pool s) = Some p" "pool_ok p" "j \<in> pool_free p"
    using pool.free_some [OF pool j(3,4)] by auto
  have twice: "pagepool_free_phys_page (page_addr j) p = None"
    by (rule pagepool_free_twice [OF p(2,3)])
  obtain a where a: "push_scan (pop_queue s) [0..<CONFIG_POP_QUEUE_SIZE] (- 1) (- 1) = (- 1, a)" "oldest_slot (pop_queue s) CONFIG_POP_QUEUE_SIZE a"
    using push_scan_spec [of "pop_queue s" CONFIG_POP_QUEUE_SIZE] assms(3) by auto
  have "a = int k"
    by (rule oldest_slot_unique [OF a(2) assms(4)])
  then have run: "pop_push_frame (msec, msec') fromaddr toaddr (ucast PROTOCOL_POP) (frame_at i) s =
      Some (1, (pushed (new_slot msec' fromaddr (frame_at i)) (int k) s)\<lparr>net_pool := p\<rparr>)"
    using assms(5) lock a(1) k(2,3) j(1,2) p(1)
    by (cases s) (simp add: pop_push_frame_def guard_def queue_P_def queue_V_def service_V_def sem_P_def sem_V_def set_slot_row_def
        network_free_frame_def frame_page pushed_def new_slot_def not_le [symmetric])
  show ?thesis
    using twice j(1,2) by (simp add: run network_free_frame_def frame_page)
qed

section \<open>Witnesses\<close>

lemma kreg_range: "unat a + n \<le> 2 ^ 32 \<Longrightarrow> x \<in> kreg a n \<Longrightarrow> unat a \<le> unat x \<and> unat x < unat a + n"
proof -
  assume a: "unat a + n \<le> 2 ^ 32" and "x \<in> kreg a n"
  then obtain i where i: "i < n" "x = a + of_nat i"
    by (auto simp: kreg_def)
  then have "unat (of_nat i :: u32) = i"
    using a by (intro of_nat_inverse [OF refl]) simp
  then have "unat x = unat a + i"
    using i a by (simp add: unat_word_ariths)
  then show ?thesis
    using i(1) by simp
qed

lemma kreg_ranges_apart: "unat a + m \<le> 2 ^ 32 \<Longrightarrow> unat b + n \<le> 2 ^ 32 \<Longrightarrow> unat a + m \<le> unat b \<or> unat b + n \<le> unat a \<Longrightarrow>
    kreg a m \<inter> kreg b n = {}"
  using kreg_range [of a m] kreg_range [of b n] by fastforce

text \<open>Two open sockets.\<close>

definition demo_socket :: "u16 \<Rightarrow> socket" where
  "demo_socket port = \<lparr>so_port = port, so_protocol = PROTOCOL_POP, so_receive_complete = Some 0, so_rbuf = 0, so_bufsize = 0,
     so_sender = 0, so_copied = 0, so_sport = 0\<rparr>"

definition demo_pair :: "unit net" where
  "demo_pair = demo_net\<lparr>open_sockets := (open_sockets demo_net)[0 := demo_socket 80, 1 := demo_socket 90]\<rparr>"

lemma demo_mtu: "mtu_min (network_interfaces demo_net) m = Some m"
proof -
  have "network_interfaces demo_net = \<lparr>ni_address = 0, ni_mtu = 0, ni_gnd = None\<rparr> # replicate 3 \<lparr>ni_address = 0, ni_mtu = 0, ni_gnd = None\<rparr>"
    by (simp add: demo_net_def flip: replicate_Suc)
  then show ?thesis by simp
qed

lemma demo_pair_ok: "net_ok demo_pair" "bound (open_sockets demo_pair) 0 = Some (PROTOCOL_POP, 80)"
    "bound (open_sockets demo_pair) 1 = Some (PROTOCOL_POP, 90)" "open_sockets demo_pair ! 0 = demo_socket 80"
    "open_sockets demo_pair ! 1 = demo_socket 90" "net_pool demo_pair = demo_pool" "pop_send_buffer demo_pair = 0x80002000"
    "network_get_mtu NETWORK_BROADCAST_ADDRESS demo_pair = Some 4085" "0 < pop_send_buffer_sem demo_pair"
    "pq_frame (pop_queue demo_pair ! 0) = 0" "network_interfaces demo_pair = network_interfaces demo_net"
proof -
  have len: "length (open_sockets demo_net) = 64"
    by (simp add: demo_net_def)
  have pr: "PROTOCOL_POP \<noteq> 0"
    by (simp add: PROTOCOL_POP_def)
  have b: "bound (open_sockets demo_pair) = [0 \<mapsto> (PROTOCOL_POP, 80), 1 \<mapsto> (PROTOCOL_POP, 90)]"
    using len pr by (simp add: demo_pair_def bound_update demo_sockets demo_socket_def)
  then show "bound (open_sockets demo_pair) 0 = Some (PROTOCOL_POP, 80)" "bound (open_sockets demo_pair) 1 = Some (PROTOCOL_POP, 90)"
    by simp_all
  show o: "open_sockets demo_pair ! 0 = demo_socket 80" "open_sockets demo_pair ! 1 = demo_socket 90"
    using len by (simp_all add: demo_pair_def)
  have "sockets_ok (open_sockets demo_pair)"
    using o len unfolding sockets_ok_def bound_ports_def b
    by (auto simp: demo_pair_def demo_socket_def split: if_splits)
  then show "net_ok demo_pair"
    using demo_net_ok(1) by (simp add: net_ok_def frames_ok_def demo_pair_def)
  show "network_get_mtu NETWORK_BROADCAST_ADDRESS demo_pair = Some 4085"
    using demo_mtu by (simp add: network_get_mtu_def demo_pair_def)
qed (simp_all add: demo_pair_def demo_net_def)

theorem loopback_datagram_witness:
  "wp (exchange demo_gnd (5, 5) 0 1 90 0x80001000 5 0x80000010 0x80000020 0x80000100 3 0x80000030 demo_pair)
    (\<lambda>(w, sent, idle, got, s'). sent = 5 \<and> got = 3 \<and> kget16 (net_mem s') 0x80000020 = 80)"
proof -
  have page: "unat (ADDR_PHYS_TO_KERNEL (page_addr i)) = 2147483648 + 4096 * i" if "i \<in> {3, 4}" for i
    using that unat_phys_to_kernel [of i] by auto
  have "\<forall>i\<in>pool_free (net_pool demo_pair). page_area i \<inter> kreg (pop_send_buffer demo_pair) 4096 = {} \<and>
      receiver_areas 0x80000010 0x80000020 0x80000030 0x80000100 (min 5 3) (page_area i)"
    unfolding demo_pair_ok demo_pool_ok receiver_areas_def Int_Un_distrib
    by (intro ballI conjI Un_empty [THEN iffD2]; rule kreg_ranges_apart; (simp add: page)?) (auto simp: page)
  moreover have "kreg (pop_send_buffer demo_pair) 4096 \<inter> kreg 0x80001000 5 = {}"
    unfolding demo_pair_ok by (rule kreg_ranges_apart) simp_all
  ultimately show ?thesis
    using loopback_datagram [where s = demo_pair and G = demo_gnd and n = 5 and nb = 3 and a = 0 and b = 1 and dport = 90 and p = 80
        and buf = "0x80001000" and rbuf = "0x80000100" and sender = "0x80000010" and sport = "0x80000020" and lengthp = "0x80000030"
        and mtu = 4085 and msec = 5 and msec' = 5]
    by (auto simp: demo_pair_ok demo_pair_ok [unfolded One_nat_def] demo_pool_ok demo_socket_def elim!: wp_mono)
qed

theorem socket_sendto_oversize_witness:
  "socket_sendto demo_gnd (0, 0) 0 0 90 0x80001000 5000 demo_pair = None"
  using socket_sendto_oversize [where s = demo_pair and n = 5000 and a = 0 and dport = 90 and G = demo_gnd and clk = "(0, 0)"
      and addr = 0 and buf = "0x80001000"]
  by (simp add: demo_pair_ok demo_socket_def) (simp add: demo_net_def)

text \<open>A queue with a frame of age 500 in each slot, for ports that no socket has; the next frame is in page 40.\<close>

definition demo_full_pool :: pagepool where
  "demo_full_pool = \<lparr>pp_free_pages = replicate 8 255, pp_num_pages = 64, pp_num_free_pages = 0, pp_static_end = 3\<rparr>"

definition demo_full :: "unit net" where
  "demo_full = demo_net\<lparr>net_pool := demo_full_pool, pop_queue := map (\<lambda>k. new_slot 0 7 (frame_at (3 + k))) [0..<32]\<rparr>"

lemma demo_full_pool_ok: "pool_ok demo_full_pool" "pool_free demo_full_pool = {}" "pool_pages demo_full_pool = {3..<64}"
proof -
  have bits: "bm_bit (pp_free_pages demo_full_pool) i" if "i < 64" for i
  proof -
    have "i div 32 < 2"
      using that by (simp add: div_less_iff_less_mult)
    then have "4 * (i div 32) + 3 < 8"
      by linarith
    moreover have "bit (be_word 255 255 255 255) (i mod 32)"
    proof -
      have "be_word 255 255 255 255 = (mask 32 :: u32)"
        by (simp add: be_word_def mask_eq_exp_minus_1)
      then show ?thesis
        by (simp add: bit_simps)
    qed
    ultimately show ?thesis
      by (simp add: bm_bit_def demo_full_pool_def get32_def)
  qed
  show "pool_pages demo_full_pool = {3..<64}"
    by (simp add: pool_pages_def demo_full_pool_def)
  then show free: "pool_free demo_full_pool = {}"
    using bits by (auto simp: pool_free_def)
  show "pool_ok demo_full_pool"
    using bits unfolding pool_ok_def free by (simp add: demo_full_pool_def bm_room_def)
qed

lemma demo_full_ok:
  "net_ok demo_full" "pop_queue demo_full ! 0 = new_slot 0 7 (frame_at 3)" "40 \<in> others demo_full"
  "first_empty (pop_queue demo_full) CONFIG_POP_QUEUE_SIZE = - 1" "oldest_slot (pop_queue demo_full) CONFIG_POP_QUEUE_SIZE (int 0)"
proof -
  let ?qs = "pop_queue demo_full"
  have len: "length ?qs = 32"
    by (simp add: demo_full_def)
  have row: "?qs ! k = new_slot 0 7 (frame_at (3 + k))" if "k < 32" for k
    using that by (simp add: demo_full_def del: upt_rec_numeral)
  have nz: "frame_at (3 + k) \<noteq> 0" if "k < 32" for k
    using frame_at_nonzero [of "3 + k"] that by simp
  have m: "queued ?qs k = (if k < 32 then Some (3 + k) else None)" for k
    using row [of k] nz [of k] page_of_frame [of "3 + k"] len by (auto simp: queued_def new_slot_def)
  have rows: "q = new_slot 0 7 (pq_frame q)" if "q \<in> set ?qs" for q
    using that by (auto simp: demo_full_def new_slot_def)
  have sock: "pq_socket q = - 1" if "q \<in> set ?qs" for q
    using that by (auto simp: demo_full_def new_slot_def)
  have pool: "net_pool demo_full = demo_full_pool"
    by (simp add: demo_full_def)
  have "inj_on (queued ?qs) (dom (queued ?qs))"
    by (auto simp: inj_on_def m split: if_splits)
  moreover have "pq_frame (?qs ! k) = frame_at i \<and> i \<in> {3..<64}" if "queued ?qs k = Some i" for k i
    using that row [of k] by (auto simp: m new_slot_def split: if_splits)
  ultimately have "frames_ok demo_full"
    using sock len unfolding frames_ok_def pool demo_full_pool_ok by (auto simp: demo_full_pool_ok)
  then show "net_ok demo_full"
    using demo_net_ok(1) by (simp add: net_ok_def demo_full_def)
  have "40 \<notin> ran (queued ?qs)"
    by (auto simp: ran_def m split: if_splits)
  then show "40 \<in> others demo_full"
    by (simp add: others_def pool demo_full_pool_ok)
  show "?qs ! 0 = new_slot 0 7 (frame_at 3)"
    using row [of 0] by simp
  show "first_empty ?qs CONFIG_POP_QUEUE_SIZE = - 1"
  proof -
    have "pq_frame (?qs ! k) \<noteq> 0" if "k < 32" for k
      using nz [OF that] by (simp add: row [OF that] new_slot_def)
    then show ?thesis
      using first_empty [of ?qs CONFIG_POP_QUEUE_SIZE] by blast
  qed
  have "\<not> pq_busy (?qs ! k)" "pq_timestamp (?qs ! k) = 0" if "k < 32" for k
    by (simp_all add: row [OF that] new_slot_def)
  then show "oldest_slot ?qs CONFIG_POP_QUEUE_SIZE (int 0)"
    by (auto simp: oldest_slot_def intro!: exI [of _ "0 :: nat"])
qed

theorem pop_discard_race_witness:
  "wp (pop_push_frame (500, 500) 7 0 (ucast PROTOCOL_POP) (frame_at 40) demo_full) (\<lambda>(r, s'). r = 1 \<and>
    pop_service_act (Pop_Discard 0 (frame_at 3)) s' = None)"
proof -
  have "action_ok (Pop_Discard 0 (frame_at 3)) demo_full"
    using demo_full_ok(1,2) frame_at_nonzero [of 3] by (simp add: action_ok_def new_slot_def net_ok_def frames_ok_def)
  moreover have "CONFIG_POP_QUEUE_MIN_AGE \<le> 500 - pq_timestamp (pop_queue demo_full ! 0)"
    by (simp add: demo_full_ok(2) new_slot_def)
  ultimately show ?thesis
    using pop_discard_race [OF demo_full_ok(1) _ demo_full_ok(4,5) _ demo_full_ok(3), of "frame_at 3" 500 500 7 0] by blast
qed

end
