(* ===== verification/Spec2Isabelle.thy ===== *)
theory Spec2Isabelle
  imports Library_Properties Tfs_Contract Flatfs_Properties Newfs_Properties Vfs_Properties Vfs_Shutdown Kernel_Properties Vm_Properties Tty_Properties Bootargs Metadev Syscall_Properties Socket_Properties Network_Delivery
begin

text \<open>
  Verification of the BUENOS kernel, \<open>src/buenos\<close>: a small multiprocessor kernel for the
  YAMS simulator with threads, sleep queues and semaphores, a page pool and page tables, a
  TLB, device drivers, a virtual file system with three file system drivers, userland processes
  with system calls, and a datagram network.

  Conventions.  A routine of the C code is a function over explicit state into the option type;
  \<open>Some (r, s)\<close> is a return with value \<open>r\<close> in state \<open>s\<close>, \<open>None\<close> is no normal return: a
  failed \<open>KERNEL_ASSERT\<close>, a \<open>KERNEL_PANIC\<close>, an access outside an object, a signed overflow, or
  a wait that nothing ends.  Error codes are ordinary values.  \<open>wp\<close> (returns, with the property)
  and \<open>wlp\<close> (if it returns, the property) of \<open>Buenos_Prelude\<close> are the two readings of a routine.  \<open>uint32_t\<close>
  is \<open>32 word\<close> and wraps; \<open>int\<close> is an unbounded integer with \<open>ck\<close> where the code could
  overflow.  A block of memory is a list of bytes with big-endian words.  Code between a spinlock's
  acquire and release with interrupts off is one step.  Loops that may not end are
  \<open>partial_function (option)\<close>; no fuel is used anywhere, and the claims of total correctness
  state the return (\<open>wp\<close>).

  Parts and theories.

  \<^item> \<open>Buenos_Prelude\<close>: the option monad, \<open>wp\<close>/\<open>wlp\<close>, loops over an index range, the machine
    integers, big-endian words in byte lists, and the automation the others use.
  \<^item> \<open>Libc\<close>, \<open>Bitmap\<close> (\<open>lib/libc.c\<close>, \<open>lib/bitmap.c\<close>), with \<open>Library_Properties\<close>: the strings and
    numbers, first fit of the bitmap against the abstract bit \<open>bm_bit\<close>.
  \<^item> \<open>Kmalloc\<close>, \<open>Pagepool\<close> (\<open>kernel/kmalloc.c\<close>, \<open>vm/pagepool.c\<close>): permanent memory and the pool
    of physical pages; the locale \<open>page_allocator\<close> is what the users of pages rely on.
  \<^item> \<open>Vm\<close>, \<open>Vm_Properties\<close> (\<open>vm/vm.c\<close>, \<open>vm/tlb.c\<close>, \<open>vm/pagetable.h\<close>): page tables as bytes with the
    abstract partial map \<open>pt_map\<close> that \<open>vm_map\<close> and \<open>vm_unmap\<close> refine, and the refill of the TLB.
  \<^item> \<open>Thread\<close>, \<open>Sleepq\<close> (\<open>kernel/thread.c\<close>, \<open>kernel/scheduler.c\<close>, \<open>kernel/sleepq.c\<close>,
    \<open>kernel/semaphore.c\<close>), with \<open>Thread_Lists\<close> (the lists through the \<open>next\<close> fields),
    \<open>Kernel_State\<close> (the invariant), \<open>Sleep_Spec\<close>, \<open>Semaphore_Spec\<close> (the step relation of all
    processors) and \<open>Kernel_Properties\<close>: no thread is lost, waiters are counted, no panic, the ready queue is a
    queue and waiting is bounded.
  \<^item> \<open>Interrupt\<close> (\<open>kernel/interrupt.c\<close>), \<open>Device\<close> (\<open>drivers/device.c\<close>), \<open>Bootargs\<close>
    (\<open>drivers/bootargs.c\<close>), \<open>Metadev\<close> (\<open>drivers/metadev.c\<close>, \<open>drivers/drivers.c\<close>,
    \<open>kernel/halt.c\<close>, \<open>kernel/panic.c\<close>): registration and dispatch of handlers, discovery of devices, the
    command line.
  \<^item> \<open>Tty\<close>, \<open>Tty_Spec\<close>, \<open>Tty_Properties\<close> (\<open>drivers/tty.c\<close>, \<open>drivers/polltty.c\<close>): the terminal
    with its ring buffers as an interleaving of the interrupt handler, the readers and the writers.
  \<^item> \<open>Gbd\<close> (\<open>drivers/gbd.h\<close>, \<open>drivers/disk.c\<close>, \<open>drivers/disksched.c\<close>): the locale
    \<open>block_device\<close>, provided by the disk driver over a controller (\<open>sector_hw\<close>).
  \<^item> \<open>Fs_Common\<close>, \<open>Tfs\<close>, \<open>Flatfs\<close>, \<open>Newfs\<close> (\<open>fs/tfs.c\<close>, \<open>fs/flatfs.c\<close>,
    \<open>fs/newfs.c\<close>).  For the Trivial Filesystem \<open>Tfs_Spec\<close> gives the abstract file system (a map from names to
    contents) and \<open>Tfs_Properties\<close>, \<open>Tfs_Alloc\<close>, \<open>Tfs_Create\<close>, \<open>Tfs_Write\<close> and
    \<open>Tfs_Contract\<close> the refinement of every operation and of sequences of calls.  For the
    other two, \<open>Flatfs_Properties\<close> and \<open>Newfs_Properties\<close> show what they share and where they break
    the contract.
  \<^item> \<open>Vfs\<close> (\<open>fs/vfs.c\<close>, \<open>fs/filesystems.c\<close>), with \<open>Vfs_Spec\<close>, \<open>Vfs_Driver\<close> (the locale
    \<open>file_driver\<close> and the Trivial Filesystem behind it), \<open>Vfs_Properties\<close> (open files are cursors in a byte
    string) and \<open>Vfs_Shutdown\<close> (the protocol between calls in progress and halting).
  \<^item> \<open>Elf\<close> (\<open>proc/elf.c\<close>), \<open>Process\<close> (\<open>proc/process.c\<close>), \<open>Process_Image\<close>: parsing against the
    declarative \<open>elf_valid\<close>, and the memory that a started program sees.  \<open>Process_Properties\<close>: joining
    and exit (a step relation of processes and other threads, on the sleep queue) and the file
    tables.
  \<^item> \<open>Syscall\<close> (\<open>proc/syscall.c\<close>, \<open>proc/exception.c\<close>, \<open>kernel/exception.c\<close>), with
    \<open>Syscall_Properties\<close>: the system calls on user memory through the page table, who may use a
    descriptor, and \<open>read\<close> from the user's buffer down to the file system.
  \<^item> \<open>Network\<close> (\<open>net/network.c\<close>, \<open>net/protocols.c\<close>, \<open>net/socket.c\<close>, \<open>net/pop.c\<close>), with
    \<open>Socket_Properties\<close> (the sockets as a map to ports), \<open>Network_Frames\<close> (every page is free, queued
    or with its holder, through the locale \<open>page_allocator\<close>; the policy of the input queue) and
    \<open>Network_Delivery\<close> (a datagram from socket to socket; a race of the service thread).

  The interfaces are the locales \<open>page_allocator\<close>, \<open>block_device\<close>, \<open>sector_hw\<close> and
  \<open>file_driver\<close>; a client is proved against its locale, and the interpretations and sublocales connect the
  layers from the file descriptor down to the disk controller.

  Not modelled: assembly (context switches, the exception vectors, the TLB instructions), which is a
  parameter where C code calls it; messages to the console; memory consistency below the
  spinlocks; the drivers of network devices, of which the tree has none; user programs and the
  host's tools.
\<close>

end
